(* ===== verification/Prelude.thy ===== *)
theory Prelude
  imports Main "HOL-Library.Word" "HOL-Library.Sublist" "HOL-Library.Char_ord" "HOL-Library.List_Lexorder"
    "HOL-Library.Multiset"
begin

text \<open>
  Shared vocabulary of the development: the machine integers of the code, the text it prints
  (a Rust \<open>String\<close> is its UTF-8 bytes, here a \<open>char list\<close>), the small pieces of the Rust
  standard library the sources use (\<open>Option::or\<close>, \<open>join\<close>, \<open>trim\<close>, \<open>saturating_sub\<close>,
  \<open>from_le_bytes\<close>, \<open>chunks_exact\<close>), and the lemmas about them the components share.
\<close>

unbundle bit_operations_syntax

named_theorems guard_defs \<open>definitions of the guards a request passes before it is served\<close>
named_theorems bytes_simps \<open>rewriting of byte strings: lengths, slices, decoded numbers\<close>
named_theorems layout_simps \<open>offsets and lengths of on-disk structures\<close>

section \<open>Machine integers\<close>

type_synonym u8 = "8 word"
type_synonym u16 = "16 word"
type_synonym u32 = "32 word"
type_synonym u64 = "64 word"
type_synonym bytes = "8 word list"

text \<open>A drive's id is a uuid, 128 bits; a \<open>SystemTime\<close> is a number of nanoseconds.\<close>

type_synonym drive_id = "128 word"
type_synonym time = nat

definition sat_sub :: "'a::len word \<Rightarrow> 'a word \<Rightarrow> 'a word" where
  "sat_sub a b = (if b \<le> a then a - b else 0)"

definition sat_mul :: "'a::len word \<Rightarrow> 'a word \<Rightarrow> 'a word" where
  "sat_mul a b = (if unat a * unat b < 2 ^ LENGTH('a) then a * b else - 1)"

definition checked_sub :: "'a::len word \<Rightarrow> 'a word \<Rightarrow> 'a word option" where
  "checked_sub a b = (if b \<le> a then Some (a - b) else None)"

lemma unat_sat_sub: "unat (sat_sub a b) = unat a - unat b"
  by (simp add: sat_sub_def unat_sub word_le_nat_alt)

lemma sat_sub_le: "sat_sub a b \<le> a"
  by (simp add: word_le_nat_alt unat_sat_sub)

lemma sat_sub_self [simp]: "sat_sub a a = 0"
  by (simp add: sat_sub_def)

lemma unat_minus_one_word: "unat (- 1 :: 'a::len word) = 2 ^ LENGTH('a) - 1"
  by (simp add: unat_eq_nat_uint uint_word_ariths nat_diff_distrib nat_power_eq zmod_minus1)

lemma unat_sat_mul:
  "unat (sat_mul a b) = min (unat a * unat b) (2 ^ LENGTH('a) - 1)" for a b :: "'a::len word"
proof (cases "unat a * unat b < 2 ^ LENGTH('a)")
  case True
  then have "unat a * unat b \<le> 2 ^ LENGTH('a) - 1" by linarith
  with True show ?thesis by (simp add: sat_mul_def unat_word_ariths)
next
  case False
  then have "2 ^ LENGTH('a) - 1 \<le> unat a * unat b" by linarith
  with False show ?thesis by (simp add: sat_mul_def unat_minus_one_word min_absorb2)
qed

lemma checked_sub_Some: "checked_sub a b = Some c \<Longrightarrow> unat c + unat b = unat a"
  by (auto simp: checked_sub_def unat_sub word_le_nat_alt split: if_splits)

lemma xor_right_cancel [simp]: "a XOR k = b XOR k \<longleftrightarrow> a = (b :: 'a::len word)"
  by (metis xor.assoc xor_self_eq xor.right_neutral)

lemma xor_left_cancel [simp]: "k XOR a = k XOR b \<longleftrightarrow> a = (b :: 'a::len word)"
  by (metis xor.commute xor_right_cancel)

lemma ucast_u8_u32_inj [simp]: "(ucast a :: u32) = ucast b \<longleftrightarrow> a = (b :: u8)"
proof
  assume "(ucast a :: u32) = ucast b"
  then have "(ucast (ucast a :: u32) :: u8) = ucast (ucast b :: u32)" by simp
  then show "a = b" by (simp add: ucast_up_ucast_id is_up)
qed simp

section \<open>Options\<close>

text \<open>\<open>Option::or\<close> (and \<open>or_else\<close>, whose closure is pure everywhere in the sources).\<close>

definition opt_or :: "'a option \<Rightarrow> 'a option \<Rightarrow> 'a option" where
  "opt_or a b = (case a of None \<Rightarrow> b | Some x \<Rightarrow> Some x)"

lemma opt_or_simps [simp]:
  "opt_or None b = b" "opt_or (Some x) b = Some x" "opt_or a None = a"
  by (simp_all add: opt_or_def split: option.splits)

lemma opt_or_None_iff [simp]: "opt_or a b = None \<longleftrightarrow> a = None \<and> b = None"
  by (simp add: opt_or_def split: option.splits)

lemma opt_or_idem [simp]: "opt_or a a = a"
  by (cases a) simp_all

lemma opt_or_assoc: "opt_or (opt_or a b) c = opt_or a (opt_or b c)"
  by (cases a) simp_all

definition is_some_and :: "('a \<Rightarrow> bool) \<Rightarrow> 'a option \<Rightarrow> bool" where
  "is_some_and p x = (case x of None \<Rightarrow> False | Some v \<Rightarrow> p v)"

definition opt_filter :: "('a \<Rightarrow> bool) \<Rightarrow> 'a option \<Rightarrow> 'a option" where
  "opt_filter p x = (case x of None \<Rightarrow> None | Some v \<Rightarrow> if p v then Some v else None)"

lemma is_some_and_simps [simp]: "\<not> is_some_and p None" "is_some_and p (Some v) = p v"
  by (simp_all add: is_some_and_def)

lemma is_some_and_iff: "is_some_and p x \<longleftrightarrow> (\<exists>v. x = Some v \<and> p v)"
  by (cases x) simp_all

lemma opt_filter_simps [simp]:
  "opt_filter p None = None" "opt_filter p (Some v) = (if p v then Some v else None)"
  by (simp_all add: opt_filter_def)

lemma opt_filter_Some_iff: "opt_filter p x = Some v \<longleftrightarrow> x = Some v \<and> p v"
  by (cases x) auto

text \<open>The first refusal of a chain of early returns.\<close>

fun first_some :: "'a option list \<Rightarrow> 'a option" where
  "first_some [] = None"
| "first_some (None # xs) = first_some xs"
| "first_some (Some v # xs) = Some v"

lemma first_some_None_iff: "first_some xs = None \<longleftrightarrow> (\<forall>x \<in> set xs. x = None)"
  by (induction xs rule: first_some.induct) auto

lemma first_some_in_set: "first_some xs = Some v \<Longrightarrow> Some v \<in> set xs"
  by (induction xs rule: first_some.induct) auto

lemma map_filter_all_None: "(\<And>x. x \<in> set xs \<Longrightarrow> f x = None) \<Longrightarrow> List.map_filter f xs = []"
  by (induction xs) (simp_all add: map_filter_simps)

lemma find_split: "\<forall>x \<in> set pre. \<not> P x \<Longrightarrow> P c \<Longrightarrow> find P (pre @ c # post) = Some c"
  by (induction pre) auto

lemma map_filter_cong: "(\<And>x. x \<in> set xs \<Longrightarrow> f x = g x) \<Longrightarrow> List.map_filter f xs = List.map_filter g xs"
  by (induction xs) (simp_all add: map_filter_simps split: option.splits)

lemma map_filter_Some: "List.map_filter (\<lambda>x. Some (f x)) xs = map f xs"
  by (induction xs) (simp_all add: map_filter_simps)

lemma map_filter_append: "List.map_filter f (xs @ ys) = List.map_filter f xs @ List.map_filter f ys"
  by (simp add: map_filter_def)

definition guard :: "bool \<Rightarrow> 'a \<Rightarrow> 'a option" where
  "guard c msg = (if c then Some msg else None)"

lemma guard_None_iff [simp]: "guard c m = None \<longleftrightarrow> \<not> c"
  by (simp add: guard_def)

lemma guard_Some_iff [simp]: "guard c m = Some v \<longleftrightarrow> c \<and> m = v"
  by (auto simp: guard_def)

section \<open>Text\<close>

text \<open>Decimal and two-digit hexadecimal numbers, as \<open>{}\<close> and \<open>{:02X}\<close> print them.\<close>

definition digit :: "nat \<Rightarrow> char" where
  "digit d = char_of (48 + d)"

fun dec :: "nat \<Rightarrow> string" where
  "dec n = (if n < 10 then [digit n] else dec (n div 10) @ [digit (n mod 10)])"

declare dec.simps [simp del]

definition dec_int :: "int \<Rightarrow> string" where
  "dec_int i = (if i < 0 then CHR ''-'' # dec (nat (- i)) else dec (nat i))"

definition hex_digit :: "nat \<Rightarrow> char" where
  "hex_digit d = (if d < 10 then char_of (48 + d) else char_of (55 + d))"

definition hex2 :: "u8 \<Rightarrow> string" where
  "hex2 b = [hex_digit (unat b div 16), hex_digit (unat b mod 16)]"

definition undec :: "string \<Rightarrow> nat" where
  "undec s = foldl (\<lambda>n c. 10 * n + (of_char c - 48)) 0 s"

lemma of_char_digit: "d < 10 \<Longrightarrow> (of_char (digit d) :: nat) = 48 + d"
  by (simp add: digit_def)

lemma undec_snoc: "undec (s @ [c]) = 10 * undec s + (of_char c - 48)"
  by (simp add: undec_def)

lemma undec_dec: "undec (dec n) = n"
proof (induction n rule: dec.induct)
  case (1 n)
  show ?case
  proof (cases "n < 10")
    case True
    then show ?thesis by (subst dec.simps) (simp add: undec_def of_char_digit)
  next
    case False
    with "1.IH" show ?thesis by (subst dec.simps) (simp add: undec_snoc of_char_digit)
  qed
qed

lemma dec_inj [simp]: "dec m = dec n \<longleftrightarrow> m = n"
  by (metis undec_dec)

lemma dec_nonempty [simp]: "dec n \<noteq> []"
  by (subst dec.simps) simp

text \<open>\<open>'x'\<close> in single quotes, as \<open>format!("'{x}'")\<close> writes it.\<close>

definition quoted :: "string \<Rightarrow> string" where
  "quoted s = [CHR 0x27] @ s @ [CHR 0x27]"

fun join :: "string \<Rightarrow> string list \<Rightarrow> string" where
  "join sep [] = []"
| "join sep [x] = x"
| "join sep (x # y # xs) = x @ sep @ join sep (y # xs)"

text \<open>\<open>starts_with\<close> and \<open>contains\<close>.\<close>

abbreviation starts_with :: "string \<Rightarrow> string \<Rightarrow> bool" where
  "starts_with s p \<equiv> prefix p s"

fun contains :: "string \<Rightarrow> string \<Rightarrow> bool" where
  "contains [] p = (p = [])"
| "contains (c # s) p = (prefix p (c # s) \<or> contains s p)"

lemma contains_iff: "contains s p \<longleftrightarrow> sublist p s"
  by (induction s) (auto simp: sublist_Cons_right)

text \<open>
  The non-ASCII characters of the messages, as their UTF-8 bytes: \<open>\<ge>\<close>, \<open>\<le>\<close>, the arrow, the
  em dash, the degree sign and the multiplication sign.
\<close>

definition utf8_ge :: string where "utf8_ge = map char_of [0xE2::nat, 0x89, 0xA5]"
definition utf8_le :: string where "utf8_le = map char_of [0xE2::nat, 0x89, 0xA4]"
definition utf8_arrow :: string where "utf8_arrow = map char_of [0xE2::nat, 0x86, 0x92]"
definition utf8_dash :: string where "utf8_dash = map char_of [0xE2::nat, 0x80, 0x94]"
definition utf8_degree :: string where "utf8_degree = map char_of [0xC2::nat, 0xB0]"
definition utf8_times :: string where "utf8_times = map char_of [0xC3::nat, 0x97]"
definition utf8_ellipsis :: string where "utf8_ellipsis = map char_of [0xE2::nat, 0x80, 0xA6]"

text \<open>
  \<open>str::trim\<close> removes the characters of Unicode's White\_Space from both ends. On the UTF-8
  bytes these are the ASCII blanks and seventeen two- and three-byte sequences.
\<close>

definition ascii_ws :: "char \<Rightarrow> bool" where
  "ascii_ws c = (let n = of_char c :: nat in 9 \<le> n \<and> n \<le> 13 \<or> n = 32)"

definition ws_sequences :: "string list" where
  "ws_sequences = map (map char_of)
     ([[0xC2::nat, 0x85], [0xC2, 0xA0], [0xE1, 0x9A, 0x80], [0xE2, 0x80, 0xA8], [0xE2, 0x80, 0xA9],
       [0xE2, 0x80, 0xAF], [0xE2, 0x81, 0x9F], [0xE3, 0x80, 0x80]]
      @ map (\<lambda>n. [0xE2, 0x80, n]) [0x80..<0x8B])"

definition ws_prefix :: "string list \<Rightarrow> string \<Rightarrow> nat" where
  "ws_prefix seqs s =
     (case s of [] \<Rightarrow> 0
      | c # _ \<Rightarrow> if ascii_ws c then 1
                else (case find (\<lambda>w. prefix w s) seqs of Some w \<Rightarrow> length w | None \<Rightarrow> 0))"

function trim_start_with :: "string list \<Rightarrow> string \<Rightarrow> string" where
  "trim_start_with seqs s =
     (let n = ws_prefix seqs s in if n = 0 \<or> s = [] then s else trim_start_with seqs (drop n s))"
  by pat_completeness auto
termination
  by (relation "measure (\<lambda>(seqs, s). length s)") auto

declare trim_start_with.simps [simp del]

definition trim :: "string \<Rightarrow> string" where
  "trim s = rev (trim_start_with (map rev ws_sequences)
                   (rev (trim_start_with ws_sequences s)))"

text \<open>\<open>eq_ignore_ascii_case\<close>.\<close>

definition ascii_lower :: "char \<Rightarrow> char" where
  "ascii_lower c = (let n = of_char c :: nat in if 65 \<le> n \<and> n \<le> 90 then char_of (n + 32) else c)"

text \<open>\<open>{:02x}\<close> and \<open>{:x}\<close>.\<close>

definition hex_lower :: "u8 \<Rightarrow> string" where
  "hex_lower b = map ascii_lower (hex2 b)"

definition hex_short :: "u8 \<Rightarrow> string" where
  "hex_short b = (if b < 16 then drop 1 (hex_lower b) else hex_lower b)"

definition eq_ignore_ascii_case :: "string \<Rightarrow> string \<Rightarrow> bool" where
  "eq_ignore_ascii_case a b = (map ascii_lower a = map ascii_lower b)"

definition ascii_digit :: "char \<Rightarrow> bool" where
  "ascii_digit c = (let n = of_char c :: nat in 48 \<le> n \<and> n \<le> 57)"

lemma ascii_digit_digit: "d < 10 \<Longrightarrow> ascii_digit (digit d)"
  by (simp add: ascii_digit_def Let_def of_char_digit)

lemma dec_last_digit: "ascii_digit (last (dec n))"
  by (subst dec.simps) (simp add: ascii_digit_digit)

lemma dec_digits: "\<forall>c \<in> set (dec n). ascii_digit c"
proof (induction n rule: dec.induct)
  case (1 n)
  then show ?case
    by (cases "n < 10") (simp_all add: dec.simps [of n] ascii_digit_digit)
qed

text \<open>
  \<open>str::parse\<close> for the integers: an optional sign and at least one digit, in range. \<open>num\<close> is the
  value of the digits.
\<close>

definition digits_value :: "string \<Rightarrow> nat option" where
  "digits_value s = (if s \<noteq> [] \<and> list_all ascii_digit s then Some (undec s) else None)"

definition parse_unsigned :: "nat \<Rightarrow> string \<Rightarrow> nat option" where
  "parse_unsigned bound s =
     opt_filter (\<lambda>n. n < bound)
       (case s of [] \<Rightarrow> None
        | c # ds \<Rightarrow> if c = CHR ''+'' \<and> ds \<noteq> [] then digits_value ds else digits_value s)"

definition parse_signed :: "nat \<Rightarrow> string \<Rightarrow> int option" where
  "parse_signed bound s =
     (case s of [] \<Rightarrow> None
      | c # ds \<Rightarrow>
          if c = CHR ''-'' then
            opt_filter (\<lambda>i. - int bound \<le> i) (map_option (\<lambda>n. - int n) (digits_value ds))
          else map_option int (parse_unsigned bound s))"

lemma dec_digit_props: "digit d \<noteq> CHR ''+''" if "d < 10"
proof
  assume "digit d = CHR ''+''"
  then have "of_char (digit d) = (43::nat)" by simp
  with that show False by (simp add: of_char_digit)
qed

lemma digits_value_dec: "digits_value (dec n) = Some n"
  using dec_digits [of n] by (simp add: digits_value_def list_all_iff undec_dec)

lemma parse_unsigned_dec: "n < bound \<Longrightarrow> parse_unsigned bound (dec n) = Some n"
proof -
  assume n: "n < bound"
  have "hd (dec n) \<noteq> CHR ''+''"
    using dec_digits [of n] by (cases "dec n") (auto simp: ascii_digit_def)
  then show ?thesis
    using n digits_value_dec [of n] by (cases "dec n") (auto simp: parse_unsigned_def)
qed

section \<open>Sorting\<close>

text \<open>\<open>slice::sort_by\<close> is stable: an element goes before the ones it is not greater than.\<close>

fun insort_by :: "('a \<Rightarrow> 'a \<Rightarrow> bool) \<Rightarrow> 'a \<Rightarrow> 'a list \<Rightarrow> 'a list" where
  "insort_by le x [] = [x]"
| "insort_by le x (y # ys) = (if le x y then x # y # ys else y # insort_by le x ys)"

definition stable_sort :: "('a \<Rightarrow> 'a \<Rightarrow> bool) \<Rightarrow> 'a list \<Rightarrow> 'a list" where
  "stable_sort le xs = foldr (insort_by le) xs []"

lemma mset_insort_by [simp]: "mset (insort_by le x xs) = add_mset x (mset xs)"
  by (induction xs) auto

lemma mset_stable_sort [simp]: "mset (stable_sort le xs) = mset xs"
  by (induction xs) (simp_all add: stable_sort_def)

lemma set_stable_sort [simp]: "set (stable_sort le xs) = set xs"
  by (metis mset_stable_sort set_mset_mset)

lemma length_stable_sort [simp]: "length (stable_sort le xs) = length xs"
  by (metis mset_stable_sort size_mset)

lemma stable_sort_Nil_iff [simp]: "stable_sort le xs = [] \<longleftrightarrow> xs = []"
  by (metis length_0_conv length_stable_sort)

lemma sorted_insort_by:
  assumes "\<And>x y. le x y \<or> le y x" "\<And>x y z. le x y \<Longrightarrow> le y z \<Longrightarrow> le x z" "sorted_wrt le xs"
  shows "sorted_wrt le (insort_by le x xs)"
  using assms(3)
proof (induction xs)
  case (Cons y ys)
  have "set (insort_by le x ys) = insert x (set ys)"
    by (metis mset_insort_by set_mset_add_mset_insert set_mset_mset)
  with Cons show ?case using assms(1,2) by auto
qed simp

lemma sorted_stable_sort:
  assumes "\<And>x y. le x y \<or> le y x" "\<And>x y z. le x y \<Longrightarrow> le y z \<Longrightarrow> le x z"
  shows "sorted_wrt le (stable_sort le xs)"
  by (induction xs) (simp_all add: stable_sort_def sorted_insort_by assms)

section \<open>Ordered maps\<close>

text \<open>
  A \<open>BTreeMap\<close>: its entries in ascending order of the keys, which is the order \<open>values()\<close> visits.
  \<open>lookup\<close> is \<open>map_of\<close>.
\<close>

type_synonym ('k, 'v) btree = "('k \<times> 'v) list"

fun bt_insert :: "'k::linorder \<Rightarrow> 'v \<Rightarrow> ('k, 'v) btree \<Rightarrow> ('k, 'v) btree" where
  "bt_insert k v [] = [(k, v)]"
| "bt_insert k v ((k', v') # m) =
     (if k < k' then (k, v) # (k', v') # m
      else if k = k' then (k, v) # m else (k', v') # bt_insert k v m)"

definition bt_ok :: "('k::linorder, 'v) btree \<Rightarrow> bool" where
  "bt_ok m = sorted_wrt (<) (map fst m)"

definition bt_retain :: "('k \<Rightarrow> 'v \<Rightarrow> bool) \<Rightarrow> ('k, 'v) btree \<Rightarrow> ('k, 'v) btree" where
  "bt_retain p m = filter (\<lambda>(k, v). p k v) m"

text \<open>What the components that keep such a map rely on.\<close>

lemma map_of_rev: "distinct (map fst kvs) \<Longrightarrow> map_of (rev kvs) k = map_of kvs k"
proof (cases "map_of kvs k")
  case None
  then have "map_of (rev kvs) k = None" by (simp add: map_of_eq_None_iff)
  with None show ?thesis by simp
next
  case (Some v)
  moreover assume "distinct (map fst kvs)"
  ultimately have "distinct (map fst (rev kvs))" "(k, v) \<in> set (rev kvs)"
    by (auto simp: rev_map [symmetric] dest: map_of_SomeD)
  then have "map_of (rev kvs) k = Some v" by (rule map_of_is_SomeI)
  with Some show ?thesis by simp
qed

locale ordered_map =
  fixes ins :: "'k \<Rightarrow> 'v \<Rightarrow> 'm \<Rightarrow> 'm" and look :: "'m \<Rightarrow> 'k \<Rightarrow> 'v option"
    and ok :: "'m \<Rightarrow> bool" and nil :: 'm and entries :: "'m \<Rightarrow> ('k \<times> 'v) list"
  assumes nil: "ok nil" "look nil k = None"
    and ins_ok: "ok m \<Longrightarrow> ok (ins k v m)"
    and look_ins: "ok m \<Longrightarrow> look (ins k v m) = (look m)(k \<mapsto> v)"
    and entries: "ok m \<Longrightarrow> (k, v) \<in> set (entries m) \<longleftrightarrow> look m k = Some v"
begin

definition put_all :: "('k \<times> 'v) list \<Rightarrow> 'm \<Rightarrow> 'm" where
  "put_all kvs m = fold (\<lambda>(k, v). ins k v) kvs m"

lemma put_all_ok: "ok m \<Longrightarrow> ok (put_all kvs m)"
  by (induction kvs arbitrary: m) (auto simp: put_all_def ins_ok)

lemma look_put_all: "ok m \<Longrightarrow> look (put_all kvs m) = look m ++ map_of (rev kvs)"
  by (induction kvs arbitrary: m) (auto simp: put_all_def ins_ok look_ins map_add_def fun_eq_iff split: option.splits)

lemma entries_put_all_nil:
  "distinct (map fst kvs) \<Longrightarrow> set (entries (put_all kvs nil)) = set kvs"
proof -
  assume d: "distinct (map fst kvs)"
  have "look (put_all kvs nil) k = map_of kvs k" for k
    using d nil by (simp add: look_put_all map_add_def map_of_rev split: option.splits)
  then show ?thesis
    using d put_all_ok [OF nil(1), of kvs] by (auto simp: entries map_of_eq_Some_iff)
qed

end

lemma bt_ok_Cons: "bt_ok ((k, v) # m) \<longleftrightarrow> bt_ok m \<and> (\<forall>k' \<in> fst ` set m. k < k')"
  by (auto simp: bt_ok_def)

lemma keys_bt_insert: "fst ` set (bt_insert k v m) = insert k (fst ` set m)"
proof (induction m)
  case (Cons a m)
  then show ?case by (cases a) (simp add: insert_commute)
qed simp

lemma bt_insert_ok: "bt_ok m \<Longrightarrow> bt_ok (bt_insert k v m)"
proof (induction m)
  case (Cons a m)
  then show ?case
    by (cases a) (auto simp: bt_ok_Cons keys_bt_insert not_less dest: order_le_imp_less_or_eq intro: less_trans)
qed (simp add: bt_ok_def)

lemma bt_distinct: "bt_ok m \<Longrightarrow> distinct (map fst m)"
  by (simp add: bt_ok_def strict_sorted_iff)

lemma map_of_bt_insert: "bt_ok m \<Longrightarrow> map_of (bt_insert k v m) = (map_of m)(k \<mapsto> v)"
proof (induction m)
  case (Cons a m)
  then show ?case
    by (cases a) (auto simp: bt_ok_Cons fun_eq_iff map_of_eq_None_iff split: if_splits)
qed simp

interpretation bt: ordered_map bt_insert map_of bt_ok "[]" "\<lambda>m. m"
  by unfold_locales (simp_all add: bt_insert_ok map_of_bt_insert bt_distinct map_of_eq_Some_iff, simp add: bt_ok_def)

lemma bt_retain_ok: "bt_ok m \<Longrightarrow> bt_ok (bt_retain p m)"
  by (induction m) (auto simp: bt_ok_Cons bt_retain_def bt_ok_def)

end
