(* ===== verification/Bytes.thy ===== *)
theory Bytes
  imports Prelude
begin

text \<open>
  Byte strings as the sources read and build them: \<open>from_le_bytes\<close>/\<open>to_le_bytes\<close> and their
  big-endian twins, slices (\<open>buf[a..b]\<close> and \<open>buf.get(a..b)\<close>), \<open>copy_from_slice\<close> into a
  buffer and \<open>chunks_exact\<close>, with the laws that let a parser be run on what a builder wrote.
\<close>

section \<open>Numbers\<close>

fun nat_of_le :: "bytes \<Rightarrow> nat" where
  "nat_of_le [] = 0"
| "nat_of_le (b # bs) = unat b + 256 * nat_of_le bs"

definition nat_of_be :: "bytes \<Rightarrow> nat" where
  "nat_of_be bs = foldl (\<lambda>n b. 256 * n + unat b) 0 bs"

fun le_bytes :: "nat \<Rightarrow> nat \<Rightarrow> bytes" where
  "le_bytes 0 n = []"
| "le_bytes (Suc k) n = word_of_nat (n mod 256) # le_bytes k (n div 256)"

definition be_bytes :: "nat \<Rightarrow> nat \<Rightarrow> bytes" where
  "be_bytes k n = rev (le_bytes k n)"

lemma length_le_bytes [simp, bytes_simps]: "length (le_bytes k n) = k"
  by (induction k arbitrary: n) simp_all

lemma length_be_bytes [simp, bytes_simps]: "length (be_bytes k n) = k"
  by (simp add: be_bytes_def)

lemma nat_of_be_rev: "nat_of_be bs = nat_of_le (rev bs)"
proof -
  have "foldl (\<lambda>n b. 256 * n + unat b) m bs = nat_of_le (rev bs) + 256 ^ length bs * m" for m
  proof (induction bs arbitrary: m)
    case Nil
    then show ?case by simp
  next
    case (Cons b bs)
    have app: "nat_of_le (xs @ [b]) = nat_of_le xs + 256 ^ length xs * unat b" for xs
      by (induction xs) (simp_all add: algebra_simps)
    have "foldl (\<lambda>n b. 256 * n + unat b) m (b # bs) =
        nat_of_le (rev bs) + 256 ^ length bs * (256 * m + unat b)"
      by (simp add: Cons.IH)
    then show ?case by (simp add: app algebra_simps)
  qed
  from this [of 0] show ?thesis by (simp add: nat_of_be_def)
qed

lemma nat_of_le_bytes [bytes_simps]: "nat_of_le (le_bytes k n) = n mod 256 ^ k"
proof (induction k arbitrary: n)
  case 0
  then show ?case by simp
next
  case (Suc k)
  have "unat (word_of_nat (n mod 256) :: u8) = n mod 256"
    by (simp add: unat_of_nat)
  then show ?case by (simp add: Suc.IH mod_mult2_eq)
qed

lemma nat_of_be_bytes [bytes_simps]: "nat_of_be (be_bytes k n) = n mod 256 ^ k"
  by (simp add: nat_of_be_rev be_bytes_def nat_of_le_bytes)

lemma unat_u8_less: "unat (b :: u8) < 256"
  using unsigned_less [of b, where 'a = nat] by simp

lemma nat_of_le_less: "nat_of_le bs < 256 ^ length bs"
proof (induction bs)
  case Nil
  then show ?case by simp
next
  case (Cons b bs)
  have "unat b + 256 * nat_of_le bs < 256 + 256 * nat_of_le bs"
    using unat_u8_less [of b] by simp
  also have "\<dots> \<le> 256 * 256 ^ length bs"
    using Cons.IH by simp
  finally show ?case by simp
qed

lemma nat_of_be_less: "nat_of_be bs < 256 ^ length bs"
  using nat_of_le_less [of "rev bs"] by (simp add: nat_of_be_rev)

lemma le_bytes_nat_of_le: "length bs = k \<Longrightarrow> le_bytes k (nat_of_le bs) = bs"
proof (induction bs arbitrary: k)
  case Nil
  then show ?case by simp
next
  case (Cons b bs)
  have "unat b < 256" by (rule unat_u8_less)
  then have "(unat b + 256 * nat_of_le bs) mod 256 = unat b"
    and "(unat b + 256 * nat_of_le bs) div 256 = nat_of_le bs"
    by auto
  with Cons show ?case by (cases k) simp_all
qed

text \<open>\<open>u16::from_le_bytes\<close> and its kin: the width is the result's.\<close>

definition word_of_le :: "bytes \<Rightarrow> 'a::len word" where
  "word_of_le bs = word_of_nat (nat_of_le bs)"

definition word_of_be :: "bytes \<Rightarrow> 'a::len word" where
  "word_of_be bs = word_of_nat (nat_of_be bs)"

definition word_le :: "nat \<Rightarrow> 'a::len word \<Rightarrow> bytes" where
  "word_le k w = le_bytes k (unat w)"

definition word_be :: "nat \<Rightarrow> 'a::len word \<Rightarrow> bytes" where
  "word_be k w = be_bytes k (unat w)"

lemma length_word_le [simp, bytes_simps]: "length (word_le k w) = k"
  by (simp add: word_le_def)

lemma length_word_be [simp, bytes_simps]: "length (word_be k w) = k"
  by (simp add: word_be_def)

lemma pow256: "(256::nat) ^ k = 2 ^ (8 * k)"
  by (simp add: power_mult)

lemma unat_mod_256: "LENGTH('a) \<le> 8 * k \<Longrightarrow> unat (w :: 'a::len word) mod 256 ^ k = unat w"
proof -
  assume k: "LENGTH('a) \<le> 8 * k"
  have "unat w < 2 ^ LENGTH('a)" by (rule unsigned_less)
  also have "\<dots> \<le> 2 ^ (8 * k)" using k by (rule power_increasing) simp
  finally show ?thesis by (simp add: pow256)
qed

lemma word_of_le_word_le [bytes_simps]:
  "LENGTH('a) \<le> 8 * k \<Longrightarrow> word_of_le (word_le k (w :: 'a::len word)) = w"
  by (simp add: word_of_le_def word_le_def nat_of_le_bytes unat_mod_256)

lemma word_of_be_word_be [bytes_simps]:
  "LENGTH('a) \<le> 8 * k \<Longrightarrow> word_of_be (word_be k (w :: 'a::len word)) = w"
  by (simp add: word_of_be_def word_be_def nat_of_be_bytes unat_mod_256)

lemma word_of_le_le_bytes [bytes_simps]:
  "LENGTH('a) = 8 * k \<Longrightarrow> word_of_le (le_bytes k n) = (word_of_nat n :: 'a::len word)"
  by (simp add: word_of_le_def nat_of_le_bytes word_unat_eq_iff unat_of_nat pow256)

lemma unat_word_of_le:
  "8 * length bs \<le> LENGTH('a) \<Longrightarrow> unat (word_of_le bs :: 'a::len word) = nat_of_le bs"
proof -
  assume len: "8 * length bs \<le> LENGTH('a)"
  have "nat_of_le bs < 2 ^ (8 * length bs)"
    using nat_of_le_less [of bs] by (simp add: pow256)
  also have "\<dots> \<le> 2 ^ LENGTH('a)" using len by (rule power_increasing) simp
  finally show ?thesis by (simp add: word_of_le_def unat_of_nat)
qed

lemma unat_word_of_be:
  "8 * length bs \<le> LENGTH('a) \<Longrightarrow> unat (word_of_be bs :: 'a::len word) = nat_of_be bs"
  using unat_word_of_le [of "rev bs", where 'a = 'a]
  by (simp add: word_of_be_def word_of_le_def nat_of_be_rev)

section \<open>Slices and buffers\<close>

definition slice :: "nat \<Rightarrow> nat \<Rightarrow> 'a list \<Rightarrow> 'a list" where
  "slice off n xs = take n (drop off xs)"

text \<open>\<open>buf.get(a..b)\<close>: \<open>None\<close> out of range (and for \<open>b < a\<close>).\<close>

definition get_slice :: "nat \<Rightarrow> nat \<Rightarrow> 'a list \<Rightarrow> 'a list option" where
  "get_slice a b xs = (if a \<le> b \<and> b \<le> length xs then Some (slice a (b - a) xs) else None)"

definition get_nth :: "nat \<Rightarrow> 'a list \<Rightarrow> 'a option" where
  "get_nth i xs = (if i < length xs then Some (xs ! i) else None)"

text \<open>\<open>buf[off..off + v.len()].copy_from_slice(v)\<close>, for a range inside the buffer.\<close>

definition put :: "nat \<Rightarrow> 'a list \<Rightarrow> 'a list \<Rightarrow> 'a list" where
  "put off v xs = take off xs @ v @ drop (off + length v) xs"

lemma length_slice [bytes_simps]: "length (slice off n xs) = min n (length xs - off)"
  by (simp add: slice_def min.commute)

lemma length_put [bytes_simps]: "off + length v \<le> length xs \<Longrightarrow> length (put off v xs) = length xs"
  by (simp add: put_def)

lemma nth_put:
  assumes "off + length v \<le> length xs" "i < length xs"
  shows "put off v xs ! i = (if off \<le> i \<and> i < off + length v then v ! (i - off) else xs ! i)"
proof -
  have "length (take off xs) = off" using assms by simp
  then show ?thesis using assms by (auto simp: put_def nth_append)
qed

lemma put_list_update:
  assumes "off + length v \<le> length xs" "i < length xs" "i < off \<or> off + length v \<le> i"
  shows "put off v (xs[i := b]) = (put off v xs)[i := b]"
  using assms by (intro nth_equalityI) (auto simp: length_put nth_put nth_list_update)

lemma slice_put_same [bytes_simps]:
  "off + length v \<le> length xs \<Longrightarrow> n = length v \<Longrightarrow> slice off n (put off v xs) = v"
  by (simp add: slice_def put_def)

lemma slice_put_after [bytes_simps]:
  assumes "off + length v \<le> length xs" and "off + length v \<le> a"
  shows "slice a n (put off v xs) = slice a n xs"
proof -
  have "drop a (put off v xs) = drop a xs"
  proof -
    have "drop a (put off v xs) = drop (a - length (take off xs @ v)) (drop (off + length v) xs)"
      using assms by (simp add: put_def)
    also have "\<dots> = drop a xs" using assms by simp
    finally show ?thesis .
  qed
  then show ?thesis by (simp add: slice_def)
qed

lemma slice_put_before [bytes_simps]:
  assumes "off \<le> length xs" and "a + n \<le> off"
  shows "slice a n (put off v xs) = slice a n xs"
proof -
  have "slice a n (take off xs @ rest) = slice a n (take off xs)" for rest
    using assms by (simp add: slice_def)
  moreover have "slice a n (take off xs) = slice a n xs"
    using assms by (simp add: slice_def take_drop min_absorb1)
  ultimately show ?thesis by (simp add: put_def)
qed

lemma slice_append_left [bytes_simps]:
  "a + n \<le> length xs \<Longrightarrow> slice a n (xs @ ys) = slice a n xs"
  by (simp add: slice_def)

lemma slice_append_right [bytes_simps]:
  "length xs \<le> a \<Longrightarrow> slice a n (xs @ ys) = slice (a - length xs) n ys"
  by (simp add: slice_def)

lemma slice_put_within:
  assumes "off \<le> length xs" "off \<le> a" "a + n \<le> off + length v"
  shows "slice a n (put off v xs) = slice (a - off) n v"
proof -
  have "slice a n (take off xs @ v @ rest) = slice (a - off) n (v @ rest)" for rest
    using assms by (simp add: slice_append_right)
  moreover have "slice (a - off) n (v @ rest) = slice (a - off) n v" for rest
    using assms by (intro slice_append_left) simp
  ultimately show ?thesis by (simp only: put_def)
qed

lemma slice_all: "length xs = n \<Longrightarrow> slice 0 n xs = xs"
  by (simp add: slice_def)

lemma slice_replicate [bytes_simps]: "slice a n (replicate m x) = replicate (min n (m - a)) x"
  by (simp add: slice_def min.commute)

lemma slice_slice: "b + m \<le> n \<Longrightarrow> slice b m (slice a n xs) = slice (a + b) m xs"
  by (simp add: slice_def drop_take min_absorb1 add.commute)

lemma get_slice_Some:
  "a \<le> b \<Longrightarrow> b \<le> length xs \<Longrightarrow> get_slice a b xs = Some (slice a (b - a) xs)"
  by (simp add: get_slice_def)

text \<open>
  A record written field by field: \<open>puts\<close> makes the writes in order. \<open>fits\<close> says each is inside
  the buffer, \<open>clear a n\<close> that none touches the \<open>n\<close> bytes at \<open>a\<close>, and \<open>field_at\<close> finds the write that
  decides them.
\<close>

definition puts :: "(nat \<times> 'a list) list \<Rightarrow> 'a list \<Rightarrow> 'a list" where
  "puts ws xs = fold (\<lambda>(off, v). put off v) ws xs"

definition fits :: "nat \<Rightarrow> (nat \<times> 'a list) list \<Rightarrow> bool" where
  "fits m ws = list_all (\<lambda>(off, v). off + length v \<le> m) ws"

definition clear :: "nat \<Rightarrow> nat \<Rightarrow> (nat \<times> 'a list) list \<Rightarrow> bool" where
  "clear a n ws = list_all (\<lambda>(off, v). a + n \<le> off \<or> off + length v \<le> a) ws"

fun field_at :: "nat \<Rightarrow> nat \<Rightarrow> (nat \<times> 'a list) list \<Rightarrow> 'a list option" where
  "field_at a n [] = None"
| "field_at a n ((off, v) # ws) =
     (if off = a \<and> length v = n \<and> clear a n ws then Some v else field_at a n ws)"

lemma puts_simps [simp]: "puts [] xs = xs" "puts ((off, v) # ws) xs = puts ws (put off v xs)"
  by (simp_all add: puts_def)

lemma fits_simps [simp]: "fits m []" "fits m ((off, v) # ws) \<longleftrightarrow> off + length v \<le> m \<and> fits m ws"
  by (simp_all add: fits_def)

lemma clear_simps [simp]:
  "clear a n []" "clear a n ((off, v) # ws) \<longleftrightarrow> (a + n \<le> off \<or> off + length v \<le> a) \<and> clear a n ws"
  by (simp_all add: clear_def)

lemma length_puts: "fits (length xs) ws \<Longrightarrow> length (puts ws xs) = length xs"
proof (induction ws arbitrary: xs)
  case (Cons w ws)
  then show ?case by (cases w) (simp add: length_put)
qed simp

lemma slice_puts_clear: "fits (length xs) ws \<Longrightarrow> clear a n ws \<Longrightarrow> slice a n (puts ws xs) = slice a n xs"
proof (induction ws arbitrary: xs)
  case (Cons w ws)
  obtain off v where w: "w = (off, v)" by (cases w)
  with Cons.prems have len: "length (put off v xs) = length xs" by (simp add: length_put)
  have "slice a n (puts ws (put off v xs)) = slice a n (put off v xs)"
    using Cons.prems len by (intro Cons.IH) (simp_all add: w)
  also have "\<dots> = slice a n xs"
    using Cons.prems by (auto simp: w slice_put_before slice_put_after)
  finally show ?case by (simp add: w)
qed simp

lemma slice_puts_field: "fits (length xs) ws \<Longrightarrow> field_at a n ws = Some v \<Longrightarrow> slice a n (puts ws xs) = v"
proof (induction ws arbitrary: xs)
  case (Cons w ws)
  obtain off u where w: "w = (off, u)" by (cases w)
  with Cons.prems have len: "length (put off u xs) = length xs" by (simp add: length_put)
  show ?case
  proof (cases "off = a \<and> length u = n \<and> clear a n ws")
    case True
    with Cons.prems len have "slice a n (puts ws (put off u xs)) = slice a n (put off u xs)"
      by (intro slice_puts_clear) (simp_all add: w)
    with True Cons.prems show ?thesis by (auto simp: w slice_put_same)
  next
    case False
    with Cons.prems len show ?thesis by (simp add: w Cons.IH)
  qed
qed simp

lemma puts_append_left:
  "fits (length xs) ws \<Longrightarrow> puts ws (xs @ ys) = puts ws xs @ ys"
proof (induction ws arbitrary: xs)
  case (Cons w ws)
  obtain off v where w: "w = (off, v)" by (cases w)
  with Cons.prems have "put off v (xs @ ys) = put off v xs @ ys"
    and "length (put off v xs) = length xs"
    by (simp_all add: put_def length_put)
  with Cons show ?case by (simp add: w)
qed simp

section \<open>Chunks\<close>

function chunks_exact :: "nat \<Rightarrow> 'a list \<Rightarrow> 'a list list" where
  "chunks_exact n xs =
     (if n = 0 \<or> length xs < n then [] else take n xs # chunks_exact n (drop n xs))"
  by pat_completeness auto
termination
  by (relation "measure (\<lambda>(n, xs). length xs)") auto

declare chunks_exact.simps [simp del]

lemma chunks_exact_short: "length xs < n \<Longrightarrow> chunks_exact n xs = []"
  by (subst chunks_exact.simps) simp

lemma chunks_exact_append:
  "length x = n \<Longrightarrow> 0 < n \<Longrightarrow> chunks_exact n (x @ xs) = x # chunks_exact n xs"
  by (subst chunks_exact.simps) simp

lemma chunks_exact_replicate:
  "0 < n \<Longrightarrow> chunks_exact n (replicate (n * m) x) = replicate m (replicate n x)"
proof (induction m)
  case 0
  then show ?case by (simp add: chunks_exact_short)
next
  case (Suc m)
  have "replicate (n * Suc m) x = replicate n x @ replicate (n * m) x"
    by (simp add: replicate_add)
  with Suc show ?case by (simp add: chunks_exact_append)
qed

lemma chunks_exact_concat:
  "0 < n \<Longrightarrow> \<forall>x \<in> set xss. length x = n \<Longrightarrow> chunks_exact n (concat xss) = xss"
  by (induction xss) (simp_all add: chunks_exact_short chunks_exact_append)

lemma length_chunks_exact:
  "0 < n \<Longrightarrow> length (chunks_exact n xs) = length xs div n"
proof (induction n xs rule: chunks_exact.induct)
  case (1 n xs)
  show ?case
  proof (cases "length xs < n")
    case True
    then show ?thesis by (simp add: chunks_exact_short)
  next
    case False
    with "1.prems" "1.IH" have "length (chunks_exact n (drop n xs)) = (length xs - n) div n"
      by simp
    with False "1.prems" show ?thesis
      by (subst chunks_exact.simps) (simp add: le_div_geq)
  qed
qed

lemma chunks_exact_lengths: "x \<in> set (chunks_exact n xs) \<Longrightarrow> length x = n"
proof (induction n xs rule: chunks_exact.induct)
  case (1 n xs)
  then show ?case by (subst (asm) (2) chunks_exact.simps) (auto split: if_splits)
qed

end
