(* ===== verification/Utf.thy ===== *)
theory Utf
  imports Bytes
begin

text \<open>
  \<open>str::encode_utf16\<close> and \<open>String::from_utf16_lossy\<close>: the conversion between a Rust string
  (UTF-8 bytes) and the UTF-16 units a GPT entry stores its name in.
\<close>

section \<open>Code points\<close>

text \<open>The code points of a valid UTF-8 string (a Rust \<open>str\<close> always is one).\<close>

fun utf8_cps :: "nat list \<Rightarrow> nat list" where
  "utf8_cps [] = []"
| "utf8_cps (a # s) =
     (if a < 0x80 then a # utf8_cps s
      else if a < 0xE0 then
        (case s of b # s' \<Rightarrow> ((a - 0xC0) * 64 + (b - 0x80)) # utf8_cps s' | _ \<Rightarrow> [])
      else if a < 0xF0 then
        (case s of b # c # s' \<Rightarrow>
            ((a - 0xE0) * 4096 + (b - 0x80) * 64 + (c - 0x80)) # utf8_cps s'
         | _ \<Rightarrow> [])
      else
        (case s of b # c # d # s' \<Rightarrow>
            ((a - 0xF0) * 262144 + (b - 0x80) * 4096 + (c - 0x80) * 64 + (d - 0x80)) # utf8_cps s'
         | _ \<Rightarrow> []))"

definition utf8_of_cp :: "nat \<Rightarrow> nat list" where
  "utf8_of_cp n =
     (if n < 0x80 then [n]
      else if n < 0x800 then [0xC0 + n div 64, 0x80 + n mod 64]
      else if n < 0x10000 then [0xE0 + n div 4096, 0x80 + n div 64 mod 64, 0x80 + n mod 64]
      else [0xF0 + n div 262144, 0x80 + n div 4096 mod 64, 0x80 + n div 64 mod 64, 0x80 + n mod 64])"

section \<open>UTF-16\<close>

definition utf16_of_cp :: "nat \<Rightarrow> u16 list" where
  "utf16_of_cp n =
     (if n < 0x10000 then [word_of_nat n]
      else [word_of_nat (0xD800 + (n - 0x10000) div 1024), word_of_nat (0xDC00 + (n - 0x10000) mod 1024)])"

definition encode_utf16 :: "string \<Rightarrow> u16 list" where
  "encode_utf16 s = concat (map utf16_of_cp (utf8_cps (map of_char s)))"

definition high_surrogate :: "nat \<Rightarrow> bool" where
  "high_surrogate n = (0xD800 \<le> n \<and> n < 0xDC00)"

definition low_surrogate :: "nat \<Rightarrow> bool" where
  "low_surrogate n = (0xDC00 \<le> n \<and> n < 0xE000)"

text \<open>An unpaired surrogate becomes U+FFFD.\<close>

fun utf16_cps :: "nat list \<Rightarrow> nat list" where
  "utf16_cps [] = []"
| "utf16_cps (a # s) =
     (if high_surrogate a then
        (case s of
           b # s' \<Rightarrow> if low_surrogate b
                     then (0x10000 + (a - 0xD800) * 1024 + (b - 0xDC00)) # utf16_cps s'
                     else 0xFFFD # utf16_cps s
         | [] \<Rightarrow> [0xFFFD])
      else if low_surrogate a then 0xFFFD # utf16_cps s
      else a # utf16_cps s)"

definition from_utf16_lossy :: "u16 list \<Rightarrow> string" where
  "from_utf16_lossy us = map char_of (concat (map utf8_of_cp (utf16_cps (map unat us))))"

section \<open>ASCII names\<close>

definition ascii :: "string \<Rightarrow> bool" where
  "ascii s = list_all (\<lambda>c. (of_char c :: nat) < 0x80) s"

lemma utf8_cps_ascii: "list_all (\<lambda>n. n < 0x80) ns \<Longrightarrow> utf8_cps ns = ns"
  by (induction ns) simp_all

lemma encode_utf16_ascii: "ascii s \<Longrightarrow> encode_utf16 s = map (\<lambda>c. word_of_nat (of_char c)) s"
proof -
  assume a: "ascii s"
  then have "utf8_cps (map of_char s) = map of_char s"
    by (intro utf8_cps_ascii) (simp add: ascii_def list_all_iff)
  moreover have "concat (map utf16_of_cp (map of_char s)) = map (\<lambda>c. word_of_nat (of_char c)) s"
    using a by (induction s) (simp_all add: ascii_def utf16_of_cp_def)
  ultimately show ?thesis by (simp add: encode_utf16_def)
qed

lemma utf16_cps_ascii: "list_all (\<lambda>n. n < 0x80) ns \<Longrightarrow> utf16_cps ns = ns"
  by (induction ns) (simp_all add: high_surrogate_def low_surrogate_def)

lemma from_utf16_lossy_encode_ascii: "ascii s \<Longrightarrow> from_utf16_lossy (encode_utf16 s) = s"
proof -
  assume a: "ascii s"
  have "unat (word_of_nat (of_char c) :: u16) = of_char c" if "c \<in> set s" for c
  proof -
    have "(of_char c :: nat) < 0x80" using a that by (simp add: ascii_def list_all_iff)
    then show ?thesis by (simp add: unat_of_nat)
  qed
  then have units: "map unat (encode_utf16 s) = map of_char s"
    using a by (simp add: encode_utf16_ascii)
  have "utf16_cps (map of_char s) = map of_char s"
    using a by (intro utf16_cps_ascii) (simp add: ascii_def list_all_iff)
  moreover have "concat (map utf8_of_cp (map of_char s)) = map of_char s"
    using a by (induction s) (simp_all add: ascii_def utf8_of_cp_def)
  ultimately show ?thesis
    by (simp add: from_utf16_lossy_def units map_idI)
qed

end
