(* ===== verification/Gpt.thy ===== *)
theory Gpt
  imports Utf
begin

text \<open>
  \<open>src/src/gpt.rs\<close>: the partition table the drive worker writes (protective MBR, GPT header,
  entry array and their backup), and the CRC that guards both tables. \<open>u64\<close> quantities are
  computed on \<open>nat\<close>; \<open>layout_no_overflow\<close> shows every intermediate value fits 64 bits, so no
  operation wraps.
\<close>

section \<open>CRC-32\<close>

definition crc_bit :: "u32 \<Rightarrow> u32" where
  "crc_bit crc = (if crc AND 1 \<noteq> 0 then drop_bit 1 crc XOR 0xEDB88320 else drop_bit 1 crc)"

definition crc_byte :: "u32 \<Rightarrow> u8 \<Rightarrow> u32" where
  "crc_byte crc b = (crc_bit ^^ 8) (crc XOR ucast b)"

definition crc32 :: "bytes \<Rightarrow> u32" where
  "crc32 data = NOT (foldl crc_byte 0xFFFFFFFF data)"

text \<open>
  One shift step loses nothing: the polynomial's top bit marks which branch was taken. So two
  registers that differ stay different whatever bytes follow.
\<close>

definition crc_unbit :: "u32 \<Rightarrow> u32" where
  "crc_unbit r = (if bit r 31 then push_bit 1 (r XOR 0xEDB88320) OR 1 else push_bit 1 r)"

lemma crc_unbit_crc_bit: "crc_unbit (crc_bit c) = c"
proof -
  have top: "\<not> bit (drop_bit 1 c) 31"
    by (auto simp: bit_drop_bit_eq dest: bit_imp_le_length)
  have poly: "bit (0xEDB88320 :: u32) 31" by simp
  show ?thesis
  proof (cases "bit c 0")
    case True
    have odd: "c AND 1 \<noteq> 0" using True by (simp add: and_one_eq bit_0 odd_iff_mod_2_eq_one)
    have "push_bit 1 (drop_bit 1 c) OR 1 = c"
    proof (rule bit_eqI)
      fix n
      assume "possible_bit TYPE(u32) n"
      then show "bit (push_bit 1 (drop_bit 1 c) OR 1) n \<longleftrightarrow> bit c n"
        using True by (cases n) (simp_all only: bit_or_iff bit_push_bit_iff bit_drop_bit_eq bit_1_iff, simp_all)
    qed
    then show ?thesis
      using odd top poly by (simp add: crc_bit_def crc_unbit_def bit_xor_iff xor.assoc)
  next
    case False
    have even: "c AND 1 = 0" using False by (simp add: and_one_eq bit_0 even_iff_mod_2_eq_zero)
    have "push_bit 1 (drop_bit 1 c) = c"
    proof (rule bit_eqI)
      fix n
      assume "possible_bit TYPE(u32) n"
      then show "bit (push_bit 1 (drop_bit 1 c)) n \<longleftrightarrow> bit c n"
        using False by (cases n) (simp_all only: bit_push_bit_iff bit_drop_bit_eq, simp_all)
    qed
    then show ?thesis
      using even top by (simp add: crc_bit_def crc_unbit_def)
  qed
qed

lemma crc_bit_inj: "crc_bit c = crc_bit d \<longleftrightarrow> c = d"
  by (metis crc_unbit_crc_bit)

lemma crc_bits_inj: "(crc_bit ^^ n) c = (crc_bit ^^ n) d \<longleftrightarrow> c = d"
  by (induction n arbitrary: c d) (simp_all add: crc_bit_inj)

lemma crc_byte_inj: "crc_byte c b = crc_byte d b \<longleftrightarrow> c = d"
  by (simp add: crc_byte_def crc_bits_inj)

lemma crc_byte_inj_byte: "crc_byte c a = crc_byte c b \<longleftrightarrow> a = b"
  by (simp add: crc_byte_def crc_bits_inj)

lemma foldl_crc_inj: "foldl crc_byte c data = foldl crc_byte d data \<longleftrightarrow> c = d"
  by (induction data arbitrary: c d) (simp_all add: crc_byte_inj)

text \<open>So a table in which any one byte was changed never passes its CRC.\<close>

lemma crc32_one_byte:
  "length xs = length xs' \<Longrightarrow> crc32 (xs @ a # ys) = crc32 (xs @ b # ys) \<longleftrightarrow> a = b"
  by (simp add: crc32_def foldl_crc_inj crc_byte_inj_byte)

section \<open>The layout\<close>

definition TYPE_SLAB :: bytes where
  "TYPE_SLAB = [0x2E, 0x7B, 0x9A, 0x4C, 0x63, 0x1D, 0x8A, 0x4F, 0x9E, 0x51, 0x0B, 0x7C, 0x2A, 0x6D, 0x3F, 0x14]"

definition TYPE_SLAB_DATA :: bytes where
  "TYPE_SLAB_DATA = [0x91, 0x5A, 0x3E, 0x7D, 0x24, 0x6C, 0x8F, 0x4B, 0xA0, 0x5D, 0x2E, 0x91, 0x47, 0xBC, 0x6F, 0x38]"

definition ENTRIES :: nat where [layout_simps]: "ENTRIES = 128"
definition ENTRY_SIZE :: nat where [layout_simps]: "ENTRY_SIZE = 128"
definition ALIGN_BYTES :: nat where [layout_simps]: "ALIGN_BYTES = 2 ^ 20"

record layout =
  primary :: bytes
  backup :: bytes
  backup_offset :: nat
  first_lba :: nat
  last_lba :: nat
  block_size :: nat

definition partition_bytes :: "layout \<Rightarrow> nat" where
  "partition_bytes l = (last_lba l - first_lba l + 1) * block_size l"

definition div_ceil :: "nat \<Rightarrow> nat \<Rightarrow> nat" where
  "div_ceil a b = (if a mod b = 0 then a div b else a div b + 1)"

definition EFI_PART :: bytes where
  "EFI_PART = [0x45, 0x46, 0x49, 0x20, 0x50, 0x41, 0x52, 0x54]"

definition header_fields ::
  "nat \<Rightarrow> nat \<Rightarrow> nat \<Rightarrow> nat \<Rightarrow> bytes \<Rightarrow> nat \<Rightarrow> u32 \<Rightarrow> nat \<Rightarrow> bytes" where
  "header_fields my_lba alt_lba first_usable last_usable disk_guid entries_lba entries_crc bs =
     puts
       [(0, EFI_PART),
        (8, le_bytes 4 0x00010000),
        (12, le_bytes 4 92),
        (24, le_bytes 8 my_lba),
        (32, le_bytes 8 alt_lba),
        (40, le_bytes 8 first_usable),
        (48, le_bytes 8 last_usable),
        (56, disk_guid),
        (72, le_bytes 8 entries_lba),
        (80, le_bytes 4 ENTRIES),
        (84, le_bytes 4 ENTRY_SIZE),
        (88, word_le 4 entries_crc)]
       (replicate bs 0)"

definition header ::
  "nat \<Rightarrow> nat \<Rightarrow> nat \<Rightarrow> nat \<Rightarrow> bytes \<Rightarrow> nat \<Rightarrow> u32 \<Rightarrow> nat \<Rightarrow> bytes" where
  "header my_lba alt_lba first_usable last_usable disk_guid entries_lba entries_crc bs =
     (let h = header_fields my_lba alt_lba first_usable last_usable disk_guid entries_lba entries_crc bs
      in put 16 (word_le 4 (crc32 (take 92 h))) h)"

text \<open>The entry array: one entry, its name in UTF-16 (the first 36 units; the loop's writes are adjacent).\<close>

definition entry_table :: "bytes \<Rightarrow> bytes \<Rightarrow> nat \<Rightarrow> nat \<Rightarrow> string \<Rightarrow> bytes" where
  "entry_table type_guid part_guid first_l last_l name =
     puts
       [(0, type_guid),
        (16, part_guid),
        (32, le_bytes 8 first_l),
        (40, le_bytes 8 last_l),
        (56, concat (map (word_le 2) (take 36 (encode_utf16 name))))]
       (replicate (ENTRIES * ENTRY_SIZE) 0)"

text \<open>\<open>resize\<close> pads with zeros (it never shortens here: \<open>entry_lbas\<close> blocks hold the array).\<close>

definition pad_to :: "nat \<Rightarrow> bytes \<Rightarrow> bytes" where
  "pad_to n bs = take n bs @ replicate (n - length bs) 0"

definition protective_mbr :: "nat \<Rightarrow> nat \<Rightarrow> bytes" where
  "protective_mbr bs total_lbas =
     puts
       [(446 + 1, [0x00, 0x02, 0x00]),
        (446 + 4, [0xEE]),
        (446 + 5, [0xFF, 0xFF, 0xFF]),
        (446 + 8, le_bytes 4 1),
        (446 + 12, le_bytes 4 (min (total_lbas - 1) (2 ^ 32 - 1))),
        (510, [0x55]),
        (511, [0xAA])]
       (replicate bs 0)"

text \<open>The tables, once the partition's blocks are chosen; \<open>layout_of\<close> makes the checks.\<close>

definition build_layout ::
  "nat \<Rightarrow> nat \<Rightarrow> nat \<Rightarrow> nat \<Rightarrow> nat \<Rightarrow> bytes \<Rightarrow> string \<Rightarrow> bytes \<Rightarrow> bytes \<Rightarrow> layout" where
  "build_layout bs total_lbas entry_lbas first_l last_l type_guid name disk_guid part_guid =
     (let first_usable = 2 + entry_lbas;
          last_usable = total_lbas - (2 + entry_lbas);
          entries = entry_table type_guid part_guid first_l last_l name;
          entries_crc = crc32 entries;
          entries_padded = pad_to (entry_lbas * bs) entries;
          backup_header_lba = total_lbas - 1;
          backup_entries_lba = total_lbas - 1 - entry_lbas
      in \<lparr>primary = protective_mbr bs total_lbas
            @ header 1 backup_header_lba first_usable last_usable disk_guid 2 entries_crc bs
            @ entries_padded,
          backup = entries_padded
            @ header backup_header_lba 1 first_usable last_usable disk_guid
                backup_entries_lba entries_crc bs,
          backup_offset = backup_entries_lba * bs,
          first_lba = first_l,
          last_lba = last_l,
          block_size = bs\<rparr>)"

definition layout_of ::
  "u64 \<Rightarrow> u64 \<Rightarrow> bytes \<Rightarrow> string \<Rightarrow> bytes \<Rightarrow> bytes \<Rightarrow> string + layout" where
  "layout_of capacity_bytes blk type_guid name disk_guid part_guid =
     (if \<not> (blk = 512 \<or> blk = 4096) then
        Inl (''block size '' @ dec (unat blk) @ '': a GPT here needs 512 or 4096'')
      else
        (let bs = unat blk;
             total_lbas = unat capacity_bytes div bs;
             entry_lbas = div_ceil (ENTRIES * ENTRY_SIZE) bs;
             first_usable = 2 + entry_lbas
         in if total_lbas < 2 + entry_lbas then Inl ''drive too small for a GPT''
            else
              (let last_usable = total_lbas - (2 + entry_lbas);
                   align = ALIGN_BYTES div bs;
                   first_l = div_ceil first_usable align * align;
                   last_l = ((last_usable + 1) div align) * align
               in if last_l \<le> first_l + align then
                    Inl (''drive too small: '' @ dec (unat capacity_bytes) @ '' bytes leaves no aligned partition'')
                  else Inr (build_layout bs total_lbas entry_lbas first_l (last_l - 1)
                              type_guid name disk_guid part_guid))))"

definition partition_name :: "string \<Rightarrow> nat \<Rightarrow> string" where
  "partition_name disk n =
     (if disk \<noteq> [] \<and> ascii_digit (last disk) then disk @ ''p'' @ dec n else disk @ dec n)"

section \<open>What a layout looks like\<close>

text \<open>
  The two sector sizes a layout is built for, with the first usable block and the blocks of a
  1 MiB alignment unit.
\<close>

definition geometry :: "nat \<Rightarrow> nat \<Rightarrow> nat \<Rightarrow> bool" where
  "geometry bs usable align = ((bs, usable, align) \<in> {(512, 34, 2048), (4096, 6, 256)})"

lemma geometry_cases:
  assumes "geometry bs usable align"
  obtains (b512) "bs = 512" "usable = 34" "align = 2048" | (b4096) "bs = 4096" "usable = 6" "align = 256"
  using assms by (auto simp: geometry_def)

lemma layout_of_512:
  "layout_of cap 512 ty name dg pg =
     (let n = unat cap div 512; e = (n - 34 + 1) div 2048 * 2048
      in if n < 34 then Inl ''drive too small for a GPT''
         else if e \<le> 4096 then Inl (''drive too small: '' @ dec (unat cap) @ '' bytes leaves no aligned partition'')
         else Inr (build_layout 512 n 32 2048 (e - 1) ty name dg pg))"
  by (simp add: layout_of_def Let_def layout_simps div_ceil_def)

lemma layout_of_4096:
  "layout_of cap 4096 ty name dg pg =
     (let n = unat cap div 4096; e = (n - 6 + 1) div 256 * 256
      in if n < 6 then Inl ''drive too small for a GPT''
         else if e \<le> 512 then Inl (''drive too small: '' @ dec (unat cap) @ '' bytes leaves no aligned partition'')
         else Inr (build_layout 4096 n 4 256 (e - 1) ty name dg pg))"
  by (simp add: layout_of_def Let_def layout_simps div_ceil_def)

lemma layout_of_Inr:
  assumes "layout_of cap blk ty name dg pg = Inr l"
  obtains bs usable align total_lbas last_l where
    "geometry bs usable align" "bs = unat blk" "total_lbas = unat cap div bs"
    "usable \<le> total_lbas" "last_l + 1 = (total_lbas - usable + 1) div align * align" "2 * align < last_l + 1"
    "l = build_layout bs total_lbas (usable - 2) align last_l ty name dg pg"
proof -
  have "blk = 512 \<or> blk = 4096"
    using assms by (simp add: layout_of_def split: if_splits)
  then show ?thesis
  proof
    assume b: "blk = 512"
    obtain n e where n: "n = unat cap div 512" and e: "e = (n - 34 + 1) div 2048 * 2048" by simp
    from assms have "34 \<le> n" "4096 < e" "l = build_layout 512 n 32 2048 (e - 1) ty name dg pg"
      by (simp_all only: b layout_of_512 Let_def n [symmetric] e [symmetric] not_less not_le
          sum.inject Inl_Inr_False split: if_splits)
    note l = this
    then have e1: "e - 1 + 1 = e" by simp
    show ?thesis
    proof (rule that)
      show "geometry 512 34 2048" by (simp add: geometry_def)
      show "n = unat cap div 512" by (rule n)
      show "e - 1 + 1 = (n - 34 + 1) div 2048 * 2048" unfolding e1 by (rule e)
      show "2 * 2048 < e - 1 + 1" unfolding e1 using l(2) by simp
      show "l = build_layout 512 n (34 - 2) 2048 (e - 1) ty name dg pg" using l(3) by simp
    qed (use l(1) b in simp_all)
  next
    assume b: "blk = 4096"
    obtain n e where n: "n = unat cap div 4096" and e: "e = (n - 6 + 1) div 256 * 256" by simp
    from assms have "6 \<le> n" "512 < e" "l = build_layout 4096 n 4 256 (e - 1) ty name dg pg"
      by (simp_all only: b layout_of_4096 Let_def n [symmetric] e [symmetric] not_less not_le
          sum.inject Inl_Inr_False split: if_splits)
    note l = this
    then have e1: "e - 1 + 1 = e" by simp
    show ?thesis
    proof (rule that)
      show "geometry 4096 6 256" by (simp add: geometry_def)
      show "n = unat cap div 4096" by (rule n)
      show "e - 1 + 1 = (n - 6 + 1) div 256 * 256" unfolding e1 by (rule e)
      show "2 * 256 < e - 1 + 1" unfolding e1 using l(2) by simp
      show "l = build_layout 4096 n (6 - 2) 256 (e - 1) ty name dg pg" using l(3) by simp
    qed (use l(1) b in simp_all)
  qed
qed

lemma length_EFI_PART [simp]: "length EFI_PART = 8"
  by (simp add: EFI_PART_def)

lemma length_header_fields:
  "92 \<le> bs \<Longrightarrow> length dg = 16 \<Longrightarrow> length (header_fields a b c d dg e f bs) = bs"
  unfolding header_fields_def by (subst length_puts) simp_all

lemma length_header: "92 \<le> bs \<Longrightarrow> length dg = 16 \<Longrightarrow> length (header a b c d dg e f bs) = bs"
  by (simp add: header_def Let_def length_put length_header_fields)

lemma length_protective_mbr: "512 \<le> bs \<Longrightarrow> length (protective_mbr bs n) = bs"
  unfolding protective_mbr_def by (subst length_puts) simp_all

lemma length_pad_to [bytes_simps]: "length bs \<le> n \<Longrightarrow> length (pad_to n bs) = n"
  by (simp add: pad_to_def)

lemma length_concat_units: "length (concat (map (word_le 2) us)) = 2 * length us"
  by (induction us) (simp_all add: bytes_simps)

lemma length_entry_table:
  "length ty = 16 \<Longrightarrow> length pg = 16 \<Longrightarrow> length (entry_table ty pg a b name) = 16384"
  unfolding entry_table_def
  by (subst length_puts) (simp_all add: layout_simps length_concat_units min_def)

text \<open>
  Nothing the layout writes overlaps: the primary tables end before the partition, the partition
  ends before the backup tables, and those end with the drive's last whole block.
\<close>

lemma layout_regions:
  assumes l: "layout_of cap blk ty name dg pg = Inr l"
    and len: "length ty = 16" "length dg = 16" "length pg = 16"
  shows "length (primary l) \<le> first_lba l * block_size l
    \<and> first_lba l * block_size l + partition_bytes l \<le> backup_offset l
    \<and> backup_offset l + length (backup l) = unat cap div block_size l * block_size l"
  using l
proof (rule layout_of_Inr)
  fix bs usable align total_lbas last_l
  assume g: "geometry bs usable align" and n: "total_lbas = unat cap div bs" "usable \<le> total_lbas"
    and e: "last_l + 1 = (total_lbas - usable + 1) div align * align" "2 * align < last_l + 1"
    and L: "l = build_layout bs total_lbas (usable - 2) align last_l ty name dg pg"
  have "last_l + 1 \<le> total_lbas - usable + 1" unfolding e(1) by simp
  moreover have "align \<le> last_l" using e(2) by simp
  ultimately have part: "align + (last_l - align + 1) \<le> total_lbas - 1 - (usable - 2)"
    using g n(2) by (auto simp: geometry_def)
  have "align * bs + (last_l - align + 1) * bs \<le> (total_lbas - 1 - (usable - 2)) * bs"
    unfolding add_mult_distrib [symmetric] by (rule mult_right_mono [OF part]) simp
  moreover have "(total_lbas - 1 - (usable - 2)) * bs + (usable - 2) * bs + bs = total_lbas * bs"
  proof -
    have "total_lbas - 1 - (usable - 2) + (usable - 2) + 1 = total_lbas"
      using g n(2) by (auto simp: geometry_def)
    then show ?thesis by (metis add_mult_distrib mult_1)
  qed
  moreover have "bs + bs + (usable - 2) * bs \<le> align * bs" "16384 \<le> (usable - 2) * bs" "512 \<le> bs"
    using g by (auto simp: geometry_def)
  ultimately show ?thesis
    using len n(1) by (simp add: L build_layout_def Let_def partition_bytes_def bytes_simps length_header length_protective_mbr
        length_entry_table add.assoc)
qed

lemma layout_size:
  assumes l: "layout_of cap blk ty nm dg pg = Inr l" and len: "length ty = 16" "length dg = 16" "length pg = 16"
  shows "length (primary l) \<le> first_lba l * block_size l"
    and "first_lba l * block_size l + partition_bytes l \<le> backup_offset l"
    and "backup_offset l + length (backup l) \<le> unat cap"
    and "2 * 2 ^ 20 \<le> partition_bytes l"
    and "first_lba l * block_size l = 2 ^ 20"
    and "(last_lba l + 1) * block_size l mod 2 ^ 20 = 0"
  using layout_regions [OF l len] l
proof -
  obtain bs usable align n last_l where g: "geometry bs usable align"
    and e: "2 * align < last_l + 1" "last_l + 1 = (n - usable + 1) div align * align"
    and L: "l = build_layout bs n (usable - 2) align last_l ty nm dg pg"
    using l by (rule layout_of_Inr) metis
  show "length (primary l) \<le> first_lba l * block_size l"
    and "first_lba l * block_size l + partition_bytes l \<le> backup_offset l"
    using layout_regions [OF l len] by simp_all
  show "backup_offset l + length (backup l) \<le> unat cap"
    using layout_regions [OF l len] by (metis div_times_less_eq_dividend)
  have fb: "first_lba l = align" "last_lba l = last_l" "block_size l = bs"
    by (simp_all add: L build_layout_def Let_def)
  have "2 < (n - usable + 1) div align" using e g by (auto simp: geometry_def)
  then have "3 * align \<le> last_l + 1" unfolding e(2) by simp
  then have "2 * align * bs \<le> (last_l - align + 1) * bs" by (intro mult_right_mono) simp_all
  with g show "2 * 2 ^ 20 \<le> partition_bytes l" "first_lba l * block_size l = 2 ^ 20"
    by (auto simp: partition_bytes_def fb geometry_def)
  have "(last_lba l + 1) * block_size l = (n - usable + 1) div align * (align * bs)"
    unfolding fb e(2) by simp
  with g show "(last_lba l + 1) * block_size l mod 2 ^ 20 = 0" by (auto simp: geometry_def)
qed

lemma layout_of_Inr_iff:
  "(\<exists>l. layout_of cap blk ty nm dg pg = Inr l) \<longleftrightarrow>
     blk = 512 \<and> 6177 \<le> unat cap div 512 \<or> blk = 4096 \<and> 773 \<le> unat cap div 4096"
proof -
  have q: "2 * a < m div a * a \<longleftrightarrow> 3 * a \<le> m" if "0 < a" for a m :: nat
  proof -
    have "2 * a < m div a * a \<longleftrightarrow> 3 \<le> m div a" using that by auto
    also have "\<dots> \<longleftrightarrow> 3 * a \<le> m" using that by (rule less_eq_div_iff_mult_less_eq)
    finally show ?thesis .
  qed
  have b512: "(\<exists>l. layout_of cap 512 ty nm dg pg = Inr l) \<longleftrightarrow> 6177 \<le> unat cap div 512"
    using q [of 2048 "unat cap div 512 - 34 + 1"] by (auto simp: layout_of_512 Let_def)
  have b4096: "(\<exists>l. layout_of cap 4096 ty nm dg pg = Inr l) \<longleftrightarrow> 773 \<le> unat cap div 4096"
    using q [of 256 "unat cap div 4096 - 6 + 1"] by (auto simp: layout_of_4096 Let_def)
  have "blk = 512 \<or> blk = 4096" if "layout_of cap blk ty nm dg pg = Inr l" for l
    using that by (simp add: layout_of_def split: if_splits)
  with b512 b4096 show ?thesis by blast
qed

section \<open>The header's CRC\<close>

text \<open>
  The check a GPT reader makes (UEFI 5.3.2): the stored CRC against the CRC of the first 92 bytes
  with the CRC field zeroed.
\<close>

definition header_crc_ok :: "bytes \<Rightarrow> bool" where
  "header_crc_ok h = (word_of_le (slice 16 4 h) = crc32 (put 16 (replicate 4 0) (take 92 h)))"

lemma put_zero_of_fields:
  assumes "92 \<le> bs" "length dg = 16"
  shows "put 16 (replicate 4 0) (take 92 (header my alt fu lu dg el crc bs))
      = take 92 (header_fields my alt fu lu dg el crc bs)"
proof -
  let ?f = "header_fields my alt fu lu dg el crc bs"
  let ?c = "word_le 4 (crc32 (take 92 ?f)) :: bytes"
  have len: "length ?f = bs" using assms by (rule length_header_fields)
  have "slice 16 4 ?f = slice 16 4 (replicate bs 0)"
    unfolding header_fields_def using assms by (intro slice_puts_clear) simp_all
  then have z: "slice 16 4 ?f = replicate 4 0" using assms by (simp add: slice_replicate)
  have "take 92 (put 16 ?c ?f) = take 16 ?f @ ?c @ take 72 (drop 20 ?f)"
    using assms len by (simp add: put_def)
  then have "put 16 (replicate 4 0) (take 92 (put 16 ?c ?f)) = take 16 ?f @ slice 16 4 ?f @ take 72 (drop 20 ?f)"
    using assms len z by (simp add: put_def)
  also have "\<dots> = take 92 ?f"
  proof -
    have "take 92 ?f = take (16 + (4 + 72)) ?f" by simp
    then show ?thesis by (simp only: take_add slice_def drop_drop) simp
  qed
  finally show ?thesis by (simp add: header_def Let_def)
qed

lemma header_crc_ok_header:
  "92 \<le> bs \<Longrightarrow> length dg = 16 \<Longrightarrow> header_crc_ok (header my alt fu lu dg el crc bs)"
  by (simp add: header_crc_ok_def put_zero_of_fields)
    (simp add: header_def Let_def slice_put_same length_header_fields word_of_le_word_le)

lemma crc32_list_update:
  assumes "i < length xs" "b \<noteq> xs ! i"
  shows "crc32 (xs[i := b]) \<noteq> crc32 xs"
proof -
  have "xs[i := b] = take i xs @ b # drop (Suc i) xs" using assms(1) by (rule upd_conv_take_nth_drop)
  moreover have "xs = take i xs @ xs ! i # drop (Suc i) xs" using assms(1) by (rule id_take_nth_drop)
  ultimately show ?thesis using assms(2) crc32_one_byte [of "take i xs" "take i xs"] by metis
qed

lemma word_of_le_inj:
  "length xs = k \<Longrightarrow> length ys = k \<Longrightarrow> 8 * k \<le> LENGTH('a) \<Longrightarrow>
    (word_of_le xs :: 'a::len word) = word_of_le ys \<Longrightarrow> xs = ys"
  by (metis le_bytes_nat_of_le unat_word_of_le)

lemma header_crc_not_ok:
  assumes ok: "header_crc_ok h" and len: "92 \<le> length h" and i: "i < 92" "b \<noteq> h ! i"
  shows "\<not> header_crc_ok (h[i := b])"
proof (cases "16 \<le> i \<and> i < 20")
  case True
  have "(take 16 h)[i := b] = take 16 h"
    using True by (intro list_update_beyond) (simp add: min.coboundedI2)
  then have "put 16 (replicate 4 0) (take 92 (h[i := b])) = put 16 (replicate 4 0) (take 92 h)"
    using True by (simp add: put_def take_update_swap drop_update_swap)
  moreover have "slice 16 4 (h[i := b]) \<noteq> slice 16 4 h"
  proof
    assume "slice 16 4 (h[i := b]) = slice 16 4 h"
    then have "slice 16 4 (h[i := b]) ! (i - 16) = slice 16 4 h ! (i - 16)" by simp
    moreover have "i - 16 < 4" "16 + (i - 16) = i" using True by linarith+
    ultimately show False using len i by (simp add: slice_def)
  qed
  then have "(word_of_le (slice 16 4 (h[i := b])) :: u32) \<noteq> word_of_le (slice 16 4 h)"
    using len word_of_le_inj [where 'a = 32, of "slice 16 4 (h[i := b])" 4 "slice 16 4 h"]
    by (auto simp: length_slice)
  ultimately show ?thesis using ok by (simp add: header_crc_ok_def)
next
  case False
  have "slice 16 4 (h[i := b]) = slice 16 4 h"
    using False by (cases "i < 16") (simp_all add: slice_def drop_update_swap)
  moreover have "put 16 (replicate 4 0) (take 92 (h[i := b])) = (put 16 (replicate 4 0) (take 92 h))[i := b]"
    using False len i by (subst put_list_update [symmetric]) (simp_all add: take_update_swap, linarith)
  moreover have "put 16 (replicate 4 0) (take 92 h) ! i = h ! i"
    using False len i by (auto simp: nth_put)
  moreover have "length (put 16 (replicate 4 0) (take 92 h)) = 92"
    using len by (simp add: length_put)
  ultimately show ?thesis
    using ok i crc32_list_update [of i "put 16 (replicate 4 0) (take 92 h)" b]
    by (simp add: header_crc_ok_def)
qed

section \<open>Properties\<close>

text \<open>
  C28. A layout is built exactly for the two sector sizes the kernel uses, on drives
  with room for three aligned units between the tables. Then the partition starts at 1 MiB, its
  end is aligned too, it holds at least 2 MiB, and the primary table, the partition and the
  backup table follow each other on the drive without overlap.
\<close>

theorem layout_sound:
  assumes len: "length ty = 16" "length dg = 16" "length pg = 16"
  shows "((\<exists>l. layout_of cap blk ty nm dg pg = Inr l) \<longleftrightarrow>
      blk = 512 \<and> 6177 \<le> unat cap div 512 \<or> blk = 4096 \<and> 773 \<le> unat cap div 4096)
    \<and> (\<forall>l. layout_of cap blk ty nm dg pg = Inr l \<longrightarrow>
      first_lba l * block_size l = 2 ^ 20 \<and> (last_lba l + 1) * block_size l mod 2 ^ 20 = 0
      \<and> 2 * 2 ^ 20 \<le> partition_bytes l
      \<and> length (primary l) \<le> first_lba l * block_size l
      \<and> first_lba l * block_size l + partition_bytes l \<le> backup_offset l
      \<and> backup_offset l + length (backup l) \<le> unat cap)"
  using layout_size [OF _ len] by (intro conjI layout_of_Inr_iff allI impI) blast+

theorem layout_sound_witness:
  "(\<exists>l. layout_of 4194304 512 TYPE_SLAB ''x'' (replicate 16 1) (replicate 16 2) = Inr l
      \<and> first_lba l * block_size l = 2 ^ 20 \<and> backup_offset l + length (backup l) \<le> 4194304)
    \<and> (\<nexists>l. layout_of 4194304 520 TYPE_SLAB ''x'' (replicate 16 1) (replicate 16 2) = Inr l)"
  using layout_sound [of TYPE_SLAB "replicate 16 1" "replicate 16 2" 4194304 512 "''x''"]
    layout_sound [of TYPE_SLAB "replicate 16 1" "replicate 16 2" 4194304 520 "''x''"]
  by (auto simp: TYPE_SLAB_def)

text \<open>
  The header a layout writes passes the check a GPT reader makes, and no
  longer passes it when any one of its 92 bytes was changed.
\<close>

theorem header_crc_detects:
  assumes "92 \<le> bs" "length dg = 16"
  shows "header_crc_ok (header my alt fu lu dg el crc bs)
    \<and> (\<forall>i < 92. \<forall>b. b \<noteq> header my alt fu lu dg el crc bs ! i \<longrightarrow>
        \<not> header_crc_ok ((header my alt fu lu dg el crc bs)[i := b]))"
  using assms header_crc_ok_header header_crc_not_ok by (simp add: length_header)

theorem header_crc_detects_witness:
  "header_crc_ok (header 1 8191 34 8158 (replicate 16 1) 2 5 512)
    \<and> \<not> header_crc_ok ((header 1 8191 34 8158 (replicate 16 1) 2 5 512)
          [0 := header 1 8191 34 8158 (replicate 16 1) 2 5 512 ! 0 + 1])"
  using header_crc_detects [of 512 "replicate 16 1" 1 8191 34 8158 2 5] by simp

end
