(* ===== verification/Contents.thy ===== *)
theory Contents
  imports Gpt
begin

text \<open>
  \<open>src/src/contents.rs\<close>: what is on a drive that a destructive step would destroy. The
  parsers of a GPT and of the on-disk signatures, the probe for stormblock slabs and the
  sentences the API shows. A drive's content is a read function \<open>off \<Rightarrow> len \<Rightarrow> bytes option\<close>
  (\<open>None\<close>: the read failed), which stands for \<open>read_exact_at\<close> on the opened device. Block numbers
  are turned into byte offsets by a \<open>u64\<close> multiplication, which wraps in a release build.
\<close>

definition SLAB_MAGIC :: bytes where
  "SLAB_MAGIC = [0x53, 0x54, 0x52, 0x4D, 0x53, 0x4C, 0x41, 0x42]"

definition STORMRAID_MAGIC :: bytes where
  "STORMRAID_MAGIC = [0x53, 0x54, 0x4F, 0x52, 0x4D, 0x52, 0x44, 0x31]"

definition STORMRAID_HOLDER :: string where
  "STORMRAID_HOLDER = ''stormraid (a RAID set member)''"

definition is_slab_header :: "bytes \<Rightarrow> bool" where
  "is_slab_header buf = (8 \<le> length buf \<and> take 8 buf = SLAB_MAGIC)"

section \<open>The GPT, read\<close>

record gpt_header =
  gh_entries_lba :: u64
  gh_entries :: u32
  gh_entry_size :: u32

definition parse_gpt_header :: "bytes \<Rightarrow> gpt_header option" where
  "parse_gpt_header buf =
     (if length buf < 92 \<or> take 8 buf \<noteq> EFI_PART then None
      else
        (let h = \<lparr>gh_entries_lba = word_of_le (slice 72 8 buf),
                  gh_entries = word_of_le (slice 80 4 buf),
                  gh_entry_size = word_of_le (slice 84 4 buf)\<rparr>
         in if gh_entries_lba h < 2 \<or> gh_entries h = 0 \<or> 1024 < gh_entries h then None
            else if gh_entry_size h < 128 \<or> 4096 < gh_entry_size h \<or> gh_entry_size h mod 8 \<noteq> 0 then None
            else Some h))"

record gpt_partition =
  gp_index :: nat
  gp_first_lba :: u64
  gp_name :: string
  gp_type_guid :: bytes

text \<open>One entry, at position \<open>i\<close> of the array: \<open>None\<close> for an unused or malformed one.\<close>

definition gpt_entry :: "nat \<Rightarrow> bytes \<Rightarrow> gpt_partition option" where
  "gpt_entry i e =
     (if \<not> list_ex (\<lambda>b. b \<noteq> 0) (take 16 e) then None
      else
        (let first_l = word_of_le (slice 32 8 e) :: u64;
             last_l = word_of_le (slice 40 8 e) :: u64
         in if first_l = 0 \<or> last_l < first_l then None
            else
              (let units = takeWhile (\<lambda>u. u \<noteq> 0) (map word_of_le (chunks_exact 2 (slice 56 72 e)))
               in Some \<lparr>gp_index = i + 1, gp_first_lba = first_l, gp_name = from_utf16_lossy units,
                        gp_type_guid = take 16 e\<rparr>)))"

definition parse_gpt_entries :: "bytes \<Rightarrow> gpt_header \<Rightarrow> gpt_partition list" where
  "parse_gpt_entries buf h =
     List.map_filter (\<lambda>(i, e). gpt_entry i e)
       (enumerate 0 (take (unat (gh_entries h)) (chunks_exact (unat (gh_entry_size h)) buf)))"

section \<open>Signatures\<close>

definition SIGNATURE_BYTES :: nat where
  "SIGNATURE_BYTES = 64 * 1024 + 4096"

definition magic_at :: "bytes \<Rightarrow> nat \<Rightarrow> bytes \<Rightarrow> bool" where
  "magic_at buf off magic = (off + length magic \<le> length buf \<and> slice off (length magic) buf = magic)"

definition bytes_of :: "string \<Rightarrow> bytes" where
  "bytes_of s = map (\<lambda>c. word_of_nat (of_char c)) s"

definition fs_signature :: "bytes \<Rightarrow> string option" where
  "fs_signature buf =
     (let at = magic_at buf in
      if at 0 SLAB_MAGIC then Some ''stormblock slab''
      else if at 0 STORMRAID_MAGIC then Some ''stormraid member''
      else if at 0 (bytes_of ''LUKS'' @ [0xba, 0xbe]) then Some ''LUKS''
      else if at 0 (bytes_of ''XFSB'') then Some ''xfs''
      else if at 3 (bytes_of ''NTFS    '') then Some ''ntfs''
      else if at 0x438 [0x53, 0xEF] then Some ''ext2/3/4''
      else if at 0x10040 (bytes_of ''_BHRfS_M'') then Some ''btrfs''
      else if at 0x218 (bytes_of ''LVM2 001'') \<or> at 0x018 (bytes_of ''LVM2 001'') then Some ''LVM2''
      else if at (4096 - 10) (bytes_of ''SWAPSPACE2'') \<or> at (4096 - 10) (bytes_of ''SWAP-SPACE'')
        then Some ''swap''
      else if at 4096 [0xfc, 0x4e, 0x2b, 0xa9] \<or> at 0 [0xfc, 0x4e, 0x2b, 0xa9] then Some ''linux_raid''
      else if at 510 [0x55, 0xAA]
          \<and> (at 82 (bytes_of ''FAT32   '') \<or> at 54 (bytes_of ''FAT16   '') \<or> at 54 (bytes_of ''FAT12   ''))
        then Some ''vfat''
      else None)"

definition describe_holdings :: "(string option \<times> string) list \<Rightarrow> string option" where
  "describe_holdings found =
     (if found = [] then None
      else Some (join '', '' (map (\<lambda>(part, what). case part of
             None \<Rightarrow> what @ '' (whole drive)''
           | Some p \<Rightarrow> what @ '' in partition '' @ p) found)))"

text \<open>
  A drive the kernel cannot read (\<open>describe_raw\<close>): blank, or somebody's data, with up to three
  printable runs of at least six characters. The scan ends with a zero byte, which closes the
  last run.
\<close>

definition raw_printable :: "u8 \<Rightarrow> bool" where
  "raw_printable b =
     (let n = unat b in 48 \<le> n \<and> n \<le> 57 \<or> 65 \<le> n \<and> n \<le> 90 \<or> 97 \<le> n \<and> n \<le> 122
        \<or> b \<in> set (bytes_of ''_-.:/''))"

fun raw_strings :: "bytes \<Rightarrow> string \<Rightarrow> string list \<Rightarrow> string list" where
  "raw_strings [] run found = found"
| "raw_strings (b # bs) run found =
     (if raw_printable b then raw_strings bs (run @ [char_of (unat b)]) found
      else raw_strings bs []
        (if 6 \<le> length run \<and> run \<notin> set found \<and> length found < 3 then found @ [run] else found))"

text \<open>\<open>{:?}\<close> of a run: its characters need no escape, so only the quotes are added.\<close>

definition describe_raw :: "bytes \<Rightarrow> u32 \<Rightarrow> string option" where
  "describe_raw buf block_len =
     (if list_all (\<lambda>b. b = 0) buf then None
      else
        (let strings = raw_strings (buf @ [0]) [] [];
             blocks = length buf div max (unat block_len) 1;
             s = ''foreign data ('' @ dec (unat block_len) @ ''-byte sectors): first '' @ dec blocks
                 @ '' blocks not blank''
         in Some (if strings \<noteq> []
                  then s @ ''; strings: ''
                       @ join '', '' (map (\<lambda>x. [char_of (34 :: nat)] @ x @ [char_of (34 :: nat)]) strings)
                  else s)))"

definition describe_slabs :: "bool \<Rightarrow> string list \<Rightarrow> string option" where
  "describe_slabs whole_drive partitions =
     (if whole_drive then Some ''stormblock (a slab on the whole drive)''
      else if partitions = [] then None
      else Some (''stormblock (slabs in partitions '' @ join '', '' partitions @ '')''))"

section \<open>Slabs\<close>

record slab_part =
  sp_partition :: "nat option"
  sp_name :: string
  sp_role :: string
  sp_offset_bytes :: nat

definition slab_role :: "bytes \<Rightarrow> string" where
  "slab_role ty = (if ty = TYPE_SLAB_DATA then ''data'' else if ty = TYPE_SLAB then ''system'' else ''unknown'')"

type_synonym disk = "nat \<Rightarrow> nat \<Rightarrow> bytes option"

definition byte_offset :: "u64 \<Rightarrow> nat \<Rightarrow> nat" where
  "byte_offset lba lbs = unat (lba * word_of_nat lbs)"

text \<open>The GPT of a disk under one sector size: \<open>None\<close> makes the loop go on to the next size.\<close>

definition gpt_at :: "disk \<Rightarrow> nat \<Rightarrow> gpt_partition list option" where
  "gpt_at rd lbs =
     (case Option.bind (rd lbs 512) parse_gpt_header of
        None \<Rightarrow> None
      | Some h \<Rightarrow>
          (case rd (byte_offset (gh_entries_lba h) lbs) (unat (gh_entries h) * unat (gh_entry_size h)) of
             None \<Rightarrow> None
           | Some table \<Rightarrow> Some (parse_gpt_entries table h)))"

fun first_gpt :: "disk \<Rightarrow> nat list \<Rightarrow> (nat \<times> gpt_partition list) option" where
  "first_gpt rd [] = None"
| "first_gpt rd (lbs # sizes) =
     (case gpt_at rd lbs of Some ps \<Rightarrow> Some (lbs, ps) | None \<Rightarrow> first_gpt rd sizes)"

definition holds :: "disk \<Rightarrow> string option" where
  "holds rd =
     (let whole = (case Option.bind (rd 0 SIGNATURE_BYTES) fs_signature of
                     Some w \<Rightarrow> [(None, w)] | None \<Rightarrow> []);
          parts = (case first_gpt rd [512, 4096] of
                     None \<Rightarrow> []
                   | Some (lbs, ps) \<Rightarrow>
                       List.map_filter (\<lambda>p. map_option
                           (\<lambda>w. (Some (if gp_name p = [] then dec (gp_index p)
                                       else dec (gp_index p) @ '' '' @ quoted (gp_name p)), w))
                           (Option.bind (rd (byte_offset (gp_first_lba p) lbs) SIGNATURE_BYTES) fs_signature)) ps)
      in describe_holdings (whole @ parts))"

definition probe_slabs :: "disk \<Rightarrow> string option \<times> slab_part list" where
  "probe_slabs rd =
     (case rd 0 512 of
        None \<Rightarrow> (None, [])
      | Some head \<Rightarrow>
          if is_slab_header head then
            (describe_slabs True [],
             [\<lparr>sp_partition = None, sp_name = [], sp_role = ''unknown'', sp_offset_bytes = 0\<rparr>])
          else if prefix STORMRAID_MAGIC head then (Some STORMRAID_HOLDER, [])
          else
            (case first_gpt rd [512, 4096] of
               None \<Rightarrow> (None, [])
             | Some (lbs, ps) \<Rightarrow>
                 (let parts = filter (\<lambda>p. is_some_and is_slab_header (rd (byte_offset (gp_first_lba p) lbs) 512)) ps
                  in (describe_slabs False
                        (map (\<lambda>p. if gp_name p = [] then ''#'' @ dec (gp_index p)
                                  else dec (gp_index p) @ '' '' @ quoted (gp_name p)) parts),
                      map (\<lambda>p. \<lparr>sp_partition = Some (gp_index p), sp_name = gp_name p,
                                sp_role = slab_role (gp_type_guid p),
                                sp_offset_bytes = byte_offset (gp_first_lba p) lbs\<rparr>) parts))))"

section \<open>A written table reads back\<close>

text \<open>The bytes of a header \<open>header_fields\<close> decides, after the CRC went into bytes 16 to 19.\<close>

lemma slice_header:
  assumes "92 \<le> bs" "length dg = 16" "a + n \<le> 16 \<or> 20 \<le> a"
  shows "slice a n (header my alt fu lu dg el crc bs) = slice a n (header_fields my alt fu lu dg el crc bs)"
  using assms by (auto simp: header_def Let_def length_header_fields slice_put_before slice_put_after)

lemma header_parses:
  assumes "512 \<le> bs" "length dg = 16"
  shows "parse_gpt_header (slice 0 512 (header my alt fu lu dg el crc bs)) =
    (if el mod 2 ^ 64 < 2 then None
     else Some \<lparr>gh_entries_lba = word_of_nat el, gh_entries = 128, gh_entry_size = 128\<rparr>)"
proof -
  let ?h = "header my alt fu lu dg el crc bs"
  let ?buf = "slice 0 512 ?h"
  have len: "length ?buf = 512"
    using assms by (simp add: length_slice length_header)
  have field: "slice a n ?buf = v"
    if "field_at a n
       [(0, EFI_PART), (8, le_bytes 4 0x00010000), (12, le_bytes 4 92), (24, le_bytes 8 my),
        (32, le_bytes 8 alt), (40, le_bytes 8 fu), (48, le_bytes 8 lu), (56, dg),
        (72, le_bytes 8 el), (80, le_bytes 4 ENTRIES), (84, le_bytes 4 ENTRY_SIZE),
        (88, word_le 4 crc)] = Some v" and "a + n \<le> 16 \<or> 20 \<le> a" and "a + n \<le> 512" for a n v
  proof -
    have "slice a n ?buf = slice a n ?h" using that(3) by (simp add: slice_slice)
    also have "\<dots> = slice a n (header_fields my alt fu lu dg el crc bs)"
      using assms that(2) by (simp add: slice_header)
    also have "\<dots> = v"
      unfolding header_fields_def using that(1) assms by (intro slice_puts_field) simp_all
    finally show ?thesis .
  qed
  have magic: "take 8 ?buf = EFI_PART"
    using field [of 0 8 EFI_PART] assms(2) by (simp add: slice_def)
  have el: "slice 72 8 ?buf = le_bytes 8 el"
    and n: "slice 80 4 ?buf = le_bytes 4 ENTRIES"
    and sz: "slice 84 4 ?buf = le_bytes 4 ENTRY_SIZE"
    using assms(2) by (simp_all add: field)
  have w: "(word_of_le (le_bytes 8 el) :: u64) = word_of_nat el"
    by (rule word_of_le_le_bytes) simp
  have w128: "(word_of_le (le_bytes 4 128) :: u32) = 128"
    by (simp add: word_of_le_def nat_of_le_bytes)
  have "(word_of_nat el :: u64) < 2 \<longleftrightarrow> el mod 2 ^ 64 < 2"
    by (simp add: word_less_nat_alt unat_of_nat)
  then show ?thesis
    by (simp add: parse_gpt_header_def len magic el n sz w w128 layout_simps Let_def)
qed

text \<open>The name field: the units of an ASCII name, closed by a zero unit or by the field's end.\<close>

lemma units_of_name_field:
  assumes a: "ascii nm" and nz: "CHR 0x00 \<notin> set nm" and len: "length nm \<le> 36"
  shows "takeWhile (\<lambda>u. u \<noteq> 0) (map word_of_le (chunks_exact 2
      (concat (map (word_le 2) (encode_utf16 nm)) @ replicate (72 - 2 * length nm) 0)))
    = encode_utf16 nm"
proof -
  have two: "\<forall>x \<in> set (map (word_le 2) us). length x = 2" for us :: "u16 list"
    by (simp add: bytes_simps)
  have rep: "replicate (72 - 2 * length nm) (0::u8) = concat (replicate (36 - length nm) [0, 0])"
  proof -
    have "concat (replicate m [0, 0]) = replicate (2 * m) (0::u8)" for m
      by (induction m) simp_all
    moreover have "72 - 2 * length nm = 2 * (36 - length nm)" by simp
    ultimately show ?thesis by metis
  qed
  have "chunks_exact 2 (concat (map (word_le 2) (encode_utf16 nm)) @ replicate (72 - 2 * length nm) 0)
      = map (word_le 2) (encode_utf16 nm) @ replicate (36 - length nm) [0, 0]"
    unfolding rep concat_append [symmetric]
    using two by (intro chunks_exact_concat) auto
  moreover have "map word_of_le (map (word_le 2) (encode_utf16 nm)) = encode_utf16 nm"
    by (simp add: comp_def word_of_le_word_le)
  moreover have "(0::u16) \<notin> set (encode_utf16 nm)"
  proof
    assume "(0::u16) \<in> set (encode_utf16 nm)"
    then obtain c where c: "c \<in> set nm" "(word_of_nat (of_char c) :: u16) = 0"
      using a by (auto simp: encode_utf16_ascii)
    then have "(of_char c :: nat) mod 2 ^ 16 = 0" by (simp add: word_unat_eq_iff unat_of_nat)
    moreover have "(of_char c :: nat) < 0x80" using a c(1) by (simp add: ascii_def list_all_iff)
    ultimately have "(of_char c :: nat) = 0" by simp
    then have "of_char c = (of_char (CHR 0x00) :: nat)" by simp
    then have "c = CHR 0x00" by (simp only: of_char_eq_iff)
    with c(1) nz show False by simp
  qed
  moreover have "word_of_le [0, 0] = (0::u16)" by (simp add: word_of_le_def)
  ultimately show ?thesis
    by (cases "36 - length nm") (auto simp: takeWhile_append2 takeWhile_append takeWhile_eq_all_conv)
qed

lemma entry_table_split:
  assumes "length ty = 16" "length pg = 16"
  obtains e where
    "entry_table ty pg a b nm = e @ replicate (128 * 127) 0" "length e = 128"
    "take 16 e = ty" "slice 32 8 e = le_bytes 8 a" "slice 40 8 e = le_bytes 8 b"
    "slice 56 72 e = concat (map (word_le 2) (take 36 (encode_utf16 nm)))
       @ replicate (72 - 2 * length (take 36 (encode_utf16 nm))) 0"
proof -
  obtain us where us: "us = take 36 (encode_utf16 nm)" by simp
  let ?ws = "[(0, ty), (16, pg), (32, le_bytes 8 a), (40, le_bytes 8 b), (56, concat (map (word_le 2) us))]"
  obtain e where e: "e = puts ?ws (replicate 128 (0::u8))" by simp
  have u: "length us \<le> 36" by (simp add: us)
  have fits: "fits (length (replicate 128 (0::u8))) ?ws"
    using assms u by (simp add: length_concat_units)
  have "replicate (ENTRIES * ENTRY_SIZE) (0::u8) = replicate 128 0 @ replicate (128 * 127) 0"
    by (simp add: layout_simps flip: replicate_add)
  then have split: "entry_table ty pg a b nm = e @ replicate (128 * 127) 0"
    unfolding entry_table_def us [symmetric] e using puts_append_left [OF fits] by simp
  have len: "length e = 128" unfolding e using length_puts [OF fits] by simp
  have field: "slice x n e = v" if "field_at x n ?ws = Some v" for x n v
    unfolding e using fits that by (rule slice_puts_field)
  have ty: "take 16 e = ty"
    using field [of 0 16 ty] assms u by (simp add: slice_def length_concat_units)
  have a: "slice 32 8 e = le_bytes 8 a" and b: "slice 40 8 e = le_bytes 8 b"
    using u by (simp_all add: field length_concat_units)
  have name: "slice 56 (2 * length us) e = concat (map (word_le 2) us)"
    by (rule field) (simp add: length_concat_units)
  have "slice (56 + 2 * length us) (72 - 2 * length us) e
      = slice (56 + 2 * length us) (72 - 2 * length us) (replicate 128 0)"
    unfolding e using assms u by (intro slice_puts_clear [OF fits]) (auto simp: length_concat_units)
  then have rest: "slice (56 + 2 * length us) (72 - 2 * length us) e = replicate (72 - 2 * length us) 0"
    using u by (simp add: slice_replicate)
  have "take (m + k) ys = take m ys @ take k (drop m ys)" for m k and ys :: bytes
    by (rule take_add)
  from this [of "2 * length us" "72 - 2 * length us" "drop 56 e"] u
  have "slice 56 72 e = slice 56 (2 * length us) e @ slice (56 + 2 * length us) (72 - 2 * length us) e"
    by (simp add: slice_def add.commute)
  also have "\<dots> = concat (map (word_le 2) us) @ replicate (72 - 2 * length us) 0"
    by (simp only: name rest)
  finally show ?thesis
    by (intro that [OF split len ty a b]) (simp add: us)
qed

lemma gpt_entry_zero: "gpt_entry i (replicate 128 0) = None"
  by (simp add: gpt_entry_def list_ex_iff)

lemma parse_gpt_entries_entry_table:
  assumes len: "length ty = 16" "length pg = 16"
    and ty: "list_ex (\<lambda>b. b \<noteq> 0) ty"
    and ab: "0 < a" "a \<le> b" "b < 2 ^ 64"
    and nm: "ascii nm" "CHR 0x00 \<notin> set nm" "length nm \<le> 36"
  shows "parse_gpt_entries (entry_table ty pg a b nm)
      \<lparr>gh_entries_lba = l, gh_entries = 128, gh_entry_size = 128\<rparr>
    = [\<lparr>gp_index = 1, gp_first_lba = word_of_nat a, gp_name = nm, gp_type_guid = ty\<rparr>]"
  using len
proof (rule entry_table_split)
  fix e
  assume split: "entry_table ty pg a b nm = e @ replicate (128 * 127) 0"
    and len_e: "length e = 128" and e_ty: "take 16 e = ty"
    and e_a: "slice 32 8 e = le_bytes 8 a" and e_b: "slice 40 8 e = le_bytes 8 b"
    and e_name: "slice 56 72 e = concat (map (word_le 2) (take 36 (encode_utf16 nm)))
       @ replicate (72 - 2 * length (take 36 (encode_utf16 nm))) 0"
  have un: "length (encode_utf16 nm) = length nm" using nm(1) by (simp add: encode_utf16_ascii)
  have w: "(word_of_le (le_bytes 8 x) :: u64) = word_of_nat x" for x
    by (rule word_of_le_le_bytes) simp
  have "unat (word_of_nat a :: u64) = a" "unat (word_of_nat b :: u64) = b"
    using ab by (simp_all add: unat_of_nat)
  then have "(word_of_nat a :: u64) \<noteq> 0" "\<not> (word_of_nat b :: u64) < word_of_nat a"
    using ab by (auto simp: word_less_nat_alt simp flip: unat_eq_zero)
  moreover have "takeWhile (\<lambda>u. u \<noteq> 0) (map word_of_le (chunks_exact 2 (slice 56 72 e))) = encode_utf16 nm"
    using units_of_name_field [OF nm] nm(3) un by (simp add: e_name)
  ultimately have first: "gpt_entry 0 e
      = Some \<lparr>gp_index = 1, gp_first_lba = word_of_nat a, gp_name = nm, gp_type_guid = ty\<rparr>"
    using ty nm(1) by (simp add: gpt_entry_def e_ty e_a e_b w Let_def from_utf16_lossy_encode_ascii)
  have "chunks_exact 128 (entry_table ty pg a b nm) = e # replicate 127 (replicate 128 0)"
    unfolding split using len_e by (subst chunks_exact_append) (simp_all only: chunks_exact_replicate zero_less_numeral)
  moreover have "List.map_filter (\<lambda>(i, e). gpt_entry i e) (enumerate 1 (replicate 127 (replicate 128 0))) = []"
    by (rule map_filter_all_None) (auto simp: gpt_entry_zero in_set_enumerate_eq)
  ultimately show ?thesis
    by (simp add: parse_gpt_entries_def first map_filter_simps)
qed

end
