(* ===== verification/Partition.thy ===== *)
theory Partition
  imports Contents
begin

text \<open>
  The worker's \<open>partition\<close> step on the disk itself (\<open>write_layout\<close> of \<open>src/src/worker.rs\<close>): both
  ends cleared, then both copies of the table. The disk is the interface \<open>layout_target\<close> (the
  trait \<open>LayoutTarget\<close>): what a successful write promises. What discovery's probe then reads on
  that disk is \<open>partition_reads_back\<close>.
\<close>

section \<open>Roles\<close>

datatype role = Data | System

definition role_word :: "role \<Rightarrow> string" where
  "role_word r = (case r of Data \<Rightarrow> ''data'' | System \<Rightarrow> ''system'')"

definition role_type_guid :: "role \<Rightarrow> bytes" where
  "role_type_guid r = (case r of Data \<Rightarrow> TYPE_SLAB_DATA | System \<Rightarrow> TYPE_SLAB)"

definition role_partition_name :: "role \<Rightarrow> string" where
  "role_partition_name r = (case r of Data \<Rightarrow> ''stormblock-data'' | System \<Rightarrow> ''stormblock-system'')"

lemma slab_role_type_guid: "slab_role (role_type_guid r) = role_word r"
  by (cases r) (simp_all add: slab_role_def role_type_guid_def role_word_def TYPE_SLAB_def TYPE_SLAB_DATA_def)

section \<open>Writing the layout\<close>

definition CLEAR_BYTES :: nat where
  "CLEAR_BYTES = 4 * 2 ^ 20"

text \<open>
  \<open>put_at f buf off\<close> and \<open>sync_all f\<close> are the trait's methods; \<open>Inl\<close> is the I/O error's text. A
  failed step ends the function with what it was doing.
\<close>

definition step_err :: "string \<Rightarrow> (string + 's) \<Rightarrow> (string + 's)" where
  "step_err what r = (case r of Inl e \<Rightarrow> Inl (what @ '': '' @ e) | Inr s \<Rightarrow> Inr s)"

definition and_then :: "(string + 's) \<Rightarrow> ('s \<Rightarrow> string + 't) \<Rightarrow> string + 't" where
  "and_then r k = (case r of Inl e \<Rightarrow> Inl e | Inr s \<Rightarrow> k s)"

definition write_layout ::
  "('s \<Rightarrow> bytes \<Rightarrow> nat \<Rightarrow> string + 's) \<Rightarrow> ('s \<Rightarrow> string + 's) \<Rightarrow> 's \<Rightarrow> u64 \<Rightarrow> layout \<Rightarrow> string + 's" where
  "write_layout put_at sync_all f capacity l =
     (let zero = replicate (min CLEAR_BYTES (unat capacity div 2)) 0;
          tail = unat capacity - length zero
      in and_then (step_err ''clear head'' (put_at f zero 0)) (\<lambda>f.
         and_then (step_err ''clear tail'' (put_at f zero tail)) (\<lambda>f.
         and_then (step_err ''write GPT'' (put_at f (primary l) 0)) (\<lambda>f.
         and_then (step_err ''write backup GPT'' (put_at f (backup l) (backup_offset l))) (\<lambda>f.
         step_err ''sync'' (sync_all f))))))"

lemma and_then_Inr [simp]: "and_then r k = Inr t \<longleftrightarrow> (\<exists>s. r = Inr s \<and> k s = Inr t)"
  by (cases r) (simp_all add: and_then_def)

lemma step_err_Inr [simp]: "step_err w r = Inr s \<longleftrightarrow> r = Inr s"
  by (cases r) (simp_all add: step_err_def)

text \<open>
  The promise of a target: a write that succeeded was inside the medium and changed exactly its
  bytes; \<open>sync\<close> changes nothing.
\<close>

locale layout_target =
  fixes put_at :: "'s \<Rightarrow> bytes \<Rightarrow> nat \<Rightarrow> string + 's"
    and sync_all :: "'s \<Rightarrow> string + 's"
    and image :: "'s \<Rightarrow> bytes"
  assumes put_fits: "put_at f buf off = Inr g \<Longrightarrow> off + length buf \<le> length (image f)"
    and put_image: "put_at f buf off = Inr g \<Longrightarrow> image g = put off buf (image f)"
    and sync_image: "sync_all f = Inr g \<Longrightarrow> image g = image f"
begin

lemma write_layout_image:
  assumes "write_layout put_at sync_all f cap l = Inr g"
  shows "image g = puts
      [(0, replicate (min CLEAR_BYTES (unat cap div 2)) 0),
       (unat cap - min CLEAR_BYTES (unat cap div 2), replicate (min CLEAR_BYTES (unat cap div 2)) 0),
       (0, primary l), (backup_offset l, backup l)] (image f)
    \<and> fits (length (image f))
      [(0, replicate (min CLEAR_BYTES (unat cap div 2)) 0),
       (unat cap - min CLEAR_BYTES (unat cap div 2), replicate (min CLEAR_BYTES (unat cap div 2)) 0),
       (0, primary l), (backup_offset l, backup l)]"
proof -
  let ?z = "replicate (min CLEAR_BYTES (unat cap div 2)) (0::u8)"
  from assms obtain f1 f2 f3 f4 where
    w1: "put_at f ?z 0 = Inr f1" and w2: "put_at f1 ?z (unat cap - length ?z) = Inr f2"
    and w3: "put_at f2 (primary l) 0 = Inr f3"
    and w4: "put_at f3 (backup l) (backup_offset l) = Inr f4" and w5: "sync_all f4 = Inr g"
    by (auto simp: write_layout_def Let_def)
  note fit = put_fits [OF w1] put_fits [OF w2] put_fits [OF w3] put_fits [OF w4]
  have l1: "length (image f1) = length (image f)"
    unfolding put_image [OF w1] by (rule length_put [OF fit(1)])
  have l2: "length (image f2) = length (image f)"
    unfolding put_image [OF w2] using length_put [OF fit(2)] l1 by (rule trans)
  have l3: "length (image f3) = length (image f)"
    unfolding put_image [OF w3] using length_put [OF fit(3)] l2 by (rule trans)
  have "image g = put (backup_offset l) (backup l) (put 0 (primary l)
      (put (unat cap - length ?z) ?z (put 0 ?z (image f))))"
    by (simp only: sync_image [OF w5] put_image [OF w4] put_image [OF w3] put_image [OF w2] put_image [OF w1])
  then show ?thesis
    using fit unfolding l1 l2 l3 by (simp only: puts_simps fits_simps length_replicate simp_thms)
qed

end

text \<open>
  A disk as its bytes: \<open>write_all_at\<close> of a block device fails past its end, and \<open>read_exact_at\<close>
  gives bytes only inside it.
\<close>

definition device_put :: "bytes \<Rightarrow> bytes \<Rightarrow> nat \<Rightarrow> string + bytes" where
  "device_put img buf off =
     (if off + length buf \<le> length img then Inr (put off buf img) else Inl ''No space left on device'')"

definition device_sync :: "bytes \<Rightarrow> string + bytes" where
  "device_sync img = Inr img"

definition device_read :: "bytes \<Rightarrow> disk" where
  "device_read img off len = get_slice off (off + len) img"

interpretation device: layout_target device_put device_sync "\<lambda>img. img"
  by unfold_locales (auto simp: device_put_def device_sync_def split: if_splits)

section \<open>What the probe reads afterwards\<close>

lemma device_read_Some: "off + len \<le> length img \<Longrightarrow> device_read img off len = Some (slice off len img)"
  by (simp add: device_read_def get_slice_def)

text \<open>What \<open>write_layout\<close> leaves on a disk of the layout's capacity, region by region.\<close>

lemma written_image:
  assumes l: "layout_of cap blk ty nm dg pg = Inr l"
    and len: "length ty = 16" "length dg = 16" "length pg = 16"
    and img: "length img = unat cap"
    and w: "write_layout device_put device_sync img cap l = Inr g"
  shows "length g = unat cap"
    and "a + n \<le> length (primary l) \<Longrightarrow> slice a n g = slice a n (primary l)"
    and "length (primary l) \<le> a \<Longrightarrow> a + n \<le> backup_offset l \<Longrightarrow> a + n \<le> CLEAR_BYTES \<Longrightarrow>
      a + n \<le> unat cap div 2 \<Longrightarrow> slice a n g = replicate n 0"
proof -
  let ?z = "replicate (min CLEAR_BYTES (unat cap div 2)) (0::u8)"
  let ?t = "unat cap - min CLEAR_BYTES (unat cap div 2)"
  let ?ws = "[(0, ?z), (?t, ?z), (0, primary l), (backup_offset l, backup l)]"
  have g: "g = puts ?ws img" and fits: "fits (length img) ?ws"
    using device.write_layout_image [OF w] by simp_all
  show len_g: "length g = unat cap" using length_puts [OF fits] img g by simp
  have reg: "length (primary l) \<le> first_lba l * block_size l"
    "first_lba l * block_size l \<le> backup_offset l"
    using layout_regions [OF l len] by simp_all
  let ?x = "puts [(0, ?z), (?t, ?z)] img"
  have x: "length ?x = length img" using fits by (intro length_puts) simp
  have g2: "g = put (backup_offset l) (backup l) (put 0 (primary l) ?x)" by (simp add: g)
  have p: "length (put 0 (primary l) ?x) = length img"
    using fits x by (simp only: length_put fits_simps)
  show "slice a n g = slice a n (primary l)" if "a + n \<le> length (primary l)"
    using that fits reg x p by (simp add: g2 slice_put_before slice_put_within)
  show "slice a n g = replicate n 0"
    if a: "length (primary l) \<le> a" "a + n \<le> backup_offset l" "a + n \<le> CLEAR_BYTES" "a + n \<le> unat cap div 2"
  proof -
    have "slice a n g = slice a n (put 0 (primary l) ?x)"
      unfolding g2 using a fits p by (intro slice_put_before) simp_all
    also have "\<dots> = slice a n ?x"
      using a fits x by (intro slice_put_after) simp_all
    also have "\<dots> = slice a n (put 0 ?z img)"
    proof -
      have "a + n \<le> ?t" using a(4) by linarith
      moreover have "length (put 0 ?z img) = length img" using fits by (intro length_put) simp
      ultimately show ?thesis using img by (simp add: slice_put_before)
    qed
    also have "\<dots> = slice a n ?z"
      using a by (simp add: slice_put_within)
    also have "\<dots> = replicate n 0"
      using a(3,4) by (simp add: slice_replicate min_absorb1 le_diff_conv2)
    finally show ?thesis .
  qed
qed

lemma zeros_no_magic:
  "replicate n 0 \<noteq> EFI_PART" "replicate n 0 \<noteq> SLAB_MAGIC" "replicate n 0 \<noteq> STORMRAID_MAGIC"
proof -
  have "\<exists>b \<in> set EFI_PART. b \<noteq> 0" "\<exists>b \<in> set SLAB_MAGIC. b \<noteq> 0" "\<exists>b \<in> set STORMRAID_MAGIC. b \<noteq> 0"
    by (simp_all add: EFI_PART_def SLAB_MAGIC_def STORMRAID_MAGIC_def)
  then show "replicate n 0 \<noteq> EFI_PART" "replicate n 0 \<noteq> SLAB_MAGIC" "replicate n 0 \<noteq> STORMRAID_MAGIC"
    by (metis in_set_replicate)+
qed

lemma mbr_clear:
  assumes "512 \<le> bs" "a + n \<le> 446 \<or> 512 \<le> a" "a + n \<le> bs"
  shows "slice a n (protective_mbr bs m) = replicate n 0"
proof -
  have "slice a n (protective_mbr bs m) = slice a n (replicate bs 0)"
    unfolding protective_mbr_def using assms by (intro slice_puts_clear) auto
  with assms show ?thesis by (simp add: slice_replicate min_def)
qed

lemma role_names:
  "length (role_type_guid r) = 16" "list_ex (\<lambda>b. b \<noteq> 0) (role_type_guid r)"
  "ascii (role_partition_name r)" "CHR 0x00 \<notin> set (role_partition_name r)"
  "length (role_partition_name r) \<le> 36"
  by (cases r; simp add: role_type_guid_def role_partition_name_def TYPE_SLAB_def TYPE_SLAB_DATA_def ascii_def)+

lemma slice_primary:
  assumes g: "geometry bs usable align" and dg: "length dg = 16" and ty: "length ty = 16" "length pg = 16"
    and p_def: "p = primary (build_layout bs n (usable - 2) align last_l ty nm dg pg)"
  shows "length p = usable * bs"
    and "a + m \<le> bs \<Longrightarrow> slice a m p = slice a m (protective_mbr bs n)"
    and "slice bs 512 p = slice 0 512 (header 1 (n - 1) usable (n - usable) dg 2
           (crc32 (entry_table ty pg align last_l nm)) bs)"
    and "slice (2 * bs) 16384 p = entry_table ty pg align last_l nm"
proof -
  have bs: "512 \<le> bs" "92 \<le> bs" "2 + (usable - 2) = usable" "16384 \<le> (usable - 2) * bs"
    "bs + bs + (usable - 2) * bs = usable * bs"
    using g by (auto simp: geometry_def)
  let ?e = "entry_table ty pg align last_l nm"
  let ?h = "header 1 (n - 1) usable (n - usable) dg 2 (crc32 ?e) bs"
  have p: "p = protective_mbr bs n @ ?h @ pad_to ((usable - 2) * bs) ?e"
    unfolding p_def build_layout_def Let_def bs(3) by simp
  have m: "length (protective_mbr bs n) = bs" using bs(1) by (rule length_protective_mbr)
  have h: "length ?h = bs" using bs(2) dg by (rule length_header)
  have e: "length ?e = 16384" using ty by (rule length_entry_table)
  have "length (pad_to ((usable - 2) * bs) ?e) = (usable - 2) * bs"
    using bs(4) e by (intro length_pad_to) simp
  then show "length p = usable * bs" using bs(5) by (simp only: p length_append m h add.assoc)
  show "slice a m p = slice a m (protective_mbr bs n)" if "a + m \<le> bs"
    unfolding p using that m by (intro slice_append_left) simp
  show "slice bs 512 p = slice 0 512 ?h"
    unfolding p using bs(1) m h by (simp add: slice_append_right slice_append_left)
  have "slice 0 16384 (pad_to ((usable - 2) * bs) ?e) = ?e"
    using bs(4) e by (simp add: pad_to_def slice_append_left slice_all)
  then show "slice (2 * bs) 16384 p = ?e"
    unfolding p using m h by (simp add: slice_append_right)
qed

text \<open>Any image that starts with the primary table reads as the one partition.\<close>

lemma tables_read_back:
  assumes l: "layout_of cap blk (role_type_guid r) (role_partition_name r) dg pg = Inr l"
    and len: "length dg = 16" "length pg = 16"
    and inside: "length (primary l) \<le> length g"
    and same: "\<And>a n. a + n \<le> length (primary l) \<Longrightarrow> slice a n g = slice a n (primary l)"
  shows "first_gpt (device_read g) [512, 4096] = Some (block_size l,
      [\<lparr>gp_index = 1, gp_first_lba = word_of_nat (first_lba l), gp_name = role_partition_name r,
        gp_type_guid = role_type_guid r\<rparr>])"
    and "\<exists>head. device_read g 0 512 = Some head \<and> \<not> is_slab_header head \<and> \<not> prefix STORMRAID_MAGIC head"
    and "byte_offset (word_of_nat (first_lba l)) (block_size l) = first_lba l * block_size l"
    and "first_lba l * block_size l = 2 ^ 20"
  using l
proof -
  obtain bs usable align n last_l where g: "geometry bs usable align"
    and n: "n = unat cap div bs" "usable \<le> n"
    and e: "last_l + 1 = (n - usable + 1) div align * align" "2 * align < last_l + 1"
    and L: "l = build_layout bs n (usable - 2) align last_l (role_type_guid r) (role_partition_name r) dg pg"
    using l by (rule layout_of_Inr)
  have "last_l + 1 \<le> n" using g n(2) e(1) by (auto simp: geometry_def)
  also have "n \<le> unat cap" by (simp add: n)
  also have "unat cap < 2 ^ 64" using unsigned_less [of cap, where 'a = nat] by simp
  finally have last64: "last_l < 2 ^ 64" by simp
  note prim = slice_primary [OF g len(1) role_names(1) len(2) arg_cong [where f = primary, OF L]]
  have bs: "512 \<le> bs" "2 \<le> usable" "bs + 512 \<le> usable * bs" "2 * bs + 16384 \<le> usable * bs" "bs < 2 ^ 32"
    "align * bs = 2 ^ 20" "align < 2 ^ 32"
    using g by (auto simp: geometry_def)
  have rd: "device_read g a m = Some (slice a m (primary l))" if "a + m \<le> usable * bs" for a m
    using that inside prim(1) by (simp add: device_read_Some same)
  let ?e = "entry_table (role_type_guid r) pg align last_l (role_partition_name r)"
  have hdr: "Option.bind (device_read g bs 512) parse_gpt_header
      = Some \<lparr>gh_entries_lba = 2, gh_entries = 128, gh_entry_size = 128\<rparr>"
    using bs header_parses [OF bs(1) len(1)] by (simp add: rd prim(3))
  have off: "byte_offset 2 bs = 2 * bs"
    using bs(5) by (simp add: byte_offset_def unat_word_ariths unat_of_nat)
  have tab: "device_read g (byte_offset 2 bs) 16384 = Some ?e"
    using bs by (simp add: off rd prim(4))
  have "0 < align" "align \<le> last_l" using g e(2) by (auto simp: geometry_def)
  then have at: "gpt_at (device_read g) bs = Some [\<lparr>gp_index = 1, gp_first_lba = word_of_nat align,
      gp_name = role_partition_name r, gp_type_guid = role_type_guid r\<rparr>]"
    using parse_gpt_entries_entry_table [OF role_names(1) len(2) role_names(2) _ _ last64 role_names(3-5)]
    by (simp add: gpt_at_def hdr tab)
  have not512: "gpt_at (device_read g) 512 = None" if "bs = 4096"
  proof -
    have "slice 512 512 (primary l) = replicate 512 0"
      using that by (simp add: prim(2) mbr_clear)
    moreover have "take 8 (replicate 512 (0::u8)) \<noteq> EFI_PART"
      by (simp add: zeros_no_magic)
    ultimately have "Option.bind (device_read g 512 512) parse_gpt_header = None"
      using bs(3) that by (simp add: rd parse_gpt_header_def)
    then show ?thesis by (simp add: gpt_at_def)
  qed
  have fb: "first_lba l = align" "block_size l = bs" by (simp_all add: L build_layout_def Let_def)
  with at not512 g show "first_gpt (device_read g) [512, 4096] = Some (block_size l,
      [\<lparr>gp_index = 1, gp_first_lba = word_of_nat (first_lba l), gp_name = role_partition_name r,
        gp_type_guid = role_type_guid r\<rparr>])" by (auto simp: geometry_def)
  have "slice 0 8 (slice 0 512 (primary l)) = replicate 8 0"
    using bs by (simp add: slice_slice prim(2) mbr_clear)
  then have "take 8 (slice 0 512 (primary l)) = replicate 8 0" by (simp add: slice_def)
  moreover have "take 8 xs = STORMRAID_MAGIC" if "prefix STORMRAID_MAGIC xs" for xs
    using that by (auto simp: prefix_def STORMRAID_MAGIC_def)
  ultimately have "\<not> is_slab_header (slice 0 512 (primary l))" "\<not> prefix STORMRAID_MAGIC (slice 0 512 (primary l))"
    by (metis is_slab_header_def zeros_no_magic(2), metis zeros_no_magic(3))
  then show "\<exists>head. device_read g 0 512 = Some head \<and> \<not> is_slab_header head \<and> \<not> prefix STORMRAID_MAGIC head"
    using bs(3) by (simp add: rd)
  show "byte_offset (word_of_nat (first_lba l)) (block_size l) = first_lba l * block_size l"
    using bs(5-7) by (simp add: fb byte_offset_def unat_word_ariths unat_of_nat)
  show "first_lba l * block_size l = 2 ^ 20" by (simp add: fb bs(6))
qed

text \<open>
  The whole step: on a disk of the layout's capacity it succeeds, and discovery then finds one
  partition of the role and nothing on it, because an old slab's header at the partition's start
  was in the part that was cleared.
\<close>

lemma write_layout_succeeds:
  assumes l: "layout_of cap blk ty nm dg pg = Inr l" and len: "length ty = 16" "length dg = 16" "length pg = 16"
    and img: "length img = unat cap"
  shows "\<exists>g. write_layout device_put device_sync img cap l = Inr g"
proof -
  note size = layout_size [OF l len]
  have "length (primary l) \<le> unat cap" "backup_offset l + length (backup l) \<le> unat cap"
    using size by simp_all
  moreover have "min CLEAR_BYTES (unat cap div 2) \<le> unat cap" by linarith
  ultimately show ?thesis
    using img by (simp add: write_layout_def Let_def and_then_def step_err_def device_put_def device_sync_def
        length_put)
qed

lemma partition_blank:
  assumes l: "layout_of cap blk (role_type_guid r) (role_partition_name r) dg pg = Inr l"
    and len: "length dg = 16" "length pg = 16" and img: "length img = unat cap"
    and w: "write_layout device_put device_sync img cap l = Inr g"
  shows "probe_slabs (device_read g) = (None, [])"
proof -
  note size = layout_size [OF l role_names(1) len]
  note written = written_image [OF l role_names(1) len img w]
  note read = tables_read_back [OF l len _ written(2)]
  have inside: "length (primary l) \<le> length g" using size written(1) by simp
  let ?a = "first_lba l * block_size l"
  have "?a + 512 \<le> backup_offset l" "?a + 512 \<le> CLEAR_BYTES" "?a + 512 \<le> unat cap div 2"
    using size by (auto simp: CLEAR_BYTES_def)
  then have "slice ?a 512 g = replicate 512 0" using size(1) by (intro written(3)) simp_all
  moreover have "?a + 512 \<le> length g" using size written(1) by simp
  ultimately have "device_read g ?a 512 = Some (replicate 512 0)" by (simp add: device_read_Some)
  then have "\<not> is_some_and is_slab_header (device_read g ?a 512)"
    using zeros_no_magic by (simp add: is_slab_header_def)
  with read(1-3) [OF inside] show ?thesis
    by (auto simp: probe_slabs_def describe_slabs_def)
qed

text \<open>Once the engine has put a slab header at the partition's start, the probe reports it, with the role.\<close>

lemma partition_slab_found:
  assumes l: "layout_of cap blk (role_type_guid r) (role_partition_name r) dg pg = Inr l"
    and len: "length dg = 16" "length pg = 16" and img: "length img = unat cap"
    and w: "write_layout device_put device_sync img cap l = Inr g"
    and slab: "is_slab_header hdr" "length hdr \<le> partition_bytes l"
    and put: "device_put g hdr (first_lba l * block_size l) = Inr g'"
  shows "probe_slabs (device_read g') =
     (Some (''stormblock (slabs in partitions 1 '' @ quoted (role_partition_name r) @ '')''),
      [\<lparr>sp_partition = Some 1, sp_name = role_partition_name r, sp_role = role_word r,
        sp_offset_bytes = 2 ^ 20\<rparr>])"
proof -
  note size = layout_size [OF l role_names(1) len]
  note written = written_image [OF l role_names(1) len img w]
  let ?a = "first_lba l * block_size l"
  have fit: "?a + length hdr \<le> length g" using device.put_fits [OF put] .
  have g': "g' = put ?a hdr g" using device.put_image [OF put] .
  have len': "length g' = unat cap" using fit written(1) by (simp add: g' length_put)
  have same: "slice a n g' = slice a n (primary l)" if "a + n \<le> length (primary l)" for a n
    using that size fit by (simp add: g' slice_put_before written(2))
  have inside: "length (primary l) \<le> length g'" using size len' by simp
  note read = tables_read_back [OF l len inside same]
  have "device_read g' ?a 512 = Some (slice ?a 512 g')"
    using size len' by (simp add: device_read_Some)
  moreover have "is_slab_header (slice ?a 512 g')"
  proof -
    have "take 8 (slice ?a 512 g') = slice ?a 8 g'" by (simp add: slice_def)
    also have "\<dots> = slice 0 8 hdr" using slab fit by (simp add: g' slice_put_within is_slab_header_def)
    finally show ?thesis
      using slab size len' by (simp add: is_slab_header_def length_slice slice_def [of 0])
  qed
  ultimately have "is_some_and is_slab_header (device_read g' ?a 512)" by simp
  moreover have "role_partition_name r \<noteq> []" by (cases r) (simp_all add: role_partition_name_def)
  moreover have "dec 1 = ''1''" by code_simp
  ultimately show ?thesis
    using read by (auto simp: probe_slabs_def describe_slabs_def slab_role_type_guid)
qed

section \<open>Properties\<close>

text \<open>
  C8. Writing the layout of a role to a disk of its capacity succeeds; discovery
  then finds exactly that partition, with the role's type and name, and no slab on the disk, even
  where an older slab had its header at the place the partition now starts.
\<close>

theorem partition_step_blank:
  assumes "layout_of cap blk (role_type_guid r) (role_partition_name r) dg pg = Inr l"
    and "length dg = 16" "length pg = 16" "length img = unat cap"
  shows "\<exists>g. write_layout device_put device_sync img cap l = Inr g
    \<and> first_gpt (device_read g) [512, 4096] = Some (block_size l,
        [\<lparr>gp_index = 1, gp_first_lba = word_of_nat (first_lba l), gp_name = role_partition_name r,
          gp_type_guid = role_type_guid r\<rparr>])
    \<and> probe_slabs (device_read g) = (None, [])"
proof -
  obtain g where w: "write_layout device_put device_sync img cap l = Inr g"
    using write_layout_succeeds [OF assms(1) role_names(1) assms(2-4)] by blast
  note written = written_image [OF assms(1) role_names(1) assms(2-4) w]
  have "length (primary l) \<le> length g"
    using layout_size [OF assms(1) role_names(1) assms(2,3)] written(1) by simp
  note read = tables_read_back(1) [OF assms(1-3) this written(2)]
  from w read partition_blank [OF assms w] show ?thesis by blast
qed

theorem partition_step_blank_witness:
  "\<exists>l g. layout_of 4194304 512 (role_type_guid Data) (role_partition_name Data)
        (replicate 16 1) (replicate 16 2) = Inr l
    \<and> write_layout device_put device_sync (replicate 4194304 7) 4194304 l = Inr g
    \<and> probe_slabs (device_read g) = (None, [])"
proof -
  obtain l where l: "layout_of 4194304 512 (role_type_guid Data) (role_partition_name Data)
        (replicate 16 1) (replicate 16 2) = Inr l"
    using layout_of_Inr_iff by fastforce
  show ?thesis using partition_step_blank [OF l, of "replicate 4194304 7"] l by auto
qed

text \<open>
  Once the engine has put its slab header at the start of that
  partition, the probe names the partition, and the role it reports is the one the worker was
  asked to partition for.
\<close>

theorem partition_slab_reported:
  assumes "layout_of cap blk (role_type_guid r) (role_partition_name r) dg pg = Inr l"
    and "length dg = 16" "length pg = 16" "length img = unat cap"
    and "write_layout device_put device_sync img cap l = Inr g"
    and "is_slab_header hdr" "length hdr \<le> partition_bytes l"
    and "device_put g hdr (first_lba l * block_size l) = Inr g'"
  shows "probe_slabs (device_read g') =
     (Some (''stormblock (slabs in partitions 1 '' @ quoted (role_partition_name r) @ '')''),
      [\<lparr>sp_partition = Some 1, sp_name = role_partition_name r, sp_role = role_word r,
        sp_offset_bytes = 2 ^ 20\<rparr>])"
  using assms by (rule partition_slab_found)

theorem partition_slab_reported_witness:
  "\<exists>l g g'. layout_of 4194304 512 (role_type_guid System) (role_partition_name System)
        (replicate 16 1) (replicate 16 2) = Inr l
    \<and> write_layout device_put device_sync (replicate 4194304 7) 4194304 l = Inr g
    \<and> device_put g SLAB_MAGIC (first_lba l * block_size l) = Inr g'
    \<and> map sp_role (snd (probe_slabs (device_read g'))) = [''system'']"
proof -
  obtain l where l: "layout_of 4194304 512 (role_type_guid System) (role_partition_name System)
        (replicate 16 1) (replicate 16 2) = Inr l"
    using layout_of_Inr_iff by fastforce
  note len = length_replicate [of 16 "1::u8"] length_replicate [of 16 "2::u8"]
  have img: "length (replicate 4194304 (7::u8)) = unat (4194304 :: u64)" by simp
  obtain g where g: "write_layout device_put device_sync (replicate 4194304 7) 4194304 l = Inr g"
    using write_layout_succeeds [OF l role_names(1) len img] by blast
  note size = layout_size [OF l role_names(1) len]
  have magic: "is_slab_header SLAB_MAGIC" "length SLAB_MAGIC = 8"
    by (simp_all add: is_slab_header_def SLAB_MAGIC_def)
  obtain g' where g': "device_put g SLAB_MAGIC (first_lba l * block_size l) = Inr g'"
    using size magic written_image(1) [OF l role_names(1) len img g] by (simp add: device_put_def)
  have "length SLAB_MAGIC \<le> partition_bytes l" using size magic by simp
  from partition_slab_reported [OF l len img g magic(1) this g'] l g g' show ?thesis
    by (auto simp: role_word_def)
qed

end
