(* ===== verification/F64.thy ===== *)
theory F64
  imports Prelude Complex_Main
begin

text \<open>
  The code's \<open>f64\<close>: IEEE 754 binary64 with its exact rules. A finite number is a sign, a mantissa
  and an exponent, \<open>\<plusminus> m * 2 ^ e\<close>; every operation computes the exact result on integers and
  rounds it once, to nearest with ties to even, on 53 bits and down to the exponent of the
  smallest subnormal. Comparisons are exact, and false when an operand is \<open>NaN\<close>. \<open>rv\<close> is the
  rational a finite number stands for.
\<close>

datatype f64 = NaN | Inf bool | Fin bool nat int

fun bit_length :: "nat \<Rightarrow> nat" where
  "bit_length m = (if m = 0 then 0 else Suc (bit_length (m div 2)))"

declare bit_length.simps [simp del]

text \<open>\<open>m div 2 ^ d\<close>, rounded to nearest, ties to even.\<close>

definition shift_round :: "nat \<Rightarrow> nat \<Rightarrow> nat" where
  "shift_round m d =
     (if d = 0 then m
      else let q = m div 2 ^ d; r = m mod 2 ^ d; half = 2 ^ (d - 1)
           in if half < r \<or> half = r \<and> odd q then Suc q else q)"

definition rnd :: "bool \<Rightarrow> nat \<Rightarrow> int \<Rightarrow> f64" where
  "rnd s m e =
     (let d = nat (max (int (bit_length m) - 53) (- 1074 - e));
          q = shift_round m d; e' = e + int d
      in if m = 0 then Fin s 0 0
         else if 1024 < int (bit_length q) + e' then Inf s else Fin s q e')"

definition signed :: "bool \<Rightarrow> nat \<Rightarrow> int" where
  "signed s m = (if s then - int m else int m)"

text \<open>The mantissa at a smaller exponent, and the exact sum at the smaller of two exponents.\<close>

definition at_exp :: "int \<Rightarrow> bool \<Rightarrow> nat \<Rightarrow> int \<Rightarrow> int" where
  "at_exp e s m e1 = signed s m * 2 ^ nat (e1 - e)"

definition f64_of_int :: "int \<Rightarrow> f64" where
  "f64_of_int i = rnd (i < 0) (nat \<bar>i\<bar>) 0"

fun f64_neg :: "f64 \<Rightarrow> f64" where
  "f64_neg NaN = NaN"
| "f64_neg (Inf s) = Inf (\<not> s)"
| "f64_neg (Fin s m e) = Fin (\<not> s) m e"

fun f64_add :: "f64 \<Rightarrow> f64 \<Rightarrow> f64" where
  "f64_add NaN _ = NaN"
| "f64_add _ NaN = NaN"
| "f64_add (Inf s) (Inf t) = (if s = t then Inf s else NaN)"
| "f64_add (Inf s) (Fin _ _ _) = Inf s"
| "f64_add (Fin _ _ _) (Inf s) = Inf s"
| "f64_add (Fin s1 m1 e1) (Fin s2 m2 e2) =
     (let e = min e1 e2; x = at_exp e s1 m1 e1 + at_exp e s2 m2 e2
      in if x = 0 then Fin (s1 \<and> s2) 0 0 else rnd (x < 0) (nat \<bar>x\<bar>) e)"

definition f64_sub :: "f64 \<Rightarrow> f64 \<Rightarrow> f64" where
  "f64_sub a b = f64_add a (f64_neg b)"

fun f64_mul :: "f64 \<Rightarrow> f64 \<Rightarrow> f64" where
  "f64_mul NaN _ = NaN"
| "f64_mul _ NaN = NaN"
| "f64_mul (Inf s) (Inf t) = Inf (s \<noteq> t)"
| "f64_mul (Inf s) (Fin t m _) = (if m = 0 then NaN else Inf (s \<noteq> t))"
| "f64_mul (Fin t m _) (Inf s) = (if m = 0 then NaN else Inf (s \<noteq> t))"
| "f64_mul (Fin s1 m1 e1) (Fin s2 m2 e2) = rnd (s1 \<noteq> s2) (m1 * m2) (e1 + e2)"

text \<open>
  Division: a quotient of at least 64 bits with a sticky bit below it, so that rounding it to 53
  bits rounds the exact quotient.
\<close>

definition sticky_div :: "nat \<Rightarrow> nat \<Rightarrow> nat \<Rightarrow> nat" where
  "sticky_div n d k = 2 * (n * 2 ^ k div d) + (if n * 2 ^ k mod d = 0 then 0 else 1)"

fun f64_div :: "f64 \<Rightarrow> f64 \<Rightarrow> f64" where
  "f64_div NaN _ = NaN"
| "f64_div _ NaN = NaN"
| "f64_div (Inf _) (Inf _) = NaN"
| "f64_div (Inf s) (Fin t _ _) = Inf (s \<noteq> t)"
| "f64_div (Fin s _ _) (Inf t) = Fin (s \<noteq> t) 0 0"
| "f64_div (Fin s1 m1 e1) (Fin s2 m2 e2) =
     (if m2 = 0 then (if m1 = 0 then NaN else Inf (s1 \<noteq> s2))
      else let k = 64 + bit_length m2
           in rnd (s1 \<noteq> s2) (sticky_div m1 m2 k) (e1 - e2 - int k - 1))"

fun f64_le :: "f64 \<Rightarrow> f64 \<Rightarrow> bool" where
  "f64_le NaN _ = False"
| "f64_le _ NaN = False"
| "f64_le (Inf s) (Inf t) = (s \<or> \<not> t)"
| "f64_le (Inf s) (Fin _ _ _) = s"
| "f64_le (Fin _ _ _) (Inf s) = (\<not> s)"
| "f64_le (Fin s1 m1 e1) (Fin s2 m2 e2) =
     (let e = min e1 e2 in at_exp e s1 m1 e1 \<le> at_exp e s2 m2 e2)"

definition f64_eq :: "f64 \<Rightarrow> f64 \<Rightarrow> bool" where
  "f64_eq a b = (f64_le a b \<and> f64_le b a)"

definition f64_lt :: "f64 \<Rightarrow> f64 \<Rightarrow> bool" where
  "f64_lt a b = (f64_le a b \<and> \<not> f64_le b a)"

fun is_finite :: "f64 \<Rightarrow> bool" where
  "is_finite (Fin _ _ _) = True"
| "is_finite _ = False"

text \<open>\<open>f64::round\<close> (half away from zero), \<open>floor\<close>, and the integer casts, which saturate.\<close>

fun f64_round :: "f64 \<Rightarrow> f64" where
  "f64_round (Fin s m e) = (if 0 \<le> e then Fin s m e else Fin s ((2 * m + 2 ^ nat (- e)) div 2 ^ nat (1 - e)) 0)"
| "f64_round x = x"

fun f64_floor :: "f64 \<Rightarrow> f64" where
  "f64_floor (Fin s m e) =
     (if 0 \<le> e then Fin s m e
      else Fin s (m div 2 ^ nat (- e) + (if s \<and> m mod 2 ^ nat (- e) \<noteq> 0 then 1 else 0)) 0)"
| "f64_floor x = x"

definition trunc_int :: "bool \<Rightarrow> nat \<Rightarrow> int \<Rightarrow> int" where
  "trunc_int s m e = signed s (if 0 \<le> e then m * 2 ^ nat e else m div 2 ^ nat (- e))"

fun f64_to_int :: "int \<Rightarrow> int \<Rightarrow> f64 \<Rightarrow> int" where
  "f64_to_int lo hi NaN = 0"
| "f64_to_int lo hi (Inf s) = (if s then lo else hi)"
| "f64_to_int lo hi (Fin s m e) = max lo (min hi (trunc_int s m e))"

definition f64_to_u64 :: "f64 \<Rightarrow> u64" where
  "f64_to_u64 x = word_of_int (f64_to_int 0 (2 ^ 64 - 1) x)"

definition f64_to_i32 :: "f64 \<Rightarrow> int" where
  "f64_to_i32 x = f64_to_int (- (2 ^ 31)) (2 ^ 31 - 1) x"

text \<open>\<open>{:.0}\<close>: the exact value rounded to an integer, ties to even, with the sign also of a zero.\<close>

fun fmt0 :: "f64 \<Rightarrow> string" where
  "fmt0 NaN = ''NaN''"
| "fmt0 (Inf s) = (if s then ''-inf'' else ''inf'')"
| "fmt0 (Fin s m e) =
     (if s then ''-'' else []) @ dec (if 0 \<le> e then m * 2 ^ nat e else shift_round m (nat (- e)))"

text \<open>
  \<open>f64::max\<close> (which prefers a number to \<open>NaN\<close>), \<open>abs\<close> and \<open>total_cmp\<close>: the order of the values, with
  \<open>-0\<close> under \<open>+0\<close> and \<open>NaN\<close> (kept here without its sign) above everything.
\<close>

definition f64_max :: "f64 \<Rightarrow> f64 \<Rightarrow> f64" where
  "f64_max a b = (if a = NaN then b else if b = NaN then a else if f64_le a b then b else a)"

fun f64_abs :: "f64 \<Rightarrow> f64" where
  "f64_abs NaN = NaN"
| "f64_abs (Inf _) = Inf False"
| "f64_abs (Fin _ m e) = Fin False m e"

fun f64_negative :: "f64 \<Rightarrow> bool" where
  "f64_negative NaN = False"
| "f64_negative (Inf s) = s"
| "f64_negative (Fin s _ _) = s"

definition f64_total_le :: "f64 \<Rightarrow> f64 \<Rightarrow> bool" where
  "f64_total_le a b =
     (if b = NaN then True else if a = NaN then False
      else if f64_eq a b then f64_negative a \<or> \<not> f64_negative b else f64_le a b)"

section \<open>Values\<close>

definition rv :: "f64 \<Rightarrow> rat" where
  "rv x = (case x of Fin s m e \<Rightarrow> of_int (signed s m) * 2 powi e | _ \<Rightarrow> 0)"

lemma powi_split: "e \<le> e1 \<Longrightarrow> (2::rat) powi e1 = 2 ^ nat (e1 - e) * 2 powi e"
  by (simp add: power_int_add [symmetric] flip: power_int_of_nat)

lemma at_exp_value: "e \<le> e1 \<Longrightarrow> of_int (at_exp e s m e1) * 2 powi e = rv (Fin s m e1)"
  by (simp add: at_exp_def rv_def powi_split [of e e1])

lemma f64_le_Fin: "f64_le (Fin s1 m1 e1) (Fin s2 m2 e2) \<longleftrightarrow> rv (Fin s1 m1 e1) \<le> rv (Fin s2 m2 e2)"
proof -
  let ?e = "min e1 e2"
  have pos: "(0::rat) < 2 powi ?e" by simp
  have "rv (Fin s1 m1 e1) \<le> rv (Fin s2 m2 e2)
      \<longleftrightarrow> of_int (at_exp ?e s1 m1 e1) * (2::rat) powi ?e \<le> of_int (at_exp ?e s2 m2 e2) * 2 powi ?e"
    by (simp only: at_exp_value min.cobounded1 min.cobounded2)
  also have "\<dots> \<longleftrightarrow> at_exp ?e s1 m1 e1 \<le> at_exp ?e s2 m2 e2"
    using pos by simp
  finally show ?thesis by (simp add: Let_def)
qed

lemma f64_le_finite: "is_finite a \<Longrightarrow> is_finite b \<Longrightarrow> f64_le a b \<longleftrightarrow> rv a \<le> rv b"
  by (cases a; cases b) (simp_all only: f64_le_Fin is_finite.simps)

lemma f64_lt_finite: "is_finite a \<Longrightarrow> is_finite b \<Longrightarrow> f64_lt a b \<longleftrightarrow> rv a < rv b"
  by (auto simp: f64_lt_def f64_le_finite)

lemma f64_le_refl: "a \<noteq> NaN \<Longrightarrow> f64_le a a"
  by (cases a) (simp_all add: f64_le_Fin)

lemma f64_le_NaN [simp]: "\<not> f64_le NaN a" "\<not> f64_le a NaN"
  by (simp, cases a) simp_all

lemma f64_le_trans: "f64_le a b \<Longrightarrow> f64_le b c \<Longrightarrow> f64_le a c"
  by (cases a; cases b; cases c) (auto simp only: f64_le_Fin f64_le.simps)

lemma f64_le_linear: "a \<noteq> NaN \<Longrightarrow> b \<noteq> NaN \<Longrightarrow> f64_le a b \<or> f64_le b a"
  by (cases a; cases b) (auto simp only: f64_le_Fin f64_le.simps)

lemma f64_lt_iff_not_le: "a \<noteq> NaN \<Longrightarrow> b \<noteq> NaN \<Longrightarrow> f64_lt a b \<longleftrightarrow> \<not> f64_le b a"
  using f64_le_linear by (auto simp: f64_lt_def)

section \<open>Rounding\<close>

lemma bit_length_0 [simp]: "bit_length 0 = 0"
  by (subst bit_length.simps) simp

lemma bit_length_bounds: "m < 2 ^ bit_length m" "0 < m \<Longrightarrow> 2 ^ (bit_length m - 1) \<le> m"
proof (induction m rule: bit_length.induct)
  case (1 m)
  {
    case 1
    show ?case
    proof (cases "m = 0")
      case False
      with "1.IH"(1) have "m div 2 < 2 ^ bit_length (m div 2)" by simp
      with False show ?thesis by (subst bit_length.simps) simp
    qed simp
  next
    case 2
    show ?case
    proof (cases "m div 2 = 0")
      case True
      with 2 have "bit_length m = 1" by (subst bit_length.simps) simp
      with 2 show ?thesis by simp
    next
      case False
      with 2 "1.IH"(2) have "2 ^ (bit_length (m div 2) - 1) \<le> m div 2" by simp
      moreover have "bit_length m = Suc (bit_length (m div 2))" using 2 by (subst bit_length.simps) simp
      moreover have "0 < bit_length (m div 2)" using False by (subst bit_length.simps) simp
      then obtain k where "bit_length (m div 2) = Suc k" by (cases "bit_length (m div 2)") auto
      moreover have "m div 2 * 2 \<le> m" by simp
      ultimately show ?thesis by simp
    qed
  }
qed

lemma bit_length_le: "m < 2 ^ k \<Longrightarrow> bit_length m \<le> k"
proof (rule ccontr)
  assume m: "m < 2 ^ k" "\<not> bit_length m \<le> k"
  then have "0 < m" by (auto intro: gr0I)
  then have "(2::nat) ^ (bit_length m - 1) \<le> m" by (rule bit_length_bounds)
  moreover have "(2::nat) ^ k \<le> 2 ^ (bit_length m - 1)" using m by (intro power_increasing) auto
  ultimately show False using m by linarith
qed

lemma round_up_or_down:
  fixes h r q x :: nat
  assumes "x = (if h < r \<or> h = r \<and> odd q then Suc q else q)"
  obtains "x = q" "r \<le> h" | "x = Suc q" "h \<le> r"
  using assms by (cases h r rule: linorder_cases) (auto split: if_splits)

lemma shift_round_error: "\<bar>int (shift_round m d) * 2 ^ d - int m\<bar> * 2 \<le> 2 ^ d" if "0 < d"
proof -
  let ?q = "m div 2 ^ d" and ?r = "m mod 2 ^ d"
  have "int m = int (?q * 2 ^ d + ?r)" by (simp only: div_mult_mod_eq)
  then have m: "int m = int ?q * 2 ^ d + int ?r"
    by (simp only: of_nat_add of_nat_mult of_nat_power of_nat_numeral)
  have "int ?r < int (2 ^ d)" by (simp only: of_nat_less_iff) simp
  then have r': "int ?r < 2 ^ d" by simp
  have two': "(2::int) ^ d = 2 * 2 ^ (d - 1)" using that by (simp add: power_eq_if)
  have "shift_round m d = (if 2 ^ (d - 1) < ?r \<or> 2 ^ (d - 1) = ?r \<and> odd ?q then Suc ?q else ?q)"
    using that by (simp only: shift_round_def Let_def less_not_refl2 if_False)
  then consider "shift_round m d = ?q" "?r \<le> 2 ^ (d - 1)" | "shift_round m d = Suc ?q" "2 ^ (d - 1) \<le> ?r"
    by (rule round_up_or_down)
  then show ?thesis
  proof cases
    case 1
    have "int ?r \<le> 2 ^ (d - 1)" using of_nat_mono [where 'a = int, OF 1(2)] by simp
    then show ?thesis using m two' unfolding 1(1) by simp
  next
    case 2
    have "2 ^ (d - 1) \<le> int ?r" using of_nat_mono [where 'a = int, OF 2(2)] by simp
    then show ?thesis using m two' r' unfolding 2(1) by (simp add: algebra_simps)
  qed
qed

lemma shift_round_0 [simp]: "shift_round m 0 = m"
  by (simp add: shift_round_def)

lemma abs_half_le: "\<bar>x - y\<bar> * 2 \<le> z \<Longrightarrow> x \<le> y + z" for x y z :: int
  by arith

lemma half_le: "x * 2 \<le> y \<Longrightarrow> y \<le> z * 2 \<Longrightarrow> x \<le> z" for x y z :: rat
  by linarith

lemma shift_round_le: "shift_round m d * 2 ^ d \<le> m + 2 ^ d"
proof (cases "d = 0")
  case False
  then have "\<bar>int (shift_round m d) * 2 ^ d - int m\<bar> * 2 \<le> 2 ^ d" by (simp add: shift_round_error)
  from abs_half_le [OF this] have "int (shift_round m d) * 2 ^ d \<le> int m + 2 ^ d" by simp
  then have "int (shift_round m d * 2 ^ d) \<le> int (m + 2 ^ d)" by simp
  then show ?thesis by (simp only: of_nat_le_iff)
qed simp

text \<open>A rounded value is within a half unit in the last place of the exact one.\<close>

definition rnd_drop :: "nat \<Rightarrow> int \<Rightarrow> nat" where
  "rnd_drop m e = nat (max (int (bit_length m) - 53) (- 1074 - e))"

lemma rnd_0 [simp]: "rnd s 0 e = Fin s 0 0"
  by (simp add: rnd_def Let_def)

lemma rnd_Fin: "0 < m \<Longrightarrow> rnd s m e = Fin s' q e' \<Longrightarrow>
    s' = s \<and> e' = e + int (rnd_drop m e) \<and> q = shift_round m (rnd_drop m e)"
  by (auto simp: rnd_def rnd_drop_def Let_def split: if_splits)

lemma rnd_error_ulp:
  assumes "is_finite (rnd s m e)"
  shows "\<bar>rv (rnd s m e) - of_int (signed s m) * 2 powi e\<bar> * 2
    \<le> (if rnd_drop m e = 0 then 0 else 2 ^ rnd_drop m e * 2 powi e)"
proof (cases "m = 0")
  case True
  then show ?thesis by (simp add: rv_def signed_def)
next
  case False
  then have m: "0 < m" by simp
  obtain s' q e' where r: "rnd s m e = Fin s' q e'" using assms by (cases "rnd s m e") auto
  let ?d = "rnd_drop m e"
  have e': "(2::rat) powi e' = 2 ^ ?d * 2 powi e"
    using rnd_Fin [OF m r] powi_split [of e e'] by simp
  have "rv (rnd s m e) - of_int (signed s m) * 2 powi e
      = of_int (signed s q * 2 ^ ?d - signed s m) * 2 powi e"
    using rnd_Fin [OF m r] e' by (simp add: rv_def r algebra_simps)
  also have "\<bar>\<dots>\<bar> * 2 = of_int (\<bar>signed s q * 2 ^ ?d - signed s m\<bar> * 2) * 2 powi e"
    by (simp add: abs_mult)
  also have "\<bar>signed s q * 2 ^ ?d - signed s m\<bar> = \<bar>int q * 2 ^ ?d - int m\<bar>"
    by (simp add: signed_def abs_minus_commute)
  finally have *: "\<bar>rv (rnd s m e) - of_int (signed s m) * 2 powi e\<bar> * 2
      = of_int (\<bar>int q * 2 ^ ?d - int m\<bar> * 2) * 2 powi e" .
  show ?thesis
  proof (cases "?d = 0")
    case True
    then show ?thesis unfolding * using rnd_Fin [OF m r] by simp
  next
    case False
    then have "\<bar>int q * 2 ^ ?d - int m\<bar> * 2 \<le> 2 ^ ?d"
      using rnd_Fin [OF m r] shift_round_error by simp
    then have "(of_int (\<bar>int q * 2 ^ ?d - int m\<bar> * 2) :: rat) \<le> of_int (2 ^ ?d)"
      by (simp only: of_int_le_iff)
    then show ?thesis unfolding * using False by (simp add: mult_right_mono)
  qed
qed

lemma rnd_error:
  assumes "is_finite (rnd s m e)"
  shows "\<bar>rv (rnd s m e) - of_int (signed s m) * 2 powi e\<bar> \<le> max (of_nat m * 2 powi e / 2 ^ 53) (2 powi (- 1075))"
proof -
  let ?d = "rnd_drop m e" and ?k = "bit_length m"
  have u: "\<bar>rv (rnd s m e) - of_int (signed s m) * 2 powi e\<bar> * 2 \<le> (if ?d = 0 then 0 else 2 ^ ?d * 2 powi e)"
    by (rule rnd_error_ulp [OF assms])
  have pos: "(0::rat) \<le> of_nat m * 2 powi e / 2 ^ 53" by simp
  consider "?d = 0" | "0 < ?d" "int ?d = int ?k - 53" | "0 < ?d" "int ?d = - 1074 - e"
    unfolding rnd_drop_def by linarith
  then show ?thesis
  proof cases
    case 1
    then have "\<bar>rv (rnd s m e) - of_int (signed s m) * 2 powi e\<bar> \<le> 0" using u by simp
    then have "\<bar>rv (rnd s m e) - of_int (signed s m) * 2 powi e\<bar> \<le> of_nat m * 2 powi e / 2 ^ 53" using pos by (rule order_trans)
    then show ?thesis by (rule max.coboundedI1)
  next
    case 2
    then have k: "?d + 52 = ?k - 1" by linarith
    have m: "0 < m" using 2 by (auto simp: rnd_drop_def intro: gr0I)
    have "2 ^ ?d * (2 ^ 52 :: nat) \<le> m"
      using bit_length_bounds(2) [OF m] by (simp only: power_add [symmetric] k)
    then have "of_nat (2 ^ ?d * 2 ^ 52 :: nat) \<le> (of_nat m :: rat)" by (simp only: of_nat_le_iff)
    then have "2 ^ ?d * 2 ^ 52 \<le> (of_nat m :: rat)" by simp
    then have "(2 ^ ?d * 2 ^ 52) * 2 powi e \<le> (of_nat m :: rat) * 2 powi e"
      by (intro mult_right_mono) simp_all
    then have "2 ^ ?d * 2 powi e \<le> (of_nat m :: rat) * 2 powi e / 2 ^ 53 * 2"
      by (simp add: field_simps)
    moreover have "\<bar>rv (rnd s m e) - of_int (signed s m) * 2 powi e\<bar> * 2 \<le> 2 ^ ?d * 2 powi e"
      using u 2(1) by (simp only: less_not_refl2 if_False)
    ultimately have "\<bar>rv (rnd s m e) - of_int (signed s m) * 2 powi e\<bar> \<le> of_nat m * 2 powi e / 2 ^ 53"
      by (metis half_le)
    then show ?thesis by (rule max.coboundedI1)
  next
    case 3
    have "(2::rat) ^ ?d * 2 powi e = 2 powi (int ?d + e)"
      by (simp add: power_int_add)
    also have "int ?d + e = - 1075 + 1" using 3 by linarith
    also have "(2::rat) powi (- 1075 + 1) = 2 powi (- 1075) * 2"
      by (subst power_int_add) simp_all
    finally have "\<bar>rv (rnd s m e) - of_int (signed s m) * 2 powi e\<bar> * 2 \<le> 2 powi (- 1075) * 2" using u 3(1) by simp
    then have "\<bar>rv (rnd s m e) - of_int (signed s m) * 2 powi e\<bar> \<le> 2 powi (- 1075)"
      by (rule half_le) (rule order_refl)
    then show ?thesis by (rule max.coboundedI2)
  qed
qed

lemma shift_round_bound: "m < 2 ^ (53 + d) \<Longrightarrow> shift_round m d \<le> 2 ^ 53"
proof -
  assume "m < 2 ^ (53 + d)"
  then have "m < 2 ^ 53 * 2 ^ d" by (simp only: power_add)
  then have "m div 2 ^ d < 2 ^ 53" by (rule less_mult_imp_div_less)
  moreover have "shift_round m d \<le> Suc (m div 2 ^ d)"
    by (cases "d = 0") (simp_all add: shift_round_def Let_def)
  ultimately show ?thesis by linarith
qed

lemma rnd_finite:
  assumes "of_nat m * 2 powi e \<le> (2::rat) powi 1000"
  shows "is_finite (rnd s m e)"
proof (cases "m = 0")
  case False
  let ?d = "rnd_drop m e" and ?k = "bit_length m"
  have m: "0 < m" using False by simp
  have ke: "int ?k + e \<le> 1001"
  proof -
    have k: "0 < ?k" using m by (subst bit_length.simps) simp
    have "(2::rat) powi (int ?k - 1 + e) = 2 ^ (?k - 1) * 2 powi e"
      using k by (simp add: power_int_add of_nat_diff flip: power_int_of_nat)
    also have "\<dots> \<le> of_nat m * 2 powi e"
      using of_nat_mono [where 'a = rat, OF bit_length_bounds(2) [OF m]] by (intro mult_right_mono) simp_all
    also have "\<dots> \<le> 2 powi 1000" by (rule assms)
    finally have "(2::rat) powi (int ?k - 1 + e) \<le> 2 powi 1000" .
    then have "int ?k - 1 + e \<le> 1000"
      by (rule power_int_le_imp_le_exp [rotated]) simp_all
    then show ?thesis by simp
  qed
  have "int (bit_length (shift_round m ?d)) + (e + int ?d) \<le> 1024"
  proof (cases "?d = 0")
    case True
    then show ?thesis using ke by simp
  next
    case False
    then have d: "int ?d = max (int ?k - 53) (- 1074 - e)" unfolding rnd_drop_def by linarith
    have "m < 2 ^ ?k" by (rule bit_length_bounds)
    also have "(2::nat) ^ ?k \<le> 2 ^ (53 + ?d)" using d by (intro power_increasing) linarith+
    finally have "shift_round m ?d \<le> 2 ^ 53" by (rule shift_round_bound)
    then have "shift_round m ?d < 2 ^ 54" by simp
    then have q: "bit_length (shift_round m ?d) \<le> 54" by (rule bit_length_le)
    show ?thesis using q ke d by linarith
  qed
  then show ?thesis by (simp add: rnd_def rnd_drop_def Let_def)
qed simp

lemma bounded_finite: "\<bar>x\<bar> \<le> 2 ^ 64 \<Longrightarrow> \<bar>x\<bar> \<le> (2::rat) powi 1000"
proof -
  assume "\<bar>x\<bar> \<le> 2 ^ 64"
  also have "(2::rat) ^ 64 = 2 powi 64" by (simp add: power_int_def)
  also have "(2::rat) powi 64 \<le> 2 powi 1000" by (rule power_int_increasing) simp_all
  finally show ?thesis .
qed

text \<open>A sum of moderate numbers is finite, and is off by at most a half unit in the last place.\<close>

lemma f64_add_error:
  assumes "is_finite a" "is_finite b" and small: "\<bar>rv a + rv b\<bar> \<le> 2 ^ 64"
  shows "is_finite (f64_add a b) \<and> \<bar>rv (f64_add a b) - (rv a + rv b)\<bar> \<le> max (\<bar>rv a + rv b\<bar> / 2 ^ 53) (2 powi (- 1075))"
proof -
  obtain s1 m1 e1 s2 m2 e2 where ab: "a = Fin s1 m1 e1" "b = Fin s2 m2 e2"
    using assms by (cases a; cases b) auto
  let ?e = "min e1 e2"
  let ?x = "at_exp ?e s1 m1 e1 + at_exp ?e s2 m2 e2"
  have sum: "rv a + rv b = of_int ?x * 2 powi ?e"
    unfolding ab by (simp only: of_int_add distrib_right at_exp_value [OF min.cobounded1] at_exp_value [OF min.cobounded2])
  show ?thesis
  proof (cases "?x = 0")
    case True
    then have "f64_add a b = Fin (s1 \<and> s2) 0 0" by (simp add: ab Let_def)
    moreover have "rv a + rv b = 0" using sum True by simp
    ultimately show ?thesis by (simp add: rv_def signed_def)
  next
    case False
    then have r: "f64_add a b = rnd (?x < 0) (nat \<bar>?x\<bar>) ?e" by (simp add: ab Let_def)
    have abs: "of_nat (nat \<bar>?x\<bar>) * (2::rat) powi ?e = \<bar>rv a + rv b\<bar>"
      by (simp add: sum abs_mult of_nat_nat)
    have sg: "signed (?x < 0) (nat \<bar>?x\<bar>) = ?x" by (simp add: signed_def)
    have fin: "is_finite (f64_add a b)"
      unfolding r by (rule rnd_finite) (use bounded_finite [OF small] in \<open>simp only: abs abs_abs\<close>)
    then show ?thesis using rnd_error [of "?x < 0" "nat \<bar>?x\<bar>" ?e] by (simp only: r sg abs sum)
  qed
qed

lemma rv_neg: "rv (f64_neg a) = - rv a" and finite_neg: "is_finite (f64_neg a) = is_finite a"
  by (cases a; simp add: rv_def signed_def)+

lemma rv_f64_of_int:
  assumes "\<bar>i\<bar> < 2 ^ 53"
  shows "is_finite (f64_of_int i)" and "rv (f64_of_int i) = of_int i"
proof -
  have "nat \<bar>i\<bar> < 2 ^ 53" using assms by (simp add: nat_less_iff)
  then have k: "bit_length (nat \<bar>i\<bar>) \<le> 53" by (rule bit_length_le)
  then have "f64_of_int i = Fin (i < 0) (nat \<bar>i\<bar>) 0"
    by (simp add: f64_of_int_def rnd_def Let_def)
  then show "is_finite (f64_of_int i)" "rv (f64_of_int i) = of_int i"
    by (simp_all add: rv_def signed_def)
qed

text \<open>Taking a few degrees off a moderate number makes it smaller.\<close>

lemma f64_sub_less:
  assumes "is_finite c" "is_finite g" and c: "\<bar>rv c\<bar> \<le> 2 ^ 40" and g: "1 \<le> rv g" "rv g \<le> 2 ^ 40"
  shows "is_finite (f64_sub c g)" "f64_lt (f64_sub c g) c"
proof -
  let ?x = "rv c + rv (f64_neg g)"
  have x: "\<bar>?x\<bar> \<le> 2 ^ 41" using c g by (simp add: rv_neg)
  then have "\<bar>?x\<bar> \<le> 2 ^ 64" by (rule order_trans) simp
  with assms have s: "is_finite (f64_sub c g)"
    "\<bar>rv (f64_sub c g) - ?x\<bar> \<le> max (\<bar>?x\<bar> / 2 ^ 53) (2 powi (- 1075))"
    unfolding f64_sub_def using f64_add_error [of c "f64_neg g"] by (simp_all only: finite_neg)
  have "\<bar>?x\<bar> / 2 ^ 53 < 1" using x by simp
  moreover have "(2::rat) powi (- 1075) < 2 powi 0" by (rule power_int_strict_increasing) simp_all
  then have "(2::rat) powi (- 1075) < 1" by (simp only: power_int_0_right)
  ultimately have "\<bar>rv (f64_sub c g) - ?x\<bar> < 1" using s(2) by (auto simp only: le_max_iff_disj)
  then have "rv (f64_sub c g) < rv c" using g by (simp add: rv_neg abs_less_iff)
  then show "f64_lt (f64_sub c g) c" using assms(1) s(1) by (simp add: f64_lt_finite)
  show "is_finite (f64_sub c g)" by (rule s)
qed

end
