(* ===== verification/Json.thy ===== *)
theory Json
  imports F64
begin

text \<open>
  JSON values as the sources handle them (\<open>serde_json::Value\<close>): a number is an integer or an \<open>f64\<close>,
  an object an ordered map. Only the accessors the sources call are here; text and parsing belong
  to the library.
\<close>

datatype json = JNull | JBool bool | JInt int | JFloat f64 | JStr string | JArr "json list"
  | JObj "(string \<times> json) list"

fun get :: "string \<Rightarrow> json \<Rightarrow> json option" where
  "get k (JObj m) = map_of m k"
| "get k _ = None"

fun as_str :: "json \<Rightarrow> string option" where
  "as_str (JStr s) = Some s"
| "as_str _ = None"

fun as_bool :: "json \<Rightarrow> bool option" where
  "as_bool (JBool b) = Some b"
| "as_bool _ = None"

fun as_u64 :: "json \<Rightarrow> u64 option" where
  "as_u64 (JInt i) = (if 0 \<le> i \<and> i < 2 ^ 64 then Some (word_of_int i) else None)"
| "as_u64 _ = None"

fun as_array :: "json \<Rightarrow> json list option" where
  "as_array (JArr xs) = Some xs"
| "as_array _ = None"

fun is_object :: "json \<Rightarrow> bool" where
  "is_object (JObj _) = True"
| "is_object _ = False"

text \<open>The two readers with a default the sources share.\<close>

definition str_of :: "json \<Rightarrow> string \<Rightarrow> string" where
  "str_of v k = (case Option.bind (get k v) as_str of Some s \<Rightarrow> s | None \<Rightarrow> [])"

definition u64_of :: "json \<Rightarrow> string \<Rightarrow> u64" where
  "u64_of v k = (case Option.bind (get k v) as_u64 of Some n \<Rightarrow> n | None \<Rightarrow> 0)"

definition array_of :: "json \<Rightarrow> string \<Rightarrow> json list" where
  "array_of v k = (case Option.bind (get k v) as_array of Some xs \<Rightarrow> xs | None \<Rightarrow> [])"

end
