(* ===== verification/Smart.thy ===== *)
theory Smart
  imports Bytes
begin

text \<open>
  \<open>src/src/smart/\<close>: one health sample (\<open>mod.rs\<close>), the NVMe SMART/Health log page (\<open>nvme.rs\<close>), the
  SCSI log pages and the ATA SMART tables (\<open>scsi.rs\<close>). The parsers run on bytes a drive sent, so
  each is defined for every byte string. \<open>i32\<close> temperatures are \<open>int\<close> (they come from at most 16
  bits, so they never leave the range of \<open>i32\<close>); counters keep their width.
\<close>

section \<open>A sample\<close>

record temp_limits =
  tl_warn_c :: "int option"
  tl_crit_c :: "int option"
  tl_source :: string

record ata_attribute =
  aa_id :: u8
  aa_prefail :: bool
  aa_value :: u8
  aa_worst :: u8
  aa_threshold :: u8
  aa_raw :: u64

record ie_code =
  asc :: u8
  ascq :: u8

record error_counters =
  ec_corrected :: "u64 option"
  ec_uncorrected :: "u64 option"
  ec_bytes :: "u64 option"

record smart_counters =
  sc_source :: string
  predicted_failure :: "string option"
  ie_warning :: "string option"
  sc_ie :: "ie_code option"
  reallocated_sectors :: "u64 option"
  pending_sectors :: "u64 option"
  offline_uncorrectable :: "u64 option"
  reported_uncorrectable :: "u64 option"
  crc_errors :: "u64 option"
  write_errors :: "error_counters option"
  read_errors :: "error_counters option"
  verify_errors :: "error_counters option"
  grown_defects :: "u64 option"

record nvme_counters =
  available_spare_threshold_pct :: u8
  bytes_read :: u64
  bytes_written :: u64
  power_cycles :: u64
  unsafe_shutdowns :: u64
  error_log_entries :: u64
  host_read_commands :: u64
  host_write_commands :: u64
  controller_busy_minutes :: u64
  warning_temp_minutes :: u64
  critical_temp_minutes :: u64

record sample =
  s_io_errors_not_ours :: "u64 option"
  s_temperature_c :: "int option"
  s_temp_limits :: "temp_limits option"
  s_power_on_hours :: "u64 option"
  s_media_errors :: u64
  s_io_errors :: "u64 option"
  s_available_spare_pct :: "u8 option"
  s_wear_pct :: "u8 option"
  s_critical_warning :: u8
  s_kernel_ok :: bool
  s_messages :: "string list"
  s_nvme :: "nvme_counters option"
  s_smart :: "smart_counters option"
  s_ata_attributes :: "ata_attribute list"

text \<open>\<open>Default::default()\<close> of the two records the code builds by update.\<close>

definition default_counters :: smart_counters where
  "default_counters = \<lparr>sc_source = [], predicted_failure = None, ie_warning = None, sc_ie = None,
     reallocated_sectors = None, pending_sectors = None, offline_uncorrectable = None,
     reported_uncorrectable = None, crc_errors = None, write_errors = None, read_errors = None,
     verify_errors = None, grown_defects = None\<rparr>"

definition default_sample :: sample where
  "default_sample = \<lparr>s_io_errors_not_ours = None, s_temperature_c = None, s_temp_limits = None,
     s_power_on_hours = None, s_media_errors = 0, s_io_errors = None, s_available_spare_pct = None,
     s_wear_pct = None, s_critical_warning = 0, s_kernel_ok = False, s_messages = [], s_nvme = None,
     s_smart = None, s_ata_attributes = []\<rparr>"

text \<open>
  \<open>SmartCounters::counters\<close>: the counters by name. The \<open>BTreeMap\<close> is only looked up, so it is a
  map; \<open>put\<close> inserts a counter the drive gave.
\<close>

definition counter_list :: "smart_counters \<Rightarrow> (string \<times> u64 option) list" where
  "counter_list c =
     [(''grown_defects'', grown_defects c),
      (''reallocated_sectors'', reallocated_sectors c),
      (''pending_sectors'', pending_sectors c),
      (''offline_uncorrectable'', offline_uncorrectable c),
      (''reported_uncorrectable'', reported_uncorrectable c),
      (''crc_errors'', crc_errors c)]
     @ concat (map (\<lambda>(page, e).
         [(page @ ''_corrected'', Option.bind e ec_corrected),
          (page @ ''_uncorrected'', Option.bind e ec_uncorrected)])
        [(''read'', read_errors c), (''write'', write_errors c), (''verify'', verify_errors c)])"

definition counters :: "smart_counters \<Rightarrow> (string \<rightharpoonup> u64)" where
  "counters c k = Option.bind (map_of (counter_list c) k) (\<lambda>v. v)"

section \<open>NVMe: the SMART/Health log page\<close>

text \<open>The critical-warning bits.\<close>

definition SPARE_BELOW_THRESHOLD :: u8 where "SPARE_BELOW_THRESHOLD = 1"
definition TEMPERATURE :: u8 where "TEMPERATURE = 2"
definition RELIABILITY_DEGRADED :: u8 where "RELIABILITY_DEGRADED = 4"
definition READ_ONLY :: u8 where "READ_ONLY = 8"
definition VOLATILE_BACKUP_FAILED :: u8 where "VOLATILE_BACKUP_FAILED = 16"

text \<open>A 128-bit counter, saturated to 64 bits.\<close>

definition u128_at :: "bytes \<Rightarrow> nat \<Rightarrow> u64" where
  "u128_at page off = word_of_nat (min (nat_of_le (slice off 16 page)) (2 ^ 64 - 1))"

text \<open>The page is the code's \<open>[u8; 512]\<close>: the index expressions are in range for 512 bytes.\<close>

definition decode_smart_page :: "bytes \<Rightarrow> sample" where
  "decode_smart_page page =
     (let kelvin = nat_of_le [page ! 1, page ! 2];
          temperature_c = (if kelvin = 0 then None else Some (int kelvin - 273))
      in \<lparr>s_io_errors_not_ours = None,
          s_temperature_c = temperature_c,
          s_temp_limits = None,
          s_power_on_hours = Some (u128_at page 128),
          s_media_errors = u128_at page 160,
          s_io_errors = None,
          s_available_spare_pct = Some (min (page ! 3) 100),
          s_wear_pct = Some (page ! 5),
          s_critical_warning = page ! 0,
          s_kernel_ok = True,
          s_messages = [],
          s_nvme = Some
            \<lparr>available_spare_threshold_pct = page ! 4,
             bytes_read = sat_mul (u128_at page 32) 512000,
             bytes_written = sat_mul (u128_at page 48) 512000,
             power_cycles = u128_at page 112,
             unsafe_shutdowns = u128_at page 144,
             error_log_entries = u128_at page 176,
             host_read_commands = u128_at page 64,
             host_write_commands = u128_at page 80,
             controller_busy_minutes = u128_at page 96,
             warning_temp_minutes = word_of_le [page ! 192, page ! 193, page ! 194, page ! 195],
             critical_temp_minutes = word_of_le [page ! 196, page ! 197, page ! 198, page ! 199]\<rparr>,
          s_smart = None,
          s_ata_attributes = []\<rparr>)"

section \<open>SCSI: log pages\<close>

definition log_sense_cdb :: "u8 \<Rightarrow> u16 \<Rightarrow> bytes" where
  "log_sense_cdb page alloc =
     (let hl = word_be 2 alloc
      in [0x4D, 0, 0x40 OR (page AND 0x3F), 0, 0, 0, 0, hl ! 0, hl ! 1, 0])"

text \<open>The parameter walk: \<open>end\<close> is at most the buffer's length, and each step moves on by at least 4.\<close>

function log_params_from :: "bytes \<Rightarrow> nat \<Rightarrow> nat \<Rightarrow> (u16 \<times> bytes) list" where
  "log_params_from raw fin off =
     (if off + 4 \<le> fin then
        (let code = word_of_be (slice off 2 raw);
             len = unat (raw ! (off + 3))
         in case get_slice (off + 4) (min (off + 4 + len) fin) raw of
              None \<Rightarrow> []
            | Some data \<Rightarrow> (code, data) # log_params_from raw fin (off + 4 + len))
      else [])"
  by pat_completeness auto
termination
  by (relation "measure (\<lambda>(raw, fin, off). fin - off)") auto

declare log_params_from.simps [simp del]

definition log_params :: "bytes \<Rightarrow> u8 \<Rightarrow> (u16 \<times> bytes) list" where
  "log_params raw page =
     (if length raw < 4 \<or> raw ! 0 AND 0x3F \<noteq> page then []
      else log_params_from raw (min (4 + nat_of_be (slice 2 2 raw)) (length raw)) 4)"

text \<open>\<open>.into_iter().find(|(c, _)| *c == code)\<close>: the first parameter with the code.\<close>

definition log_param :: "bytes \<Rightarrow> u8 \<Rightarrow> u16 \<Rightarrow> bytes option" where
  "log_param raw page code = map_of (log_params raw page) code"

record ie =
  ie_code :: "ie_code option"
  ie_temperature_c :: "int option"

definition warning_name :: "u8 \<Rightarrow> string option" where
  "warning_name q = map_of
     [(0x00, ''warning''),
      (0x01, ''specified temperature exceeded''),
      (0x02, ''enclosure degraded''),
      (0x03, ''background self-test failed''),
      (0x04, ''background pre-scan detected medium error''),
      (0x05, ''background medium scan detected medium error''),
      (0x06, ''non-volatile cache now volatile''),
      (0x07, ''degraded power to non-volatile cache''),
      (0x08, ''power loss expected''),
      (0x09, ''device statistics notification active''),
      (0x0A, ''high critical temperature limit exceeded''),
      (0x0B, ''low critical temperature limit exceeded''),
      (0x0C, ''high operating temperature limit exceeded''),
      (0x0D, ''low operating temperature limit exceeded''),
      (0x0E, ''high critical humidity limit exceeded''),
      (0x0F, ''low critical humidity limit exceeded''),
      (0x10, ''high operating humidity limit exceeded''),
      (0x11, ''low operating humidity limit exceeded''),
      (0x12, ''microcode security at risk''),
      (0x13, ''microcode digital signature validation failure''),
      (0x14, ''physical element status change'')] q"

definition describe_ie :: "ie_code \<Rightarrow> bool \<times> string" where
  "describe_ie code =
     (let at = ''ASC '' @ hex2 (asc code) @ ''h/'' @ hex2 (ascq code) @ ''h'' in
      if asc code = 0x5D \<and> ascq code = 0xFF then
        (False, ''the drive reports a test failure prediction, not a real one ('' @ at @ '')'')
      else if asc code = 0x5D then
        (True, ''the drive predicts its own failure (SMART threshold exceeded, '' @ at @ '')'')
      else if asc code = 0x0B then
        (case warning_name (ascq code) of
           Some n \<Rightarrow> (False, ''the drive warns: '' @ n @ '' ('' @ at @ '')'')
         | None \<Rightarrow>
             if 0x80 \<le> ascq code
             then (False, ''the drive reports a vendor-specific warning '' @ hex2 (ascq code) @ ''h ('' @ at @ '')'')
             else (False, ''the drive reports a warning ('' @ at @ '')''))
      else (False, ''the drive reports an informational exception ('' @ at @ '')''))"

definition parse_ie :: "bytes \<Rightarrow> ie option" where
  "parse_ie raw =
     (case log_param raw 0x2F 0 of
        None \<Rightarrow> None
      | Some d \<Rightarrow>
          if length d < 2 then None
          else Some \<lparr>ie_code = (if d ! 0 \<noteq> 0 then Some \<lparr>asc = d ! 0, ascq = d ! 1\<rparr> else None),
                     ie_temperature_c = map_option (\<lambda>t. int (unat t))
                       (opt_filter (\<lambda>t. t \<noteq> 0xFF \<and> t \<noteq> 0) (get_nth 2 d))\<rparr>)"

definition io_errors_not_ours :: "u64 \<times> u64 \<Rightarrow> u64 \<times> u64 \<Rightarrow> u64" where
  "io_errors_not_ours at_first now =
     sat_sub (sat_sub (fst now) (fst at_first)) (sat_sub (snd now) (snd at_first))"

definition parse_temperature :: "bytes \<Rightarrow> int option" where
  "parse_temperature raw =
     Option.bind (log_param raw 0x0D 0) (\<lambda>d.
       map_option (\<lambda>t. int (unat t)) (opt_filter (\<lambda>t. t \<noteq> 0xFF) (get_nth 1 d)))"

definition parse_reference_temperature :: "bytes \<Rightarrow> temp_limits option" where
  "parse_reference_temperature raw =
     Option.bind (log_param raw 0x0D 1) (\<lambda>d.
       map_option
         (\<lambda>t. \<lparr>tl_warn_c = Some (int (unat t) - 5), tl_crit_c = Some (int (unat t)), tl_source = ''log_sense_0x0d''\<rparr>)
         (opt_filter (\<lambda>t. t \<noteq> 0xFF \<and> t \<noteq> 0) (get_nth 1 d)))"

definition parse_error_counters :: "bytes \<Rightarrow> u8 \<Rightarrow> error_counters option" where
  "parse_error_counters raw page =
     (let get = (\<lambda>code. map_option word_of_be
                  (opt_filter (\<lambda>d. d \<noteq> [] \<and> length d \<le> 8) (log_param raw page code)));
          c = \<lparr>ec_corrected = get 3, ec_uncorrected = get 6, ec_bytes = get 5\<rparr>
      in if c \<noteq> \<lparr>ec_corrected = None, ec_uncorrected = None, ec_bytes = None\<rparr> then Some c else None)"

definition read_defect12_cdb :: "u32 \<Rightarrow> bytes" where
  "read_defect12_cdb alloc =
     (let a = word_be 4 alloc in [0xB7, 0x08 OR 0x04, 0, 0, 0, 0, a ! 0, a ! 1, a ! 2, a ! 3, 0, 0])"

definition parse_grown_defects :: "bytes \<Rightarrow> u64 option" where
  "parse_grown_defects raw =
     (if length raw < 8 \<or> raw ! 1 AND 0x08 = 0 then None
      else
        (let f = unat (raw ! 1 AND 0x07);
             size = (if f = 0 then Some 4 else if f \<le> 5 then Some 8 else None)
         in map_option (\<lambda>sz. word_of_nat (nat_of_be (slice 4 4 raw) div sz)) size))"

text \<open>\<open>Iterator::sum\<close> on \<open>u64\<close>: addition that wraps in a release build.\<close>

definition sas_media_errors :: "smart_counters \<Rightarrow> u64" where
  "sas_media_errors c =
     sum_list (List.map_filter (\<lambda>e. Option.bind e ec_uncorrected) [read_errors c, write_errors c, verify_errors c])"

definition parse_ssd_endurance :: "bytes \<Rightarrow> u8 option" where
  "parse_ssd_endurance raw = Option.bind (log_param raw 0x11 1) (get_nth 3)"

section \<open>ATA SMART\<close>

definition ata_smart_cdb :: "u8 \<Rightarrow> bytes" where
  "ata_smart_cdb subcommand =
     (replicate 16 0)[0 := 0x85, 1 := push_bit 1 4, 2 := 0x08 OR 0x04 OR 0x02, 4 := subcommand, 6 := 1,
       10 := 0x4F, 12 := 0xC2, 14 := 0xB0]"

record attribute =
  at_id :: u8
  at_prefail :: bool
  at_value :: u8
  at_worst :: u8
  at_raw :: u64

definition smart_attribute :: "bytes \<Rightarrow> attribute option" where
  "smart_attribute a =
     (if a ! 0 \<noteq> 0 then
        Some \<lparr>at_id = a ! 0, at_prefail = odd (nat_of_le [a ! 1, a ! 2]), at_value = a ! 3, at_worst = a ! 4,
              at_raw = word_of_le (slice 5 6 a)\<rparr>
      else None)"

definition parse_smart_attributes :: "bytes \<Rightarrow> attribute list" where
  "parse_smart_attributes data =
     List.map_filter (\<lambda>i. Option.bind (get_slice (2 + i * 12) (2 + i * 12 + 12) data) smart_attribute) [0..<30]"

definition parse_smart_thresholds :: "bytes \<Rightarrow> (u8 \<times> u8) list" where
  "parse_smart_thresholds data =
     List.map_filter (\<lambda>i. Option.bind (get_slice (2 + i * 12) (2 + i * 12 + 2) data)
         (\<lambda>t. if t ! 0 \<noteq> 0 then Some (t ! 0, t ! 1) else None)) [0..<30]"

definition attr_raw :: "attribute list \<Rightarrow> u8 \<Rightarrow> u64 option" where
  "attr_raw attrs i = map_option at_raw (find (\<lambda>a. at_id a = i) attrs)"

definition attr_failing :: "(u8 \<times> u8) list \<Rightarrow> attribute \<Rightarrow> string option" where
  "attr_failing thresholds a =
     Option.bind (map_of thresholds (at_id a)) (\<lambda>t.
       if t \<noteq> 0 \<and> at_value a \<le> t
       then Some (''attribute '' @ dec (unat (at_id a)) @ '' at '' @ dec (unat (at_value a)) @ '' ''
                  @ utf8_le @ '' threshold '' @ dec (unat t))
       else None)"

definition apply_ata_smart :: "attribute list \<Rightarrow> (u8 \<times> u8) list \<Rightarrow> bool \<Rightarrow> sample \<Rightarrow> sample" where
  "apply_ata_smart attrs thresholds ssd s =
     (let raw = attr_raw attrs;
          failing = List.map_filter (attr_failing thresholds) (filter at_prefail attrs);
          c = default_counters
            \<lparr>sc_source := ''ata_smart'',
             reallocated_sectors := raw 5,
             pending_sectors := raw 197,
             offline_uncorrectable := raw 198,
             reported_uncorrectable := raw 187,
             crc_errors := raw 199,
             predicted_failure := (if failing \<noteq> []
               then Some (''the drive predicts its own failure: '' @ join '', '' failing) else None)\<rparr>;
          temp = opt_or (s_temperature_c s)
            (opt_filter (\<lambda>t. 0 < t \<and> t < 150)
               (map_option (\<lambda>r. int (unat (r AND 0xFF))) (raw 194)));
          wear = (if ssd then opt_or (s_wear_pct s)
              (map_option (\<lambda>a. sat_sub 100 (min (at_value a) 100))
                (first_some (map (\<lambda>i. find (\<lambda>a. at_id a = i) attrs) [233, 231, 177])))
            else s_wear_pct s)
      in s\<lparr>s_media_errors := (case raw 187 of Some n \<Rightarrow> n | None \<Rightarrow> 0),
           s_temperature_c := temp,
           s_power_on_hours := opt_or (s_power_on_hours s) (map_option (\<lambda>r. r AND 0xFFFFFFFF) (raw 9)),
           s_wear_pct := wear,
           s_smart := Some c,
           s_ata_attributes := map (\<lambda>a. \<lparr>aa_id = at_id a, aa_prefail = at_prefail a, aa_value = at_value a,
               aa_worst = at_worst a,
               aa_threshold = (case map_of thresholds (at_id a) of Some t \<Rightarrow> t | None \<Rightarrow> 0),
               aa_raw = at_raw a\<rparr>) attrs\<rparr>)"

section \<open>What a SAS or SATA drive says itself\<close>

text \<open>
  \<open>from_drive\<close>, over the answers of the opened device: \<open>dev_log\<close> is a LOG SENSE page (\<open>None\<close>: the
  drive has none), \<open>dev_ata\<close> a SMART subcommand, \<open>dev_defects\<close> the READ DEFECT DATA header.
\<close>

record drive_answers =
  dev_is_ata :: bool
  dev_ata :: "u8 \<Rightarrow> bytes option"
  dev_log :: "u8 \<Rightarrow> bytes option"
  dev_defects :: "bytes option"

definition SMART_READ_DATA :: u8 where "SMART_READ_DATA = 0xD0"
definition SMART_READ_THRESHOLDS :: u8 where "SMART_READ_THRESHOLDS = 0xD1"

definition sas_from_drive :: "drive_answers \<Rightarrow> bool \<Rightarrow> sample \<Rightarrow> sample" where
  "sas_from_drive dev ssd s =
     (let exc = Option.bind (dev_log dev 0x2F) parse_ie;
          code = Option.bind exc ie_code;
          said = map_option describe_ie code;
          c = default_counters
            \<lparr>sc_source := ''log_sense'',
             sc_ie := code,
             predicted_failure := Option.bind said (\<lambda>(failing, why). if failing then Some why else None),
             ie_warning := Option.bind said (\<lambda>(failing, why). if failing then None else Some why)\<rparr>;
          s = s\<lparr>s_temperature_c := opt_or (s_temperature_c s) (Option.bind exc ie_temperature_c)\<rparr>;
          s = (case dev_log dev 0x0D of
                 None \<Rightarrow> s
               | Some r \<Rightarrow> s\<lparr>s_temperature_c := opt_or (s_temperature_c s) (parse_temperature r),
                             s_temp_limits := opt_or (s_temp_limits s) (parse_reference_temperature r)\<rparr>);
          s = (if ssd then
                 (case Option.bind (dev_log dev 0x11) parse_ssd_endurance of
                    None \<Rightarrow> s | Some w \<Rightarrow> s\<lparr>s_wear_pct := Some w\<rparr>)
               else s);
          c = c\<lparr>write_errors := Option.bind (dev_log dev 0x02) (\<lambda>r. parse_error_counters r 0x02),
                read_errors := Option.bind (dev_log dev 0x03) (\<lambda>r. parse_error_counters r 0x03),
                verify_errors := Option.bind (dev_log dev 0x05) (\<lambda>r. parse_error_counters r 0x05)\<rparr>;
          counted = (write_errors c \<noteq> None \<or> read_errors c \<noteq> None \<or> verify_errors c \<noteq> None);
          s = (if counted then s\<lparr>s_media_errors := sas_media_errors c\<rparr> else s);
          c = (case dev_defects dev of None \<Rightarrow> c | Some h \<Rightarrow> c\<lparr>grown_defects := parse_grown_defects h\<rparr>);
          any = (exc \<noteq> None \<or> counted \<or> grown_defects c \<noteq> None)
      in if any then s\<lparr>s_smart := Some c\<rparr> else s)"

definition from_drive :: "drive_answers \<Rightarrow> bool \<Rightarrow> sample \<Rightarrow> sample" where
  "from_drive dev ssd s =
     (if dev_is_ata dev then
        (case dev_ata dev SMART_READ_DATA of
           None \<Rightarrow> s
         | Some data \<Rightarrow>
             apply_ata_smart (parse_smart_attributes data)
               (case dev_ata dev SMART_READ_THRESHOLDS of None \<Rightarrow> [] | Some t \<Rightarrow> parse_smart_thresholds t) ssd s)
      else sas_from_drive dev ssd s)"

section \<open>Parsing what a drive encodes\<close>

text \<open>A log page as SPC-4 lays it out: page code, length, then each parameter with its own length.\<close>

definition encode_param :: "u16 \<times> bytes \<Rightarrow> bytes" where
  "encode_param p = word_be 2 (fst p) @ [0, word_of_nat (length (snd p))] @ snd p"

definition encode_page :: "u8 \<Rightarrow> (u16 \<times> bytes) list \<Rightarrow> bytes" where
  "encode_page page ps =
     (let body = concat (map encode_param ps) in [page, 0] @ be_bytes 2 (length body) @ body)"

lemma length_encode_param: "length (encode_param p) = 4 + length (snd p)"
  by (simp add: encode_param_def)

lemma encode_param_fields:
  "slice 0 2 (encode_param p @ rest) = word_be 2 (fst p)"
  "(encode_param p @ rest) ! 3 = word_of_nat (length (snd p))"
  "slice 4 (length (snd p)) (encode_param p @ rest) = snd p"
  by (simp_all add: encode_param_def slice_def nth_append numeral_eq_Suc)

lemma slice_drop: "slice (length pre) n (pre @ xs) = slice 0 n xs"
  by (simp add: slice_def)

lemma log_params_from_encode:
  assumes "\<forall>p \<in> set ps. length (snd p) < 256"
  shows "log_params_from (pre @ concat (map encode_param ps) @ post)
      (length pre + length (concat (map encode_param ps))) (length pre) = ps"
  using assms
proof (induction ps arbitrary: pre)
  case Nil
  then show ?case by (subst log_params_from.simps) simp
next
  case (Cons p ps)
  let ?rest = "concat (map encode_param ps)"
  let ?raw = "pre @ encode_param p @ ?rest @ post"
  let ?fin = "length pre + length (encode_param p) + length ?rest"
  have len: "length (snd p) < 256" using Cons.prems by simp
  have code: "(word_of_be (slice (length pre) 2 ?raw) :: u16) = fst p"
    by (simp add: slice_drop encode_param_fields word_of_be_word_be)
  have "?raw ! (length pre + 3) = (encode_param p @ ?rest @ post) ! 3"
    by (simp add: nth_append)
  then have n: "unat (?raw ! (length pre + 3)) = length (snd p)"
    using len by (simp add: encode_param_fields unat_of_nat)
  have fin: "min (length pre + 4 + length (snd p)) ?fin = length pre + 4 + length (snd p)"
    by (simp add: length_encode_param)
  have "slice (length pre + 4) (length (snd p)) ?raw = slice 4 (length (snd p)) (encode_param p @ ?rest @ post)"
    by (simp add: slice_def)
  then have data: "get_slice (length pre + 4) (length pre + 4 + length (snd p)) ?raw = Some (snd p)"
    by (simp add: get_slice_def length_encode_param encode_param_fields)
  have "log_params_from ?raw ?fin (length (pre @ encode_param p)) = ps"
    using Cons.IH [of "pre @ encode_param p"] Cons.prems by (simp add: add.assoc)
  then have next_step: "log_params_from ?raw ?fin (length pre + 4 + length (snd p)) = ps"
    by (simp add: length_encode_param add.assoc)
  have "log_params_from ?raw ?fin (length pre) = (fst p, snd p) # ps"
    by (subst log_params_from.simps)
      (simp only: Let_def n fin data code next_step option.case, simp add: length_encode_param)
  then show ?case by (simp add: add.assoc)
qed

lemma log_params_encode_page:
  assumes "\<forall>p \<in> set ps. length (snd p) < 256"
    and "length (concat (map encode_param ps)) < 2 ^ 16" and "page AND 0x3F = page"
  shows "log_params (encode_page page ps @ post) page = ps"
proof -
  let ?body = "concat (map encode_param ps)"
  let ?raw = "encode_page page ps @ post"
  let ?pre = "[page, 0] @ be_bytes 2 (length ?body)"
  have raw: "?raw = ?pre @ ?body @ post" by (simp add: encode_page_def Let_def)
  have "slice 2 2 ?raw = be_bytes 2 (length ?body)"
    by (simp add: raw slice_def)
  then have "nat_of_be (slice 2 2 ?raw) = length ?body"
    using assms(2) by (simp add: nat_of_be_bytes)
  moreover have "log_params_from ?raw (4 + length ?body) 4 = ps"
    using log_params_from_encode [OF assms(1), of ?pre post] by (simp add: raw)
  ultimately show ?thesis
    using assms(3) by (simp add: log_params_def raw)
qed

lemma log_param_encode_first:
  assumes "length d < 256" and "\<forall>p \<in> set ps. length (snd p) < 256"
    and "length (concat (map encode_param ((code, d) # ps))) < 2 ^ 16" and "page AND 0x3F = page"
  shows "log_param (encode_page page ((code, d) # ps) @ post) page code = Some d"
  using log_params_encode_page [of "(code, d) # ps" page post] assms by (simp add: log_param_def)

text \<open>The informational exception a drive's answers carry, and what \<open>sas_from_drive\<close> makes of it.\<close>

lemma describe_ie_predicts:
  "fst (describe_ie c) \<longleftrightarrow> asc c = 0x5D \<and> ascq c \<noteq> 0xFF"
  by (simp add: describe_ie_def Let_def split: option.splits)

lemma parse_ie_page:
  assumes "\<forall>p \<in> set ps. length (snd p) < 256" and "length d + 3 < 256"
    and "length (concat (map encode_param ((0, a # q # t # d) # ps))) < 2 ^ 16"
  shows "parse_ie (encode_page 0x2F ((0, a # q # t # d) # ps)) =
    Some \<lparr>ie_code = (if a \<noteq> 0 then Some \<lparr>asc = a, ascq = q\<rparr> else None),
          ie_temperature_c = (if t \<noteq> 0xFF \<and> t \<noteq> 0 then Some (int (unat t)) else None)\<rparr>"
proof -
  have "log_param (encode_page 0x2F ((0, a # q # t # d) # ps) @ []) 0x2F 0 = Some (a # q # t # d)"
    by (rule log_param_encode_first) (use assms in simp_all)
  then show ?thesis by (simp add: parse_ie_def get_nth_def)
qed

lemma sas_from_drive_exception:
  assumes "Option.bind (dev_log dev 0x2F) parse_ie = Some e"
  shows "\<exists>c. s_smart (sas_from_drive dev ssd s) = Some c \<and> sc_ie c = ie_code e
    \<and> predicted_failure c = Option.bind (map_option describe_ie (ie_code e)) (\<lambda>(failing, why). if failing then Some why else None)
    \<and> ie_warning c = Option.bind (map_option describe_ie (ie_code e)) (\<lambda>(failing, why). if failing then None else Some why)"
  using assms by (simp add: sas_from_drive_def Let_def default_counters_def split: option.splits)

text \<open>
  A SAS drive whose Informational Exceptions page (0x2F) carries ASC/ASCQ a/q is
  reported as predicting its own failure exactly when that is a real SMART trip (5Dh, and not the
  test code FFh); any other non-zero code is reported as a warning and none as nothing. Whatever
  parameters follow on the page and whatever the other pages say.
\<close>
theorem sas_predicts:
  assumes page: "dev_log dev 0x2F = Some (encode_page 0x2F ((0, a # q # t # d) # ps))"
    and ps: "\<forall>p \<in> set ps. length (snd p) < 256" "length d + 3 < 256"
    and size: "length (concat (map encode_param ((0, a # q # t # d) # ps))) < 2 ^ 16"
  shows "\<exists>c. s_smart (sas_from_drive dev ssd s) = Some c
    \<and> sc_ie c = (if a \<noteq> 0 then Some \<lparr>asc = a, ascq = q\<rparr> else None)
    \<and> (predicted_failure c \<noteq> None \<longleftrightarrow> a = 0x5D \<and> q \<noteq> 0xFF)
    \<and> (ie_warning c \<noteq> None \<longleftrightarrow> a \<noteq> 0 \<and> (a \<noteq> 0x5D \<or> q = 0xFF))"
proof -
  let ?e = "\<lparr>ie_code = (if a \<noteq> 0 then Some \<lparr>asc = a, ascq = q\<rparr> else None),
          ie_temperature_c = (if t \<noteq> 0xFF \<and> t \<noteq> 0 then Some (int (unat t)) else None)\<rparr>"
  have "Option.bind (dev_log dev 0x2F) parse_ie = Some ?e"
    using parse_ie_page [OF ps size] page by simp
  from sas_from_drive_exception [OF this] obtain c where
    c: "s_smart (sas_from_drive dev ssd s) = Some c" "sc_ie c = ie_code ?e"
      "predicted_failure c = Option.bind (map_option describe_ie (ie_code ?e)) (\<lambda>(failing, why). if failing then Some why else None)"
      "ie_warning c = Option.bind (map_option describe_ie (ie_code ?e)) (\<lambda>(failing, why). if failing then None else Some why)"
    by blast
  have split_c: "(case describe_ie \<lparr>asc = a, ascq = q\<rparr> of (f, w) \<Rightarrow> P f w) \<longleftrightarrow> P (a = 0x5D \<and> q \<noteq> 0xFF) (snd (describe_ie \<lparr>asc = a, ascq = q\<rparr>))" for P
    using describe_ie_predicts [of "\<lparr>asc = a, ascq = q\<rparr>"] by (simp add: case_prod_beta)
  show ?thesis
    using c split_c by (auto simp: case_prod_beta describe_ie_predicts)
qed

lemma sas_predicts_witness:
  "\<exists>c. s_smart (sas_from_drive \<lparr>dev_is_ata = False, dev_ata = (\<lambda>_. None),
        dev_log = (\<lambda>p. if p = 0x2F then Some (encode_page 0x2F [(0, [0x5D, 0x10, 40])]) else None),
        dev_defects = None\<rparr> False default_sample) = Some c
    \<and> sc_ie c = Some \<lparr>asc = 0x5D, ascq = 0x10\<rparr> \<and> predicted_failure c \<noteq> None \<and> ie_warning c = None"
proof -
  let ?dev = "\<lparr>dev_is_ata = False, dev_ata = (\<lambda>_. None),
        dev_log = (\<lambda>p. if p = 0x2F then Some (encode_page 0x2F [(0, [0x5D, 0x10, 40])]) else None),
        dev_defects = None\<rparr>"
  have *: "dev_log ?dev 0x2F = Some (encode_page 0x2F ((0, 0x5D # 0x10 # 40 # []) # []))" by simp
  show ?thesis using sas_predicts [OF *] by (force simp: encode_param_def)
qed

text \<open>
  The LOG SENSE parser is the inverse of SPC-4's page encoding: whatever
  parameters a drive puts on a page (each up to 255 bytes, the page up to 64 KiB), the parser
  returns exactly those, in order, also when the transfer buffer is longer than the page.
\<close>
theorem log_page_roundtrip:
  assumes "\<forall>p \<in> set ps. length (snd p) < 256"
    and "length (concat (map encode_param ps)) < 2 ^ 16" and "page AND 0x3F = page"
  shows "log_params (encode_page page ps @ replicate k 0) page = ps"
  by (rule log_params_encode_page [OF assms])

lemma log_page_roundtrip_witness:
  "log_params (encode_page 0x2F [(0, [0x5D, 0x10, 40]), (7, [])] @ replicate 5 0) 0x2F = [(0, [0x5D, 0x10, 40]), (7, [])]"
  by (rule log_page_roundtrip) (simp_all add: encode_param_def)

text \<open>A drive's error counter page: its totals, whatever their lengths.\<close>

lemma parse_error_counters_page:
  assumes "\<forall>p \<in> set ps. length (snd p) < 256"
    and "length (concat (map encode_param ps)) < 2 ^ 16" and "page AND 0x3F = page"
    and "map_of ps 6 = Some d" and "d \<noteq> []" "length d \<le> 8"
  shows "\<exists>c. parse_error_counters (encode_page page ps) page = Some c \<and> ec_uncorrected c = Some (word_of_be d)"
proof -
  have "log_params (encode_page page ps) page = ps"
    using log_params_encode_page [OF assms(1-3), of "[]"] by simp
  then show ?thesis
    using assms(4-) by (simp add: parse_error_counters_def log_param_def Let_def)
qed

section \<open>The ATA attribute table\<close>

text \<open>SMART READ DATA as the drive sends it: a revision, then thirty slots of twelve bytes.\<close>

definition encode_attribute :: "attribute \<Rightarrow> bytes" where
  "encode_attribute a =
     [at_id a, if at_prefail a then 1 else 0, 0, at_value a, at_worst a] @ le_bytes 6 (unat (at_raw a)) @ [0]"

definition encode_attributes :: "attribute list \<Rightarrow> bytes" where
  "encode_attributes attrs =
     [16, 0] @ concat (map encode_attribute attrs) @ replicate (12 * (30 - length attrs) + 150) 0"


definition encode_thresholds :: "(u8 \<times> u8) list \<Rightarrow> bytes" where
  "encode_thresholds ts =
     [16, 0] @ concat (map (\<lambda>(i, t). [i, t] @ replicate 10 0) ts) @ replicate (12 * (30 - length ts) + 150) 0"

lemma slice_slot:
  assumes "\<forall>x \<in> set xs. length (enc x) = k"
  shows "i < length xs \<Longrightarrow> w \<le> k \<Longrightarrow> slice (i * k) w (concat (map enc xs) @ rest) = take w (enc (xs ! i))"
  using assms
proof (induction xs arbitrary: i)
  case (Cons x xs)
  show ?case
  proof (cases i)
    case 0
    with Cons.prems show ?thesis by (simp add: slice_def)
  next
    case (Suc j)
    have "slice (Suc j * k) w (concat (map enc (x # xs)) @ rest) = slice (j * k) w (concat (map enc xs) @ rest)"
      using Cons.prems by (simp add: slice_def)
    with Cons.IH [of j] Cons.prems Suc show ?thesis by simp
  qed
qed simp

lemma length_slots: "\<forall>x \<in> set xs. length (enc x) = k \<Longrightarrow> length (concat (map enc xs)) = length xs * k"
  by (induction xs) simp_all

lemma map_filter_slots:
  fixes enc :: "'x \<Rightarrow> bytes"
  assumes len: "\<forall>x \<in> set xs. length (enc x) = 12" and n: "length xs \<le> 30" and w: "w \<le> 12"
    and dec: "\<forall>x \<in> set xs. g (take w (enc x)) = Some x" and zero: "g (replicate w 0) = None"
  shows "List.map_filter (\<lambda>i. Option.bind (get_slice (2 + i * 12) (2 + i * 12 + w)
      ([a, b] @ concat (map enc xs) @ replicate (12 * (30 - length xs) + 150) 0)) g) [0..<30] = xs"
    (is "List.map_filter ?f _ = _")
proof -
  let ?body = "concat (map enc xs) @ replicate (12 * (30 - length xs) + 150) (0 :: u8)"
  have total: "length ?body = 510" using n length_slots [OF len] by simp
  have get: "get_slice (2 + i * 12) (2 + i * 12 + w) ([a, b] @ ?body) = Some (slice (i * 12) w ?body)" if "i < 30" for i
    using that w total by (simp add: get_slice_def slice_def)
  have used: "?f i = Some (xs ! i)" if "i < length xs" for i
    using that n w get [of i] slice_slot [OF len that w] dec nth_mem [OF that] by simp
  have free: "?f i = None" if "length xs \<le> i" "i < 30" for i
  proof -
    have "slice (i * 12) w ?body = slice (i * 12 - length xs * 12) w (replicate (12 * (30 - length xs) + 150) 0)"
      using that length_slots [OF len] by (simp add: slice_def)
    also have "\<dots> = replicate w 0"
      using that n w by (simp add: slice_replicate)
    finally show ?thesis using get [of i] that zero by simp
  qed
  have "[0..<30] = [0..<length xs] @ [length xs..<30]"
    using n by (metis le0 le_add_diff_inverse upt_add_eq_append)
  then have "List.map_filter ?f [0..<30] = List.map_filter ?f [0..<length xs] @ List.map_filter ?f [length xs..<30]"
    by (simp only: map_filter_append)
  also have "List.map_filter ?f [length xs..<30] = []"
    by (rule map_filter_all_None) (use free in auto)
  also have "List.map_filter ?f [0..<length xs] = List.map_filter (\<lambda>i. Some (xs ! i)) [0..<length xs]"
    by (rule map_filter_cong, rule used) simp
  also have "\<dots> = xs" by (simp only: map_filter_Some map_nth)
  finally show ?thesis by simp
qed

lemma parse_encode_attributes:
  assumes "length attrs \<le> 30" and "\<forall>a \<in> set attrs. at_id a \<noteq> 0 \<and> unat (at_raw a) < 2 ^ 48"
  shows "parse_smart_attributes (encode_attributes attrs) = attrs"
  unfolding parse_smart_attributes_def encode_attributes_def
proof (rule map_filter_slots)
  show "\<forall>a \<in> set attrs. smart_attribute (take 12 (encode_attribute a)) = Some a"
  proof
    fix a assume "a \<in> set attrs"
    then have a: "at_id a \<noteq> 0" "unat (at_raw a) < 256 ^ 6" using assms(2) by auto
    have "slice 5 6 (encode_attribute a) = le_bytes 6 (unat (at_raw a))"
      by (simp add: encode_attribute_def slice_def)
    moreover have "(word_of_le (le_bytes 6 (unat (at_raw a))) :: u64) = at_raw a"
      using a by (simp add: word_of_le_def nat_of_le_bytes)
    ultimately show "smart_attribute (take 12 (encode_attribute a)) = Some a"
      using a by (cases a) (simp add: smart_attribute_def encode_attribute_def)
  qed
qed (use assms in \<open>simp_all add: encode_attribute_def smart_attribute_def\<close>)

lemma parse_encode_thresholds:
  assumes "length ts \<le> 30" and "\<forall>t \<in> set ts. fst t \<noteq> 0"
  shows "parse_smart_thresholds (encode_thresholds ts) = ts"
  unfolding parse_smart_thresholds_def encode_thresholds_def
  by (rule map_filter_slots) (use assms in \<open>auto simp: numeral_2_eq_2\<close>)

lemma apply_ata_smart_verdict:
  "\<exists>c. s_smart (apply_ata_smart attrs ts ssd s) = Some c
    \<and> (predicted_failure c \<noteq> None \<longleftrightarrow>
         (\<exists>a \<in> set attrs. at_prefail a \<and> (\<exists>t. map_of ts (at_id a) = Some t \<and> t \<noteq> 0 \<and> at_value a \<le> t)))"
proof -
  have "List.map_filter (attr_failing ts) (filter at_prefail attrs) \<noteq> [] \<longleftrightarrow>
      (\<exists>a \<in> set attrs. at_prefail a \<and> attr_failing ts a \<noteq> None)"
    by (induction attrs) (auto simp: map_filter_simps split: option.splits)
  moreover have "attr_failing ts a \<noteq> None \<longleftrightarrow> (\<exists>t. map_of ts (at_id a) = Some t \<and> t \<noteq> 0 \<and> at_value a \<le> t)" for a
    by (auto simp: attr_failing_def bind_eq_Some_conv split: if_splits option.splits)
  ultimately show ?thesis
    by (simp add: apply_ata_smart_def Let_def default_counters_def)
qed

text \<open>
  A SATA drive that sends a SMART table with these attributes and thresholds is
  sampled with exactly those attributes, and is reported as predicting its own failure exactly
  when a pre-fail attribute stands at or below its (non-zero) threshold.
\<close>
theorem ata_predicts:
  assumes ata: "dev_is_ata dev" and data: "dev_ata dev 0xD0 = Some (encode_attributes attrs)"
    and thr: "dev_ata dev 0xD1 = Some (encode_thresholds ts)"
    and attrs: "length attrs \<le> 30" "\<forall>a \<in> set attrs. at_id a \<noteq> 0 \<and> unat (at_raw a) < 2 ^ 48"
    and ts: "length ts \<le> 30" "\<forall>t \<in> set ts. fst t \<noteq> 0"
  shows "map (\<lambda>x. (aa_id x, aa_prefail x, aa_value x, aa_worst x, aa_raw x)) (s_ata_attributes (from_drive dev ssd s))
      = map (\<lambda>x. (at_id x, at_prefail x, at_value x, at_worst x, at_raw x)) attrs
    \<and> (\<exists>c. s_smart (from_drive dev ssd s) = Some c
         \<and> (predicted_failure c \<noteq> None \<longleftrightarrow>
              (\<exists>a \<in> set attrs. at_prefail a \<and> (\<exists>t. map_of ts (at_id a) = Some t \<and> t \<noteq> 0 \<and> at_value a \<le> t))))"
proof -
  have "from_drive dev ssd s = apply_ata_smart attrs ts ssd s"
    using assms by (simp add: from_drive_def SMART_READ_DATA_def SMART_READ_THRESHOLDS_def
        parse_encode_attributes parse_encode_thresholds)
  moreover have "map (\<lambda>x. (aa_id x, aa_prefail x, aa_value x, aa_worst x, aa_raw x)) (s_ata_attributes (apply_ata_smart attrs ts ssd s))
      = map (\<lambda>x. (at_id x, at_prefail x, at_value x, at_worst x, at_raw x)) attrs"
    by (simp add: apply_ata_smart_def Let_def)
  ultimately show ?thesis using apply_ata_smart_verdict [of attrs ts ssd s] by simp
qed

lemma ata_predicts_witness:
  "\<exists>c. s_smart (from_drive \<lparr>dev_is_ata = True,
        dev_ata = (\<lambda>k. if k = 0xD0 then Some (encode_attributes [\<lparr>at_id = 5, at_prefail = True, at_value = 10, at_worst = 9, at_raw = 1234\<rparr>])
                       else if k = 0xD1 then Some (encode_thresholds [(5, 10)]) else None),
        dev_log = (\<lambda>_. None), dev_defects = None\<rparr> False default_sample) = Some c \<and> predicted_failure c \<noteq> None"
proof -
  let ?a = "\<lparr>at_id = 5, at_prefail = True, at_value = 10, at_worst = 9, at_raw = 1234\<rparr> :: attribute"
  let ?dev = "\<lparr>dev_is_ata = True,
        dev_ata = (\<lambda>k. if k = 0xD0 then Some (encode_attributes [?a])
                       else if k = 0xD1 then Some (encode_thresholds [(5, 10)]) else None),
        dev_log = (\<lambda>_. None), dev_defects = None\<rparr>"
  show ?thesis
    using ata_predicts [of ?dev "[?a]" "[(5, 10)]" False default_sample] by force
qed

end
