(* ===== verification/Events.thy ===== *)
theory Events
  imports Prelude
begin

text \<open>
  \<open>src/src/events.rs\<close>: the ring of events, its sequence numbers, and what survives a restart. The
  clock is an argument of \<open>push\<close>, and the copy \<open>push\<close> sends to the drive's history is in its result.
  The JSON codec of \<open>events.json\<close> (\<open>serde_json\<close>) is a parameter. The specification is the list of
  everything ever pushed: a poller that asks for what came after the last number it saw gets
  exactly the rest of that list, also across a restart, while it is not further behind than the
  ring (and what a restart keeps) is long.
\<close>

datatype severity = Info | Warn | Error

record event =
  e_seq :: u64
  e_time :: time
  e_drive_id :: "drive_id option"
  e_severity :: severity
  e_kind :: string
  e_message :: string

definition PERSIST_TAIL :: nat where "PERSIST_TAIL = 512"

record saved =
  sv_next_seq :: u64
  sv_events :: "event list"

record event_log =
  next_seq :: u64
  ring :: "event list"
  cap :: nat
  started :: time

definition new_log :: "nat \<Rightarrow> time \<Rightarrow> event_log" where
  "new_log c t = \<lparr>next_seq = 1, ring = [], cap = c, started = t\<rparr>"

definition from_saved :: "nat \<Rightarrow> time \<Rightarrow> saved option \<Rightarrow> event_log" where
  "from_saved c t sv =
     (case sv of
        None \<Rightarrow> new_log c t
      | Some s \<Rightarrow>
          let r = drop (length (sv_events s) - c) (sv_events s);
              after_last = (if r = [] then 1 else e_seq (last r) + 1)
          in (new_log c t)\<lparr>ring := r, next_seq := max (sv_next_seq s) after_last\<rparr>)"

definition restore :: "('b \<Rightarrow> saved option) \<Rightarrow> nat \<Rightarrow> time \<Rightarrow> 'b option \<Rightarrow> event_log" where
  "restore from_slice c t b = from_saved c t (Option.bind b from_slice)"

definition saved_of :: "nat \<Rightarrow> event_log \<Rightarrow> saved" where
  "saved_of tail log = \<lparr>sv_next_seq = next_seq log, sv_events = drop (length (ring log) - tail) (ring log)\<rparr>"

definition snapshot :: "(saved \<Rightarrow> 'b) \<Rightarrow> nat \<Rightarrow> event_log \<Rightarrow> 'b" where
  "snapshot to_vec tail log = to_vec (saved_of tail log)"

record report =
  r_time :: time
  r_drive_id :: "drive_id option"
  r_severity :: severity
  r_kind :: string
  r_message :: string

definition event_of :: "u64 \<Rightarrow> report \<Rightarrow> event" where
  "event_of s r = \<lparr>e_seq = s, e_time = r_time r, e_drive_id = r_drive_id r, e_severity = r_severity r,
     e_kind = r_kind r, e_message = r_message r\<rparr>"

text \<open>\<open>push\<close>: the sequence number it returns, what it sends to the history, and the log after it.\<close>

definition push :: "report \<Rightarrow> event_log \<Rightarrow> u64 \<times> event option \<times> event_log" where
  "push r log =
     (let s = next_seq log;
          q = (if length (ring log) = cap log then drop 1 (ring log) else ring log);
          e = event_of s r
      in (s, if e_drive_id e = None then None else Some e,
          log\<lparr>next_seq := s + 1, ring := q @ [e]\<rparr>))"

definition since :: "u64 \<Rightarrow> event_log \<Rightarrow> event list" where
  "since n log = filter (\<lambda>e. n < e_seq e) (ring log)"

definition latest_seq :: "event_log \<Rightarrow> u64" where
  "latest_seq log = next_seq log - 1"

definition pushed :: "report \<Rightarrow> event_log \<Rightarrow> event_log" where
  "pushed r log = snd (snd (push r log))"

definition push_all :: "report list \<Rightarrow> event_log \<Rightarrow> event_log" where
  "push_all rs log = fold pushed rs log"

section \<open>The list of everything pushed\<close>

text \<open>Event \<open>i\<close> (from 0) of a list of reports carries the sequence number \<open>i + 1\<close>.\<close>

definition numbered :: "report list \<Rightarrow> event list" where
  "numbered rs = map (\<lambda>i. event_of (word_of_nat (Suc i)) (rs ! i)) [0..<length rs]"

text \<open>The log after the reports \<open>rs\<close> of which it still holds the last \<open>m\<close>.\<close>

definition holds_last :: "nat \<Rightarrow> report list \<Rightarrow> event_log \<Rightarrow> bool" where
  "holds_last m rs log \<longleftrightarrow> m \<le> length rs \<and> m \<le> cap log \<and> 0 < cap log
     \<and> ring log = drop (length rs - m) (numbered rs) \<and> next_seq log = word_of_nat (Suc (length rs))"

lemma length_numbered [simp]: "length (numbered rs) = length rs"
  by (simp add: numbered_def)

lemma numbered_append_one: "numbered (rs @ [r]) = numbered rs @ [event_of (word_of_nat (Suc (length rs))) r]"
  by (simp add: numbered_def nth_append)

lemma holds_last_new: "0 < c \<Longrightarrow> holds_last 0 [] (new_log c t)"
  by (simp add: holds_last_def new_log_def numbered_def)

lemma pushed_fields [simp]: "cap (pushed r log) = cap log" "next_seq (pushed r log) = next_seq log + 1"
  by (simp_all add: pushed_def push_def Let_def)

lemma holds_last_pushed:
  assumes "holds_last m rs log"
  shows "holds_last (min (Suc m) (cap log)) (rs @ [r]) (pushed r log)"
proof -
  have len: "length (ring log) = m" and m: "m \<le> length rs" "m \<le> cap log" "0 < cap log"
    and ring: "ring log = drop (length rs - m) (numbered rs)"
    and nxt: "next_seq log = word_of_nat (Suc (length rs))"
    using assms by (simp_all add: holds_last_def)
  have next': "next_seq (pushed r log) = word_of_nat (Suc (length (rs @ [r])))"
    using nxt by (simp add: pushed_def push_def Let_def algebra_simps)
  have ring': "ring (pushed r log) = drop (length (rs @ [r]) - min (Suc m) (cap log)) (numbered (rs @ [r]))"
  proof (cases "m = cap log")
    case True
    have "drop 1 (drop (length rs - m) (numbered rs)) = drop (length rs + 1 - m) (numbered rs)"
      using m by (simp add: Suc_diff_le)
    with True m show ?thesis
      by (simp add: pushed_def push_def Let_def len ring nxt numbered_append_one flip: True)
  next
    case False
    with m show ?thesis
      by (simp add: pushed_def push_def Let_def len ring nxt numbered_append_one min_def)
  qed
  show ?thesis using m next' ring' by (simp add: holds_last_def)
qed

lemma holds_last_push_all:
  "holds_last m rs log \<Longrightarrow> holds_last (min (m + length rs') (cap log)) (rs @ rs') (push_all rs' log)"
proof (induction rs' arbitrary: m rs log)
  case Nil
  then show ?case by (simp add: push_all_def holds_last_def min_def)
next
  case (Cons r rs')
  have "holds_last (min (min (Suc m) (cap log) + length rs') (cap (pushed r log))) ((rs @ [r]) @ rs') (push_all rs' (pushed r log))"
    by (intro Cons.IH holds_last_pushed Cons.prems)
  moreover have "min (min (Suc m) (cap log) + length rs') (cap log) = min (m + length (r # rs')) (cap log)"
    by (simp add: min_def)
  ultimately show ?case by (simp add: push_all_def)
qed

lemma e_seq_numbered: "i < length rs \<Longrightarrow> e_seq (numbered rs ! i) = word_of_nat (Suc i)"
  by (simp add: numbered_def event_of_def)

lemma since_numbered:
  assumes "length rs < 2 ^ 64" "k \<le> length rs" "a \<le> k"
  shows "filter (\<lambda>e. word_of_nat k < e_seq e) (drop a (numbered rs)) = drop k (numbered rs)"
proof -
  have seq: "word_of_nat k < e_seq (numbered rs ! i) \<longleftrightarrow> k \<le> i" if "i < length rs" for i
    using that assms by (simp add: e_seq_numbered word_less_nat_alt unat_of_nat take_bit_nat_eq_self_iff[THEN iffD2] del: of_nat_Suc) auto
  have "drop a (numbered rs) = take (k - a) (drop a (numbered rs)) @ drop k (numbered rs)"
    using assms(3) by (metis append_take_drop_id drop_drop le_add_diff_inverse2)
  moreover have "filter (\<lambda>e. word_of_nat k < e_seq e) (take (k - a) (drop a (numbered rs))) = []"
    using seq assms by (auto simp: filter_empty_conv in_set_conv_nth)
  moreover have "filter (\<lambda>e. word_of_nat k < e_seq e) (drop k (numbered rs)) = drop k (numbered rs)"
    using seq assms by (auto simp: filter_id_conv in_set_conv_nth)
  ultimately show ?thesis by (metis filter_append self_append_conv2)
qed

lemma since_holds_last:
  assumes "holds_last m rs log" "length rs < 2 ^ 64" "k \<le> length rs" "length rs - k \<le> m"
  shows "since (word_of_nat k) log = drop k (numbered rs)"
  using assms since_numbered [of rs k "length rs - m"] by (simp add: since_def holds_last_def)

section \<open>Restarts\<close>

lemma holds_last_restart:
  assumes log: "holds_last m rs log" and n: "Suc (length rs) < 2 ^ 64" and c: "0 < c"
  shows "holds_last (min m (min tail c)) rs (from_saved c t (Some (saved_of tail log)))"
proof -
  have m: "m \<le> length rs" and ring: "ring log = drop (length rs - m) (numbered rs)"
    and nxt: "next_seq log = word_of_nat (Suc (length rs))"
    using log by (simp_all add: holds_last_def)
  let ?k = "min m (min tail c)"
  let ?sv = "drop (length (ring log) - tail) (ring log)"
  let ?r = "drop (length ?sv - c) ?sv"
  have r: "?r = drop (length rs - ?k) (numbered rs)"
    using m by (auto simp: ring min_def intro!: arg_cong2 [where f = drop])
  have one: "(1::u64) \<le> word_of_nat (Suc (length rs))"
    using n by (simp add: word_le_nat_alt unat_of_nat take_bit_nat_eq_self_iff [THEN iffD2] del: of_nat_Suc)
  have "(if ?r = [] then 1 else e_seq (last ?r) + 1) \<le> word_of_nat (Suc (length rs))"
  proof (cases "?k = 0")
    case True
    then show ?thesis using one r by simp
  next
    case False
    then have ne: "?r \<noteq> []" "rs \<noteq> []" using m r by auto
    have "numbered rs \<noteq> []" using ne(2) by (metis length_0_conv length_numbered)
    moreover have "last ?r = last (numbered rs)" unfolding r using False m ne(2) by (intro last_drop) (auto simp del: min_less_iff_conj)
    ultimately have "last ?r = numbered rs ! (length rs - 1)" by (simp add: last_conv_nth)
    then have "e_seq (last ?r) = word_of_nat (length rs)"
      using ne(2) by (simp add: e_seq_numbered del: of_nat_Suc)
    then show ?thesis using ne(1) by (simp add: add.commute)
  qed
  then have mx: "max (next_seq log) (if ?r = [] then 1 else e_seq (last ?r) + 1) = word_of_nat (Suc (length rs))"
    by (simp only: nxt max.absorb1)
  have "from_saved c t (Some (saved_of tail log)) = (new_log c t)
      \<lparr>ring := ?r, next_seq := max (next_seq log) (if ?r = [] then 1 else e_seq (last ?r) + 1)\<rparr>"
    by (simp only: from_saved_def saved_of_def Let_def option.case saved.simps)
  then have log': "from_saved c t (Some (saved_of tail log))
      = (new_log c t)\<lparr>ring := ?r, next_seq := word_of_nat (Suc (length rs))\<rparr>"
    by (simp only: mx)
  show ?thesis
    unfolding holds_last_def log' using m c by (simp only: r) (simp add: new_log_def min.coboundedI1 min.coboundedI2)
qed

text \<open>One run after another: each pushes its reports, is saved, and the next starts from the file.\<close>

fun runs :: "(saved \<Rightarrow> 'b) \<Rightarrow> ('b \<Rightarrow> saved option) \<Rightarrow> nat \<Rightarrow> nat \<Rightarrow> report list list \<Rightarrow> event_log \<Rightarrow> event_log" where
  "runs to_vec from_slice tail t [] log = log"
| "runs to_vec from_slice tail t (rs # rest) log =
     runs to_vec from_slice tail t rest
       (push_all rs (restore from_slice (cap log) t (Some (snapshot to_vec tail log))))"

lemma cap_from_saved [simp]: "cap (from_saved c t sv) = c"
  by (simp add: from_saved_def new_log_def Let_def split: option.splits)

lemma cap_push_all [simp]: "cap (push_all rs log) = cap log"
  by (induction rs arbitrary: log) (simp_all add: push_all_def)

lemma holds_last_runs:
  assumes codec: "\<forall>s. from_slice (to_vec s) = Some s"
    and "holds_last m rs log" "min (min tail (cap log)) (length rs) \<le> m"
    and "Suc (length rs + length (concat rss)) < 2 ^ 64"
  shows "\<exists>m'. holds_last m' (rs @ concat rss) (runs to_vec from_slice tail t rss log)
    \<and> min (min tail (cap log)) (length (rs @ concat rss)) \<le> m'"
  using assms(2-)
proof (induction rss arbitrary: m rs log)
  case (Cons r rss)
  let ?log = "restore from_slice (cap log) t (Some (snapshot to_vec tail log))"
  have pos: "0 < cap log" using Cons.prems by (simp add: holds_last_def)
  have "holds_last (min m (min tail (cap log))) rs ?log"
    using holds_last_restart [OF Cons.prems(1) _ pos] Cons.prems(3) codec
    by (simp add: restore_def snapshot_def)
  from holds_last_push_all [OF this, of r]
  have step: "holds_last (min (min m (min tail (cap log)) + length r) (cap log)) (rs @ r) (push_all r ?log)"
    by (simp add: restore_def)
  have c: "cap (push_all r ?log) = cap log" by (simp add: restore_def)
  have "min (min tail (cap log)) (length (rs @ r)) \<le> min (min m (min tail (cap log)) + length r) (cap log)"
    using Cons.prems(2) by auto
  with Cons.IH [OF step] Cons.prems(3) c show ?case by simp
qed auto

text \<open>
  C21. A poller that has seen everything up to sequence number \<open>k\<close> and is not
  further behind than a restart keeps (\<open>tail\<close>, and the ring's capacity) gets, from
  \<open>since(k)\<close>, exactly the events after the k-th in order - whatever was pushed and however often
  the daemon was restarted in between, \<open>events.json\<close> being read back as it was written.
\<close>
theorem poller_misses_nothing:
  assumes codec: "\<forall>s. from_slice (to_vec s) = Some s"
    and c: "0 < c" and n: "Suc (length (concat rss)) < 2 ^ 64"
    and k: "k \<le> length (concat rss)" "length (concat rss) - k \<le> min tail c"
  shows "since (word_of_nat k) (runs to_vec from_slice tail t rss (new_log c t0)) = drop k (numbered (concat rss))"
proof -
  have cap: "cap (new_log c t0) = c" by (simp add: new_log_def)
  have "holds_last 0 [] (new_log c t0)" using c by (rule holds_last_new)
  from holds_last_runs [of from_slice to_vec 0 "[]" "new_log c t0", OF codec this, of tail rss t] n
  obtain m where m: "holds_last m (concat rss) (runs to_vec from_slice tail t rss (new_log c t0))"
    "min (min tail c) (length (concat rss)) \<le> m"
    by (auto simp: cap)
  show ?thesis
    by (rule since_holds_last [OF m(1)]) (use n k m(2) in auto)
qed

lemma poller_misses_nothing_witness:
  "since 1 (runs (\<lambda>s. s) Some 2 9
      [[\<lparr>r_time = 1, r_drive_id = None, r_severity = Info, r_kind = ''a'', r_message = []\<rparr>],
       [\<lparr>r_time = 2, r_drive_id = Some 7, r_severity = Error, r_kind = ''b'', r_message = []\<rparr>]] (new_log 4 0))
    = [\<lparr>e_seq = 2, e_time = 2, e_drive_id = Some 7, e_severity = Error, e_kind = ''b'', e_message = []\<rparr>]"
  using poller_misses_nothing [of Some "\<lambda>s. s" 4
      "[[\<lparr>r_time = 1, r_drive_id = None, r_severity = Info, r_kind = ''a'', r_message = []\<rparr>],
        [\<lparr>r_time = 2, r_drive_id = Some 7, r_severity = Error, r_kind = ''b'', r_message = []\<rparr>]]" 1 2 9 0]
  by (simp add: numbered_def event_of_def upt_rec)

end
