(* ===== verification/Thermal.thy ===== *)
theory Thermal
  imports F64 Events
begin

text \<open>
  \<open>src/src/thermal.rs\<close>: what the node reads a temperature from, the limits it holds it against, the
  level with its hysteresis, the cooling request, the alerts, and one pass of the tracker with
  the history line due. Temperatures are \<open>f64\<close>. The \<open>BTreeMap\<close>s are ordered association lists, the
  \<open>HashMap\<close>s (only looked up, filled and filtered by key) are maps. Reading \<open>/sys\<close> is not modelled:
  \<open>hwmon_readings\<close> and \<open>drive_sensor\<close> start from the chips as read.
\<close>

section \<open>Classes and limits\<close>

datatype thermal_class = Drive | Cpu | Dimm | Hba | Nic | Gpu | Chipset | Board | Psu | Inlet
  | Exhaust | Shelf | Other

definition all_classes :: "thermal_class list" where
  "all_classes = [Drive, Cpu, Dimm, Hba, Nic, Gpu, Chipset, Board, Psu, Inlet, Exhaust, Shelf, Other]"

fun class_as_str :: "thermal_class \<Rightarrow> string" where
  "class_as_str Drive = ''drive''"
| "class_as_str Cpu = ''cpu''"
| "class_as_str Dimm = ''dimm''"
| "class_as_str Hba = ''hba''"
| "class_as_str Nic = ''nic''"
| "class_as_str Gpu = ''gpu''"
| "class_as_str Chipset = ''chipset''"
| "class_as_str Board = ''board''"
| "class_as_str Psu = ''psu''"
| "class_as_str Inlet = ''inlet''"
| "class_as_str Exhaust = ''exhaust''"
| "class_as_str Shelf = ''shelf''"
| "class_as_str Other = ''other''"

definition class_parse :: "string \<Rightarrow> thermal_class option" where
  "class_parse s = find (\<lambda>c. class_as_str c = s) all_classes"

fun default_limits_int :: "thermal_class \<Rightarrow> int \<times> int" where
  "default_limits_int Drive = (55, 70)"
| "default_limits_int Cpu = (85, 95)"
| "default_limits_int Dimm = (80, 90)"
| "default_limits_int Hba = (85, 100)"
| "default_limits_int Nic = (90, 105)"
| "default_limits_int Gpu = (85, 95)"
| "default_limits_int Chipset = (80, 95)"
| "default_limits_int Board = (70, 85)"
| "default_limits_int Psu = (70, 85)"
| "default_limits_int Inlet = (35, 42)"
| "default_limits_int Exhaust = (60, 70)"
| "default_limits_int Shelf = (50, 60)"
| "default_limits_int Other = (80, 95)"

definition default_limits :: "thermal_class \<Rightarrow> f64 \<times> f64" where
  "default_limits c = map_prod f64_of_int f64_of_int (default_limits_int c)"

datatype limit_source = FromDevice | FromSetting | FromClass

record device_limits =
  dl_warn_c :: "f64 option"
  dl_crit_c :: "f64 option"

definition plausible :: "f64 \<Rightarrow> bool" where
  "plausible v = (is_finite v \<and> f64_lt (f64_of_int 0) v \<and> f64_le v (f64_of_int 150))"

definition sane :: "device_limits \<Rightarrow> device_limits" where
  "sane d =
     (let w = opt_filter plausible (dl_warn_c d); c = opt_filter plausible (dl_crit_c d)
      in case (w, c) of
           (Some w', Some c') \<Rightarrow>
             if f64_le c' w' then \<lparr>dl_warn_c = None, dl_crit_c = Some c'\<rparr> else \<lparr>dl_warn_c = w, dl_crit_c = c\<rparr>
         | _ \<Rightarrow> \<lparr>dl_warn_c = w, dl_crit_c = c\<rparr>)"

record limit_setting =
  ls_warn_c :: "f64 option"
  ls_crit_c :: "f64 option"

text \<open>The refusals of a setting, as values: \<open>validate\<close> reports the first.\<close>

datatype limit_error = LimitRange f64 | WarnNotBelowCrit f64 f64

definition in_limit_range :: "f64 \<Rightarrow> bool" where
  "in_limit_range v = (is_finite v \<and> f64_le (f64_of_int 0) v \<and> f64_le v (f64_of_int 150))"

definition validate_limit :: "limit_setting \<Rightarrow> limit_error option" where
  "validate_limit s =
     opt_or
       (map_option LimitRange
         (find (\<lambda>v. \<not> in_limit_range v) (List.map_filter (\<lambda>v. v) [ls_warn_c s, ls_crit_c s])))
       (case (ls_warn_c s, ls_crit_c s) of
          (Some w, Some c) \<Rightarrow> if f64_le c w then Some (WarnNotBelowCrit w c) else None
        | _ \<Rightarrow> None)"

record settings =
  st_classes :: "(string, limit_setting) btree"
  st_components :: "(string, limit_setting) btree"

datatype settings_error =
    UnknownClass string
  | BadClass string limit_error
  | BadComponent string limit_error

definition validate_settings :: "settings \<Rightarrow> settings_error option" where
  "validate_settings s =
     opt_or
       (first_some (map (\<lambda>(k, v). if class_parse k = None then Some (UnknownClass k)
            else map_option (BadClass k) (validate_limit v)) (st_classes s)))
       (first_some (map (\<lambda>(k, v). map_option (BadComponent k) (validate_limit v)) (st_components s)))"

record limits =
  lm_warn_c :: f64
  lm_crit_c :: f64
  lm_warn_source :: limit_source
  lm_crit_source :: limit_source

definition DERIVED_GAP_C :: f64 where "DERIVED_GAP_C = f64_of_int 5"

definition pick :: "f64 option \<Rightarrow> f64 option \<Rightarrow> f64 \<Rightarrow> f64 \<times> limit_source" where
  "pick dev st def =
     (case (dev, st) of
        (Some d, Some s) \<Rightarrow> if f64_lt s d then (s, FromSetting) else (d, FromDevice)
      | (Some d, None) \<Rightarrow> (d, FromDevice)
      | (None, Some s) \<Rightarrow> (s, FromSetting)
      | (None, None) \<Rightarrow> (def, FromClass))"

definition resolve :: "device_limits \<Rightarrow> limit_setting option \<Rightarrow> f64 \<times> f64 \<Rightarrow> limits" where
  "resolve device setting base =
     (let dev = sane device;
          st = (case setting of Some s \<Rightarrow> s | None \<Rightarrow> \<lparr>ls_warn_c = None, ls_crit_c = None\<rparr>);
          (crit_c, crit_source) = pick (dl_crit_c dev) (ls_crit_c st) (snd base);
          (warn_c, warn_source) =
            (if dl_warn_c dev = None \<and> ls_warn_c st = None \<and> dl_crit_c dev \<noteq> None
                \<and> f64_lt (f64_sub crit_c DERIVED_GAP_C) (fst base)
             then (f64_sub crit_c DERIVED_GAP_C, FromDevice)
             else pick (dl_warn_c dev) (ls_warn_c st) (fst base))
      in if f64_le crit_c warn_c
         then \<lparr>lm_warn_c = f64_sub crit_c DERIVED_GAP_C, lm_crit_c = crit_c,
               lm_warn_source = crit_source, lm_crit_source = crit_source\<rparr>
         else \<lparr>lm_warn_c = warn_c, lm_crit_c = crit_c, lm_warn_source = warn_source, lm_crit_source = crit_source\<rparr>)"

section \<open>Levels\<close>

datatype level = Unknown | Ok | Near | Warning | Critical

fun level_rank :: "level \<Rightarrow> nat" where
  "level_rank Unknown = 0" | "level_rank Ok = 1" | "level_rank Near = 2"
| "level_rank Warning = 3" | "level_rank Critical = 4"

instantiation level :: linorder
begin

definition less_eq_level :: "level \<Rightarrow> level \<Rightarrow> bool" where
  "less_eq_level a b = (level_rank a \<le> level_rank b)"

definition less_level :: "level \<Rightarrow> level \<Rightarrow> bool" where
  "less_level a b = (level_rank a < level_rank b)"

instance
proof
  fix x y :: level
  show "x \<le> y \<Longrightarrow> y \<le> x \<Longrightarrow> x = y"
    by (cases x; cases y) (simp_all add: less_eq_level_def)
qed (auto simp: less_eq_level_def less_level_def)

end

fun level_as_str :: "level \<Rightarrow> string" where
  "level_as_str Unknown = ''unknown''"
| "level_as_str Ok = ''ok''"
| "level_as_str Near = ''near''"
| "level_as_str Warning = ''warning''"
| "level_as_str Critical = ''critical''"

definition held :: "level \<Rightarrow> f64 \<Rightarrow> f64 \<Rightarrow> level \<Rightarrow> f64 \<Rightarrow> bool" where
  "held prev t hyst lvl limit = (f64_le limit t \<or> lvl \<le> prev \<and> f64_lt (f64_sub limit hyst) t)"

definition level_of :: "level \<Rightarrow> f64 option \<Rightarrow> limits \<Rightarrow> f64 \<Rightarrow> f64 \<Rightarrow> level" where
  "level_of prev temp l near hyst =
     (case temp of
        None \<Rightarrow> Unknown
      | Some t \<Rightarrow>
          if held prev t hyst Critical (lm_crit_c l) then Critical
          else if held prev t hyst Warning (lm_warn_c l) then Warning
          else if held prev t hyst Near (f64_sub (lm_warn_c l) near) then Near
          else Ok)"

section \<open>Readings, fans, components\<close>

record reading =
  rd_id :: string
  rd_class :: thermal_class
  rd_label :: string
  rd_source :: string
  rd_drive_id :: "drive_id option"
  rd_shelf :: "string option"
  rd_temp_c :: "f64 option"
  rd_device :: device_limits

record fan =
  fan_id :: string
  fan_label :: string
  fan_source :: string
  fan_shelf :: "string option"
  fan_rpm :: "u64 option"
  fan_min_rpm :: "u64 option"
  fan_failed :: bool
  fan_problem_said :: "string option"

definition fan_problem :: "fan \<Rightarrow> string option" where
  "fan_problem f =
     (if fan_failed f then Some (fan_label f @ '' reports a fault'')
      else case (fan_rpm f, fan_min_rpm f) of
        (Some r, Some m) \<Rightarrow>
          if r = 0 \<and> 0 < m then Some (fan_label f @ '' stopped (minimum '' @ dec (unat m) @ '' RPM)'')
          else if r < m then Some (fan_label f @ '' at '' @ dec (unat r) @ '' RPM, under its minimum '' @ dec (unat m) @ '' RPM'')
          else None
      | _ \<Rightarrow> None)"

record component =
  cp_id :: string
  cp_class :: thermal_class
  cp_label :: string
  cp_source :: string
  cp_drive_id :: "drive_id option"
  cp_shelf :: "string option"
  cp_temp_c :: "f64 option"
  cp_limits :: limits
  cp_device_limits :: device_limits
  cp_level :: level
  cp_since :: u64
  cp_max_c :: "f64 option"

datatype cooling_level = Auto | Raise | Max

record cooling =
  co_request :: cooling_level
  co_why :: "string list"
  co_since :: u64

text \<open>Degrees under its warning limit.\<close>

definition margin :: "component \<Rightarrow> f64" where
  "margin c = f64_sub (lm_warn_c (cp_limits c)) (case cp_temp_c c of Some t \<Rightarrow> t | None \<Rightarrow> Inf True)"

definition hotter :: "component \<Rightarrow> component \<Rightarrow> bool" where
  "hotter a b = (cp_level b < cp_level a \<or> cp_level a = cp_level b \<and> f64_total_le (margin a) (margin b))"

definition celsius :: "f64 \<Rightarrow> string" where
  "celsius t = fmt0 t @ '' '' @ utf8_degree @ ''C''"

definition hot_line :: "component \<Rightarrow> string" where
  "hot_line c =
     (let (word, limit) = (if cp_level c = Critical then (''critical'', lm_crit_c (cp_limits c))
                           else (''warning'', lm_warn_c (cp_limits c)))
      in cp_label c @ '' '' @ celsius (case cp_temp_c c of Some t \<Rightarrow> t | None \<Rightarrow> f64_of_int 0)
         @ '' ('' @ word @ '' '' @ celsius limit @ '')'')"

definition cooling_for :: "component list \<Rightarrow> fan list \<Rightarrow> cooling_level \<times> string list" where
  "cooling_for components fans =
     (let hot = stable_sort hotter (filter (\<lambda>c. Near \<le> cp_level c) components);
          why = map hot_line hot @ List.map_filter fan_problem_said fans;
          lvl = (if list_ex (\<lambda>c. cp_level c = Critical) hot then Max
                 else if why \<noteq> [] then Raise else Auto)
      in (lvl, why))"

section \<open>Alerts\<close>

record alert =
  al_id :: string
  al_label :: string
  al_drive_id :: "drive_id option"
  al_from :: level
  al_to :: level
  al_temp_c :: "f64 option"
  al_limits :: limits

definition worth_telling :: "level \<Rightarrow> level \<Rightarrow> bool" where
  "worth_telling from to =
     (from < to \<and> Warning \<le> to \<or> to < from \<and> Warning \<le> from \<and> to \<noteq> Unknown)"

definition alert_severity :: "alert \<Rightarrow> severity" where
  "alert_severity a = (case al_to a of Critical \<Rightarrow> Error | Warning \<Rightarrow> Warn | _ \<Rightarrow> Info)"

definition alert_message :: "alert \<Rightarrow> string" where
  "alert_message a =
     (let t = (case al_temp_c a of None \<Rightarrow> ''no reading'' | Some t \<Rightarrow> celsius t);
          l = al_limits a;
          what = (case al_to a of
              Critical \<Rightarrow> ''over its critical limit '' @ celsius (lm_crit_c l)
            | Warning \<Rightarrow>
                (if al_from a = Critical
                 then ''back under critical '' @ celsius (lm_crit_c l) @ '', still over warning '' @ celsius (lm_warn_c l)
                 else ''over its warning limit '' @ celsius (lm_warn_c l) @ '' (critical '' @ celsius (lm_crit_c l) @ '')'')
            | _ \<Rightarrow> ''back under its warning limit '' @ celsius (lm_warn_c l))
      in al_label a @ '': '' @ t @ '', '' @ what)"

section \<open>What a hot drive asks for\<close>

record drive_thermal =
  dt_level :: level
  dt_temp_c :: "f64 option"
  dt_limits :: limits
  dt_since :: u64
  throttle_background :: bool
  exclude_new_placement :: bool
  replace_proposed :: bool

definition from_component :: "component \<Rightarrow> u64 \<Rightarrow> u64 \<Rightarrow> drive_thermal" where
  "from_component c now replace_after =
     \<lparr>dt_level = cp_level c, dt_temp_c = cp_temp_c c, dt_limits = cp_limits c, dt_since = cp_since c,
      throttle_background = (Warning \<le> cp_level c),
      exclude_new_placement = (cp_level c = Critical),
      replace_proposed = (cp_level c = Critical \<and> replace_after \<le> sat_sub now (cp_since c))\<rparr>"

definition bool_str :: "bool \<Rightarrow> string" where
  "bool_str b = (if b then ''true'' else ''false'')"

definition engine_word :: "drive_thermal \<Rightarrow> string" where
  "engine_word t = level_as_str (dt_level t) @ '':'' @ bool_str (throttle_background t) @ '':''
     @ bool_str (exclude_new_placement t) @ '':'' @ bool_str (replace_proposed t)"

section \<open>One pass of the tracker\<close>

record history_point =
  hp_id :: string
  hp_class :: thermal_class
  hp_temp_c :: "f64 option"
  hp_level :: level
  hp_warn_c :: f64
  hp_crit_c :: f64

record fan_point =
  fp_id :: string
  fp_rpm :: "u64 option"

record history_line =
  hl_unix :: u64
  hl_boot_id :: string
  hl_components :: "history_point list"
  hl_fans :: "fan_point list"

record pass_cfg =
  pc_near_c :: f64
  pc_hysteresis_c :: f64
  pc_replace_after :: u64
  pc_heartbeat :: u64
  pc_trend_len :: nat
  pc_drive_default :: "f64 \<times> f64"

record tracker =
  tk_components :: "(string, component) btree"
  tk_fans :: "fan list"
  tk_cooling :: "cooling option"
  tk_at :: u64
  tk_trend :: "string \<Rightarrow> (u64 \<times> f64) list option"
  tk_written :: "string \<Rightarrow> (f64 option \<times> level \<times> u64) option"
  tk_fans_written :: "string \<Rightarrow> (u64 option \<times> u64) option"
  tk_passes :: u64

definition new_tracker :: tracker where
  "new_tracker = \<lparr>tk_components = [], tk_fans = [], tk_cooling = None, tk_at = 0, tk_trend = (\<lambda>_. None),
     tk_written = (\<lambda>_. None), tk_fans_written = (\<lambda>_. None), tk_passes = 0\<rparr>"

definition class_base :: "thermal_class \<Rightarrow> settings \<Rightarrow> pass_cfg \<Rightarrow> limit_setting option \<times> (f64 \<times> f64)" where
  "class_base c st cfg =
     (map_of (st_classes st) (class_as_str c), if c = Drive then pc_drive_default cfg else default_limits c)"

definition setting_for :: "string \<Rightarrow> thermal_class \<Rightarrow> settings \<Rightarrow> pass_cfg \<Rightarrow> limit_setting option \<times> (f64 \<times> f64)" where
  "setting_for i c st cfg =
     (let (class_set, base) = class_base c st cfg;
          own = map_of (st_components st) i;
          merged = (case (own, class_set) of
              (Some s, Some k) \<Rightarrow> Some \<lparr>ls_warn_c = opt_or (ls_warn_c s) (ls_warn_c k),
                                        ls_crit_c = opt_or (ls_crit_c s) (ls_crit_c k)\<rparr>
            | _ \<Rightarrow> opt_or own class_set)
      in (merged, base))"

text \<open>A reading's component, held against the component of the same id in the pass before.\<close>

definition prev_level_of :: "(string, component) btree \<Rightarrow> string \<Rightarrow> level" where
  "prev_level_of prev i = (case map_of prev i of None \<Rightarrow> Unknown | Some c \<Rightarrow> cp_level c)"

definition component_of :: "(string, component) btree \<Rightarrow> settings \<Rightarrow> pass_cfg \<Rightarrow> u64 \<Rightarrow> reading \<Rightarrow> component" where
  "component_of prev st cfg now r =
     (let (s, base) = setting_for (rd_id r) (rd_class r) st cfg;
          lims = resolve (rd_device r) s base;
          p = map_of prev (rd_id r);
          lvl = level_of (prev_level_of prev (rd_id r)) (rd_temp_c r) lims (pc_near_c cfg) (pc_hysteresis_c cfg);
          since_unix = (case p of Some c \<Rightarrow> (if cp_level c = lvl then cp_since c else now) | None \<Rightarrow> now);
          max_c = (case (Option.bind p cp_max_c, rd_temp_c r) of
              (Some a, Some b) \<Rightarrow> Some (f64_max a b) | (a, b) \<Rightarrow> opt_or a b)
      in \<lparr>cp_id = rd_id r, cp_class = rd_class r, cp_label = rd_label r, cp_source = rd_source r,
          cp_drive_id = rd_drive_id r, cp_shelf = rd_shelf r, cp_temp_c = rd_temp_c r, cp_limits = lims,
          cp_device_limits = sane (rd_device r), cp_level = lvl, cp_since = since_unix, cp_max_c = max_c\<rparr>)"

definition alert_of :: "(string, component) btree \<Rightarrow> component \<Rightarrow> alert option" where
  "alert_of prev c =
     (let p = prev_level_of prev (cp_id c)
      in if worth_telling p (cp_level c)
         then Some \<lparr>al_id = cp_id c, al_label = cp_label c, al_drive_id = cp_drive_id c, al_from = p,
                    al_to = cp_level c, al_temp_c = cp_temp_c c, al_limits = cp_limits c\<rparr>
         else None)"

text \<open>\<open>while tr.len() > n { pop_front }\<close> after the \<open>push_back\<close>.\<close>

definition trend_push :: "pass_cfg \<Rightarrow> u64 \<Rightarrow> reading \<Rightarrow> (string \<Rightarrow> (u64 \<times> f64) list option) \<Rightarrow> (string \<Rightarrow> (u64 \<times> f64) list option)" where
  "trend_push cfg now r tr =
     (case rd_temp_c r of
        None \<Rightarrow> tr
      | Some t \<Rightarrow>
          let xs = (case tr (rd_id r) of None \<Rightarrow> [] | Some l \<Rightarrow> l) @ [(now, t)]
          in tr(rd_id r \<mapsto> drop (length xs - max (pc_trend_len cfg) 1) xs))"

text \<open>
  \<open>history_due\<close>: the components due, in order of their ids, then the fans. The lookups of \<open>written\<close>
  see what an earlier entry of the same pass wrote.
\<close>

definition component_due :: "u64 \<Rightarrow> u64 \<Rightarrow> component \<Rightarrow> (f64 option \<times> level \<times> u64) option \<Rightarrow> bool" where
  "component_due now heartbeat c w =
     (case w of
        None \<Rightarrow> True
      | Some (t, l, when) \<Rightarrow>
          l \<noteq> cp_level c \<or> heartbeat \<le> sat_sub now when
          \<or> (case (t, cp_temp_c c) of
               (Some a, Some b) \<Rightarrow> f64_le (f64_of_int 1) (f64_abs (f64_sub a b))
             | (a, b) \<Rightarrow> (a \<noteq> None) \<noteq> (b \<noteq> None)))"

definition point_of :: "component \<Rightarrow> history_point" where
  "point_of c = \<lparr>hp_id = cp_id c, hp_class = cp_class c, hp_temp_c = cp_temp_c c, hp_level = cp_level c,
     hp_warn_c = lm_warn_c (cp_limits c), hp_crit_c = lm_crit_c (cp_limits c)\<rparr>"

fun components_due :: "u64 \<Rightarrow> u64 \<Rightarrow> component list \<Rightarrow> (string \<Rightarrow> (f64 option \<times> level \<times> u64) option)
    \<Rightarrow> history_point list \<times> (string \<Rightarrow> (f64 option \<times> level \<times> u64) option)" where
  "components_due now hb [] w = ([], w)"
| "components_due now hb (c # cs) w =
     (if component_due now hb c (w (cp_id c))
      then (let (ps, w') = components_due now hb cs (w(cp_id c \<mapsto> (cp_temp_c c, cp_level c, now)))
            in (point_of c # ps, w'))
      else components_due now hb cs w)"

definition abs_diff :: "u64 \<Rightarrow> u64 \<Rightarrow> u64" where
  "abs_diff a b = (if a \<le> b then b - a else a - b)"

definition fan_due :: "u64 \<Rightarrow> u64 \<Rightarrow> fan \<Rightarrow> (u64 option \<times> u64) option \<Rightarrow> bool" where
  "fan_due now heartbeat f w =
     (case w of
        None \<Rightarrow> True
      | Some (r, when) \<Rightarrow>
          heartbeat \<le> sat_sub now when
          \<or> (case (r, fan_rpm f) of
               (Some a, Some b) \<Rightarrow> max a 1 \<le> abs_diff a b * 10
             | (a, b) \<Rightarrow> (a \<noteq> None) \<noteq> (b \<noteq> None)))"

fun fans_due :: "u64 \<Rightarrow> u64 \<Rightarrow> fan list \<Rightarrow> (string \<Rightarrow> (u64 option \<times> u64) option)
    \<Rightarrow> fan_point list \<times> (string \<Rightarrow> (u64 option \<times> u64) option)" where
  "fans_due now hb [] w = ([], w)"
| "fans_due now hb (f # fs) w =
     (if fan_due now hb f (w (fan_id f))
      then (let (ps, w') = fans_due now hb fs (w(fan_id f \<mapsto> (fan_rpm f, now)))
            in (\<lparr>fp_id = fan_id f, fp_rpm = fan_rpm f\<rparr> # ps, w'))
      else fans_due now hb fs w)"

definition history_due :: "u64 \<Rightarrow> string \<Rightarrow> u64 \<Rightarrow> tracker \<Rightarrow> history_line option \<times> tracker" where
  "history_due now boot hb tk =
     (let (cs, w) = components_due now hb (map snd (tk_components tk)) (tk_written tk);
          (fs, fw) = fans_due now hb (tk_fans tk) (tk_fans_written tk);
          w' = (\<lambda>i. if map_of (tk_components tk) i \<noteq> None then w i else None);
          fw' = (\<lambda>i. if i \<in> set (map fan_id (tk_fans tk)) then fw i else None)
      in (if cs \<noteq> [] \<or> fs \<noteq> []
          then Some \<lparr>hl_unix = now, hl_boot_id = boot, hl_components = cs, hl_fans = fs\<rparr> else None,
          tk\<lparr>tk_written := w', tk_fans_written := fw'\<rparr>))"

definition tracker_pass ::
    "reading list \<Rightarrow> fan list \<Rightarrow> settings \<Rightarrow> pass_cfg \<Rightarrow> u64 \<Rightarrow> string \<Rightarrow> tracker
      \<Rightarrow> alert list \<times> history_line option \<times> tracker" where
  "tracker_pass readings fans st cfg now boot tk =
     (let prev = tk_components tk;
          comps = map (component_of prev st cfg now) readings;
          alerts = List.map_filter (alert_of prev) comps;
          trend = fold (trend_push cfg now) readings (tk_trend tk);
          next = fold (\<lambda>c. bt_insert (cp_id c) c) comps [];
          trend' = (\<lambda>i. if map_of next i \<noteq> None then trend i else None);
          fans' = map (\<lambda>f. f\<lparr>fan_problem_said := fan_problem f\<rparr>) fans;
          (request, why) = cooling_for (map snd next) fans';
          since_unix = (case tk_cooling tk of
              Some c \<Rightarrow> (if co_request c = request then co_since c else now) | None \<Rightarrow> now);
          tk' = tk\<lparr>tk_trend := trend', tk_components := next,
                   tk_cooling := Some \<lparr>co_request = request, co_why = why, co_since = since_unix\<rparr>,
                   tk_fans := fans', tk_at := now, tk_passes := tk_passes tk + 1\<rparr>;
          (line, tk'') = history_due now boot (pc_heartbeat cfg) tk'
      in (alerts, line, tk''))"

definition trend_of :: "string \<Rightarrow> tracker \<Rightarrow> (u64 \<times> f64) list" where
  "trend_of i tk = (case tk_trend tk i of None \<Rightarrow> [] | Some l \<Rightarrow> l)"

text \<open>\<open>[thermal.classes]\<close> under the live settings.\<close>

definition effective_settings :: "(string, limit_setting) btree \<Rightarrow> settings \<Rightarrow> settings" where
  "effective_settings config live =
     \<lparr>st_classes = fold (\<lambda>(k, v). bt_insert k v) (st_classes live) config, st_components = st_components live\<rparr>"

section \<open>hwmon\<close>

definition to_lower :: "string \<Rightarrow> string" where
  "to_lower s = map ascii_lower s"

definition hwmon_class :: "string \<Rightarrow> string \<Rightarrow> bool \<Rightarrow> bool \<Rightarrow> thermal_class option" where
  "hwmon_class chip label on_net_device on_scsi_host =
     (let l = to_lower label; c = to_lower chip in
      if contains l ''inlet'' \<or> contains l ''ambient'' \<or> contains l ''intake'' then Some Inlet
      else if contains l ''exhaust'' \<or> contains l ''outlet'' then Some Exhaust
      else if c \<in> set [''nvme'', ''drivetemp''] then None
      else Some (
        if c \<in> set [''coretemp'', ''k10temp'', ''k8temp'', ''zenpower'', ''via_cputemp'', ''cpu_thermal'', ''fam15h_power''] then Cpu
        else if c \<in> set [''jc42'', ''spd5118'', ''i5k_amb''] then Dimm
        else if c \<in> set [''amdgpu'', ''radeon'', ''nouveau'', ''i915'', ''xe''] then Gpu
        else if starts_with c ''pch_'' \<or> c = ''i5500_temp'' \<or> c = ''intel_pch_thermal'' then Chipset
        else if on_net_device \<or> c \<in> set [''ixgbe'', ''igb'', ''i40e'', ''ice'', ''bnxt_en'', ''mlx5'', ''tg3'', ''qede'', ''atlantic'', ''sfc'', ''cxgb4''] then Nic
        else if on_scsi_host \<or> c \<in> set [''mpt3sas'', ''megaraid_sas'', ''smartpqi'', ''aacraid''] then Hba
        else if contains c ''psu'' \<or> starts_with c ''pmbus'' \<or> starts_with c ''dps'' then Psu
        else if c = ''acpitz'' \<or> starts_with c ''nct'' \<or> starts_with c ''it87'' \<or> starts_with c ''w83''
                \<or> starts_with c ''f71'' \<or> c = ''dell_smm'' \<or> starts_with c ''asus'' then Board
        else if contains l ''cpu'' \<or> contains l ''package'' \<or> starts_with l ''core '' \<or> starts_with l ''tctl''
                \<or> starts_with l ''tdie'' then Cpu
        else Other))"

definition milli :: "string \<Rightarrow> f64 option" where
  "milli s = map_option (\<lambda>v. f64_div (f64_of_int v) (f64_of_int 1000)) (parse_signed (2 ^ 63) (trim s))"

record temp_sensor =
  ts_index :: u32
  ts_label :: "string option"
  ts_input :: "f64 option"
  ts_max :: "f64 option"
  ts_crit :: "f64 option"

record fan_sensor =
  fs_index :: u32
  fs_label :: "string option"
  fs_rpm :: "u64 option"
  fs_min :: "u64 option"
  fs_flagged :: bool

record chip =
  ch_hwmon :: string
  ch_name :: string
  ch_device :: "string option"
  ch_on_net_device :: bool
  ch_on_scsi_host :: bool
  ch_temps :: "temp_sensor list"
  ch_fans :: "fan_sensor list"

definition chip_handle :: "chip \<Rightarrow> string" where
  "chip_handle c = (case ch_device c of Some d \<Rightarrow> ch_name c @ ''.'' @ d | None \<Rightarrow> ch_name c @ ''.'' @ ch_hwmon c)"

definition chip_reading :: "chip \<Rightarrow> temp_sensor \<Rightarrow> reading option" where
  "chip_reading ch s =
     (let n = dec (unat (ts_index s));
          l = (case ts_label s of Some l \<Rightarrow> l | None \<Rightarrow> ''temp'' @ n);
          place = (case ch_device ch of Some d \<Rightarrow> '' ('' @ d @ '')'' | None \<Rightarrow> [])
      in map_option
           (\<lambda>c. \<lparr>rd_id = ''hwmon:'' @ chip_handle ch @ '':temp'' @ n, rd_class = c,
                 rd_label = ch_name ch @ '' '' @ l @ place, rd_source = ''hwmon:'' @ ch_name ch,
                 rd_drive_id = None, rd_shelf = None, rd_temp_c = ts_input s,
                 rd_device = \<lparr>dl_warn_c = ts_max s, dl_crit_c = ts_crit s\<rparr>\<rparr>)
           (hwmon_class (ch_name ch) l (ch_on_net_device ch) (ch_on_scsi_host ch)))"

definition chip_fan :: "chip \<Rightarrow> fan_sensor \<Rightarrow> fan" where
  "chip_fan ch f =
     (let n = dec (unat (fs_index f));
          l = (case fs_label f of Some l \<Rightarrow> l | None \<Rightarrow> ''fan'' @ n)
      in \<lparr>fan_id = ''hwmon:'' @ chip_handle ch @ '':fan'' @ n, fan_label = ch_name ch @ '' '' @ l,
          fan_source = ''hwmon:'' @ ch_name ch, fan_shelf = None, fan_rpm = fs_rpm f,
          fan_min_rpm = opt_filter (\<lambda>m. 0 < m) (fs_min f), fan_failed = fs_flagged f,
          fan_problem_said = None\<rparr>)"

definition hwmon_readings :: "chip list \<Rightarrow> reading list \<times> fan list" where
  "hwmon_readings chips =
     (concat (map (\<lambda>ch. List.map_filter (chip_reading ch) (ch_temps ch)) chips),
      concat (map (\<lambda>ch. if hwmon_class (ch_name ch) [] False False = None then [] else map (chip_fan ch) (ch_fans ch)) chips))"

text \<open>\<open>drive_hwmon\<close>, from the chips found under the drive: the first with a reading decides.\<close>

definition first_sensor :: "chip \<Rightarrow> temp_sensor option" where
  "first_sensor c = opt_or (find (\<lambda>t. ts_index t = 1) (ch_temps c)) (case ch_temps c of [] \<Rightarrow> None | t # _ \<Rightarrow> Some t)"

definition drive_sensor :: "chip list \<Rightarrow> (f64 option \<times> device_limits) option" where
  "drive_sensor chips =
     first_some (map (\<lambda>c. Option.bind (first_sensor c) (\<lambda>s.
       if ts_input s \<noteq> None
       then Some (ts_input s, sane \<lparr>dl_warn_c = ts_max s, dl_crit_c = ts_crit s\<rparr>) else None)) chips)"

section \<open>Limits: the device's own are never exceeded\<close>

definition moderate :: "f64 \<Rightarrow> bool" where
  "moderate v = (is_finite v \<and> \<bar>rv v\<bar> \<le> 2 ^ 40)"

lemma moderate_not_NaN: "moderate v \<Longrightarrow> v \<noteq> NaN"
  by (auto simp: moderate_def)

lemma rv_150: "rv (f64_of_int 150) = 150" and fin_150: "is_finite (f64_of_int 150)"
  and rv_0: "rv (f64_of_int 0) = 0" and fin_0: "is_finite (f64_of_int 0)"
  using rv_f64_of_int [of 150] rv_f64_of_int [of 0] by simp_all

lemma moderate_of_int: "\<bar>i\<bar> < 2 ^ 40 \<Longrightarrow> moderate (f64_of_int i)"
proof -
  assume i: "\<bar>i\<bar> < 2 ^ 40"
  then have "\<bar>i\<bar> < 2 ^ 53" by simp
  moreover have "(of_int \<bar>i\<bar> :: rat) \<le> of_int (2 ^ 40)" using i by (simp only: of_int_le_iff)
  ultimately show ?thesis using rv_f64_of_int [of i] by (simp add: moderate_def)
qed

lemma plausible_moderate: "plausible v \<Longrightarrow> moderate v"
  by (auto simp: plausible_def moderate_def f64_lt_finite f64_le_finite rv_150 fin_150 rv_0 fin_0)

lemma in_limit_range_moderate: "in_limit_range v \<Longrightarrow> moderate v"
  by (auto simp: in_limit_range_def moderate_def f64_le_finite rv_150 fin_150 rv_0 fin_0)

lemma moderate_total: "moderate a \<Longrightarrow> moderate b \<Longrightarrow> f64_le a b \<longleftrightarrow> \<not> f64_lt b a"
  by (auto simp: moderate_def f64_le_finite f64_lt_finite)

lemma sane_moderate:
  "dl_crit_c (sane d) = Some c \<Longrightarrow> moderate c" "dl_warn_c (sane d) = Some w \<Longrightarrow> moderate w"
  by (auto simp: sane_def Let_def opt_filter_Some_iff plausible_moderate split: option.splits if_splits)

lemma validate_moderate:
  assumes "validate_limit s = None"
  shows "ls_crit_c s = Some c \<Longrightarrow> moderate c" "ls_warn_c s = Some w \<Longrightarrow> moderate w"
  using assms
  by (auto simp: validate_limit_def map_filter_simps find_None_iff in_limit_range_moderate
      split: option.splits if_splits)

lemma pick_bounds:
  assumes m: "\<And>d. dev = Some d \<Longrightarrow> moderate d" "\<And>s. st = Some s \<Longrightarrow> moderate s" "moderate def"
    and p: "pick dev st def = (v, src)"
  shows "moderate v \<and> (\<forall>d. dev = Some d \<longrightarrow> f64_le v d) \<and> (\<forall>s. st = Some s \<longrightarrow> f64_le v s)"
proof -
  have refl: "moderate x \<Longrightarrow> f64_le x x" for x by (simp add: f64_le_refl moderate_not_NaN)
  show ?thesis
  proof (cases dev)
    case None
    then show ?thesis using p m by (cases st) (auto simp: pick_def refl)
  next
    case (Some d)
    then have d: "moderate d" using m by simp
    show ?thesis
    proof (cases st)
      case None
      then show ?thesis using Some p d by (auto simp: pick_def refl)
    next
      case (Some s')
      then have s': "moderate s'" using m by simp
      show ?thesis
      proof (cases "f64_lt s' d")
        case True
        then have "f64_le s' d" by (simp add: f64_lt_def)
        with True show ?thesis using p \<open>dev = Some d\<close> Some s' refl [OF s'] by (simp add: pick_def)
      next
        case False
        then have "f64_le d s'" using moderate_total [OF d s'] by simp
        with False show ?thesis using p \<open>dev = Some d\<close> Some d refl [OF d] by (simp add: pick_def)
      qed
    qed
  qed
qed

lemma gap_less:
  assumes "moderate c"
  shows "f64_lt (f64_sub c DERIVED_GAP_C) c" "is_finite (f64_sub c DERIVED_GAP_C)"
  using assms f64_sub_less [of c DERIVED_GAP_C] rv_f64_of_int [of 5]
  by (simp_all add: moderate_def DERIVED_GAP_C_def)

lemma lt_imp_le: "f64_lt a b \<Longrightarrow> f64_le a b"
  by (simp add: f64_lt_def)

lemma not_le_imp_lt: "is_finite a \<Longrightarrow> is_finite b \<Longrightarrow> \<not> f64_le b a \<Longrightarrow> f64_lt a b"
  by (simp add: f64_le_finite f64_lt_finite)

text \<open>
  C27. The limits a component is held against: the warning limit is strictly under the
  critical one, and neither is above what the device itself says (its plausible limits) nor above
  what a valid setting says - a setting can lower a device's limit, never raise it.
\<close>
theorem resolve_sound:
  assumes "moderate (fst base)" "moderate (snd base)"
    and st: "\<And>s. setting = Some s \<Longrightarrow> validate_limit s = None"
    and l: "l = resolve device setting base"
  shows "f64_lt (lm_warn_c l) (lm_crit_c l)
    \<and> (\<forall>d. dl_crit_c (sane device) = Some d \<longrightarrow> f64_le (lm_crit_c l) d)
    \<and> (\<forall>d. dl_warn_c (sane device) = Some d \<longrightarrow> f64_le (lm_warn_c l) d)
    \<and> (\<forall>s d. setting = Some s \<and> ls_crit_c s = Some d \<longrightarrow> f64_le (lm_crit_c l) d)
    \<and> (\<forall>s d. setting = Some s \<and> ls_warn_c s = Some d \<longrightarrow> f64_le (lm_warn_c l) d)"
proof -
  obtain s where s: "s = (case setting of Some s \<Rightarrow> s | None \<Rightarrow> \<lparr>ls_warn_c = None, ls_crit_c = None\<rparr>)" by simp
  have s_mod: "ls_crit_c s = Some c \<Longrightarrow> moderate c" "ls_warn_c s = Some w \<Longrightarrow> moderate w" for c w
    using st validate_moderate by (auto simp: s split: option.splits)
  obtain c cs where c: "pick (dl_crit_c (sane device)) (ls_crit_c s) (snd base) = (c, cs)" by fastforce
  obtain w0 ws0 where w0: "pick (dl_warn_c (sane device)) (ls_warn_c s) (fst base) = (w0, ws0)" by fastforce
  have cb: "moderate c" "dl_crit_c (sane device) = Some d \<Longrightarrow> f64_le c d" "ls_crit_c s = Some d \<Longrightarrow> f64_le c d" for d
    using pick_bounds [OF _ _ assms(2) c] sane_moderate(1) s_mod(1) by blast+
  have wb: "moderate w0" "dl_warn_c (sane device) = Some d \<Longrightarrow> f64_le w0 d" "ls_warn_c s = Some d \<Longrightarrow> f64_le w0 d" for d
    using pick_bounds [OF _ _ assms(1) w0] sane_moderate(2) s_mod(2) by blast+
  let ?g = "f64_sub c DERIVED_GAP_C"
  note gap = gap_less [OF cb(1)]
  let ?derived = "dl_warn_c (sane device) = None \<and> ls_warn_c s = None \<and> dl_crit_c (sane device) \<noteq> None \<and> f64_lt ?g (fst base)"
  have res: "resolve device setting base =
      (case (if ?derived then (?g, FromDevice) else (w0, ws0)) of
         (w, ws) \<Rightarrow> if f64_le c w
           then \<lparr>lm_warn_c = ?g, lm_crit_c = c, lm_warn_source = cs, lm_crit_source = cs\<rparr>
           else \<lparr>lm_warn_c = w, lm_crit_c = c, lm_warn_source = ws, lm_crit_source = cs\<rparr>)"
    by (simp only: resolve_def Let_def s [symmetric] c w0 prod.case)
  have l': "lm_crit_c l = c" "lm_warn_c l = (if ?derived then ?g else if f64_le c w0 then ?g else w0)"
    using gap(1) unfolding l res by (auto simp: f64_lt_def)
  have lt: "f64_lt (lm_warn_c l) c"
    using gap wb(1) cb(1) by (auto simp: l' moderate_def intro: not_le_imp_lt)
  have "f64_le (lm_warn_c l) d" if "dl_warn_c (sane device) = Some d \<or> ls_warn_c s = Some d" for d
  proof -
    have "f64_le w0 d" using that wb(2,3) by blast
    moreover have "f64_le (lm_warn_c l) w0"
      using that gap(1) wb(1) f64_le_trans [OF lt_imp_le [OF gap(1)]] by (auto simp: l' moderate_not_NaN f64_le_refl)
    ultimately show ?thesis by (rule f64_le_trans [rotated])
  qed
  then show ?thesis
    using lt cb(2,3) by (auto simp: l'(1) s)
qed

lemma resolve_sound_witness:
  "f64_lt (lm_warn_c (resolve \<lparr>dl_warn_c = None, dl_crit_c = Some (f64_of_int 60)\<rparr> None (f64_of_int 55, f64_of_int 70)))
          (lm_crit_c (resolve \<lparr>dl_warn_c = None, dl_crit_c = Some (f64_of_int 60)\<rparr> None (f64_of_int 55, f64_of_int 70)))"
  using resolve_sound [OF _ _ _ refl, of "(f64_of_int 55, f64_of_int 70)" None "\<lparr>dl_warn_c = None, dl_crit_c = Some (f64_of_int 60)\<rparr>"]
  by (simp add: moderate_of_int)

section \<open>Levels: hysteresis, and a steady reading is told once\<close>

lemma level_of_None [simp]: "level_of p None l near hyst = Unknown"
  by (simp add: level_of_def)

lemma held_mono: "p \<le> p' \<Longrightarrow> held p t hyst lvl limit \<Longrightarrow> held p' t hyst lvl limit"
  by (auto simp: held_def)

lemma level_of_idem:
  "level_of (level_of p t l near hyst) t l near hyst = level_of p t l near hyst"
  by (cases t) (auto simp: level_of_def held_def less_eq_level_def)

text \<open>A level is entered at its limit, and left only when the reading is down by the hysteresis.\<close>

lemma level_of_Critical_iff:
  "level_of p (Some t) l near hyst = Critical \<longleftrightarrow>
     f64_le (lm_crit_c l) t \<or> p = Critical \<and> f64_lt (f64_sub (lm_crit_c l) hyst) t"
  by (cases p) (auto simp: level_of_def held_def less_eq_level_def)

lemma worth_telling_refl [simp]: "\<not> worth_telling l l"
  by (simp add: worth_telling_def)

lemma component_of_simps [simp]:
  "cp_id (component_of prev st cfg now r) = rd_id r"
  "cp_level (component_of prev st cfg now r) =
     level_of (prev_level_of prev (rd_id r)) (rd_temp_c r)
       (case setting_for (rd_id r) (rd_class r) st cfg of (s, base) \<Rightarrow> resolve (rd_device r) s base)
       (pc_near_c cfg) (pc_hysteresis_c cfg)"
  by (simp_all add: component_of_def Let_def split: prod.split)

lemma component_of_since:
  "cp_since (component_of prev st cfg now r) =
     (case map_of prev (rd_id r) of
        Some c \<Rightarrow> if cp_level c = cp_level (component_of prev st cfg now r) then cp_since c else now
      | None \<Rightarrow> now)"
  by (simp add: component_of_def Let_def split: prod.split option.split)

text \<open>The components after a pass: those of the readings, one per id.\<close>

definition pass_components :: "(string, component) btree \<Rightarrow> settings \<Rightarrow> pass_cfg \<Rightarrow> u64 \<Rightarrow> reading list \<Rightarrow> (string, component) btree" where
  "pass_components prev st cfg now rs = fold (\<lambda>c. bt_insert (cp_id c) c) (map (component_of prev st cfg now) rs) []"

lemma pass_components_put_all:
  "pass_components prev st cfg now rs
    = bt.put_all (map (\<lambda>r. (rd_id r, component_of prev st cfg now r)) rs) []"
  by (simp add: pass_components_def bt.put_all_def fold_map comp_def)

lemma pass_components_Some:
  "map_of (pass_components prev st cfg now rs) i = Some c \<Longrightarrow>
    \<exists>r \<in> set rs. rd_id r = i \<and> c = component_of prev st cfg now r"
  by (auto simp: pass_components_put_all bt.look_put_all bt.nil dest!: map_of_SomeD)

lemma pass_components_reading:
  assumes "distinct (map rd_id rs)" "r \<in> set rs"
  shows "map_of (pass_components prev st cfg now rs) (rd_id r) = Some (component_of prev st cfg now r)"
proof -
  let ?kvs = "map (\<lambda>r. (rd_id r, component_of prev st cfg now r)) rs"
  have "distinct (map fst ?kvs)" using assms(1) by (simp add: comp_def)
  moreover have "(rd_id r, component_of prev st cfg now r) \<in> set ?kvs" using assms(2) by simp
  ultimately show ?thesis
    by (simp add: pass_components_put_all bt.look_put_all bt.nil map_of_rev map_of_eq_Some_iff)
qed

lemma tracker_pass_components:
  "tk_components (snd (snd (tracker_pass rs fs st cfg now boot tk)))
     = pass_components (tk_components tk) st cfg now rs"
  "fst (tracker_pass rs fs st cfg now boot tk)
     = List.map_filter (alert_of (tk_components tk)) (map (component_of (tk_components tk) st cfg now) rs)"
  by (simp_all add: tracker_pass_def history_due_def pass_components_def Let_def split: prod.split)

text \<open>
  C26. A temperature that stays where it is is told at most once: a pass over the
  same readings under the same settings as the pass before raises no alert, whatever the levels
  were before the first of the two - also for readings that sit exactly on a limit.
\<close>
theorem steady_told_once:
  assumes "distinct (map rd_id rs)"
    and "tk' = snd (snd (tracker_pass rs fs st cfg now boot tk))"
  shows "fst (tracker_pass rs fs' st cfg now' boot tk') = []"
proof -
  let ?prev = "tk_components tk"
  let ?next = "pass_components ?prev st cfg now rs"
  have "alert_of ?next (component_of ?next st cfg now' r) = None" if "r \<in> set rs" for r
    using pass_components_reading [OF assms(1) that, of ?prev st cfg now]
    by (simp add: alert_of_def prev_level_of_def level_of_idem)
  then show ?thesis
    unfolding tracker_pass_components assms(2) by (intro map_filter_all_None) auto
qed

lemma steady_told_once_witness:
  "fst (tracker_pass [\<lparr>rd_id = ''drive:a'', rd_class = Drive, rd_label = ''sda'', rd_source = ''smart'',
        rd_drive_id = Some 1, rd_shelf = None, rd_temp_c = Some (f64_of_int 55), rd_device = \<lparr>dl_warn_c = None, dl_crit_c = None\<rparr>\<rparr>]
      [] \<lparr>st_classes = [], st_components = []\<rparr>
      \<lparr>pc_near_c = f64_of_int 5, pc_hysteresis_c = f64_of_int 3, pc_replace_after = 60, pc_heartbeat = 3600,
       pc_trend_len = 3, pc_drive_default = (f64_of_int 55, f64_of_int 70)\<rparr> 130 ''b''
      (snd (snd (tracker_pass [\<lparr>rd_id = ''drive:a'', rd_class = Drive, rd_label = ''sda'', rd_source = ''smart'',
        rd_drive_id = Some 1, rd_shelf = None, rd_temp_c = Some (f64_of_int 55), rd_device = \<lparr>dl_warn_c = None, dl_crit_c = None\<rparr>\<rparr>]
      [] \<lparr>st_classes = [], st_components = []\<rparr>
      \<lparr>pc_near_c = f64_of_int 5, pc_hysteresis_c = f64_of_int 3, pc_replace_after = 60, pc_heartbeat = 3600,
       pc_trend_len = 3, pc_drive_default = (f64_of_int 55, f64_of_int 70)\<rparr> 100 ''b'' new_tracker)))) = []"
  by (rule steady_told_once [OF _ refl]) simp

section \<open>Since when a component is at its level\<close>

record pass_input =
  pi_readings :: "reading list"
  pi_fans :: "fan list"
  pi_settings :: settings
  pi_now :: u64

fun thermal_run :: "pass_cfg \<Rightarrow> string \<Rightarrow> pass_input list \<Rightarrow> tracker \<Rightarrow> (u64 \<times> tracker) list" where
  "thermal_run cfg boot [] tk = []"
| "thermal_run cfg boot (x # xs) tk =
     (let tk' = snd (snd (tracker_pass (pi_readings x) (pi_fans x) (pi_settings x) cfg (pi_now x) boot tk))
      in (pi_now x, tk') # thermal_run cfg boot xs tk')"

definition at_level_since :: "(u64 \<times> tracker) list \<Rightarrow> tracker \<Rightarrow> bool" where
  "at_level_since past tk \<longleftrightarrow>
     (\<forall>i c. map_of (tk_components tk) i = Some c \<longrightarrow>
        cp_since c \<in> fst ` set past \<and> (\<forall>(t, tk') \<in> set past. cp_since c \<le> t \<longrightarrow>
           (\<exists>c'. map_of (tk_components tk') i = Some c' \<and> cp_level c' = cp_level c)))"

lemma at_level_since_step:
  assumes inv: "at_level_since past tk" and later: "\<forall>(t, tk') \<in> set past. t < now"
    and tk': "tk' = snd (snd (tracker_pass rs fs st cfg now boot tk))"
  shows "at_level_since (past @ [(now, tk')]) tk'"
  unfolding at_level_since_def
proof (intro allI impI)
  fix i c
  assume c: "map_of (tk_components tk') i = Some c"
  from pass_components_Some [of "tk_components tk" st cfg now rs i c] c
  obtain r where r: "rd_id r = i" "c = component_of (tk_components tk) st cfg now r"
    by (auto simp: tk' tracker_pass_components)
  consider "cp_since c = now" | p where "map_of (tk_components tk) i = Some p" "cp_level p = cp_level c" "cp_since c = cp_since p"
    using component_of_since [of "tk_components tk" st cfg now r] r by (auto split: option.splits if_splits)
  then show "cp_since c \<in> fst ` set (past @ [(now, tk')]) \<and> (\<forall>(t, tkp) \<in> set (past @ [(now, tk')]). cp_since c \<le> t \<longrightarrow>
      (\<exists>c'. map_of (tk_components tkp) i = Some c' \<and> cp_level c' = cp_level c))"
  proof cases
    case 1
    then show ?thesis using later c by auto
  next
    case 2
    then have "cp_since c \<in> fst ` set past" "\<forall>(t, tkp) \<in> set past. cp_since c \<le> t \<longrightarrow>
      (\<exists>c'. map_of (tk_components tkp) i = Some c' \<and> cp_level c' = cp_level c)"
      using inv unfolding at_level_since_def by fastforce+
    then show ?thesis using c by auto
  qed
qed

lemma at_level_since_run:
  assumes "at_level_since past tk" "\<forall>(t, tk') \<in> set past. \<forall>x \<in> set xs. t < pi_now x"
    and "sorted_wrt (<) (map pi_now xs)" and "xs \<noteq> []"
  shows "at_level_since (past @ thermal_run cfg boot xs tk) (snd (last (thermal_run cfg boot xs tk)))"
  using assms
proof (induction xs arbitrary: past tk)
  case (Cons x xs)
  let ?tk' = "snd (snd (tracker_pass (pi_readings x) (pi_fans x) (pi_settings x) cfg (pi_now x) boot tk))"
  have step: "at_level_since (past @ [(pi_now x, ?tk')]) ?tk'"
    by (rule at_level_since_step [OF Cons.prems(1) _ refl]) (use Cons.prems(2) in auto)
  show ?case
  proof (cases "xs = []")
    case True
    with step show ?thesis by (simp add: Let_def)
  next
    case False
    have "thermal_run cfg boot xs ?tk' \<noteq> []" using False by (cases xs) (simp_all add: Let_def)
    moreover have "at_level_since ((past @ [(pi_now x, ?tk')]) @ thermal_run cfg boot xs ?tk') (snd (last (thermal_run cfg boot xs ?tk')))"
      by (rule Cons.IH [OF step]) (use Cons.prems False in auto)
    ultimately show ?thesis by (simp add: Let_def)
  qed
qed simp

lemma fst_thermal_run: "map fst (thermal_run cfg boot xs tk) = map pi_now xs"
  by (induction xs arbitrary: tk) (simp_all add: Let_def)

lemma thermal_run_times:
  assumes "sorted_wrt (<) (map pi_now xs)" "xs \<noteq> []"
  shows "\<forall>s \<in> set (thermal_run cfg boot xs tk). fst s \<le> fst (last (thermal_run cfg boot xs tk))"
proof -
  let ?r = "thermal_run cfg boot xs tk"
  have ne: "?r \<noteq> []" using assms(2) by (cases xs) (simp_all add: Let_def)
  have "sorted (map fst ?r)" using assms(1) by (simp add: fst_thermal_run strict_sorted_iff)
  then have "sorted (map fst (butlast ?r) @ [fst (last ?r)])"
    using ne by (metis append_butlast_last_id list.simps(8,9) map_append)
  then have "\<forall>s \<in> set (butlast ?r). fst s \<le> fst (last ?r)" by (simp add: sorted_append)
  then show ?thesis using ne by (metis append_butlast_last_id in_set_conv_decomp insert_iff list.set(2) order_refl set_append Un_iff empty_iff list.set(1))
qed

text \<open>
  A drive is proposed for replacement only when it was at its critical
  level at every pass of the last \<open>replace_after\<close> seconds: over any run of passes at increasing
  times, if the last pass proposes it, each earlier pass in that window read the same component
  critical.
\<close>
theorem replace_needs_critical:
  assumes run: "steps = thermal_run cfg boot xs new_tracker" "xs \<noteq> []"
    and times: "sorted_wrt (<) (map pi_now xs)"
    and last: "last steps = (now, tk)" "map_of (tk_components tk) i = Some c"
    and rep: "replace_proposed (from_component c now after)"
    and step: "(t, tk') \<in> set steps" "unat now - unat after \<le> unat t"
  shows "\<exists>c'. map_of (tk_components tk') i = Some c' \<and> cp_level c' = Critical"
proof -
  have "at_level_since [] new_tracker" by (simp add: at_level_since_def new_tracker_def)
  then have inv: "at_level_since ([] @ steps) (snd (last steps))"
    unfolding run(1) using times run(2) by (intro at_level_since_run) simp_all
  have c: "cp_level c = Critical" "after \<le> sat_sub now (cp_since c)"
    using rep by (simp_all add: from_component_def)
  then have "unat after \<le> unat now - unat (cp_since c)"
    by (simp add: word_le_nat_alt unat_sat_sub)
  moreover have "cp_since c \<le> now"
    using inv last thermal_run_times [OF times run(2), of cfg boot new_tracker]
    by (fastforce simp: at_level_since_def run(1))
  ultimately have "cp_since c \<le> t"
    using step(2) by (simp add: word_le_nat_alt)
  then show ?thesis
    using inv last step(1) c(1) by (fastforce simp: at_level_since_def)
qed

definition example_cfg :: pass_cfg where
  "example_cfg = \<lparr>pc_near_c = f64_of_int 5, pc_hysteresis_c = f64_of_int 3, pc_replace_after = 60,
     pc_heartbeat = 3600, pc_trend_len = 3, pc_drive_default = (f64_of_int 55, f64_of_int 70)\<rparr>"

definition example_input :: "int \<Rightarrow> u64 \<Rightarrow> pass_input" where
  "example_input t now = \<lparr>pi_readings = [\<lparr>rd_id = ''d'', rd_class = Drive, rd_label = ''sda'', rd_source = ''smart'',
        rd_drive_id = Some 1, rd_shelf = None, rd_temp_c = Some (f64_of_int t), rd_device = \<lparr>dl_warn_c = None, dl_crit_c = None\<rparr>\<rparr>],
     pi_fans = [], pi_settings = \<lparr>st_classes = [], st_components = []\<rparr>, pi_now = now\<rparr>"

lemma example_proposes:
  "(case map_of (tk_components (snd (last (thermal_run example_cfg ''b'' [example_input 72 100, example_input 68 160] new_tracker)))) ''d'' of
      Some c \<Rightarrow> replace_proposed (from_component c 160 60) | None \<Rightarrow> False)"
  by code_simp

lemma replace_needs_critical_witness:
  "\<exists>c'. map_of (tk_components (snd (hd (thermal_run example_cfg ''b'' [example_input 72 100, example_input 68 160] new_tracker)))) ''d'' = Some c'
     \<and> cp_level c' = Critical"
proof -
  let ?xs = "[example_input 72 100, example_input 68 160]"
  let ?steps = "thermal_run example_cfg ''b'' ?xs new_tracker"
  from example_proposes obtain c where
    c: "map_of (tk_components (snd (last ?steps))) ''d'' = Some c" "replace_proposed (from_component c 160 60)"
    by (auto split: option.splits)
  have times: "sorted_wrt (<) (map pi_now ?xs)" by (simp add: example_input_def)
  have l: "last ?steps = (160, snd (last ?steps))" by (simp add: Let_def example_input_def)
  have h: "(100, snd (hd ?steps)) \<in> set ?steps" by (simp add: Let_def example_input_def)
  show ?thesis
    by (rule replace_needs_critical [OF refl _ times l c h]) simp_all
qed

end
