(* ===== verification/Pi.thy ===== *)
theory Pi
  imports Bytes
begin

text \<open>
  \<open>src/src/pi.rs\<close>: what a SCSI drive says it can be formatted to (VPD pages, INQUIRY, the mode
  block descriptor), and the plan: the format asked for when the drive offers it, else the first of
  the preference it offers. Probing the device is not modelled; the parsers run on its answers.
\<close>

datatype protection = NoPi | Type1

fun prot_type :: "protection \<Rightarrow> u8" where
  "prot_type NoPi = 0" | "prot_type Type1 = 1"

fun fmtpinfo :: "protection \<Rightarrow> u8" where
  "fmtpinfo NoPi = 0" | "fmtpinfo Type1 = 2"

fun prot_word :: "protection \<Rightarrow> string" where
  "prot_word NoPi = ''no PI''" | "prot_word Type1 = ''PI type 1''"

record block_length =
  bl_length :: u32
  bl_pi_types :: "u8 list"

record supports =
  su_protect :: bool
  su_pi_types :: "u8 list"
  su_block_lengths :: "block_length list"
  su_rotation_rpm :: "u16 option"
  su_non_rotating :: "bool option"
  su_vpd_pages :: "u8 list"
  su_current_block_size :: u32
  su_current_prot_type :: u8
  su_mode_block_length :: "u32 option"
  su_physical_block_size :: u32

record choice =
  ch_block_size :: u32
  ch_protection :: protection

record planned =
  pl_block_size :: u32
  pl_protection :: protection
  pl_basis :: string
  pl_reason :: string
  pl_fallback :: bool
  pl_fallbacks :: "choice list"

section \<open>The pages\<close>

definition spt_types :: "u8 \<Rightarrow> u8 list" where
  "spt_types spt =
     (let k = spt AND 7 in
      if k = 0 then [1] else if k = 1 then [1, 2] else if k = 2 then [2] else if k = 3 then [1, 3]
      else if k = 4 then [3] else if k = 5 then [2, 3] else if k = 7 then [1, 2, 3] else [])"

definition parse_protect :: "bytes \<Rightarrow> bool" where
  "parse_protect inquiry = (5 < length inquiry \<and> inquiry ! 5 AND 1 \<noteq> 0)"

definition parse_vpd_list :: "bytes \<Rightarrow> bytes" where
  "parse_vpd_list raw =
     (if length raw < 4 \<or> raw ! 1 \<noteq> 0 then []
      else take (min (4 + nat_of_be (slice 2 2 raw)) (length raw) - 4) (drop 4 raw))"

definition parse_extended_inquiry :: "bytes \<Rightarrow> u8 list" where
  "parse_extended_inquiry raw =
     (if length raw < 5 \<or> raw ! 1 \<noteq> 0x86 then [] else spt_types (drop_bit 3 (raw ! 4) AND 7))"

definition block_length_of :: "bytes \<Rightarrow> block_length option" where
  "block_length_of d =
     (let len = word_of_be (slice 0 4 d);
          types = map word_of_nat (filter (\<lambda>t. bit (d ! 5) t) [0..<4])
      in if 0 < len then Some \<lparr>bl_length = len, bl_pi_types = types\<rparr> else None)"

text \<open>The descriptors of eight bytes from byte 4 up to the page's end, a partial one left out.\<close>

definition parse_block_lengths :: "bytes \<Rightarrow> block_length list" where
  "parse_block_lengths raw =
     (if length raw < 4 \<or> raw ! 1 \<noteq> 0xB4 then []
      else (let fin = min (4 + nat_of_be (slice 2 2 raw)) (length raw)
            in List.map_filter block_length_of (chunks_exact 8 (slice 4 (fin - 4) raw))))"

definition parse_rotation :: "bytes \<Rightarrow> u16 option \<times> bool option" where
  "parse_rotation raw =
     (if length raw < 6 \<or> raw ! 1 \<noteq> 0xB1 then (None, None)
      else (let r = word_of_be (slice 4 2 raw) in
            if r = 0 then (None, None) else if r = 1 then (None, Some True) else (Some r, Some False)))"

definition descriptor_block_length :: "bytes \<Rightarrow> bool \<Rightarrow> u32 option" where
  "descriptor_block_length bd long_lba =
     (if long_lba then (if 16 \<le> length bd then Some (word_of_be (slice 12 4 bd)) else None)
      else (if 8 \<le> length bd then Some (word_of_be (0 # slice 5 3 bd)) else None))"

section \<open>The plan\<close>

definition physical_4k :: "supports \<Rightarrow> bool" where
  "physical_4k s = (4096 \<le> su_physical_block_size s)"

definition offers :: "supports \<Rightarrow> u32 \<Rightarrow> protection \<Rightarrow> string option" where
  "offers s len prot =
     (if su_block_lengths s \<noteq> [] then
        (case find (\<lambda>b. bl_length b = len) (su_block_lengths s) of
           None \<Rightarrow> None
         | Some e \<Rightarrow>
             (let ok = (case prot of
                  NoPi \<Rightarrow> bl_pi_types e = [] \<or> 0 \<in> set (bl_pi_types e)
                | Type1 \<Rightarrow> su_protect s \<and> 1 \<in> set (bl_pi_types e))
              in if ok then Some ''vpd_b4'' else None))
      else if len = 512 \<and> prot = NoPi then Some ''inferred''
      else if len = 512 \<and> prot = Type1 \<and> su_protect s \<and> 1 \<in> set (su_pi_types s) then Some ''inferred''
      else if len = 4096 \<and> prot = NoPi \<and> physical_4k s then Some ''try''
      else if len = 4096 \<and> prot = Type1 \<and> physical_4k s \<and> su_protect s \<and> 1 \<in> set (su_pi_types s) then Some ''try''
      else None)"

definition protection_now :: "supports \<Rightarrow> protection option" where
  "protection_now s =
     (if su_current_prot_type s = 0 then Some NoPi
      else if su_current_prot_type s = 1 then Some Type1 else None)"

definition PREFERENCE :: "(u32 \<times> protection) list" where
  "PREFERENCE = [(4096, Type1), (4096, NoPi), (512, Type1), (512, NoPi)]"

definition AFTER_REFUSAL :: "(u32 \<times> protection) list" where
  "AFTER_REFUSAL = [(4096, NoPi), (512, Type1)]"

definition offered :: "supports \<Rightarrow> u32 \<times> protection \<Rightarrow> bool" where
  "offered s c = (offers s (fst c) (snd c) \<noteq> None)"

definition other_choices :: "supports \<Rightarrow> u32 \<Rightarrow> protection \<Rightarrow> (u32 \<times> protection) list \<Rightarrow> choice list" where
  "other_choices s len prot cs =
     map (\<lambda>(l, p). \<lparr>ch_block_size = l, ch_protection = p\<rparr>) (filter (\<lambda>c. c \<noteq> (len, prot) \<and> offered s c) cs)"

definition fallbacks :: "supports \<Rightarrow> u32 \<Rightarrow> protection \<Rightarrow> choice list" where
  "fallbacks s len prot =
     (let is_the_plan = (find (offered s) PREFERENCE = Some (len, prot))
      in if \<not> is_the_plan \<or> offers s len prot \<noteq> Some ''try'' then []
         else other_choices s len prot AFTER_REFUSAL)"

definition alternatives :: "supports \<Rightarrow> u32 \<Rightarrow> protection \<Rightarrow> choice list" where
  "alternatives s len prot = other_choices s len prot PREFERENCE"

definition format_target :: "u32 \<Rightarrow> protection \<Rightarrow> string" where
  "format_target len prot = dec (unat len) @ '' with '' @ prot_word prot"

definition unknown_hint :: "supports \<Rightarrow> string" where
  "unknown_hint s =
     (if su_block_lengths s = []
      then '' (it lists no block lengths, VPD 0xB4; 4096 only with a 4K physical block)'' else [])"

definition plan_reason :: "supports \<Rightarrow> bool \<Rightarrow> string \<Rightarrow> string" where
  "plan_reason s first basis =
     (let reason = ''first the drive offers in 4096+PI1, 4096, 512+PI1, 512'' @
            (if basis = ''inferred'' then '' (no VPD 0xB4, physical block not 4K: 4096 not assumed)''
             else if basis = ''try'' then '' (no VPD 0xB4, physical block 4K: the format tries it)'' else [])
      in if first then reason
         else ''4096 with PI type 1 not offered'' @ unknown_hint s @ ''; '' @ reason)"

fun plan_from :: "supports \<Rightarrow> bool \<Rightarrow> (u32 \<times> protection) list \<Rightarrow> planned option" where
  "plan_from s first [] = None"
| "plan_from s first ((len, prot) # cs) =
     (case offers s len prot of
        Some basis \<Rightarrow> Some \<lparr>pl_block_size = len, pl_protection = prot, pl_basis = basis,
          pl_reason = plan_reason s first basis, pl_fallback = (\<not> first), pl_fallbacks = fallbacks s len prot\<rparr>
      | None \<Rightarrow> plan_from s False cs)"

definition plan :: "supports \<Rightarrow> (u32 \<times> protection) option \<Rightarrow> string + planned" where
  "plan s want =
     (case want of
        Some (len, prot) \<Rightarrow>
          (case offers s len prot of
             Some basis \<Rightarrow> Inr \<lparr>pl_block_size = len, pl_protection = prot, pl_basis = basis,
               pl_reason = ''asked for (spec.format)'', pl_fallback = False, pl_fallbacks = fallbacks s len prot\<rparr>
           | None \<Rightarrow> Inl (''the drive does not offer '' @ dec (unat len) @ '' with '' @ prot_word prot @ unknown_hint s))
      | None \<Rightarrow>
          (case plan_from s True PREFERENCE of
             Some p \<Rightarrow> Inr p
           | None \<Rightarrow> Inl (''the drive offers none of 4096/512 with or without PI'' @ unknown_hint s)))"

section \<open>What the plan guarantees\<close>

lemma plan_from_Some:
  "plan_from s first cs = Some p \<Longrightarrow>
     (\<exists>pre c post. cs = pre @ c # post \<and> (\<forall>x \<in> set pre. \<not> offered s x) \<and> offered s c
       \<and> (pl_block_size p, pl_protection p) = c \<and> offers s (fst c) (snd c) = Some (pl_basis p)
       \<and> pl_fallback p = (\<not> first \<or> pre \<noteq> []) \<and> pl_fallbacks p = fallbacks s (fst c) (snd c))"
proof (induction s first cs rule: plan_from.induct)
  case (2 s first len prot cs)
  show ?case
  proof (cases "offers s len prot")
    case (Some basis)
    then show ?thesis using 2(2) by (intro exI [of _ "[]"]) (auto simp: offered_def)
  next
    case None
    with 2 obtain pre c post where "cs = pre @ c # post" "\<forall>x \<in> set pre. \<not> offered s x" "offered s c"
      "(pl_block_size p, pl_protection p) = c" "offers s (fst c) (snd c) = Some (pl_basis p)"
      "pl_fallback p" "pl_fallbacks p = fallbacks s (fst c) (snd c)"
      by auto
    then show ?thesis
      using None by (intro exI [of _ "(len, prot) # pre"] exI [of _ c] exI [of _ post]) (auto simp: offered_def)
  qed
qed simp

lemma plan_from_None: "plan_from s first cs = None \<longleftrightarrow> (\<forall>c \<in> set cs. \<not> offered s c)"
  by (induction s first cs rule: plan_from.induct) (auto simp: offered_def split: option.splits)

lemma offers_4096_needs_4k:
  "su_block_lengths s = [] \<Longrightarrow> offers s 4096 prot \<noteq> None \<Longrightarrow> physical_4k s"
  by (auto simp: offers_def split: if_splits)

text \<open>
  C22. A plan is always a format the drive offers. Asked for one, it is exactly that one
  or a refusal - never another; asked for none, it is the first of 4096+PI1, 4096, 512+PI1, 512 the
  drive offers, marked as a fallback unless it is the first, and refused only when the drive offers
  none of them. A drive that lists no block lengths and has no 4K physical block is never planned
  for 4096. What it may be offered instead is never what was refused, and always offered too.
\<close>
theorem plan_sound:
  "case plan s want of
     Inr p \<Rightarrow>
       offers s (pl_block_size p) (pl_protection p) = Some (pl_basis p)
       \<and> (case want of
            Some w \<Rightarrow> (pl_block_size p, pl_protection p) = w \<and> \<not> pl_fallback p
          | None \<Rightarrow> find (offered s) PREFERENCE = Some (pl_block_size p, pl_protection p)
                    \<and> (pl_fallback p \<longleftrightarrow> (pl_block_size p, pl_protection p) \<noteq> (4096, Type1)))
       \<and> (su_block_lengths s = [] \<and> \<not> physical_4k s \<longrightarrow> pl_block_size p \<noteq> 4096)
       \<and> (\<forall>c \<in> set (pl_fallbacks p). offered s (ch_block_size c, ch_protection c)
            \<and> (ch_block_size c, ch_protection c) \<noteq> (pl_block_size p, pl_protection p))
   | Inl _ \<Rightarrow> (case want of Some w \<Rightarrow> \<not> offered s w | None \<Rightarrow> \<forall>c \<in> set PREFERENCE. \<not> offered s c)"
proof -
  have fb: "\<forall>c \<in> set (fallbacks s l p). offered s (ch_block_size c, ch_protection c) \<and> (ch_block_size c, ch_protection c) \<noteq> (l, p)" for l p
    by (auto simp: fallbacks_def other_choices_def Let_def)
  have big: "su_block_lengths s = [] \<and> \<not> physical_4k s \<longrightarrow> l \<noteq> 4096" if "offers s l p \<noteq> None" for l p
    using that offers_4096_needs_4k by blast
  show ?thesis
  proof (cases want)
    case (Some w)
    then show ?thesis
      using fb big by (cases w) (auto simp: plan_def offered_def split: option.splits)
  next
    case None
    show ?thesis
    proof (cases "plan_from s True PREFERENCE")
      case (Some p)
      from plan_from_Some [OF this] obtain pre c post where
        c: "PREFERENCE = pre @ c # post" "\<forall>x \<in> set pre. \<not> offered s x" "offered s c"
          "(pl_block_size p, pl_protection p) = c" "offers s (fst c) (snd c) = Some (pl_basis p)"
          "pl_fallback p = (\<not> True \<or> pre \<noteq> [])" "pl_fallbacks p = fallbacks s (fst c) (snd c)"
        by blast
      have "find (offered s) PREFERENCE = Some c"
        unfolding c(1) using c(2,3) by (rule find_split)
      moreover have "pre \<noteq> [] \<longleftrightarrow> c \<noteq> (4096, Type1)"
        using c(1) by (cases pre) (auto simp: PREFERENCE_def Cons_eq_append_conv append_eq_Cons_conv)
      ultimately show ?thesis
        using None Some c fb big [of "pl_block_size p" "pl_protection p"] by (auto simp: plan_def)
    next
      case no_plan: None
      then show ?thesis using None by (simp add: plan_def) (simp add: plan_from_None)
    qed
  qed
qed

text \<open>A 520-byte NetApp drive on 4K sectors that lists nothing, and one on 512-byte sectors.\<close>

definition netapp_4k :: supports where
  "netapp_4k = \<lparr>su_protect = True, su_pi_types = [1], su_block_lengths = [], su_rotation_rpm = None,
     su_non_rotating = Some True, su_vpd_pages = [], su_current_block_size = 520, su_current_prot_type = 0,
     su_mode_block_length = Some 520, su_physical_block_size = 4160\<rparr>"

lemma plan_sound_witness:
  "map_sum id (\<lambda>p. (pl_block_size p, pl_protection p, pl_fallback p, length (pl_fallbacks p))) (plan netapp_4k None)
     = Inr (4096, Type1, False, 2)
   \<and> offered netapp_4k (4096, NoPi)
   \<and> (case plan (netapp_4k\<lparr>su_physical_block_size := 512\<rparr>) None of Inr p \<Rightarrow> pl_block_size p \<noteq> 4096 | Inl _ \<Rightarrow> False)"
proof -
  have a: "map_sum id (\<lambda>p. (pl_block_size p, pl_protection p, pl_fallback p, length (pl_fallbacks p))) (plan netapp_4k None)
     = Inr (4096, Type1, False, 2)"
    by code_simp
  have b: "offered netapp_4k (4096, NoPi)" by code_simp
  have "\<not> physical_4k (netapp_4k\<lparr>su_physical_block_size := 512\<rparr>)" by code_simp
  moreover have "su_block_lengths (netapp_4k\<lparr>su_physical_block_size := 512\<rparr>) = []" by code_simp
  moreover have "offered (netapp_4k\<lparr>su_physical_block_size := 512\<rparr>) (512, NoPi)" by code_simp
  ultimately show ?thesis
    using a b plan_sound [of "netapp_4k\<lparr>su_physical_block_size := 512\<rparr>" None]
    by (auto simp: PREFERENCE_def split: sum.splits)
qed


section \<open>The pages a drive encodes\<close>

definition encode_block_length :: "block_length \<Rightarrow> bytes" where
  "encode_block_length b =
     word_be 4 (bl_length b) @ [0, word_of_nat (\<Sum>t\<leftarrow>bl_pi_types b. 2 ^ unat t), 0, 0]"

definition encode_vpd_b4 :: "block_length list \<Rightarrow> bytes" where
  "encode_vpd_b4 bls = [0, 0xB4] @ be_bytes 2 (8 * length bls) @ concat (map encode_block_length bls)"

text \<open>The PI types as the drive's bits list them: ascending, each once.\<close>

definition pi_type_sets :: "u8 list list" where
  "pi_type_sets = map (\<lambda>k. map word_of_nat (filter (\<lambda>t. bit (word_of_nat k :: u8) t) [0..<4])) [0..<16]"

lemma pi_types_bits:
  "ts \<in> set pi_type_sets \<Longrightarrow>
     map word_of_nat (filter (\<lambda>t. bit (word_of_nat (\<Sum>t\<leftarrow>ts. 2 ^ unat t) :: u8) t) [0..<4]) = ts"
proof -
  have "\<forall>ts \<in> set pi_type_sets. map word_of_nat (filter (\<lambda>t. bit (word_of_nat (\<Sum>t\<leftarrow>ts. 2 ^ unat t) :: u8) t) [0..<4]) = ts"
    by code_simp
  then show "ts \<in> set pi_type_sets \<Longrightarrow> ?thesis" by blast
qed

lemma block_length_of_encode:
  assumes "0 < bl_length b" "bl_pi_types b \<in> set pi_type_sets"
  shows "block_length_of (encode_block_length b) = Some b"
proof -
  have "slice 0 4 (encode_block_length b) = word_be 4 (bl_length b)"
    by (simp add: encode_block_length_def slice_def)
  moreover have "encode_block_length b ! 5 = word_of_nat (\<Sum>t\<leftarrow>bl_pi_types b. 2 ^ unat t)"
    by (simp add: encode_block_length_def nth_append)
  ultimately show ?thesis
    using assms pi_types_bits by (cases b) (simp add: block_length_of_def Let_def word_of_be_word_be)
qed

text \<open>
  The reader of VPD page 0xB4 returns exactly the block lengths a drive
  lists there with their protection types, in order, also from a longer transfer buffer.
\<close>
theorem block_lengths_roundtrip:
  assumes "\<forall>b \<in> set bls. 0 < bl_length b \<and> bl_pi_types b \<in> set pi_type_sets" and "length bls < 8192"
  shows "parse_block_lengths (encode_vpd_b4 bls @ rest) = bls"
proof -
  let ?body = "concat (map encode_block_length bls)"
  let ?raw = "encode_vpd_b4 bls @ rest"
  have each: "length (encode_block_length b) = 8" for b by (simp add: encode_block_length_def)
  have len: "length ?body = 8 * length bls" by (induction bls) (simp_all add: each)
  have "slice 2 2 ?raw = be_bytes 2 (8 * length bls)" by (simp add: encode_vpd_b4_def slice_def)
  then have n: "nat_of_be (slice 2 2 ?raw) = 8 * length bls" using assms(2) by (simp add: nat_of_be_bytes)
  have body: "slice 4 (8 * length bls) ?raw = ?body" using len by (simp add: encode_vpd_b4_def slice_def)
  have chunks: "chunks_exact 8 ?body = map encode_block_length bls"
    using each by (intro chunks_exact_concat) simp_all
  have hdr: "\<not> length ?raw < 4" "?raw ! 1 = 0xB4" "length ?raw = 4 + 8 * length bls + length rest"
    using len by (simp_all add: encode_vpd_b4_def)
  have "List.map_filter block_length_of (map encode_block_length bls) = bls"
    using assms(1) by (induction bls) (simp_all add: map_filter_simps block_length_of_encode)
  then show ?thesis
    using len hdr by (simp add: parse_block_lengths_def n body chunks)
qed

lemma block_lengths_roundtrip_witness:
  "parse_block_lengths (encode_vpd_b4 [\<lparr>bl_length = 512, bl_pi_types = [0, 1]\<rparr>, \<lparr>bl_length = 4096, bl_pi_types = []\<rparr>] @ [7])
    = [\<lparr>bl_length = 512, bl_pi_types = [0, 1]\<rparr>, \<lparr>bl_length = 4096, bl_pi_types = []\<rparr>]"
proof (rule block_lengths_roundtrip)
  have "[0, 1] \<in> set pi_type_sets" "[] \<in> set pi_type_sets" by code_simp+
  then show "\<forall>b \<in> set [\<lparr>bl_length = 512, bl_pi_types = [0, 1]\<rparr>, \<lparr>bl_length = 4096, bl_pi_types = []\<rparr>].
      0 < bl_length b \<and> bl_pi_types b \<in> set pi_type_sets" by simp
qed simp

end
