(* ===== verification/Drives.thy ===== *)
theory Drives
  imports Json Smart Contents Thermal Pi
begin

text \<open>
  \<open>src/src/drive.rs\<close>: the drive record with everything the components keep on it, where a drive is
  and whether it moved, and the guards every operation on a drive passes first. With it
  \<open>src/src/inuse.rs\<close> (what a drive is used for) and \<open>src/src/engine.rs\<close> (what the engine leaves
  unused), and the types of \<open>usage.rs\<close>, \<open>wear.rs\<close> and \<open>history.rs\<close> that are fields of the record.
  A guard is a list of early returns: the first refusal, or \<open>None\<close>.
\<close>

section \<open>Identity and place\<close>

text \<open>\<open>Uuid::new_v5(&DRIVE_ID_NS, _)\<close> is the argument \<open>new_v5\<close>.\<close>

definition id_key :: "string option \<Rightarrow> string \<Rightarrow> string \<Rightarrow> string" where
  "id_key wwid model serial =
     (case opt_filter (\<lambda>w. trim w \<noteq> []) wwid of
        Some w \<Rightarrow> trim w
      | None \<Rightarrow> trim model @ '':'' @ trim serial)"

definition derive :: "(string \<Rightarrow> drive_id) \<Rightarrow> string option \<Rightarrow> string \<Rightarrow> string \<Rightarrow> drive_id" where
  "derive new_v5 wwid model serial = new_v5 (id_key wwid model serial)"

datatype drive_kind = NvmeSsd | SasSsd | SasHdd | SataSsd | SataHdd | UnknownKind

fun default_tier :: "drive_kind \<Rightarrow> string" where
  "default_tier NvmeSsd = ''hot''"
| "default_tier SasSsd = ''warm''"
| "default_tier SataSsd = ''warm''"
| "default_tier SasHdd = ''cool''"
| "default_tier SataHdd = ''cool''"
| "default_tier UnknownKind = ''cool''"

definition is_ssd :: "drive_kind \<Rightarrow> bool" where
  "is_ssd k = (k = NvmeSsd \<or> k = SasSsd \<or> k = SataSsd)"

definition kind_by_rotation :: "drive_kind \<Rightarrow> supports option \<Rightarrow> drive_kind" where
  "kind_by_rotation kind sp =
     (let rotating = (case sp of
            Some s \<Rightarrow> if su_rotation_rpm s \<noteq> None then Some True
                      else if su_non_rotating s = Some True then Some False else None
          | None \<Rightarrow> None)
      in case rotating of
           None \<Rightarrow> kind
         | Some r \<Rightarrow>
             if kind = SasSsd \<or> kind = SasHdd then (if r then SasHdd else SasSsd)
             else if kind = SataSsd \<or> kind = SataHdd then (if r then SataHdd else SataSsd)
             else kind)"

record controller =
  co_scsi_host :: "string option"
  co_pcie_addr :: "string option"
  co_driver :: "string option"

datatype position = Internal | Front | Rear | External

fun position_as_str :: "position \<Rightarrow> string" where
  "position_as_str Internal = ''internal''"
| "position_as_str Front = ''front''"
| "position_as_str Rear = ''rear''"
| "position_as_str External = ''external''"

record shelf =
  sh_id :: "string option"
  sh_vendor :: "string option"
  sh_model :: "string option"
  sh_serial :: "string option"
  sh_sas_address :: "string option"
  sh_logical_id :: "string option"
  sh_position :: "position option"

definition shelf_key :: "shelf \<Rightarrow> string option" where
  "shelf_key s = opt_or (opt_or (sh_logical_id s) (sh_serial s)) (sh_id s)"

definition shelf_display :: "shelf \<Rightarrow> string" where
  "shelf_display s =
     (case (sh_model s, shelf_key s) of
        (Some m, Some k) \<Rightarrow> m @ '' '' @ k
      | (Some m, None) \<Rightarrow> m
      | (None, Some k) \<Rightarrow> k
      | (None, None) \<Rightarrow> ''shelf'')"

record location =
  lo_controller :: "controller option"
  lo_shelf :: "shelf option"
  lo_bay :: "u32 option"
  lo_sas_address :: "string option"
  lo_sas_phy :: "u32 option"
  lo_expander :: "string option"
  lo_pcie_addr :: "string option"
  lo_pcie_slot :: "string option"
  lo_position :: "position option"

definition default_location :: location where
  "default_location = \<lparr>lo_controller = None, lo_shelf = None, lo_bay = None, lo_sas_address = None,
     lo_sas_phy = None, lo_expander = None, lo_pcie_addr = None, lo_pcie_slot = None, lo_position = None\<rparr>"

type_synonym labels = "(string \<times> string) list"

definition location_key :: "location \<Rightarrow> string option" where
  "location_key l = Option.bind (lo_shelf l) shelf_key"

definition labels :: "location \<Rightarrow> labels" where
  "labels l =
     (case location_key l of Some k \<Rightarrow> [(''shelf'', k)] | None \<Rightarrow> [])
     @ (case lo_bay l of Some b \<Rightarrow> [(''bay'', dec (unat b))] | None \<Rightarrow> [])
     @ (case Option.bind (lo_controller l) co_scsi_host of Some h \<Rightarrow> [(''hba'', h)] | None \<Rightarrow> [])
     @ (case lo_pcie_slot l of Some s \<Rightarrow> [(''pcie_slot'', s)] | None \<Rightarrow> [])"

definition place :: "location \<Rightarrow> string" where
  "place l =
     (let parts = (case lo_shelf l of Some s \<Rightarrow> [shelf_display s] | None \<Rightarrow> [])
            @ (case lo_bay l of Some b \<Rightarrow> [''bay '' @ dec (unat b)] | None \<Rightarrow> [])
            @ (case lo_pcie_slot l of Some s \<Rightarrow> [''PCIe slot '' @ s] | None \<Rightarrow> [])
      in if parts = [] then ''unplaced'' else join '' '' parts)"

definition merge_shelf :: "shelf \<Rightarrow> shelf \<Rightarrow> shelf" where
  "merge_shelf old n =
     \<lparr>sh_id = opt_or (sh_id n) (sh_id old),
      sh_vendor = opt_or (sh_vendor n) (sh_vendor old),
      sh_model = opt_or (sh_model n) (sh_model old),
      sh_serial = opt_or (sh_serial n) (sh_serial old),
      sh_sas_address = opt_or (sh_sas_address n) (sh_sas_address old),
      sh_logical_id = opt_or (sh_logical_id n) (sh_logical_id old),
      sh_position = opt_or (sh_position n) (sh_position old)\<rparr>"

definition refreshed :: "location \<Rightarrow> location \<Rightarrow> location" where
  "refreshed self fresh =
     (if location_key self \<noteq> location_key fresh then fresh
      else \<lparr>lo_controller = opt_or (lo_controller fresh) (lo_controller self),
            lo_shelf = (case (lo_shelf self, lo_shelf fresh) of
                (Some old, Some n) \<Rightarrow> Some (merge_shelf old n) | (_, n) \<Rightarrow> n),
            lo_bay = opt_or (lo_bay fresh) (lo_bay self),
            lo_sas_address = opt_or (lo_sas_address fresh) (lo_sas_address self),
            lo_sas_phy = opt_or (lo_sas_phy fresh) (lo_sas_phy self),
            lo_expander = opt_or (lo_expander fresh) (lo_expander self),
            lo_pcie_addr = opt_or (lo_pcie_addr fresh) (lo_pcie_addr self),
            lo_pcie_slot = opt_or (lo_pcie_slot fresh) (lo_pcie_slot self),
            lo_position = opt_or (lo_position fresh) (lo_position self)\<rparr>)"

definition bay_key :: "location \<Rightarrow> string option" where
  "bay_key l =
     (case (lo_bay l, lo_pcie_slot l) of
        (Some b, _) \<Rightarrow> Some ((case location_key l of Some k \<Rightarrow> k | None \<Rightarrow> []) @ ''/bay/'' @ dec (unat b))
      | (None, Some s) \<Rightarrow> Some (''slot/'' @ s)
      | (None, None) \<Rightarrow> None)"

definition moved_to :: "location \<Rightarrow> location \<Rightarrow> bool" where
  "moved_to self now = (labels self \<noteq> labels now)"

section \<open>State and health\<close>

datatype membership = Out | Fleet

datatype designation = NoDesignation | Reserved | Spare | DesignatedFailed | System

fun designation_word :: "designation \<Rightarrow> string" where
  "designation_word NoDesignation = ''none''"
| "designation_word Reserved = ''reserved''"
| "designation_word Spare = ''spare''"
| "designation_word DesignatedFailed = ''failed''"
| "designation_word System = ''system''"

fun designation_debug :: "designation \<Rightarrow> string" where
  "designation_debug NoDesignation = ''None''"
| "designation_debug Reserved = ''Reserved''"
| "designation_debug Spare = ''Spare''"
| "designation_debug DesignatedFailed = ''Failed''"
| "designation_debug System = ''System''"

record overcommit =
  oc_enabled :: bool
  oc_ratio :: f64

definition MAX_OVERCOMMIT_RATIO :: f64 where "MAX_OVERCOMMIT_RATIO = f64_of_int 16"

definition default_overcommit :: overcommit where
  "default_overcommit = \<lparr>oc_enabled = False, oc_ratio = f64_of_int 1\<rparr>"

datatype overcommit_error = NeedsRatio | RatioOutside f64

definition new_overcommit :: "bool \<Rightarrow> f64 option \<Rightarrow> overcommit_error + overcommit" where
  "new_overcommit enabled ratio =
     (if \<not> enabled then Inr default_overcommit
      else case ratio of
        None \<Rightarrow> Inl NeedsRatio
      | Some r \<Rightarrow>
          if \<not> is_finite r \<or> \<not> (f64_le (f64_of_int 1) r \<and> f64_le r MAX_OVERCOMMIT_RATIO)
          then Inl (RatioOutside r) else Inr \<lparr>oc_enabled = enabled, oc_ratio = r\<rparr>)"

definition factor :: "overcommit \<Rightarrow> f64" where
  "factor oc = (if oc_enabled oc then oc_ratio oc else f64_of_int 1)"

datatype activity = Idle | Testing | Draining | Formatting | Sanitizing | UpdatingFirmware | Missing

fun activity_debug :: "activity \<Rightarrow> string" where
  "activity_debug Idle = ''Idle''"
| "activity_debug Testing = ''Testing''"
| "activity_debug Draining = ''Draining''"
| "activity_debug Formatting = ''Formatting''"
| "activity_debug Sanitizing = ''Sanitizing''"
| "activity_debug UpdatingFirmware = ''UpdatingFirmware''"
| "activity_debug Missing = ''Missing''"

datatype health_status = Unknown | Good | Warning | Failing | Failed

fun health_rank :: "health_status \<Rightarrow> nat" where
  "health_rank Unknown = 0" | "health_rank Good = 1" | "health_rank Warning = 2"
| "health_rank Failing = 3" | "health_rank Failed = 4"

instantiation health_status :: linorder
begin

definition less_eq_health_status :: "health_status \<Rightarrow> health_status \<Rightarrow> bool" where
  "less_eq_health_status a b = (health_rank a \<le> health_rank b)"

definition less_health_status :: "health_status \<Rightarrow> health_status \<Rightarrow> bool" where
  "less_health_status a b = (health_rank a < health_rank b)"

instance
proof
  fix x y :: health_status
  show "x \<le> y \<Longrightarrow> y \<le> x \<Longrightarrow> x = y"
    by (cases x; cases y) (simp_all add: less_eq_health_status_def)
qed (auto simp: less_eq_health_status_def less_health_status_def)

end

fun health_debug :: "health_status \<Rightarrow> string" where
  "health_debug Unknown = ''Unknown''"
| "health_debug Good = ''Good''"
| "health_debug Warning = ''Warning''"
| "health_debug Failing = ''Failing''"
| "health_debug Failed = ''Failed''"

record health_ack =
  ha_by :: string
  ha_at_unix :: u64
  ha_ie :: "ie_code option"
  ha_counters :: "string \<Rightarrow> u64 option"

definition ACK_WATCHED :: "string list" where
  "ACK_WATCHED = [''grown_defects'', ''reallocated_sectors'', ''pending_sectors'', ''offline_uncorrectable'',
     ''reported_uncorrectable'', ''crc_errors'', ''read_uncorrected'', ''write_uncorrected'', ''verify_uncorrected'']"

record health_report =
  hr_status :: "health_status option"
  hr_temperature_c :: "int option"
  hr_temp_limits :: "temp_limits option"
  hr_power_on_hours :: "u64 option"
  hr_media_errors :: u64
  hr_io_errors :: "u64 option"
  hr_io_errors_not_ours :: "u64 option"
  hr_available_spare_pct :: "u8 option"
  hr_wear_pct :: "u8 option"
  hr_critical_warning :: u8
  hr_messages :: "string list"
  hr_collected_at :: "time option"
  hr_not_collected :: "string option"
  hr_nvme :: "nvme_counters option"
  hr_smart :: "smart_counters option"

definition default_health :: health_report where
  "default_health = \<lparr>hr_status = None, hr_temperature_c = None, hr_temp_limits = None, hr_power_on_hours = None,
     hr_media_errors = 0, hr_io_errors = None, hr_io_errors_not_ours = None, hr_available_spare_pct = None,
     hr_wear_pct = None, hr_critical_warning = 0, hr_messages = [], hr_collected_at = None,
     hr_not_collected = None, hr_nvme = None, hr_smart = None\<rparr>"

definition status_of :: "health_report \<Rightarrow> health_status" where
  "status_of h = (case hr_status h of Some s \<Rightarrow> s | None \<Rightarrow> Unknown)"

section \<open>What other components keep on the drive\<close>

text \<open>\<open>usage.rs\<close>, \<open>wear.rs\<close>, \<open>history.rs\<close> and \<open>engine.rs\<close>.\<close>

record slab_usage =
  us_id :: string
  us_role :: string
  us_tier :: string
  us_slot_size :: u64
  us_total :: u64
  us_allocated :: u64
  us_free :: u64
  us_committed :: "u64 option"

record consumer =
  cn_kind :: string
  cn_namespace :: string
  cn_name :: string

record drive_volume =
  dv_id :: string
  dv_name :: string
  dv_kind :: string
  dv_consumer :: "consumer option"
  dv_bytes :: u64
  dv_legs :: u64
  dv_shared_legs :: u64
  dv_state :: string
  dv_rebuild :: string
  dv_policy :: "string option"
  dv_health :: "string option"

record usage =
  ug_capacity :: u64
  ug_slabs :: "slab_usage list"
  ug_in_slabs :: u64
  ug_used :: u64
  ug_free_in_slabs :: u64
  ug_outside_slabs :: u64
  ug_free :: u64
  ug_promisable :: u64
  ug_committed :: "u64 option"
  ug_headroom :: "u64 option"
  ug_collected_at :: time
  ug_volumes :: "drive_volume list option"
  ug_volumes_collected_at :: "time option"

record wear_projection =
  wp_rate_pct_per_day :: f64
  wp_days_left :: u64
  wp_wear_out_unix :: u64
  wp_computed_unix :: u64
  wp_samples :: nat
  wp_span_days :: u64

record last_action =
  la_op :: string
  la_result :: string
  la_at :: string
  la_params :: json

record history_summary =
  hs_key :: string
  hs_first_at :: string
  hs_last_at :: string
  hs_entries :: u64
  hs_actions :: u64
  hs_warnings :: u64
  hs_last_action :: "last_action option"
  hs_last_format :: "last_action option"
  hs_nodes :: "string list"
  hs_bays :: "string list"

record engine_slab_item =
  ei_role :: string
  ei_source :: string
  ei_device :: "string option"
  ei_transport :: "string option"

record local_disk =
  ld_state :: string
  ld_drive :: "string option"
  ld_reason :: "string option"
  ld_from :: "string option"

record engine_slabs =
  en_diskless :: bool
  en_system :: string
  en_data :: string
  en_items :: "engine_slab_item list"
  en_local_disk :: "local_disk option"

record engine_finding =
  ef_severity :: health_status
  ef_roles :: "string list"
  ef_message :: string

record format_record =
  fr_from_block_size :: u32
  fr_to_block_size :: u32
  fr_protection :: protection
  fr_state :: string
  fr_started :: "time option"
  fr_finished :: "time option"
  fr_error :: "string option"
  fr_phase :: string
  fr_progress_pct :: "u8 option"
  fr_progress_at :: "time option"
  fr_eta_secs :: "u64 option"
  fr_target :: string
  fr_refused :: "string list"
  fr_alternatives :: "choice list"
  fr_block_size_after :: "u32 option"
  fr_prot_type_after :: "u8 option"
  fr_boot_id :: string

record firmware_record =
  fw_image :: string
  fw_from_version :: string
  fw_to_version :: "string option"
  fw_state :: string
  fw_started :: "time option"
  fw_finished :: "time option"
  fw_error :: "string option"
  fw_reset_required :: bool

record drain_record =
  dr_state :: string
  dr_moved :: u64
  dr_failed :: u64
  dr_remaining :: u64
  dr_errors :: "string list"
  dr_reason :: string
  dr_then_leave :: bool

section \<open>The drive\<close>

record drive =
  d_id :: drive_id
  d_path :: string
  d_name :: string
  d_paths :: "string list"
  d_kind :: drive_kind
  d_vendor :: "string option"
  d_model :: string
  d_serial :: string
  d_firmware :: string
  d_wwid :: "string option"
  d_capacity :: u64
  d_block_size :: u32
  d_physical_block_size :: u32
  d_usable :: bool
  d_in_use_by :: "string option"
  d_contents :: "string option"
  d_slab_parts :: "slab_part list"
  d_mounted :: bool
  d_supports :: "supports option"
  d_health_ack :: "health_ack option"
  d_link_rate_mbps :: "u32 option"
  d_history :: "history_summary option"
  d_engine_finding :: "engine_finding option"
  d_enrolable :: bool
  d_wear_projection :: "wear_projection option"
  d_format :: "format_record option"
  d_firmware_record :: "firmware_record option"
  d_location :: location
  d_membership :: membership
  d_designation :: designation
  d_overcommit :: overcommit
  d_activity :: activity
  d_health :: health_report
  d_first_seen :: time
  d_last_seen :: time
  d_pushed_labels :: labels
  d_pushed_health :: "string option"
  d_pushed_overcommit :: "overcommit option"
  d_thermal :: "drive_thermal option"
  d_pushed_thermal :: "string option"
  d_drain :: "drain_record option"
  d_replaces :: "drive_id option"
  d_usage :: "usage option"
  d_fleet_partition :: "u32 option"

abbreviation health_of :: "drive \<Rightarrow> health_status" where
  "health_of d \<equiv> status_of (d_health d)"

definition stormblock_path :: "drive \<Rightarrow> string" where
  "stormblock_path d =
     (case d_fleet_partition d of
        Some n \<Rightarrow> ''/dev/'' @ partition_name (d_name d) (unat n)
      | None \<Rightarrow> d_path d)"

definition USABLE_BLOCK_SIZES :: "u32 list" where "USABLE_BLOCK_SIZES = [512, 4096]"

definition stormblock_labels :: "drive \<Rightarrow> labels" where
  "stormblock_labels d = labels (d_location d)"

definition stormblock_health :: "drive \<Rightarrow> string" where
  "stormblock_health d =
     (case health_of d of Failed \<Rightarrow> ''failed'' | Failing \<Rightarrow> ''failing'' | _ \<Rightarrow> ''healthy'')"

definition needs_reformat :: "drive \<Rightarrow> bool" where
  "needs_reformat d = (d_block_size d \<notin> set USABLE_BLOCK_SIZES \<or> \<not> d_usable d)"

definition owner :: "drive \<Rightarrow> string" where
  "owner d =
     (if d_membership d = Fleet then ''stormblock''
      else case d_in_use_by d of
        Some w \<Rightarrow> (if starts_with w ''stormraid'' then ''stormraid'' else ''stormblock'')
      | None \<Rightarrow> ''free'')"

definition serves_data :: "drive \<Rightarrow> bool" where
  "serves_data d = (d_membership d = Fleet \<or> d_in_use_by d \<noteq> None)"

section \<open>What a drive is used for\<close>

datatype use = UseSystem | RaidMember | UseData | SlabMember | Mounted | Free

record use_slab =
  ul_partition :: "nat option"
  ul_name :: string
  ul_role :: string

record in_use =
  iu_in_use :: bool
  iu_use :: use
  iu_slabs :: "use_slab list"
  iu_depends_on :: "string list"
  iu_reason :: "string option"

definition slab_label :: "use_slab \<Rightarrow> string" where
  "slab_label s =
     (case ul_partition s of
        Some p \<Rightarrow> (if ul_name s \<noteq> [] then ''partition '' @ dec p @ '' '' @ quoted (ul_name s)
                   else ''partition '' @ dec p)
      | None \<Rightarrow> ''the whole drive'')"

definition use_slabs :: "drive \<Rightarrow> use_slab list" where
  "use_slabs d = map (\<lambda>p. \<lparr>ul_partition = sp_partition p, ul_name = sp_name p, ul_role = sp_role p\<rparr>) (d_slab_parts d)"

definition is_raid :: "drive \<Rightarrow> bool" where
  "is_raid d = is_some_and (\<lambda>w. starts_with w ''stormraid'') (d_in_use_by d)"

definition remote :: "drive \<Rightarrow> string \<Rightarrow> bool" where
  "remote d role = is_some_and (\<lambda>f. role \<in> set (ef_roles f)) (d_engine_finding d)"

definition of_role :: "drive \<Rightarrow> string \<Rightarrow> string list" where
  "of_role d role = map slab_label (filter (\<lambda>s. ul_role s = role) (use_slabs d))"

definition volumes_line :: "drive \<Rightarrow> string option" where
  "volumes_line d =
     map_option (\<lambda>vols.
       let names = map dv_name (take 3 vols);
           more = (if length names < length vols
                   then '', '' @ utf8_ellipsis @ '' '' @ dec (length vols - length names) @ '' more'' else [])
       in dec (length vols) @ '' volume(s): '' @ join '', '' names @ more)
     (opt_filter (\<lambda>v. v \<noteq> []) (Option.bind (d_usage d) ug_volumes))"

definition depends_on :: "drive \<Rightarrow> string list" where
  "depends_on d =
     (if of_role d ''system'' \<noteq> [] then
        [if remote d ''system''
         then ''this node''@[CHR 0x27]@''s system slab (the engine runs the system half from the network today)''
         else ''this node''@[CHR 0x27]@''s root (the system slab)''] else [])
     @ (if of_role d ''data'' \<noteq> [] then
        [if remote d ''data''
         then ''this node''@[CHR 0x27]@''s data slab (the engine runs the data half from the network today)''
         else ''this node''@[CHR 0x27]@''s data half (the data slab)''] else [])
     @ (if is_raid d then [''a stormraid RAID set''] else [])
     @ (case volumes_line d of Some v \<Rightarrow> [v] | None \<Rightarrow> [])"

definition use_and_reason :: "drive \<Rightarrow> use \<times> string option" where
  "use_and_reason d =
     (let system = of_role d ''system''; data = of_role d ''data'' in
      if system \<noteq> [] then
        (UseSystem, Some (d_name d @ '' holds this node''@[CHR 0x27]@''s system slab ('' @ join '', '' system @ ''); ''
           @ (if remote d ''system''
              then ''the engine runs the system half from the network today, but the slab is the node''@[CHR 0x27]@''s''
              else ''the node runs from it'')))
      else if is_raid d then (RaidMember, Some (d_name d @ '' is a member of a stormraid RAID set''))
      else if data \<noteq> [] then
        (UseData, Some (d_name d @ '' holds this node''@[CHR 0x27]@''s data slab'' @ (if length data = 1 then [] else ''s'')
           @ '' ('' @ join '', '' data @ '')''))
      else if d_membership d = Fleet \<or> d_in_use_by d \<noteq> None then
        (SlabMember, Some (d_name d @ '' '' @
           (if d_membership d = Fleet then ''is in the fleet: the engine places data on it''
            else ''holds data for '' @ (case d_in_use_by d of Some w \<Rightarrow> w | None \<Rightarrow> ''stormblock''))))
      else if d_mounted d then (Mounted, Some (d_name d @ '' has mounted partitions''))
      else (Free, None))"

definition in_use_of :: "drive \<Rightarrow> in_use" where
  "in_use_of d =
     (let (u, reason) = use_and_reason d;
          deps = depends_on d;
          vols = find (\<lambda>x. contains x ''volume(s)'') deps
      in \<lparr>iu_in_use = (u \<noteq> Free), iu_use = u, iu_slabs = use_slabs d, iu_depends_on = deps,
          iu_reason = map_option (\<lambda>r. case vols of Some v \<Rightarrow> r @ ''; '' @ v | None \<Rightarrow> r) reason\<rparr>)"

definition fresh_reason :: "string \<Rightarrow> string option \<Rightarrow> string option" where
  "fresh_reason name hold =
     Option.bind hold (\<lambda>h.
       if contains h ''stormblock slab'' then Some (name @ '' holds a stormblock slab ('' @ h @ '')'')
       else if contains h ''stormraid member'' then Some (name @ '' is a member of a stormraid RAID set ('' @ h @ '')'')
       else None)"

section \<open>The guards\<close>

definition busy_line :: "drive \<Rightarrow> string" where
  "busy_line d = ''activity is '' @ activity_debug (d_activity d)"

definition holds_line :: "string \<Rightarrow> string" where
  "holds_line who = ''in use: holds data for '' @ who"

definition fleet_join_blocker :: "drive \<Rightarrow> string option" where
  [guard_defs]: "fleet_join_blocker d = first_some
     [guard (d_membership d = Fleet) ''already in the fleet'',
      guard (d_designation d = DesignatedFailed) ''designated failed'',
      guard (d_designation d = Reserved) ''designated reserved'',
      guard (d_designation d = System) ''designated system: the install lays the system half on it, not data'',
      guard (d_activity d \<noteq> Idle) (busy_line d),
      guard (Failing \<le> health_of d) (''health is '' @ health_debug (health_of d)),
      map_option holds_line (d_in_use_by d),
      guard (\<not> d_usable d) (''kernel cannot use '' @ dec (unat (d_block_size d)) @ ''-byte sectors ''
        @ utf8_dash @ '' reformat to 4096 first'')]"

definition ack_blocker :: "drive \<Rightarrow> string option" where
  "ack_blocker d =
     (case health_of d of
        Warning \<Rightarrow> if hr_smart (d_health d) \<noteq> None then None
                    else Some ''no drive counters to acknowledge against''
      | Failing \<Rightarrow> Some (to_lower (health_debug Failing @ '': only a warning can be acknowledged''))
      | Failed \<Rightarrow> Some (to_lower (health_debug Failed @ '': only a warning can be acknowledged''))
      | _ \<Rightarrow> Some ''no warning to acknowledge'')"

definition designation_blocker :: "drive \<Rightarrow> designation \<Rightarrow> string option" where
  "designation_blocker d to =
     (if to = d_designation d then None
      else
        (let u = in_use_of d; why = (case iu_reason u of Some r \<Rightarrow> r | None \<Rightarrow> []) in
         if to = System \<and> d_membership d = Fleet then
           Some (''in the fleet: its data would be laid over by the install '' @ utf8_dash @ '' leave (drain) first'')
         else if to = System \<and> iu_in_use u \<and> iu_use u \<noteq> UseSystem then
           Some (''in use: '' @ why @ '' '' @ utf8_dash @ '' the install would lay the system half over it'')
         else if to = DesignatedFailed \<and> iu_use u = UseSystem then
           Some (''in use: '' @ why @ '' '' @ utf8_dash @ '' marking it failed would drain the system half under the node; its health verdict drains it if it is failing'')
         else None))"

definition in_use_guard :: "drive \<Rightarrow> string option" where
  "in_use_guard d = map_option (\<lambda>why. ''in use: '' @ why) (iu_reason (in_use_of d))"

definition destructive_test_blocker :: "drive \<Rightarrow> string option" where
  [guard_defs]: "destructive_test_blocker d = first_some
     [in_use_guard d,
      guard (d_membership d = Fleet) (''in the fleet '' @ utf8_dash @ '' destructive tests need an out-of-fleet drive''),
      guard (d_designation d = System) (''designated system '' @ utf8_dash @ '' clear the designation first''),
      map_option holds_line (d_in_use_by d),
      guard (d_activity d \<noteq> Idle) (busy_line d),
      guard (\<not> d_usable d) (''kernel cannot use '' @ dec (unat (d_block_size d)) @ ''-byte sectors ''
        @ utf8_dash @ '' reformat first'')]"

definition hot_blocker :: "drive \<Rightarrow> string option" where
  "hot_blocker d =
     map_option (\<lambda>t. ''running hot ('' @ (case dt_temp_c t of None \<Rightarrow> ''no reading'' | Some v \<Rightarrow> celsius v)
         @ '', warning '' @ celsius (lm_warn_c (dt_limits t)) @ '')'')
       (opt_filter throttle_background (d_thermal d))"

definition offer_blocker :: "drive \<Rightarrow> u64 \<Rightarrow> string option" where
  [guard_defs]: "offer_blocker d min_bytes = first_some
     [guard (d_membership d = Fleet) ''in the fleet'',
      guard (d_activity d \<noteq> Idle) (busy_line d),
      guard (d_designation d \<noteq> NoDesignation) (''designated '' @ designation_debug (d_designation d)),
      guard (health_of d = Unknown) ''no health verdict yet'',
      guard (Failing \<le> health_of d) (''health is '' @ health_debug (health_of d)),
      guard (needs_reformat d) (dec (unat (d_block_size d)) @ ''-byte sectors: reformat first''),
      hot_blocker d,
      guard (d_capacity d < min_bytes) (''smaller than '' @ dec (unat min_bytes) @ '' bytes''),
      map_option (\<lambda>who. ''holds data for '' @ who) (d_in_use_by d),
      map_option (\<lambda>what. ''holds '' @ what) (d_contents d)]"

definition firmware_blocker :: "drive \<Rightarrow> bool \<Rightarrow> string option" where
  [guard_defs]: "firmware_blocker d force = first_some
     [guard (d_activity d = UpdatingFirmware) ''a firmware update is already running'',
      guard (d_activity d \<noteq> Idle) (busy_line d),
      guard (\<not> force \<and> Failing \<le> health_of d)
        (''health is '' @ health_debug (health_of d) @ '' (pass force to override)'')]"

definition format_blocker :: "drive \<Rightarrow> string option" where
  [guard_defs]: "format_blocker d = first_some
     [in_use_guard d,
      guard (d_membership d = Fleet) (''in the fleet '' @ utf8_dash @ '' leave (drain) first''),
      map_option holds_line (d_in_use_by d),
      guard (d_activity d = Formatting) ''a format is already running'',
      guard (d_activity d \<noteq> Idle) (busy_line d),
      guard (d_designation d = Reserved) ''designated reserved'',
      guard (d_designation d = System) (''designated system '' @ utf8_dash @ '' a worker job naming it in \"destroy\" may format it''),
      guard (d_kind d = NvmeSsd) ''NVMe: use namespace format (not implemented)'']"

end
