(* ===== verification/Guards.thy ===== *)
theory Guards
  imports Drives
begin

text \<open>
  What the guards of \<open>drive.rs\<close> guarantee: when each lets a drive through, that no destroying
  operation gets at a drive in use, that an offered drive can join, and that merging a rescan's
  location into the known one is no move. The contract the callers rely on is the locale
  \<open>destroys\<close>: an operation whose guard refuses a drive in use.
\<close>

text \<open>A blank SATA SSD out of the fleet, as the code's tests build it.\<close>

definition base_drive :: drive where
  "base_drive = \<lparr>d_id = 1, d_path = ''/dev/sdx'', d_name = ''sdx'', d_paths = [''/dev/sdx''], d_kind = SataSsd,
     d_vendor = None, d_model = ''M'', d_serial = ''S'', d_firmware = ''1'', d_wwid = None, d_capacity = 1073741824,
     d_block_size = 512, d_physical_block_size = 512, d_usable = True, d_in_use_by = None, d_contents = None,
     d_slab_parts = [], d_mounted = False, d_supports = None, d_health_ack = None, d_link_rate_mbps = None,
     d_history = None, d_engine_finding = None, d_enrolable = False, d_wear_projection = None, d_format = None,
     d_firmware_record = None, d_location = default_location, d_membership = Out, d_designation = NoDesignation,
     d_overcommit = default_overcommit, d_activity = Idle, d_health = default_health, d_first_seen = 0,
     d_last_seen = 0, d_pushed_labels = [], d_pushed_health = None, d_pushed_overcommit = None, d_thermal = None,
     d_pushed_thermal = None, d_drain = None, d_replaces = None, d_usage = None, d_fleet_partition = None\<rparr>"

definition good_drive :: drive where
  "good_drive = base_drive\<lparr>d_health := default_health\<lparr>hr_status := Some Good\<rparr>\<rparr>"

section \<open>Use\<close>

definition role_slabs :: "drive \<Rightarrow> string \<Rightarrow> slab_part list" where
  "role_slabs d role = filter (\<lambda>p. sp_role p = role) (d_slab_parts d)"

lemma of_role_Nil_iff [simp]: "of_role d role = [] \<longleftrightarrow> (\<forall>p \<in> set (d_slab_parts d). sp_role p \<noteq> role)"
  by (auto simp: of_role_def use_slabs_def filter_empty_conv)

lemma is_raid_iff: "is_raid d \<longleftrightarrow> (\<exists>w. d_in_use_by d = Some w \<and> starts_with w ''stormraid'')"
  by (simp add: is_raid_def is_some_and_iff)

lemma iu_use_eq: "iu_use (in_use_of d) = fst (use_and_reason d)"
  by (simp add: in_use_of_def Let_def split: prod.split)

lemma iu_in_use_eq: "iu_in_use (in_use_of d) \<longleftrightarrow> iu_use (in_use_of d) \<noteq> Free"
  by (simp add: in_use_of_def Let_def split: prod.split)

lemma use_and_reason_None: "snd (use_and_reason d) = None \<longleftrightarrow> fst (use_and_reason d) = Free"
  by (simp add: use_and_reason_def Let_def)

lemma iu_reason_None: "iu_reason (in_use_of d) = None \<longleftrightarrow> iu_use (in_use_of d) = Free"
  using use_and_reason_None [of d] by (cases "use_and_reason d") (simp add: in_use_of_def Let_def)

lemma use_Free_iff:
  "iu_use (in_use_of d) = Free \<longleftrightarrow>
     (\<forall>p \<in> set (d_slab_parts d). sp_role p \<noteq> ''system'' \<and> sp_role p \<noteq> ''data'')
     \<and> d_in_use_by d = None \<and> d_membership d = Out \<and> \<not> d_mounted d"
  by (cases "d_membership d") (auto simp: iu_use_eq use_and_reason_def Let_def is_raid_iff)

lemma use_System_iff:
  "iu_use (in_use_of d) = UseSystem \<longleftrightarrow> (\<exists>p \<in> set (d_slab_parts d). sp_role p = ''system'')"
  by (auto simp: iu_use_eq use_and_reason_def Let_def)

lemma in_use_guard_None: "in_use_guard d = None \<longleftrightarrow> iu_use (in_use_of d) = Free"
  by (simp add: in_use_guard_def iu_reason_None)

text \<open>
  The use of a drive: it is free exactly when nothing on the record says otherwise
  (no system or data slab, no holder, out of the fleet, nothing mounted), it carries a reason
  exactly when it is not free, and a drive with a system slab is always said to be the system's -
  whatever else it is.
\<close>
theorem use_reported:
  "(iu_in_use (in_use_of d) \<longleftrightarrow> iu_reason (in_use_of d) \<noteq> None)
   \<and> (\<not> iu_in_use (in_use_of d) \<longleftrightarrow>
        list_all (\<lambda>p. sp_role p \<noteq> ''system'' \<and> sp_role p \<noteq> ''data'') (d_slab_parts d)
        \<and> d_in_use_by d = None \<and> d_membership d = Out \<and> d_mounted d = False)
   \<and> (iu_use (in_use_of d) = UseSystem \<longleftrightarrow> list_ex (\<lambda>p. sp_role p = ''system'') (d_slab_parts d))"
  by (auto simp: iu_in_use_eq iu_reason_None use_Free_iff use_System_iff list_all_iff list_ex_iff)

section \<open>Operations that destroy what is on the drive\<close>

text \<open>
  An operation that destroys a drive's contents: its guard lets a drive through only when it is
  free, out of the fleet, idle and not the system's.
\<close>

locale destroys =
  fixes blocker :: "drive \<Rightarrow> string option"
  assumes free: "blocker d = None \<Longrightarrow> iu_use (in_use_of d) = Free"
    and idle: "blocker d = None \<Longrightarrow> d_activity d = Idle"
    and not_system: "blocker d = None \<Longrightarrow> d_designation d \<noteq> System"
begin

lemma spares_used:
  assumes "blocker d = None"
  shows "d_membership d = Out" "d_in_use_by d = None" "\<not> d_mounted d"
    "p \<in> set (d_slab_parts d) \<Longrightarrow> sp_role p \<noteq> ''system'' \<and> sp_role p \<noteq> ''data''"
  using free [OF assms] unfolding use_Free_iff by auto

lemma spares_slab:
  "p \<in> set (d_slab_parts d) \<Longrightarrow> sp_role p = ''system'' \<or> sp_role p = ''data'' \<Longrightarrow> blocker d \<noteq> None"
  using spares_used by blast

lemma owner_free: "blocker d = None \<Longrightarrow> owner d = ''free'' \<and> \<not> serves_data d"
  using spares_used by (auto simp: owner_def serves_data_def)

end

interpretation fmt: destroys format_blocker
  by unfold_locales (auto simp: guard_defs first_some_None_iff in_use_guard_None)

interpretation tst: destroys destructive_test_blocker
  by unfold_locales (auto simp: guard_defs first_some_None_iff in_use_guard_None)

text \<open>
  A sector-size reformat starts exactly on a drive that is idle, out of the
  fleet, not NVMe, neither reserved nor the system's, held by nobody, with no system or data slab
  and nothing mounted on it.
\<close>
theorem format_only_free:
  "format_blocker d = None \<longleftrightarrow>
     d_activity d = Idle \<and> d_membership d = Out \<and> d_kind d \<noteq> NvmeSsd
     \<and> d_designation d \<noteq> Reserved \<and> d_designation d \<noteq> System
     \<and> d_in_use_by d = None \<and> d_mounted d = False
     \<and> list_all (\<lambda>p. sp_role p \<noteq> ''system'' \<and> sp_role p \<noteq> ''data'') (d_slab_parts d)"
  by (cases "d_activity d = Idle")
    (auto simp: guard_defs first_some_None_iff in_use_guard_None use_Free_iff list_all_iff)

text \<open>
  C6. A drive on which a probe found a system or data slab, one in the fleet, one its record says
  somebody holds and one of which something is mounted is refused both by the reformat request
  (\<open>format_blocker\<close>) and by the destructive test (\<open>destructive_test_blocker\<close>), whatever the rest of its
  record says, and the drive list shows it in use with a reason. Neither request has a way to name the
  drive as in use: only a job can, through the worker's own guard.
\<close>
theorem slab_protected:
  assumes "p \<in> set (d_slab_parts d) \<and> (sp_role p = ''system'' \<or> sp_role p = ''data'')
    \<or> d_membership d = Fleet \<or> d_in_use_by d \<noteq> None \<or> d_mounted d"
  shows "format_blocker d \<noteq> None \<and> destructive_test_blocker d \<noteq> None
    \<and> iu_in_use (in_use_of d) \<and> iu_reason (in_use_of d) \<noteq> None"
proof -
  have "iu_use (in_use_of d) \<noteq> Free" using assms by (auto simp: use_Free_iff)
  then show ?thesis using fmt.free tst.free by (auto simp: iu_in_use_eq iu_reason_None)
qed

lemma slab_protected_witness:
  "format_blocker (good_drive\<lparr>d_slab_parts := [\<lparr>sp_partition = Some 1, sp_name = ''x'', sp_role = ''data'', sp_offset_bytes = 0\<rparr>]\<rparr>) \<noteq> None"
  using slab_protected [of "\<lparr>sp_partition = Some 1, sp_name = ''x'', sp_role = ''data'', sp_offset_bytes = 0\<rparr>"
      "good_drive\<lparr>d_slab_parts := [\<lparr>sp_partition = Some 1, sp_name = ''x'', sp_role = ''data'', sp_offset_bytes = 0\<rparr>]\<rparr>"]
  by simp

section \<open>Joining\<close>

lemma fleet_join_None_iff:
  "fleet_join_blocker d = None \<longleftrightarrow>
     d_membership d = Out \<and> d_designation d \<notin> {DesignatedFailed, Reserved, System} \<and> d_activity d = Idle
     \<and> health_of d < Failing \<and> d_in_use_by d = None \<and> d_usable d"
  by (cases "d_membership d") (auto simp: guard_defs first_some_None_iff not_le)

text \<open>
  A drive that is offered for enrolment can join the fleet as it stands, and is
  one nothing is known to be on: idle, undesignated, with a verdict that is not failing, sectors
  the kernel uses, not over its warning temperature, as big as asked.
\<close>
theorem offered_can_join:
  assumes "offer_blocker d min_bytes = None"
  shows "fleet_join_blocker d = None
    \<and> d_contents d = None \<and> owner d = ''free'' \<and> d_designation d = NoDesignation
    \<and> health_of d \<in> {Good, Warning} \<and> min_bytes \<le> d_capacity d
    \<and> d_block_size d \<in> {512, 4096}
    \<and> (case d_thermal d of Some t \<Rightarrow> \<not> throttle_background t | None \<Rightarrow> True)"
proof -
  have "d_membership d = Out" using assms by (cases "d_membership d") (auto simp: guard_defs first_some_None_iff)
  moreover have "health_of d \<in> {Good, Warning}"
    using assms by (cases "health_of d") (auto simp: guard_defs first_some_None_iff less_eq_health_status_def)
  moreover have "health_of d < Failing" using calculation(2) by (auto simp: less_health_status_def)
  moreover have "case d_thermal d of Some t \<Rightarrow> \<not> throttle_background t | None \<Rightarrow> True"
    using assms by (auto simp: guard_defs first_some_None_iff hot_blocker_def split: option.splits if_splits)
  ultimately show ?thesis
    using assms unfolding fleet_join_None_iff
    by (auto simp: guard_defs first_some_None_iff owner_def needs_reformat_def USABLE_BLOCK_SIZES_def)
qed

lemma offered_can_join_witness:
  "offer_blocker good_drive 1024 = None \<and> fleet_join_blocker good_drive = None"
proof -
  have "offer_blocker good_drive 1024 = None"
    by (simp add: guard_defs first_some_None_iff good_drive_def base_drive_def status_of_def needs_reformat_def
        USABLE_BLOCK_SIZES_def hot_blocker_def less_eq_health_status_def word_less_nat_alt)
  with offered_can_join [OF this] show ?thesis by blast
qed

text \<open>
  No designation contradicts a drive's use: a drive becomes the node's system
  drive only when it is out of the fleet and free or already holds the system slab, and the drive
  that holds the system slab is never designated failed.
\<close>
theorem designation_safe:
  assumes "designation_blocker d to = None" "to \<noteq> d_designation d"
  shows "(to = System \<longrightarrow> d_membership d = Out \<and> iu_use (in_use_of d) \<in> {Free, UseSystem})
    \<and> (to = DesignatedFailed \<longrightarrow> (\<forall>p \<in> set (d_slab_parts d). sp_role p \<noteq> ''system''))"
  using assms use_System_iff [of d]
  by (cases "d_membership d") (auto simp: designation_blocker_def Let_def iu_in_use_eq split: if_splits)

lemma designation_safe_witness:
  "designation_blocker good_drive System = None \<and> iu_use (in_use_of good_drive) \<in> {Free, UseSystem}"
proof -
  have free: "iu_use (in_use_of good_drive) = Free" by (simp add: use_Free_iff good_drive_def base_drive_def)
  then have "designation_blocker good_drive System = None"
    by (simp add: designation_blocker_def Let_def iu_in_use_eq) (simp add: good_drive_def base_drive_def)
  with designation_safe [OF this] show ?thesis by (simp add: good_drive_def base_drive_def)
qed

section \<open>Location\<close>

lemma shelf_key_merge: "shelf_key (merge_shelf old n) = shelf_key n" if "shelf_key old = shelf_key n"
  using that by (auto simp: shelf_key_def merge_shelf_def opt_or_def split: option.splits)

lemma location_key_refreshed:
  "location_key (refreshed self fresh) = location_key fresh"
  by (cases "lo_shelf self"; cases "lo_shelf fresh")
    (auto simp: refreshed_def location_key_def shelf_key_merge)

lemma refreshed_idem: "refreshed (refreshed self fresh) fresh = refreshed self fresh"
proof (cases "location_key self = location_key fresh")
  case True
  have idem: "opt_or a (opt_or a b) = opt_or a b" for a b :: "'z option" by (cases a) simp_all
  have shelf: "merge_shelf (merge_shelf a b) b = merge_shelf a b" "merge_shelf b b = b" for a b
    by (simp_all add: merge_shelf_def idem)
  show ?thesis
    using True location_key_refreshed [of self fresh] by (simp add: refreshed_def idem shelf split: option.splits)
next
  case False
  then have "refreshed self fresh = fresh" by (simp add: refreshed_def)
  moreover have "refreshed fresh fresh = fresh"
    by (cases fresh) (auto simp: refreshed_def merge_shelf_def split: option.splits)
  ultimately show ?thesis by simp
qed

lemma refreshed_self [simp]: "refreshed l l = l"
  by (cases l) (auto simp: refreshed_def merge_shelf_def split: option.splits)

text \<open>A rescan that read no more than part of the known place.\<close>

definition opt_le :: "'a option \<Rightarrow> 'a option \<Rightarrow> bool" where
  "opt_le a b = (a = None \<or> a = b)"

lemma opt_or_le: "opt_le a b \<Longrightarrow> opt_or a b = b"
  by (auto simp: opt_le_def)

definition same_place :: "location \<Rightarrow> location \<Rightarrow> bool" where
  "same_place self fresh \<longleftrightarrow> location_key self = location_key fresh \<and> opt_le (lo_bay fresh) (lo_bay self)
     \<and> opt_le (lo_controller fresh) (lo_controller self) \<and> opt_le (lo_pcie_slot fresh) (lo_pcie_slot self)"

text \<open>
  A rescan on the same shelf that could not read a field (or read the
  same) is no move, and loses nothing known: the labels stay as they were. A different shelf is
  taken whole, a bay or slot that was read wins over the known one, and merging a rescan in twice
  is merging it in once.
\<close>
theorem refreshed_no_false_move:
  "(same_place self fresh \<longrightarrow> \<not> moved_to self (refreshed self fresh))
   \<and> (location_key self \<noteq> location_key fresh \<longrightarrow> refreshed self fresh = fresh)
   \<and> location_key (refreshed self fresh) = location_key fresh
   \<and> (lo_bay fresh \<noteq> None \<longrightarrow> lo_bay (refreshed self fresh) = lo_bay fresh)
   \<and> refreshed (refreshed self fresh) fresh = refreshed self fresh"
proof (intro conjI impI)
  assume "same_place self fresh"
  then show "\<not> moved_to self (refreshed self fresh)"
    using location_key_refreshed [of self fresh]
    by (auto simp: same_place_def moved_to_def labels_def opt_or_le) (auto simp: refreshed_def opt_or_le)
next
  show "location_key (refreshed self fresh) = location_key fresh" by (rule location_key_refreshed)
  show "refreshed (refreshed self fresh) fresh = refreshed self fresh" by (rule refreshed_idem)
qed (auto simp: refreshed_def)

definition example_location :: location where
  "example_location = default_location\<lparr>lo_bay := Some 4, lo_shelf := Some \<lparr>sh_id = Some ''1:0:8:0'', sh_vendor = None,
     sh_model = Some ''DS224C'', sh_serial = Some ''S1'', sh_sas_address = None, sh_logical_id = Some ''5000'', sh_position = None\<rparr>\<rparr>"

lemma refreshed_no_false_move_witness:
  "\<not> moved_to example_location (refreshed example_location (example_location\<lparr>lo_bay := None\<rparr>))
   \<and> labels (refreshed example_location (example_location\<lparr>lo_bay := Some 5\<rparr>)) = [(''shelf'', ''5000''), (''bay'', ''5'')]"
proof -
  have "same_place example_location (example_location\<lparr>lo_bay := None\<rparr>)"
    by (simp add: same_place_def opt_le_def location_key_def)
  moreover have "lo_bay (refreshed example_location (example_location\<lparr>lo_bay := Some 5\<rparr>)) = Some 5"
    using refreshed_no_false_move [of example_location "example_location\<lparr>lo_bay := Some 5\<rparr>"] by simp
  moreover have "labels (refreshed example_location (example_location\<lparr>lo_bay := Some 5\<rparr>)) = [(''shelf'', ''5000''), (''bay'', ''5'')]"
    by code_simp
  ultimately show ?thesis using refreshed_no_false_move [of example_location] by blast
qed

end
