(* ===== verification/Worker.thy ===== *)
theory Worker
  imports Partition Guards
begin

text \<open>
  \<open>src/src/worker.rs\<close>, what the drive worker decides without running anything: the steps of a job and
  their order, the selection of drives, the guard every step passes, the lanes, and what a restart makes
  of a job and of a drive left busy. The run itself is in theory \<open>Jobs\<close>.
\<close>

section \<open>Strings the code takes apart\<close>

fun split_on :: "char \<Rightarrow> string \<Rightarrow> string list" where
  "split_on c [] = [[]]"
| "split_on c (x # xs) =
     (if x = c then [] # split_on c xs else case split_on c xs of p # ps \<Rightarrow> (x # p) # ps | [] \<Rightarrow> [[x]])"

text \<open>\<open>split_once\<close> at the first such character.\<close>

fun split_once :: "char \<Rightarrow> string \<Rightarrow> (string \<times> string) option" where
  "split_once c [] = None"
| "split_once c (x # xs) =
     (if x = c then Some ([], xs) else map_option (\<lambda>(a, b). (x # a, b)) (split_once c xs))"

definition rsplit_once :: "char \<Rightarrow> string \<Rightarrow> (string \<times> string) option" where
  "rsplit_once c s = map_option (\<lambda>(a, b). (rev b, rev a)) (split_once c (rev s))"

text \<open>\<open>{:?}\<close> of ASCII text: the quotes and the escapes of \<open>char::escape_debug\<close>.\<close>

definition debug_char :: "char \<Rightarrow> string" where
  "debug_char c =
     (let n = of_char c :: nat in
      if n = 9 then [CHR 0x5C, CHR ''t''] else if n = 10 then [CHR 0x5C, CHR ''n''] else if n = 13 then [CHR 0x5C, CHR ''r'']
      else if n = 0 then [CHR 0x5C, CHR ''0''] else if n = 0x22 \<or> n = 0x5C then [CHR 0x5C, c]
      else if n < 0x20 \<or> n = 0x7F
      then [CHR 0x5C] @ ''u{'' @ (if n < 16 then [] else [hex_digit (n div 16)]) @ [hex_digit (n mod 16)] @ ''}''
      else [c])"

definition debug_str :: "string \<Rightarrow> string" where
  "debug_str s = [CHR 0x22] @ concat (map debug_char s) @ [CHR 0x22]"

definition uuid_string :: "drive_id \<Rightarrow> string" where
  "uuid_string i =
     (let h = concat (map hex2 (word_be 16 i)) in
      take 8 h @ ''-'' @ take 4 (drop 8 h) @ ''-'' @ take 4 (drop 12 h) @ ''-'' @ take 4 (drop 16 h) @ ''-'' @ drop 20 h)"

fun activity_word :: "activity \<Rightarrow> string" where
  "activity_word Idle = ''idle''"
| "activity_word Testing = ''testing''"
| "activity_word Draining = ''draining''"
| "activity_word Formatting = ''formatting''"
| "activity_word Sanitizing = ''sanitizing''"
| "activity_word UpdatingFirmware = ''updating_firmware''"
| "activity_word Missing = ''missing''"

section \<open>Steps\<close>

datatype sanitize_method = BlockErase | CryptoErase | Overwrite

fun method_word :: "sanitize_method \<Rightarrow> string" where
  "method_word BlockErase = ''block''" | "method_word CryptoErase = ''crypto''" | "method_word Overwrite = ''overwrite''"

datatype test_kind = Smoke | ReadScan | DestructiveSample

fun test_word :: "test_kind \<Rightarrow> string" where
  "test_word Smoke = ''smoke''" | "test_word ReadScan = ''read_scan''" | "test_word DestructiveSample = ''destructive_sample''"

definition is_destructive :: "test_kind \<Rightarrow> bool" where
  "is_destructive k = (k = DestructiveSample)"

datatype step =
    Format u32 protection
  | Sanitize sanitize_method
  | SecurityErase "bool option"
  | Test test_kind
  | Partition role
  | Enroll "string option" role

fun step_rank :: "step \<Rightarrow> nat" where
  "step_rank (Partition _) = 1"
| "step_rank (Enroll _ _) = 2"
| "step_rank _ = 0"

definition low_level :: "step \<Rightarrow> bool" where "low_level s = (step_rank s = 0)"

fun destroys_data :: "step \<Rightarrow> bool" where
  "destroys_data (Test k) = is_destructive k"
| "destroys_data s = (step_rank s \<le> 1)"

fun read_only :: "step \<Rightarrow> bool" where
  "read_only (Test k) = (\<not> is_destructive k)"
| "read_only _ = False"

fun step_name :: "step \<Rightarrow> string" where
  "step_name (Format _ _) = ''format''"
| "step_name (Sanitize _) = ''sanitize''"
| "step_name (SecurityErase _) = ''security_erase''"
| "step_name (Test _) = ''test''"
| "step_name (Partition _) = ''partition''"
| "step_name (Enroll _ _) = ''enroll''"

fun describe :: "step \<Rightarrow> string" where
  "describe (Format bs p) = ''format '' @ utf8_arrow @ '' '' @ dec (unat bs) @ (if p = NoPi then [] else '' + '' @ prot_word p)"
| "describe (Sanitize m) = ''sanitize ('' @ method_word m @ '')''"
| "describe (Test k) = ''test ('' @ test_word k @ '')''"
| "describe (SecurityErase e) =
     (case e of Some True \<Rightarrow> ''security erase (enhanced)'' | Some False \<Rightarrow> ''security erase (normal)'' | None \<Rightarrow> ''security erase'')"
| "describe (Partition r) = ''partition ('' @ role_word r @ '')''"
| "describe (Enroll t r) =
     ''enroll ('' @ role_word r @ '' slab'' @ (case t of Some t \<Rightarrow> '', tier '' @ t | None \<Rightarrow> []) @ '')''"

definition valid_target :: "u32 \<Rightarrow> bool" where
  "valid_target bs = (bs \<in> set USABLE_BLOCK_SIZES)"

definition partition_role :: "step list \<Rightarrow> role option" where
  "partition_role steps = first_some (map (\<lambda>s. case s of Partition r \<Rightarrow> Some r | _ \<Rightarrow> None) steps)"

definition enroll_role :: "step list \<Rightarrow> role option" where
  "enroll_role steps = first_some (map (\<lambda>s. case s of Enroll _ r \<Rightarrow> Some r | _ \<Rightarrow> None) steps)"

text \<open>The loop of \<open>validate_steps\<close>: the names seen and the rank reached.\<close>

fun check_steps :: "string list \<Rightarrow> nat \<Rightarrow> step list \<Rightarrow> string option" where
  "check_steps seen rank [] = None"
| "check_steps seen rank (s # ss) =
     (if step_name s \<in> set seen then Some (step_name s @ '' appears twice'')
      else if step_rank s < rank
      then Some (step_name s @ '' must come before the steps after it: low-level (format, sanitize), then partition, then enroll'')
      else case s of
          Format bs _ \<Rightarrow> (if \<not> valid_target bs then Some (''block_size '' @ dec (unat bs) @ '': use 512 or 4096'')
                         else check_steps (step_name s # seen) (step_rank s) ss)
        | _ \<Rightarrow> check_steps (step_name s # seen) (step_rank s) ss)"

definition validate_steps :: "step list \<Rightarrow> string option" where
  "validate_steps steps =
     (if steps = [] then Some ''no steps''
      else opt_or (check_steps [] 0 steps)
        (case (partition_role steps, enroll_role steps) of
           (Some p, Some e) \<Rightarrow>
             guard (p \<noteq> e) (''partition role '' @ role_word p @ '' and enroll role '' @ role_word e @ '' differ'')
         | _ \<Rightarrow> None))"

section \<open>Which drives\<close>

record select =
  se_drives :: "string list"
  se_shelf :: "string option"
  se_bays :: "string option"
  se_model :: "string option"
  se_unusable :: bool

definition select_is_empty :: "select \<Rightarrow> bool" where
  "select_is_empty sel \<longleftrightarrow> se_drives sel = [] \<and> se_shelf sel = None \<and> se_model sel = None \<and> \<not> se_unusable sel"

definition bad_bays :: "string \<Rightarrow> string" where
  "bad_bays s = ''bays '' @ debug_str s @ '': use numbers and ranges like 0-11,14''"

text \<open>The bays a part names. \<open>b - a\<close> is taken only when \<open>a \<le> b\<close>.\<close>

definition bay_part :: "string \<Rightarrow> u32 set option" where
  "bay_part part =
     (case split_once (CHR ''-'') part of
        Some (a, b) \<Rightarrow>
          Option.bind (parse_unsigned (2 ^ 32) (trim a)) (\<lambda>a.
          Option.bind (parse_unsigned (2 ^ 32) (trim b)) (\<lambda>b.
            if b < a \<or> 4096 < b - a then None else Some (set (map word_of_nat [a..<Suc b]))))
      | None \<Rightarrow> map_option (\<lambda>n. {word_of_nat n}) (parse_unsigned (2 ^ 32) part))"

fun bay_parts :: "string list \<Rightarrow> u32 set \<Rightarrow> u32 set option" where
  "bay_parts [] out = Some out"
| "bay_parts (p # ps) out = (case bay_part p of None \<Rightarrow> None | Some bs \<Rightarrow> bay_parts ps (out \<union> bs))"

definition parse_bays :: "string \<Rightarrow> string + u32 set" where
  "parse_bays s =
     (case bay_parts (filter (\<lambda>p. p \<noteq> []) (map trim (split_on (CHR '','') s))) {} of
        None \<Rightarrow> Inl (bad_bays s)
      | Some out \<Rightarrow> if out = {} then Inl (''bays '' @ debug_str s @ '': empty'') else Inr out)"

definition bay_in :: "drive \<Rightarrow> u32 set \<Rightarrow> bool" where
  "bay_in d bays = is_some_and (\<lambda>x. x \<in> bays) (lo_bay (d_location d))"

definition same_model :: "drive \<Rightarrow> string \<Rightarrow> bool" where
  "same_model d m = eq_ignore_ascii_case (trim (d_model d)) (trim m)"

definition matches :: "drive \<Rightarrow> select \<Rightarrow> string option \<Rightarrow> u32 set option \<Rightarrow> bool" where
  "matches d sel shelf_key_wanted bays \<longleftrightarrow>
     (case shelf_key_wanted of None \<Rightarrow> True | Some k \<Rightarrow> Option.bind (lo_shelf (d_location d)) shelf_key = Some k)
     \<and> (case bays of None \<Rightarrow> True | Some b \<Rightarrow> bay_in d b)
     \<and> (case se_model sel of None \<Rightarrow> True | Some m \<Rightarrow> same_model d m)
     \<and> (se_unusable sel \<longrightarrow> needs_reformat d)"

definition named_for_destroy :: "drive \<Rightarrow> string list \<Rightarrow> bool" where
  "named_for_destroy d destroy =
     list_ex (\<lambda>x. x \<noteq> [] \<and> (x = uuid_string (d_id d) \<or> is_some_and (\<lambda>w. eq_ignore_ascii_case w x) (d_wwid d)
         \<or> (d_serial d \<noteq> [] \<and> x = d_serial d))) (map trim destroy)"

section \<open>The guard\<close>

record guard_context =
  cx_holds :: "string option"
  cx_mounted :: bool
  cx_nvme_siblings :: nat
  cx_stormblock :: bool
  cx_in_use_named :: bool

definition pi_refusal :: "drive \<Rightarrow> u32 \<Rightarrow> protection \<Rightarrow> string option" where
  "pi_refusal d bs prot =
     (if prot = NoPi then None
      else if d_kind d = NvmeSsd then Some ''PI formats are SCSI only here; NVMe end-to-end protection is not built''
      else case d_supports d of
          None \<Rightarrow> Some ''not probed yet: what the drive offers (PI types, block lengths) is unknown''
        | Some probed \<Rightarrow> (case plan probed (Some (bs, prot)) of Inl e \<Rightarrow> Some e | Inr _ \<Rightarrow> None))"

definition unreadable :: "drive \<Rightarrow> bool" where
  "unreadable d \<longleftrightarrow> \<not> d_usable d \<or> d_block_size d \<notin> set USABLE_BLOCK_SIZES"

definition sectors_line :: "drive \<Rightarrow> string" where
  "sectors_line d = dec (unat (d_block_size d)) @ ''-byte sectors: add a format step first''"

fun step_blocker :: "drive \<Rightarrow> guard_context \<Rightarrow> bool \<Rightarrow> step \<Rightarrow> string option" where
  "step_blocker d cx formats_first (SecurityErase _) =
     guard (d_kind d \<noteq> SataHdd \<and> d_kind d \<noteq> SataSsd) ''ATA security erase is for SATA drives; use sanitize''"
| "step_blocker d cx formats_first (Format bs prot) = pi_refusal d bs prot"
| "step_blocker d cx formats_first (Sanitize _) =
     guard (d_kind d = NvmeSsd \<and> 0 < cx_nvme_siblings cx)
       (''an NVMe sanitize erases every namespace on the controller; '' @ dec (cx_nvme_siblings cx)
          @ '' other namespace(s) share it'')"
| "step_blocker d cx formats_first (Test _) = guard (\<not> formats_first \<and> unreadable d) (sectors_line d)"
| "step_blocker d cx formats_first (Partition _) = guard (\<not> formats_first \<and> unreadable d) (sectors_line d)"
| "step_blocker d cx formats_first (Enroll _ _) =
     first_some
       [guard (\<not> formats_first \<and> unreadable d) (sectors_line d),
        guard (\<not> cx_stormblock cx) ''stormblock integration is disabled'',
        guard (d_designation d = DesignatedFailed) ''designated failed: it may be erased, not enrolled'',
        guard (Failing \<le> health_of d) (''health is '' @ health_debug (health_of d))]"

definition data_role :: "step \<Rightarrow> bool" where
  "data_role s = (case s of Partition r \<Rightarrow> r = Data | Enroll _ r \<Rightarrow> r = Data | _ \<Rightarrow> False)"

fun is_format :: "step \<Rightarrow> bool" where
  "is_format (Format _ _) = True"
| "is_format _ = False"

fun enrolls :: "step \<Rightarrow> bool" where
  "enrolls (Enroll _ _) = True"
| "enrolls _ = False"

definition name_it :: string where
  "name_it = '' '' @ utf8_dash @ '' name it in '' @ [CHR 0x22] @ ''destroy'' @ [CHR 0x22] @ '' by id, WWN or serial to allow''"

definition destroy_blocker :: "drive \<Rightarrow> bool \<Rightarrow> guard_context \<Rightarrow> string option" where
  "destroy_blocker d named cx =
     (if named then None
      else opt_or (map_option (\<lambda>what. ''holds '' @ what @ name_it) (opt_or (cx_holds cx) (d_in_use_by d)))
             (guard (d_designation d = designation.System) (''designated system'' @ name_it)))"

definition in_use_blocker :: "drive \<Rightarrow> guard_context \<Rightarrow> string option" where
  "in_use_blocker d cx =
     (if cx_in_use_named cx then None
      else map_option (\<lambda>why. ''in use: '' @ why @ '' '' @ utf8_dash @ '' a drive in use is not destroyed (''
             @ [CHR 0x22] @ ''destroy'' @ [CHR 0x22] @ '' alone is not enough)'')
           (opt_or (iu_reason (in_use_of d)) (fresh_reason (d_name d) (cx_holds cx))))"

definition fleet_line :: "drive \<Rightarrow> string" where
  "fleet_line d =
     (if iu_use (in_use_of d) \<noteq> SlabMember
      then ''in use: '' @ (case iu_reason (in_use_of d) of Some r \<Rightarrow> r | None \<Rightarrow> []) @ '' '' @ utf8_dash
             @ '' in the fleet: leave (drain) first''
      else ''in the fleet '' @ utf8_dash @ '' leave (drain) first'')"

definition worker_guard :: "drive \<Rightarrow> step list \<Rightarrow> bool \<Rightarrow> guard_context \<Rightarrow> string option" where
  [guard_defs]: "worker_guard d steps named cx =
     (let ro = list_all read_only steps; destroys = list_ex destroys_data steps; formats_first = list_ex is_format steps in
      first_some
        [guard (d_activity d = Missing) ''missing'',
         guard (d_membership d = Fleet \<and> \<not> ro) (fleet_line d),
         guard (d_activity d \<noteq> Idle) (''busy: '' @ activity_word (d_activity d)),
         guard (d_designation d = Reserved \<and> \<not> ro) ''designated reserved'',
         guard (cx_mounted cx \<and> \<not> ro) ''has mounted partitions'',
         (if destroys then in_use_blocker d cx else None),
         (if destroys then destroy_blocker d named cx else None),
         guard (d_designation d = designation.System \<and> list_ex data_role steps)
           ''designated system: it takes the system half, not a data slab'',
         first_some (map (step_blocker d cx formats_first) steps)])"

section \<open>Lanes\<close>

definition nvme_names :: "string \<Rightarrow> (string \<times> nat) option" where
  "nvme_names name =
     (if \<not> starts_with name ''nvme'' then None
      else case rsplit_once (CHR ''n'') (drop 4 name) of
          None \<Rightarrow> None
        | Some (ctrl, ns) \<Rightarrow>
            if ctrl = [] \<or> \<not> list_all ascii_digit ctrl then None
            else map_option (\<lambda>k. (''nvme'' @ ctrl, k)) (parse_unsigned (2 ^ 32) ns))"

definition hba_key :: "drive \<Rightarrow> string" where
  "hba_key d =
     (case if d_kind d = NvmeSsd then nvme_names (d_name d) else None of
        Some (ctrl, _) \<Rightarrow> ''nvme:'' @ ctrl
      | None \<Rightarrow>
          (case lo_controller (d_location d) of
             Some c \<Rightarrow> ''hba:'' @ (case opt_or (co_pcie_addr c) (co_scsi_host c) of Some a \<Rightarrow> a | None \<Rightarrow> [])
           | None \<Rightarrow> ''drive:'' @ uuid_string (d_id d)))"

definition domain_key :: "drive \<Rightarrow> string" where
  "domain_key d =
     (case Option.bind (lo_shelf (d_location d)) shelf_key of Some k \<Rightarrow> ''shelf:'' @ k | None \<Rightarrow> hba_key d)"

section \<open>Jobs\<close>

datatype dj_state = Queued | Running | Done | JobFailed | Refused | Interrupted | Cancelled

definition dj_finished :: "dj_state \<Rightarrow> bool" where
  "dj_finished st = (st \<notin> {Queued, Running, Interrupted})"

record drive_job =
  dj_drive :: drive_id
  dj_name :: string
  dj_serial :: string
  dj_wwn :: "string option"
  dj_kind :: drive_kind
  dj_state :: dj_state
  dj_step :: nat
  dj_phase :: string
  dj_progress_pct :: "u8 option"
  dj_error :: "string option"
  dj_done :: "string list"
  dj_destroy_named :: bool
  dj_in_use_named :: bool
  dj_started :: "time option"
  dj_finished_at :: "time option"
  dj_ata_password :: "string option"

text \<open>\<open>'who\<close> is the requester the apiserver is asked about.\<close>

record 'who job =
  jo_id :: string
  jo_created :: time
  jo_select :: select
  jo_steps :: "step list"
  jo_destroy :: "string list"
  jo_i_know_in_use :: "string list"
  jo_drives :: "drive_job list"
  jo_cancel :: bool
  jo_requester :: "'who option"
  jo_operation :: "string option"
  jo_policy :: "string option"

definition job_finished :: "'who job \<Rightarrow> bool" where
  "job_finished j = list_all (\<lambda>d. dj_finished (dj_state d)) (jo_drives j)"

section \<open>After a restart\<close>

datatype recover = Reattach | Interrupt string | LeaveJob

fun recover_running :: "drive_job \<Rightarrow> step option \<Rightarrow> recover" where
  "recover_running dj None = LeaveJob"
| "recover_running dj (Some s) =
     (case s of
        Format _ _ \<Rightarrow>
          (if dj_kind dj \<noteq> NvmeSsd then Reattach
           else Interrupt (''stormdrive restarted during '' @ step_name s @ ''; check the drive, then resume to run it again''))
      | Sanitize _ \<Rightarrow> Reattach
      | SecurityErase _ \<Rightarrow>
          Interrupt (case dj_ata_password dj of
              Some p \<Rightarrow> ''stormdrive restarted during an ATA security erase; the drive may still be erasing or locked with the one-time password ''
                @ p @ ''. Resume checks it with IDENTIFY and erases again with that password''
            | None \<Rightarrow> ''stormdrive restarted during an ATA security erase, before a password was set; resume to run it'')
      | _ \<Rightarrow> Interrupt (''stormdrive restarted during '' @ step_name s @ ''; check the drive, then resume to run it again''))"

definition recover_action :: "drive_job \<Rightarrow> step option \<Rightarrow> recover" where
  "recover_action dj step =
     (case dj_state dj of
        Running \<Rightarrow> recover_running dj step
      | Queued \<Rightarrow> Interrupt (''stormdrive restarted before this drive'' @ [CHR 0x27] @ ''s next step; resume to run it'')
      | _ \<Rightarrow> LeaveJob)"

datatype orphan = LeaveDrive | ReattachFormat | MakeIdle string

definition orphan_action :: "drive \<Rightarrow> bool \<Rightarrow> orphan" where
  "orphan_action d in_worker =
     (case d_activity d of
        Formatting \<Rightarrow>
          (if in_worker then LeaveDrive
           else if d_kind d \<noteq> NvmeSsd \<and> is_some_and (\<lambda>f. fr_state f = ''running'') (d_format d) then ReattachFormat
           else MakeIdle (''a format was running when stormdrive stopped; check the drive'' @ [CHR 0x27] @ ''s geometry before using it''))
      | Sanitizing \<Rightarrow>
          (if in_worker then LeaveDrive else MakeIdle ''a sanitize was running when stormdrive stopped and no job owns it'')
      | Testing \<Rightarrow> MakeIdle (''a drive test was running when stormdrive stopped; it did not finish '' @ utf8_dash @ '' run it again'')
      | UpdatingFirmware \<Rightarrow>
          MakeIdle (''a firmware update was running when stormdrive stopped; it may be incomplete '' @ utf8_dash
            @ '' check the version, then update again'')
      | _ \<Rightarrow> LeaveDrive)"

definition idle_orphan :: "time \<Rightarrow> string \<Rightarrow> drive \<Rightarrow> drive" where
  "idle_orphan now why d =
     (let d1 = (case d_activity d of
          Formatting \<Rightarrow> d\<lparr>d_format := map_option (\<lambda>f. if fr_state f = ''running''
             then f\<lparr>fr_state := ''interrupted'', fr_finished := Some now, fr_error := Some why\<rparr> else f) (d_format d)\<rparr>
        | UpdatingFirmware \<Rightarrow> d\<lparr>d_firmware_record := map_option (\<lambda>f. if fw_state f = ''running''
             then f\<lparr>fw_state := ''interrupted'', fw_finished := Some now, fw_error := Some why\<rparr> else f) (d_firmware_record d)\<rparr>
        | _ \<Rightarrow> d)
      in d1\<lparr>d_activity := Idle\<rparr>)"

definition prep_phase :: "drive \<Rightarrow> string" where
  "prep_phase d =
     (if d_activity d = Missing then ''missing''
      else if d_membership d = Fleet then ''enrolled''
      else if d_activity d = Formatting then ''formatting''
      else if d_activity d = Sanitizing then ''sanitizing''
      else if needs_reformat d \<or> \<not> d_usable d then ''unusable''
      else if d_activity d \<noteq> Idle then ''busy''
      else ''ready'')"

text \<open>\<open>prep\<close>: the phase, the percentage and, for a running format, the time left.\<close>

definition prep :: "drive \<Rightarrow> u8 option \<Rightarrow> string \<times> u8 option \<times> u64 option option" where
  "prep d pct =
     (let phase = prep_phase d;
          pct = (if phase = ''formatting'' \<or> phase = ''sanitizing'' then pct else None)
      in case opt_filter (\<lambda>f. phase = ''formatting'' \<and> fr_state f = ''running'') (d_format d) of
           Some f \<Rightarrow> (phase, opt_or pct (fr_progress_pct f), Some (fr_eta_secs f))
         | None \<Rightarrow> (phase, pct, None))"

section \<open>The order of the steps\<close>

lemma check_steps_None:
  "check_steps seen rank ss = None \<longleftrightarrow>
     distinct (map step_name ss) \<and> set seen \<inter> set (map step_name ss) = {} \<and> sorted (rank # map step_rank ss)
     \<and> (\<forall>bs p. Format bs p \<in> set ss \<longrightarrow> valid_target bs)"
proof (induction ss arbitrary: seen rank)
  case (Cons s ss)
  show ?case
    by (cases s) (auto simp: Cons.IH not_le)
qed simp

lemma step_name_eqs [simp]:
  "step_name s = ''partition'' \<longleftrightarrow> (\<exists>r. s = Partition r)" "step_name s = ''enroll'' \<longleftrightarrow> (\<exists>t r. s = Enroll t r)"
  by (cases s; simp)+

lemma first_some_map_unique:
  assumes "distinct (map step_name ss)" "s \<in> set ss" "f s = Some v"
    and "\<And>x y. f x \<noteq> None \<Longrightarrow> f y \<noteq> None \<Longrightarrow> step_name x = step_name y"
  shows "first_some (map f ss) = Some v"
  using assms(1-3)
proof (induction ss)
  case (Cons x ss)
  show ?case
  proof (cases "x = s")
    case True
    with Cons.prems show ?thesis by simp
  next
    case False
    with Cons.prems have "s \<in> set ss" by simp
    moreover have "f x = None"
      using Cons.prems assms(4) [of x s] \<open>s \<in> set ss\<close> by (cases "f x") (auto simp: image_iff)
    ultimately show ?thesis using Cons by simp
  qed
qed simp

lemma partition_role_Some: "distinct (map step_name ss) \<Longrightarrow> partition_role ss = Some r \<longleftrightarrow> Partition r \<in> set ss"
proof
  assume "partition_role ss = Some r"
  then show "Partition r \<in> set ss"
    unfolding partition_role_def by (auto dest!: first_some_in_set split: step.splits)
next
  assume "distinct (map step_name ss)" "Partition r \<in> set ss"
  then show "partition_role ss = Some r"
    unfolding partition_role_def by (rule first_some_map_unique) (auto split: step.splits)
qed

lemma enroll_role_Some: "distinct (map step_name ss) \<Longrightarrow> enroll_role ss = Some r \<longleftrightarrow> (\<exists>t. Enroll t r \<in> set ss)"
proof
  assume "enroll_role ss = Some r"
  then have "Some r \<in> set (map (\<lambda>s. case s of Enroll _ r \<Rightarrow> Some r | _ \<Rightarrow> None) ss)"
    unfolding enroll_role_def by (rule first_some_in_set)
  then obtain s where s: "s \<in> set ss" "(case s of Enroll _ r \<Rightarrow> Some r | _ \<Rightarrow> None) = Some r" by auto
  from s(2) obtain t where "s = Enroll t r" by (auto split: step.splits)
  with s(1) show "\<exists>t. Enroll t r \<in> set ss" by blast
next
  assume "distinct (map step_name ss)" "\<exists>t. Enroll t r \<in> set ss"
  then obtain t where "Enroll t r \<in> set ss" "distinct (map step_name ss)" by blast
  then show "enroll_role ss = Some r"
    unfolding enroll_role_def by (intro first_some_map_unique [where s = "Enroll t r"]) (auto split: step.splits)
qed

text \<open>
  C39.steps_valid_iff. A job's steps are taken exactly when there are any, no kind of step appears twice, the
  low-level ones come before the partition and the partition before the enroll, every format asks for
  512 or 4096, and a partition and the slab in it have the same role.
\<close>

theorem steps_valid_iff:
  "validate_steps steps = None \<longleftrightarrow>
     steps \<noteq> [] \<and> distinct (map step_name steps) \<and> sorted (map step_rank steps)
     \<and> list_all (\<lambda>s. case s of Format bs _ \<Rightarrow> bs = 512 \<or> bs = 4096 | _ \<Rightarrow> True) steps
     \<and> list_all (\<lambda>s. case s of Partition r \<Rightarrow> list_all (\<lambda>s'. case s' of Enroll _ r' \<Rightarrow> r' = r | _ \<Rightarrow> True) steps | _ \<Rightarrow> True) steps"
proof -
  have formats: "(\<forall>bs p. Format bs p \<in> set steps \<longrightarrow> valid_target bs)
      \<longleftrightarrow> list_all (\<lambda>s. case s of Format bs _ \<Rightarrow> bs = 512 \<or> bs = 4096 | _ \<Rightarrow> True) steps"
    by (auto simp: list_all_iff valid_target_def USABLE_BLOCK_SIZES_def split: step.splits)
  have roles: "(case (partition_role steps, enroll_role steps) of
        (Some p, Some e) \<Rightarrow> guard (p \<noteq> e) (''partition role '' @ role_word p @ '' and enroll role '' @ role_word e @ '' differ'')
      | _ \<Rightarrow> None) = None
    \<longleftrightarrow> list_all (\<lambda>s. case s of Partition r \<Rightarrow> list_all (\<lambda>s'. case s' of Enroll _ r' \<Rightarrow> r' = r | _ \<Rightarrow> True) steps | _ \<Rightarrow> True) steps"
    (is "?lhs \<longleftrightarrow> ?rhs")
    if d: "distinct (map step_name steps)"
  proof -
    note P = partition_role_Some [OF d] and E = enroll_role_Some [OF d]
    have "?lhs \<longleftrightarrow> (\<forall>p e. partition_role steps = Some p \<longrightarrow> enroll_role steps = Some e \<longrightarrow> p = e)"
      by (cases "partition_role steps"; cases "enroll_role steps") simp_all
    also have "\<dots> \<longleftrightarrow> (\<forall>r t r'. Partition r \<in> set steps \<longrightarrow> Enroll t r' \<in> set steps \<longrightarrow> r = r')"
      using P E by blast
    also have "\<dots> \<longleftrightarrow> ?rhs"
      unfolding list_all_iff by (force split: step.split)
    finally show ?thesis .
  qed
  show ?thesis
    using roles formats by (auto simp: validate_steps_def check_steps_None)
qed

section \<open>What the guard guarantees\<close>

lemma first_some_map_None: "first_some (map f xs) = None \<longleftrightarrow> (\<forall>x \<in> set xs. f x = None)"
  by (simp add: first_some_None_iff)

lemma not_read_only: "list_ex destroys_data steps \<Longrightarrow> \<not> list_all read_only steps"
proof -
  have "destroys_data s \<Longrightarrow> \<not> read_only s" for s by (cases s) simp_all
  then show "list_ex destroys_data steps \<Longrightarrow> \<not> list_all read_only steps" by (auto simp: list_ex_iff list_all_iff)
qed

lemma in_use_blocker_None:
  "in_use_blocker d cx = None \<longleftrightarrow> cx_in_use_named cx \<or> iu_use (in_use_of d) = Free \<and> fresh_reason (d_name d) (cx_holds cx) = None"
  by (auto simp: in_use_blocker_def iu_reason_None)

lemma destroy_blocker_None:
  "destroy_blocker d named cx = None \<longleftrightarrow> named \<or> cx_holds cx = None \<and> d_in_use_by d = None \<and> d_designation d \<noteq> designation.System"
  by (auto simp: destroy_blocker_def)

lemma worker_guard_None:
  "worker_guard d steps named cx = None \<longleftrightarrow>
     d_activity d = Idle
     \<and> (d_membership d = Fleet \<or> d_designation d = Reserved \<or> cx_mounted cx \<longrightarrow> list_all read_only steps)
     \<and> (list_ex destroys_data steps \<longrightarrow> in_use_blocker d cx = None \<and> destroy_blocker d named cx = None)
     \<and> (d_designation d = designation.System \<longrightarrow> \<not> list_ex data_role steps)
     \<and> (\<forall>s \<in> set steps. step_blocker d cx (list_ex is_format steps) s = None)"
proof -
  have "(if c then x else None) = None \<longleftrightarrow> (c \<longrightarrow> x = None)" for c and x :: "string option" by simp
  then show ?thesis
    by (cases "d_activity d = Idle") (auto simp: worker_guard_def Let_def first_some_None_iff simp del: step_blocker.simps)
qed

lemma destroying_writes: "list_ex destroys_data steps \<Longrightarrow> \<not> list_all read_only steps"
  by (fastforce simp: list_ex_iff list_all_iff elim: destroys_data.elims)

text \<open>
  C1.guard_protects. Steps that pass the guard run on an idle drive. Steps that all only read may run on a drive
  in the fleet, a reserved one or one with something mounted; any other steps run only on a drive that is
  out of the fleet, not reserved and has nothing mounted, and so does every step that destroys data.
  If one destroys data, then either the requester named the drive as in use, or its record and a fresh
  read say that nothing uses it; and either the requester named it to be destroyed, or nothing is
  known to be on it and it is not designated system. A drive designated system is never given a data
  slab, and no failing drive or one designated failed is enrolled.
\<close>

theorem guard_protects:
  assumes "worker_guard d steps named cx = None"
  shows "d_activity d = Idle
    \<and> (\<not> list_all read_only steps \<or> list_ex destroys_data steps
         \<longrightarrow> d_membership d = Out \<and> d_designation d \<noteq> Reserved \<and> \<not> cx_mounted cx)
    \<and> (list_ex destroys_data steps \<longrightarrow>
         (cx_in_use_named cx \<or> iu_use (in_use_of d) = Free \<and> fresh_reason (d_name d) (cx_holds cx) = None)
         \<and> (named \<or> cx_holds cx = None \<and> d_in_use_by d = None \<and> d_designation d \<noteq> designation.System))
    \<and> (d_designation d = designation.System \<longrightarrow> \<not> list_ex data_role steps)
    \<and> (list_ex enrolls steps \<longrightarrow>
         cx_stormblock cx \<and> d_designation d \<noteq> DesignatedFailed \<and> health_of d < Failing)"
proof -
  note G = assms [unfolded worker_guard_None]
  have "cx_stormblock cx \<and> d_designation d \<noteq> DesignatedFailed \<and> health_of d < Failing"
    if "Enroll t r \<in> set steps" for t r
  proof -
    from G that have "step_blocker d cx (list_ex is_format steps) (Enroll t r) = None" by blast
    then show ?thesis by (simp add: first_some_None_iff not_le)
  qed
  then have enroll: "list_ex enrolls steps \<Longrightarrow>
      cx_stormblock cx \<and> d_designation d \<noteq> DesignatedFailed \<and> health_of d < Failing"
    by (auto simp: list_ex_iff elim!: enrolls.elims)
  have "d_membership d = Out" if "d_membership d \<noteq> Fleet" using that by (cases "d_membership d") auto
  with G enroll destroying_writes [of steps] show ?thesis by (auto simp: in_use_blocker_None destroy_blocker_None)
qed

definition blank_context :: guard_context where
  "blank_context = \<lparr>cx_holds = None, cx_mounted = False, cx_nvme_siblings = 0, cx_stormblock = True, cx_in_use_named = False\<rparr>"

definition prepare :: "step list" where
  "prepare = [Format 4096 NoPi, Partition Data, Enroll (Some ''warm'') Data]"

lemma good_drive_use: "iu_use (in_use_of good_drive) = Free"
  by (simp add: use_Free_iff good_drive_def base_drive_def)

lemma prepare_passes: "worker_guard good_drive prepare False blank_context = None"
  unfolding worker_guard_None in_use_blocker_None destroy_blocker_None
  using good_drive_use
  by (auto simp: prepare_def blank_context_def good_drive_def base_drive_def fresh_reason_def pi_refusal_def data_role_def
      first_some_None_iff status_of_def less_eq_health_status_def unreadable_def)

lemma guard_protects_witness:
  "worker_guard good_drive prepare False blank_context = None \<and> d_activity good_drive = Idle
     \<and> iu_use (in_use_of good_drive) = Free \<and> health_of good_drive < Failing"
  using guard_protects [OF prepare_passes] prepare_passes
  by (simp add: prepare_def blank_context_def)

text \<open>An unacknowledged job that partitions keeps the contract of the destroying requests.\<close>

definition unnamed_guard :: "role \<Rightarrow> step list \<Rightarrow> guard_context \<Rightarrow> drive \<Rightarrow> string option" where
  "unnamed_guard r rest cx d = worker_guard d (Partition r # rest) False (cx\<lparr>cx_in_use_named := False\<rparr>)"

interpretation wrk: destroys "unnamed_guard r rest cx" for r rest cx
  by unfold_locales (auto simp: unnamed_guard_def worker_guard_None in_use_blocker_None destroy_blocker_None)

end
