(* ===== verification/Wear.thy ===== *)
theory Wear
  imports Drives
begin

text \<open>
  \<open>src/src/wear.rs\<close>: the straight line through a drive's wear trend and the day it reaches 100 %,
  in the binary64 arithmetic of \<open>F64\<close>, operation for operation. A \<open>TrendSample\<close> is declared in
  \<open>src/src/inventory.rs\<close>; \<open>WearProjection\<close> is a field of the drive record (\<open>Drives\<close>).
\<close>

record trend_sample =
  ts_unix_secs :: u64
  ts_wear_pct :: "u8 option"
  ts_media_errors :: u64

definition DAY :: f64 where "DAY = f64_of_int 86400"
definition WINDOW_SECS :: u64 where "WINDOW_SECS = 365 * 86400"
definition MIN_SPAN_SECS :: u64 where "MIN_SPAN_SECS = 7 * 86400"
definition MAX_DAYS :: u64 where "MAX_DAYS = 100 * 365"
definition WARN_DAYS :: u64 where "WARN_DAYS = 180"

definition f64_of_u64 :: "u64 \<Rightarrow> f64" where
  "f64_of_u64 n = f64_of_int (uint n)"

text \<open>\<open>f64::min\<close> and \<open>f64::max\<close> ignore a NaN.\<close>

definition f64_min :: "f64 \<Rightarrow> f64 \<Rightarrow> f64" where
  "f64_min a b = (if a = NaN then b else if b = NaN then a else if f64_lt b a then b else a)"

definition in_window :: "u64 \<Rightarrow> trend_sample \<Rightarrow> bool" where
  "in_window now s = (sat_sub now WINDOW_SECS \<le> ts_unix_secs s \<and> ts_unix_secs s \<le> now)"

definition points :: "trend_sample list \<Rightarrow> u64 \<Rightarrow> (f64 \<times> f64) list" where
  "points trend now =
     List.map_filter (\<lambda>s. map_option (\<lambda>w. (f64_of_u64 (ts_unix_secs s), f64_of_int (uint w))) (ts_wear_pct s))
       (filter (in_window now) trend)"

definition distinct_wear :: "(f64 \<times> f64) list \<Rightarrow> int list" where
  "distinct_wear pts = remdups_adj (sort (map (\<lambda>p. f64_to_int (- (2 ^ 63)) (2 ^ 63 - 1) (snd p)) pts))"

definition first_time :: "(f64 \<times> f64) list \<Rightarrow> f64" where
  "first_time pts = fold (\<lambda>p m. f64_min m (fst p)) pts (Inf False)"

definition last_time :: "(f64 \<times> f64) list \<Rightarrow> f64" where
  "last_time pts = fold (\<lambda>p m. f64_max m (fst p)) pts (Inf True)"

text \<open>Least squares on time relative to the first sample: the slope per second and the means.\<close>

definition time_wear_sums :: "(f64 \<times> f64) list \<Rightarrow> f64 \<Rightarrow> f64 \<times> f64" where
  "time_wear_sums pts t0 = fold (\<lambda>(t, w) (a, b). (f64_add a (f64_sub t t0), f64_add b w)) pts (f64_of_int 0, f64_of_int 0)"

definition moments :: "(f64 \<times> f64) list \<Rightarrow> f64 \<Rightarrow> f64 \<Rightarrow> f64 \<Rightarrow> f64 \<times> f64" where
  "moments pts t0 mx my =
     fold (\<lambda>(t, w) (a, b). let dx = f64_sub (f64_sub t t0) mx
             in (f64_add a (f64_mul dx (f64_sub w my)), f64_add b (f64_mul dx dx)))
       pts (f64_of_int 0, f64_of_int 0)"

definition days_until :: "f64 \<Rightarrow> f64 \<Rightarrow> u64" where
  "days_until remaining slope =
     (if f64_le remaining (f64_of_int 0) then 0
      else f64_to_u64 (f64_min
        (f64_floor (f64_add (f64_div (f64_div remaining slope) DAY) (f64_div (f64_of_int 1) (f64_of_int 1000000))))
        (f64_of_u64 MAX_DAYS)))"

definition project :: "trend_sample list \<Rightarrow> u64 \<Rightarrow> wear_projection option" where
  "project trend now =
     (let pts = points trend now; t0 = first_time pts; t1 = last_time pts in
      if length pts < 2 \<or> length (distinct_wear pts) < 2 \<or> f64_lt (f64_sub t1 t0) (f64_of_u64 MIN_SPAN_SECS) then None
      else
        (let n = f64_of_int (int (length pts));
             (sx, sy) = time_wear_sums pts t0;
             mx = f64_div sx n; my = f64_div sy n;
             (sxy, sxx) = moments pts t0 mx my in
         if f64_le sxx (f64_of_int 0) then None
         else
           (let slope = f64_div sxy sxx in
            if f64_le slope (f64_of_int 0) then None
            else
              (let now_rel = f64_sub (f64_of_u64 now) t0;
                   fitted_now = f64_add my (f64_mul slope (f64_sub now_rel mx));
                   days_left = days_until (f64_sub (f64_of_int 100) fitted_now) slope
               in Some \<lparr>wp_rate_pct_per_day = f64_mul slope DAY, wp_days_left = days_left,
                    wp_wear_out_unix = now + days_left * 86400, wp_computed_unix = now,
                    wp_samples = length pts, wp_span_days = f64_to_u64 (f64_div (f64_sub t1 t0) DAY)\<rparr>))))"

section \<open>What a projection rests on\<close>

lemma trunc_int_le:
  assumes "f64_le x (Fin False k 0)" shows "f64_to_int 0 hi x \<le> int k" "0 \<le> hi \<Longrightarrow> 0 \<le> f64_to_int 0 hi x"
proof -
  show "f64_to_int 0 hi x \<le> int k"
  proof (cases x)
    case (Fin s m e)
    have le: "rv (Fin s m e) \<le> rat_of_nat k"
      using assms unfolding Fin f64_le_Fin by (simp add: rv_def signed_def)
    have "trunc_int s m e \<le> int k"
    proof (cases s)
      case False
      show ?thesis
      proof (cases "0 \<le> e")
        case True
        then have "rv (Fin s m e) = rat_of_nat (m * 2 ^ nat e)"
          using False by (simp add: rv_def signed_def power_int_def)
        with le have "m * 2 ^ nat e \<le> k" using of_nat_le_iff by metis
        then have "signed s (m * 2 ^ nat e) \<le> int k" using False by (simp only: signed_def if_False of_nat_le_iff)
        then show ?thesis using True by (simp only: trunc_int_def if_True)
      next
        case neg: False
        then have "(2 :: rat) powi e = inverse (2 ^ nat (- e))" by (simp add: power_int_def power_one_over inverse_eq_divide)
        then have "rv (Fin s m e) = rat_of_nat m / 2 ^ nat (- e)"
          using False by (simp add: rv_def signed_def divide_inverse)
        with le have "rat_of_nat m \<le> rat_of_nat (k * 2 ^ nat (- e))" by (simp add: divide_le_eq)
        then have "m \<le> k * 2 ^ nat (- e)" by (simp only: of_nat_le_iff)
        then have "m div 2 ^ nat (- e) \<le> k" by (metis div_le_mono nonzero_mult_div_cancel_right power_not_zero zero_neq_numeral)
        then have "signed s (m div 2 ^ nat (- e)) \<le> int k" using False by (simp only: signed_def if_False of_nat_le_iff)
        then show ?thesis using neg by (simp only: trunc_int_def if_False)
      qed
    next
      case True
      have "signed True n \<le> int k" for n by (simp add: signed_def)
      then show ?thesis using True by (simp only: trunc_int_def)
    qed
    then show ?thesis unfolding Fin f64_to_int.simps by simp
  next
    case (Inf s)
    then show ?thesis using assms by (cases s) simp_all
  qed simp
  show "0 \<le> hi \<Longrightarrow> 0 \<le> f64_to_int 0 hi x" by (cases x) simp_all
qed

text \<open>The samples a line is fitted through.\<close>

definition fitted :: "u64 \<Rightarrow> trend_sample list \<Rightarrow> (u64 \<times> u8) list" where
  "fitted now trend = List.map_filter (\<lambda>s. map_option (\<lambda>w. (ts_unix_secs s, w)) (ts_wear_pct s)) (filter (in_window now) trend)"

lemma points_fitted: "points trend now = map (\<lambda>(t, w). (f64_of_u64 t, f64_of_int (uint w))) (fitted now trend)"
  by (induction trend) (auto simp: points_def fitted_def List.map_filter_simps split: option.splits)

lemma f64_of_36500: "f64_of_u64 MAX_DAYS = Fin False 36500 0"
proof -
  have "bit_length 36500 \<le> 53" by (rule bit_length_le) simp
  then show ?thesis by (simp add: f64_of_u64_def MAX_DAYS_def f64_of_int_def rnd_def Let_def)
qed

lemma days_until_le: "unat (days_until r sl) \<le> 36500"
proof -
  define x where "x = f64_min (f64_floor (f64_add (f64_div (f64_div r sl) DAY) (f64_div (f64_of_int 1) (f64_of_int 1000000)))) (Fin False 36500 0)"
  have "f64_le x (Fin False 36500 0)"
    unfolding x_def f64_min_def using f64_le_linear f64_lt_iff_not_le by (auto intro: f64_le_refl)
  then have "f64_to_int 0 (2 ^ 64 - 1) x \<le> int 36500" "0 \<le> f64_to_int 0 (2 ^ 64 - 1) x"
    by (rule trunc_int_le, rule trunc_int_le) simp_all
  moreover from this have "take_bit 64 (f64_to_int 0 (2 ^ 64 - 1) x) = f64_to_int 0 (2 ^ 64 - 1) x"
    by (intro take_bit_int_eq_self) simp_all
  ultimately have "unat (f64_to_u64 x) \<le> 36500"
    by (simp add: f64_to_u64_def unsigned_of_int)
  then show ?thesis by (simp add: days_until_def f64_of_36500 flip: x_def)
qed

lemma project_SomeD:
  assumes "project trend now = Some p"
  shows "2 \<le> length (points trend now)" "2 \<le> length (distinct_wear (points trend now))"
    "\<not> f64_lt (f64_sub (last_time (points trend now)) (first_time (points trend now))) (f64_of_u64 MIN_SPAN_SECS)"
    "unat (wp_days_left p) \<le> 36500" "wp_wear_out_unix p = now + wp_days_left p * 86400"
    "wp_computed_unix p = now" "wp_samples p = length (points trend now)"
  using assms by (auto simp: project_def Let_def days_until_le split: if_splits prod.splits)

text \<open>Times below 2^53 seconds are exact in \<open>f64\<close>.\<close>

lemma rv_of_u64:
  "unat t < 2 ^ 53 \<Longrightarrow> is_finite (f64_of_u64 t)" "unat t < 2 ^ 53 \<Longrightarrow> rv (f64_of_u64 t) = of_nat (unat t)"
proof -
  assume t: "unat t < 2 ^ 53"
  have "uint t = int (unat t)" by simp
  moreover have "int (unat t) < 2 ^ 53" using t by (simp only: of_nat_less_numeral_power_cancel_iff)
  ultimately have "\<bar>uint t\<bar> < 2 ^ 53" by (simp only: abs_of_nat)
  from rv_f64_of_int [OF this] show "is_finite (f64_of_u64 t)" "rv (f64_of_u64 t) = of_nat (unat t)"
    unfolding f64_of_u64_def \<open>uint t = int (unat t)\<close> of_int_of_nat_eq by simp_all
qed

lemma fold_min_mem: "fold (\<lambda>p m. f64_min m (fst p)) pts m \<in> insert m (fst ` set pts)"
  by (induction pts arbitrary: m) (auto simp: f64_min_def split: if_splits)

lemma fold_max_mem: "fold (\<lambda>p m. f64_max m (fst p)) pts m \<in> insert m (fst ` set pts)"
  by (induction pts arbitrary: m) (auto simp: f64_max_def split: if_splits)

lemma first_time_mem:
  assumes "pts \<noteq> []" "\<forall>p \<in> set pts. is_finite (fst p)" shows "first_time pts \<in> fst ` set pts"
proof -
  obtain p ps where pts: "pts = p # ps" using assms(1) by (metis neq_Nil_conv)
  have "f64_min (Inf False) (fst p) = fst p" using assms pts by (cases "fst p") (auto simp: f64_min_def f64_lt_def)
  then show ?thesis using fold_min_mem [of ps "fst p"] by (auto simp: first_time_def pts)
qed

lemma last_time_mem:
  assumes "pts \<noteq> []" "\<forall>p \<in> set pts. is_finite (fst p)" shows "last_time pts \<in> fst ` set pts"
proof -
  obtain p ps where pts: "pts = p # ps" using assms(1) by (metis neq_Nil_conv)
  have "f64_max (Inf True) (fst p) = fst p" using assms pts by (cases "fst p") (auto simp: f64_max_def f64_lt_def)
  then show ?thesis using fold_max_mem [of ps "fst p"] by (auto simp: last_time_def pts)
qed

lemma distinct_wear_two: "2 \<le> length (distinct_wear (map f xs)) \<Longrightarrow> \<exists>a \<in> set xs. \<exists>b \<in> set xs. snd (f a) \<noteq> snd (f b)"
proof (rule ccontr)
  assume two: "2 \<le> length (distinct_wear (map f xs))"
    and "\<not> (\<exists>a \<in> set xs. \<exists>b \<in> set xs. snd (f a) \<noteq> snd (f b))"
  then have same: "\<forall>a \<in> set xs. \<forall>b \<in> set xs. snd (f a) = snd (f b)" by blast
  show False
  proof (cases xs)
    case (Cons x ys)
    define h where "h = f64_to_int (- (2 ^ 63)) (2 ^ 63 - 1)"
    have "sort (map (\<lambda>p. h (snd p)) (map f xs)) = replicate (length xs) (h (snd (f x)))"
    proof (rule replicate_eqI)
      fix y assume "y \<in> set (sort (map (\<lambda>p. h (snd p)) (map f xs)))"
      then obtain b where "b \<in> set xs" "y = h (snd (f b))" by auto
      moreover have "snd (f b) = snd (f x)" using same \<open>b \<in> set xs\<close> Cons by (metis list.set_intros(1))
      ultimately show "y = h (snd (f x))" by simp
    qed simp
    then show False
      using two unfolding distinct_wear_def h_def [symmetric] by (simp only: remdups_adj_replicate) (simp split: if_splits)
  qed (use two in \<open>simp add: distinct_wear_def\<close>)
qed

lemma f64_sub_near:
  assumes "is_finite a" "is_finite b" "\<bar>rv a - rv b\<bar> < 2 ^ 53"
  shows "is_finite (f64_sub a b)" "\<bar>rv (f64_sub a b) - (rv a - rv b)\<bar> < 1"
proof -
  let ?x = "rv a + rv (f64_neg b)"
  have x: "?x = rv a - rv b" by (simp add: rv_neg)
  have "\<bar>?x\<bar> \<le> 2 ^ 64" using assms(3) unfolding x by simp
  with assms have s: "is_finite (f64_sub a b)" "\<bar>rv (f64_sub a b) - ?x\<bar> \<le> max (\<bar>?x\<bar> / 2 ^ 53) (2 powi (- 1075))"
    unfolding f64_sub_def using f64_add_error [of a "f64_neg b"] by (simp_all only: finite_neg)
  have "\<bar>?x\<bar> / 2 ^ 53 < 1" using assms(3) unfolding x by simp
  moreover have "(2::rat) powi (- 1075) < 2 powi 0" by (rule power_int_strict_increasing) simp_all
  then have "(2::rat) powi (- 1075) < 1" by (simp only: power_int_0_right)
  ultimately show "\<bar>rv (f64_sub a b) - (rv a - rv b)\<bar> < 1" using s(2) unfolding x by (auto simp only: le_max_iff_disj)
  show "is_finite (f64_sub a b)" by (rule s)
qed

lemma week_apart:
  assumes "unat t1 < 2 ^ 53" "unat t2 < 2 ^ 53"
    and "\<not> f64_lt (f64_sub (f64_of_u64 t2) (f64_of_u64 t1)) (f64_of_u64 MIN_SPAN_SECS)"
  shows "unat t1 + 604800 \<le> unat t2"
proof -
  have r: "rv (f64_of_u64 t2) - rv (f64_of_u64 t1) = of_int (int (unat t2) - int (unat t1))"
    using assms by (simp add: rv_of_u64)
  have "int (unat t1) < 2 ^ 53" "int (unat t2) < 2 ^ 53"
    using assms(1,2) by (simp_all only: of_nat_less_numeral_power_cancel_iff)
  then have "\<bar>int (unat t2) - int (unat t1)\<bar> < 2 ^ 53" by linarith
  then have small: "\<bar>rv (f64_of_u64 t2) - rv (f64_of_u64 t1)\<bar> < 2 ^ 53"
    unfolding r by (metis of_int_abs of_int_less_numeral_power_cancel_iff)
  note near = f64_sub_near [OF rv_of_u64(1) [OF assms(2)] rv_of_u64(1) [OF assms(1)] small, unfolded r]
  have m: "is_finite (f64_of_u64 MIN_SPAN_SECS)" "rv (f64_of_u64 MIN_SPAN_SECS) = 604800"
    using rv_of_u64 [of MIN_SPAN_SECS] by (simp_all add: MIN_SPAN_SECS_def)
  have "604800 \<le> rv (f64_sub (f64_of_u64 t2) (f64_of_u64 t1))"
    using assms(3) near(1) m by (simp add: f64_lt_finite)
  then have "(604800 :: rat) < of_int (int (unat t2) - int (unat t1)) + 1" using near(2) by (simp only: abs_less_iff) linarith
  then have "rat_of_int 604800 < of_int (int (unat t2) - int (unat t1) + 1)" by simp
  then have "604800 < int (unat t2) - int (unat t1) + 1" by (simp only: of_int_less_iff)
  then show ?thesis by linarith
qed

text \<open>
  C29. A wear-out date is only projected when the samples of the last year hold two different wear
  values and also hold two points at least a week apart; these may be two different pairs, so the wear
  need not have changed over any week (points of days 0, 5 and 8 with wear 5, 6 and 5 project). No
  sample used is from the future. The date is never more than a hundred years out and is the stated
  number of days after the moment it was computed. (Times before 2 ^ 53 seconds are exact in the
  arithmetic used.)
\<close>
theorem projection_grounded:
  assumes p: "project trend now = Some p" and now: "unat now < 2 ^ 53"
  shows "wp_computed_unix p = now \<and> wp_wear_out_unix p = now + wp_days_left p * 86400
    \<and> unat (wp_days_left p) \<le> 36500 \<and> wp_samples p = length (fitted now trend)
    \<and> (\<exists>a \<in> set (fitted now trend). \<exists>b \<in> set (fitted now trend). snd a \<noteq> snd b)
    \<and> (\<exists>a \<in> set (fitted now trend). \<exists>b \<in> set (fitted now trend). unat (fst a) + 604800 \<le> unat (fst b))
    \<and> (\<forall>a \<in> set (fitted now trend). unat (fst a) \<le> unat now \<and> unat now \<le> unat (fst a) + 31536000)"
proof -
  note D = project_SomeD [OF p]
  let ?f = "\<lambda>(t, w). (f64_of_u64 t, f64_of_int (uint (w :: u8)))"
  let ?pts = "map ?f (fitted now trend)"
  have window: "unat (fst a) \<le> unat now \<and> unat now \<le> unat (fst a) + 31536000" if "a \<in> set (fitted now trend)" for a
  proof -
    from that obtain s where "in_window now s" "fst a = ts_unix_secs s"
      by (auto simp: fitted_def List.map_filter_def)
    then show ?thesis
      by (simp add: in_window_def word_le_nat_alt unat_sat_sub WINDOW_SECS_def) arith
  qed
  have exact: "is_finite (f64_of_u64 (fst a))" "rv (f64_of_u64 (fst a)) = of_nat (unat (fst a))"
    if "a \<in> set (fitted now trend)" for a
    using rv_of_u64 [of "fst a"] window [OF that] now by simp_all
  have fin: "\<forall>q \<in> set ?pts. is_finite (fst q)" and ne: "?pts \<noteq> []"
    using exact D(1) by (auto simp: points_fitted)
  obtain a where a: "a \<in> set (fitted now trend)" "first_time ?pts = f64_of_u64 (fst a)"
    using first_time_mem [OF ne fin] by force
  obtain b where b: "b \<in> set (fitted now trend)" "last_time ?pts = f64_of_u64 (fst b)"
    using last_time_mem [OF ne fin] by force
  have "unat (fst a) + 604800 \<le> unat (fst b)"
    using week_apart [of "fst a" "fst b"] window [OF a(1)] window [OF b(1)] now D(3) a(2) b(2)
    by (simp add: points_fitted)
  moreover obtain c d where "c \<in> set (fitted now trend)" "d \<in> set (fitted now trend)" "snd c \<noteq> snd d"
    using distinct_wear_two [of ?f "fitted now trend"] D(2) by (auto simp: points_fitted split_beta) (metis snd_conv)
  ultimately show ?thesis
    using D(4-7) a(1) b(1) window by (simp only: points_fitted length_map) blast
qed

section \<open>A projection, evaluated\<close>

text \<open>Rounding a mantissa that fits, and one of known length.\<close>

lemma rnd_exact: "m < 2 ^ 53 \<Longrightarrow> -1074 \<le> e \<Longrightarrow> e \<le> 900 \<Longrightarrow> 0 < m \<Longrightarrow> rnd s m e = Fin s m e"
proof -
  assume a: "m < 2 ^ 53" "-1074 \<le> e" "e \<le> 900" "0 < m"
  have b: "bit_length m \<le> 53" using a(1) by (rule bit_length_le)
  then have "nat (max (int (bit_length m) - 53) (- 1074 - e)) = 0" using a(2) by simp
  then show ?thesis using a b by (simp add: rnd_def Let_def)
qed

lemma bit_length_eq: "2 ^ k \<le> m \<Longrightarrow> m < 2 ^ Suc k \<Longrightarrow> bit_length m = Suc k"
proof (rule antisym)
  assume a: "2 ^ k \<le> m" "m < 2 ^ Suc k"
  show "bit_length m \<le> Suc k" using a(2) by (rule bit_length_le)
  show "Suc k \<le> bit_length m"
  proof (rule ccontr)
    assume "\<not> Suc k \<le> bit_length m"
    then have "2 ^ bit_length m \<le> (2::nat) ^ k" by simp
    then show False using bit_length_bounds(1) [of m] a(1) by linarith
  qed
qed

lemma rnd_shift:
  assumes "2 ^ (52 + d) \<le> m" "m < 2 ^ (53 + d)" "-1074 \<le> e" "e + int d \<le> 900" "0 < d"
  shows "rnd s m e = Fin s (shift_round m d) (e + int d)"
proof -
  have b: "bit_length m = 53 + d" using bit_length_eq [of "52 + d" m] assms by simp
  have m: "0 < m" using assms(1) by (metis gr_zeroI not_le zero_less_numeral zero_less_power)
  have d: "nat (max (int (bit_length m) - 53) (- 1074 - e)) = d" using b assms(3) by simp
  have "bit_length (shift_round m d) \<le> 54"
    by (rule bit_length_le) (use shift_round_bound [OF assms(2)] in simp)
  then show ?thesis using d m assms(4) by (simp add: rnd_def Let_def)
qed

definition example_trend :: "trend_sample list" where
  "example_trend = [\<lparr>ts_unix_secs = 0, ts_wear_pct = Some 10, ts_media_errors = 0\<rparr>,
     \<lparr>ts_unix_secs = 1048576, ts_wear_pct = Some 12, ts_media_errors = 0\<rparr>]"

lemma example_points: "points example_trend 1048576 = [(Fin False 0 0, Fin False 10 0), (Fin False 1048576 0, Fin False 12 0)]"
  by (simp add: example_trend_def points_def List.map_filter_simps in_window_def WINDOW_SECS_def sat_sub_def
      f64_of_u64_def f64_of_int_def rnd_exact)

lemma example_times: "first_time (points example_trend 1048576) = Fin False 0 0"
    "last_time (points example_trend 1048576) = Fin False 1048576 0"
    "length (distinct_wear (points example_trend 1048576)) = 2"
  by (simp_all add: example_points first_time_def last_time_def f64_min_def f64_max_def f64_lt_def at_exp_def
      signed_def distinct_wear_def trunc_int_def)

lemma example_sums: "time_wear_sums (points example_trend 1048576) (Fin False 0 0) = (Fin False 1048576 0, Fin False 22 0)"
  by (simp add: example_points time_wear_sums_def f64_sub_def at_exp_def signed_def f64_of_int_def rnd_exact)

lemma example_means: "f64_div (Fin False 1048576 0) (Fin False 2 0) = Fin False (2 ^ 52) (- 33)"
  "f64_div (Fin False 22 0) (Fin False 2 0) = Fin False (22 * 2 ^ 48) (- 49)"
proof -
  have b: "bit_length 2 = 2" using bit_length_eq [of 1 2] by simp
  have "rnd False (2 ^ 86) (- 67) = Fin False (shift_round (2 ^ 86) 34) (- 67 + int 34)" by (rule rnd_shift) simp_all
  then show "f64_div (Fin False 1048576 0) (Fin False 2 0) = Fin False (2 ^ 52) (- 33)"
    by (simp add: b sticky_div_def shift_round_def)
  have "rnd False (22 * 2 ^ 66) (- 67) = Fin False (shift_round (22 * 2 ^ 66) 18) (- 67 + int 18)" by (rule rnd_shift) simp_all
  then show "f64_div (Fin False 22 0) (Fin False 2 0) = Fin False (22 * 2 ^ 48) (- 49)"
    by (simp add: b sticky_div_def shift_round_def)
qed

lemma example_moments:
  "moments (points example_trend 1048576) (Fin False 0 0) (Fin False (2 ^ 52) (- 33)) (Fin False (22 * 2 ^ 48) (- 49))
     = (Fin False (2 ^ 52) (- 32), Fin False (2 ^ 52) (- 13))"
proof -
  have "rnd False (2 ^ 101) (- 82) = Fin False (shift_round (2 ^ 101) 49) (- 82 + int 49)"
    "rnd False (2 ^ 104) (- 66) = Fin False (shift_round (2 ^ 104) 52) (- 66 + int 52)"
    "rnd False (2 ^ 53) (- 33) = Fin False (shift_round (2 ^ 53) 1) (- 33 + int 1)"
    "rnd False (2 ^ 53) (- 14) = Fin False (shift_round (2 ^ 53) 1) (- 14 + int 1)"
    by (rule rnd_shift; simp)+
  then show ?thesis
    by (simp add: example_points moments_def f64_sub_def at_exp_def signed_def f64_of_int_def rnd_exact shift_round_def Let_def)
qed

lemma example_slope: "f64_div (Fin False (2 ^ 52) (- 32)) (Fin False (2 ^ 52) (- 13)) = Fin False (2 ^ 52) (- 71)"
proof -
  have b: "bit_length (2 ^ 52) = 53" using bit_length_eq [of 52 "2 ^ 52"] by simp
  have "rnd False (2 ^ 118) (- 137) = Fin False (shift_round (2 ^ 118) 66) (- 137 + int 66)" by (rule rnd_shift) simp_all
  then show ?thesis using b by (simp add: sticky_div_def shift_round_def)
qed

lemma example_span: "\<not> f64_lt (f64_sub (Fin False 1048576 0) (Fin False 0 0)) (f64_of_u64 MIN_SPAN_SECS)"
  by (simp add: f64_sub_def at_exp_def signed_def f64_of_u64_def f64_of_int_def rnd_exact MIN_SPAN_SECS_def f64_lt_def)

lemma example_length: "length (points example_trend 1048576) = 2"
  by (simp add: example_points)

lemma example_projected: "\<exists>p. project example_trend 1048576 = Some p"
proof -
  have "f64_of_int (int 2) = Fin False 2 0" by (simp add: f64_of_int_def rnd_exact)
  then show ?thesis
    unfolding project_def Let_def example_times example_length example_sums prod.case
    by (simp only: example_means example_moments example_slope example_span prod.case)
      (simp add: at_exp_def signed_def f64_of_int_def)
qed

lemma projection_grounded_witness:
  "\<exists>p. project example_trend 1048576 = Some p \<and> unat (wp_days_left p) \<le> 36500 \<and> wp_samples p = 2"
proof -
  obtain p where p: "project example_trend 1048576 = Some p" using example_projected by blast
  have "fitted 1048576 example_trend = [(0, 10), (1048576, 12)]"
    by (simp add: example_trend_def fitted_def List.map_filter_simps in_window_def WINDOW_SECS_def sat_sub_def)
  then show ?thesis using projection_grounded [OF p] p by simp
qed

end
