(* ===== verification/Inventory.thy ===== *)
theory Inventory
  imports Wear Guards
begin

text \<open>
  \<open>src/src/inventory.rs\<close>: the drive table with its wear trends, how an API handle names a drive, and
  the state file: written whole or not at all across a crash (\<open>write_atomic\<close>), read at start without
  ever failing (\<open>load_state\<close>). A \<open>HashMap\<close> that is iterated is the list of its entries in iteration
  order, of which nothing is assumed. Parsing a UUID and the JSON codec are arguments; what a saved
  inventory is after it was read back is \<open>same_saved\<close>: two fields of a drive are not in the file. The
  file system under \<open>write_atomic\<close> (\<open>fs\<close>, \<open>fs_do\<close>, \<open>after_crash\<close>) is a model of the operating
  system's and translates no code of the repository.
\<close>

section \<open>The table\<close>

type_synonym drives = "(drive_id \<times> drive) list"

record inventory =
  iv_drives :: drives
  iv_trends :: "drive_id \<rightharpoonup> trend_sample list"
  iv_fault_bays :: "string list"

definition empty_inventory :: inventory where
  "empty_inventory = \<lparr>iv_drives = [], iv_trends = Map.empty, iv_fault_bays = []\<rparr>"

definition MAX_TREND_SAMPLES :: nat where "MAX_TREND_SAMPLES = 512"

definition record_trend :: "drive_id \<Rightarrow> trend_sample \<Rightarrow> inventory \<Rightarrow> inventory" where
  "record_trend i smp iv =
     (let v = (case iv_trends iv i of Some v \<Rightarrow> v | None \<Rightarrow> []) @ [smp];
          v' = (if MAX_TREND_SAMPLES < length v then drop (length v - MAX_TREND_SAMPLES) v else v)
      in iv\<lparr>iv_trends := (iv_trends iv)(i \<mapsto> v')\<rparr>)"

definition drive_by :: "(drive \<Rightarrow> bool) \<Rightarrow> inventory \<Rightarrow> drive option" where
  "drive_by f iv = find f (map snd (iv_drives iv))"

definition resolve_handle :: "(string \<Rightarrow> drive_id option) \<Rightarrow> string \<Rightarrow> inventory \<Rightarrow> drive option" where
  "resolve_handle parse_uuid h iv =
     opt_or (Option.bind (parse_uuid h) (map_of (iv_drives iv)))
       (opt_or (drive_by (\<lambda>d. is_some_and (\<lambda>w. eq_ignore_ascii_case w h) (d_wwid d)) iv)
         (opt_or (drive_by (\<lambda>d. d_name d = h \<or> d_path d = h \<or> list_ex (\<lambda>p. p = h) (d_paths d)) iv)
           (drive_by (\<lambda>d. d_serial d \<noteq> [] \<and> d_serial d = h) iv)))"

text \<open>Every drive is filed under its own id, once.\<close>

definition inventory_ok :: "inventory \<Rightarrow> bool" where
  "inventory_ok iv \<longleftrightarrow> distinct (map fst (iv_drives iv)) \<and> list_all (\<lambda>(i, d). d_id d = i) (iv_drives iv)"

lemma record_trend_bounded:
  "(\<And>i v. iv_trends iv i = Some v \<Longrightarrow> length v \<le> MAX_TREND_SAMPLES)
   \<Longrightarrow> iv_trends (record_trend j smp iv) i = Some v \<Longrightarrow> length v \<le> MAX_TREND_SAMPLES"
  by (auto simp: record_trend_def Let_def split: if_splits)

lemma record_trend_drives [simp]: "iv_drives (record_trend j smp iv) = iv_drives iv"
  by (simp add: record_trend_def Let_def)

text \<open>The trend of a drive after a list of samples: the last 512 of them, in order.\<close>

lemma drop_to_snoc:
  "0 < k \<Longrightarrow> drop (length (drop (length xs - k) xs @ [x]) - k) (drop (length xs - k) xs @ [x]) = drop (Suc (length xs) - k) (xs @ [x])"
proof (cases "length xs < k")
  case False
  then obtain d where "length xs = k + d" by (metis le_Suc_ex not_less)
  moreover assume "0 < k"
  ultimately show ?thesis by simp
qed simp

lemma record_trend_at:
  "iv_trends iv i = (if xs = [] then None else Some (drop (length xs - MAX_TREND_SAMPLES) xs))
   \<Longrightarrow> iv_trends (record_trend i x iv) i = Some (drop (Suc (length xs) - MAX_TREND_SAMPLES) (xs @ [x]))"
  using drop_to_snoc [of MAX_TREND_SAMPLES xs x]
  by (auto simp: record_trend_def Let_def MAX_TREND_SAMPLES_def split: if_splits)

lemma record_trends:
  "iv_trends (fold (record_trend i) smps (iv\<lparr>iv_trends := (iv_trends iv)(i := None)\<rparr>)) i
   = (if smps = [] then None else Some (drop (length smps - MAX_TREND_SAMPLES) smps))"
proof (induction smps rule: rev_induct)
  case (snoc x xs)
  from record_trend_at [OF this, of x] show ?case by simp
qed simp

section \<open>What the file keeps\<close>

text \<open>
  \<open>pushed_overcommit\<close> and \<open>pushed_thermal\<close> are \<open>#[serde(skip)]\<close>: not written, and \<open>None\<close> when read. The
  table that is read back is a new \<open>HashMap\<close>, so its order may be another.
\<close>

definition persisted :: "drive \<Rightarrow> drive" where
  "persisted d = d\<lparr>d_pushed_overcommit := None, d_pushed_thermal := None\<rparr>"

definition as_saved :: "inventory \<Rightarrow> inventory" where
  "as_saved iv = iv\<lparr>iv_drives := map (\<lambda>(i, d). (i, persisted d)) (iv_drives iv)\<rparr>"

definition same_saved :: "inventory \<Rightarrow> inventory \<Rightarrow> bool" where
  "same_saved iv iv' \<longleftrightarrow> set (iv_drives iv') = set (iv_drives (as_saved iv)) \<and> distinct (map fst (iv_drives iv'))
     \<and> iv_trends iv' = iv_trends iv \<and> iv_fault_bays iv' = iv_fault_bays iv"

lemma persisted_id [simp]: "d_id (persisted d) = d_id d" by (simp add: persisted_def)

lemma same_saved_as_saved: "inventory_ok iv \<Longrightarrow> same_saved iv (as_saved iv)"
  by (auto simp: same_saved_def as_saved_def inventory_ok_def o_def case_prod_unfold)

lemma same_saved_ok: "inventory_ok iv \<Longrightarrow> same_saved iv iv' \<Longrightarrow> inventory_ok iv'"
  by (fastforce simp: same_saved_def as_saved_def inventory_ok_def list_all_iff)

text \<open>A drive that is read back is the one that was saved, but for what was last pushed.\<close>

lemma same_saved_drive:
  assumes "inventory_ok iv" "same_saved iv iv'"
  shows "map_of (iv_drives iv') i = map_option persisted (map_of (iv_drives iv) i)"
proof -
  have eq: "set (iv_drives iv') = set (iv_drives (as_saved iv))" and d: "distinct (map fst (iv_drives iv'))"
    using assms(2) by (auto simp: same_saved_def)
  have "distinct (map fst (iv_drives (as_saved iv)))"
    using assms(1) by (auto simp: as_saved_def inventory_ok_def o_def case_prod_unfold)
  from map_of_inject_set [OF d this] eq have "map_of (iv_drives iv') = map_of (iv_drives (as_saved iv))" by blast
  then show ?thesis by (simp add: as_saved_def map_of_map)
qed

section \<open>Reading a state file\<close>

definition ascii_whitespace :: "u8 \<Rightarrow> bool" where
  "ascii_whitespace b = (b = 32 \<or> b = 9 \<or> b = 10 \<or> b = 12 \<or> b = 13)"

definition is_blank :: "bytes \<Rightarrow> bool" where
  "is_blank bs = list_all (\<lambda>b. b = 0 \<or> ascii_whitespace b) bs"

text \<open>
  What reading the file gives; \<open>rename\<close> is the error of moving it aside, if that failed too.
  \<open>load_state\<close> answers the value, the note for the event log and whether the file was moved away.
\<close>

datatype file_read = NotFound | ReadError string | ReadBytes bytes

definition aside_name :: "string \<Rightarrow> string" where
  "aside_name path = path @ ''.unreadable''"

definition set_aside :: "string \<Rightarrow> string \<Rightarrow> string option \<Rightarrow> string" where
  "set_aside path why rename =
     (case rename of
        None \<Rightarrow> path @ '': '' @ why @ ''; moved to '' @ aside_name path @ '', starting without it''
      | Some e \<Rightarrow> path @ '': '' @ why @ ''; could not move it to '' @ aside_name path @ '' ('' @ e @ ''), starting without it'')"

definition load_state ::
  "(bytes \<Rightarrow> string + 'a) \<Rightarrow> string \<Rightarrow> string option \<Rightarrow> file_read \<Rightarrow> 'a option \<times> string option \<times> bool" where
  "load_state from_slice path rename r =
     (case r of
        NotFound \<Rightarrow> (None, None, False)
      | ReadError e \<Rightarrow> (None, Some (set_aside path e rename), rename = None)
      | ReadBytes bs \<Rightarrow>
          if is_blank bs
          then (None, Some (path @ '': blank ('' @ dec (length bs) @ '' bytes), starting without it''), False)
          else (case from_slice bs of
              Inr v \<Rightarrow> (Some v, None, False)
            | Inl e \<Rightarrow> (None, Some (set_aside path (e @ '' ('' @ dec (length bs) @ '' bytes, starts ''
                  @ join '' '' (map hex_lower (take 16 bs)) @ '')'') rename), rename = None)))"

definition load_inventory ::
  "(bytes \<Rightarrow> string + inventory) \<Rightarrow> string \<Rightarrow> string option \<Rightarrow> file_read \<Rightarrow> inventory \<times> string option" where
  "load_inventory from_slice path rename r =
     (let (v, note, _) = load_state from_slice path rename r
      in (case v of Some iv \<Rightarrow> iv | None \<Rightarrow> empty_inventory, note))"

section \<open>Writing a state file\<close>

text \<open>
  The file system as a crash leaves it. \<open>fs_names\<close> is the directory now and \<open>fs_seen\<close> every state
  of it since it was last synced, any of which may be the one on disk. The data of a file whose
  number is in \<open>fs_synced\<close> has reached the disk; that of any other may be anything after a crash
  (empty or full of NULs, as #102 saw).
\<close>

record fs =
  fs_names :: "string \<rightharpoonup> nat"
  fs_seen :: "(string \<rightharpoonup> nat) list"
  fs_data :: "nat \<Rightarrow> bytes"
  fs_synced :: "nat \<Rightarrow> bool"
  fs_next :: nat

datatype fs_op = Create string | WriteAll string bytes | SyncAll string | Rename string string | SyncDir

definition with_names :: "(string \<rightharpoonup> nat) \<Rightarrow> fs \<Rightarrow> fs" where
  "with_names m f = f\<lparr>fs_names := m, fs_seen := m # fs_seen f\<rparr>"

fun fs_do :: "fs_op \<Rightarrow> fs \<Rightarrow> fs" where
  "fs_do (Create p) f =
     (case fs_names f p of
        Some n \<Rightarrow> f\<lparr>fs_data := (fs_data f)(n := []), fs_synced := (fs_synced f)(n := False)\<rparr>
      | None \<Rightarrow> with_names ((fs_names f)(p \<mapsto> fs_next f))
          (f\<lparr>fs_data := (fs_data f)(fs_next f := []), fs_synced := (fs_synced f)(fs_next f := False), fs_next := Suc (fs_next f)\<rparr>))"
| "fs_do (WriteAll p bs) f =
     (case fs_names f p of
        Some n \<Rightarrow> f\<lparr>fs_data := (fs_data f)(n := fs_data f n @ bs), fs_synced := (fs_synced f)(n := False)\<rparr>
      | None \<Rightarrow> f)"
| "fs_do (SyncAll p) f =
     (case fs_names f p of Some n \<Rightarrow> f\<lparr>fs_synced := (fs_synced f)(n := True)\<rparr> | None \<Rightarrow> f)"
| "fs_do (Rename p q) f =
     (case fs_names f p of Some n \<Rightarrow> with_names ((fs_names f)(p := None, q \<mapsto> n)) f | None \<Rightarrow> f)"
| "fs_do SyncDir f = f\<lparr>fs_seen := [fs_names f]\<rparr>"

text \<open>
  \<open>write_atomic\<close>, the directory of the file existing. \<open>sync_dir\<close> is best effort: whether the directory was
  synced is an argument, and neither a failed open nor a failed sync is reported.
\<close>

definition sync_dir :: "bool \<Rightarrow> fs_op list" where
  "sync_dir synced = (if synced then [SyncDir] else [])"

lemma sync_dir_simps [simp]: "sync_dir True = [SyncDir]" "sync_dir False = []"
  by (simp_all add: sync_dir_def)

definition tmp_name :: "string \<Rightarrow> string" where
  "tmp_name path = path @ ''.tmp''"

definition write_synced :: "string \<Rightarrow> bytes \<Rightarrow> fs_op list" where
  "write_synced path bs = [Create path, WriteAll path bs, SyncAll path]"

definition write_atomic :: "string \<Rightarrow> bytes \<Rightarrow> bool \<Rightarrow> fs_op list" where
  "write_atomic path bs dir_synced =
     write_synced (tmp_name path) bs @ [Rename (tmp_name path) path] @ sync_dir dir_synced"

definition fs_run :: "fs_op list \<Rightarrow> fs \<Rightarrow> fs" where
  "fs_run ops f = fold fs_do ops f"

text \<open>What the file may hold when the machine comes up again.\<close>

inductive after_crash :: "fs \<Rightarrow> string \<Rightarrow> bytes option \<Rightarrow> bool" for f p where
  absent: "m \<in> set (fs_seen f) \<Longrightarrow> m p = None \<Longrightarrow> after_crash f p None"
| durable: "m \<in> set (fs_seen f) \<Longrightarrow> m p = Some n \<Longrightarrow> fs_synced f n \<Longrightarrow> after_crash f p (Some (fs_data f n))"
| garbage: "m \<in> set (fs_seen f) \<Longrightarrow> m p = Some n \<Longrightarrow> \<not> fs_synced f n \<Longrightarrow> after_crash f p (Some bs)"

inductive_cases after_crashE: "after_crash f p c"

text \<open>
  Whatever is under the name \<open>p\<close> in a directory state the disk may have is synced and one of \<open>C\<close>,
  and is not the file being prepared under another name \<open>q\<close>.
\<close>

definition safe_name :: "bytes option set \<Rightarrow> string \<Rightarrow> string \<Rightarrow> fs \<Rightarrow> (string \<rightharpoonup> nat) \<Rightarrow> bool" where
  "safe_name C p q f m \<longleftrightarrow>
     (case m p of
        None \<Rightarrow> None \<in> C
      | Some n \<Rightarrow> fs_synced f n \<and> Some (fs_data f n) \<in> C \<and> n < fs_next f \<and> fs_names f q \<noteq> Some n)"

definition kept :: "bytes option set \<Rightarrow> string \<Rightarrow> string \<Rightarrow> fs \<Rightarrow> bool" where
  "kept C p q f \<longleftrightarrow> p \<noteq> q \<and> fs_names f \<in> set (fs_seen f) \<and> (\<forall>x n. fs_names f x = Some n \<longrightarrow> n < fs_next f)
     \<and> (\<forall>m \<in> set (fs_seen f). safe_name C p q f m)"

lemma kept_crash: "kept C p q f \<Longrightarrow> after_crash f p c \<Longrightarrow> c \<in> C"
  by (erule after_crashE) (auto simp: kept_def safe_name_def split: option.splits)

lemma kept_mono: "kept C p q f \<Longrightarrow> C \<subseteq> D \<Longrightarrow> kept D p q f"
  unfolding kept_def safe_name_def by (fastforce split: option.splits)

lemma tmp_name_neq [simp]: "tmp_name p \<noteq> p" "p \<noteq> tmp_name p"
  by (simp_all add: tmp_name_def)

text \<open>Only the file prepared under \<open>q\<close> changes.\<close>

lemma kept_same_names:
  assumes "kept C p q f" "fs_names f q = Some k" "fs_names g = fs_names f" "fs_seen g = fs_seen f" "fs_next g = fs_next f"
    and "\<And>n. n \<noteq> k \<Longrightarrow> fs_synced g n = fs_synced f n \<and> fs_data g n = fs_data f n"
  shows "kept C p q g"
proof -
  have "safe_name C p q f m \<Longrightarrow> safe_name C p q g m" for m
    using assms(2,3,5,6) by (auto simp: safe_name_def split: option.splits)
  then show ?thesis using assms(1,3,4,5) by (simp add: kept_def)
qed

lemma kept_create:
  assumes "kept C p q f" shows "kept C p q (fs_do (Create q) f)"
proof (cases "fs_names f q")
  case (Some k)
  with assms show ?thesis by (rule kept_same_names) (simp_all add: Some)
next
  case None
  let ?g = "fs_do (Create q) f"
  have g: "fs_names ?g = (fs_names f)(q \<mapsto> fs_next f)" "fs_seen ?g = fs_names ?g # fs_seen f" "fs_next ?g = Suc (fs_next f)"
    "n < fs_next f \<Longrightarrow> fs_synced ?g n = fs_synced f n \<and> fs_data ?g n = fs_data f n" for n
    using None by (simp_all add: with_names_def)
  have old: "safe_name C p q ?g m" if "m \<in> set (fs_seen f)" for m
    using assms that g by (auto simp: kept_def safe_name_def split: option.splits)
  have new: "safe_name C p q ?g (fs_names ?g)"
    using old [of "fs_names f"] assms g(1) by (simp add: kept_def safe_name_def)
  show ?thesis using assms old new g(1-3) by (auto simp: kept_def less_Suc_eq)
qed

lemma kept_write: "kept C p q f \<Longrightarrow> kept C p q (fs_do (WriteAll q bs) f)"
  by (cases "fs_names f q") (simp, rule kept_same_names, auto)

lemma kept_sync: "kept C p q f \<Longrightarrow> kept C p q (fs_do (SyncAll q) f)"
  by (cases "fs_names f q") (simp, rule kept_same_names, auto)

lemma kept_rename:
  assumes "kept C p q f" "fs_names f q = Some n" "fs_synced f n" "fs_data f n = bs"
  shows "kept (insert (Some bs) C) p q (fs_do (Rename q p) f)"
proof -
  let ?g = "fs_do (Rename q p) f"
  have g: "fs_names ?g = (fs_names f)(q := None, p \<mapsto> n)" "fs_seen ?g = fs_names ?g # fs_seen f"
    "fs_next ?g = fs_next f" "fs_synced ?g = fs_synced f" "fs_data ?g = fs_data f"
    using assms(2) by (simp_all add: with_names_def)
  have pq: "p \<noteq> q" and n: "n < fs_next f" using assms(1,2) by (auto simp: kept_def)
  have "safe_name (insert (Some bs) C) p q ?g m" if "m \<in> set (fs_seen f)" for m
    using assms(1) that pq g by (auto simp: kept_def safe_name_def split: option.splits)
  moreover have "safe_name (insert (Some bs) C) p q ?g (fs_names ?g)"
    using assms(3,4) pq n g by (simp add: safe_name_def)
  ultimately show ?thesis using assms(1) pq n g(1-3) by (auto simp: kept_def)
qed

lemma kept_sync_dir:
  assumes "kept C p q f" "fs_names f p = Some n" shows "kept {Some (fs_data f n)} p q (fs_do SyncDir f)"
  using assms by (auto simp: kept_def safe_name_def split: option.splits)

lemma fs_run_simps [simp]: "fs_run [] f = f" "fs_run (x # xs) f = fs_run xs (fs_do x f)"
  by (simp_all add: fs_run_def)

lemma fs_run_append [simp]: "fs_run (xs @ ys) f = fs_run ys (fs_run xs f)"
  by (simp add: fs_run_def)

lemma write_synced_kept:
  assumes "kept C p q f"
  shows "kept C p q (fs_run (take k (write_synced q bs)) f)"
    and "\<exists>n. fs_names (fs_run (write_synced q bs) f) q = Some n \<and> fs_synced (fs_run (write_synced q bs) f) n
      \<and> fs_data (fs_run (write_synced q bs) f) n = bs"
proof -
  note K = kept_create [OF assms] and W = kept_write [OF kept_create [OF assms], of bs]
  have "k = 0 \<or> k = 1 \<or> k = 2 \<or> 3 \<le> k" by linarith
  then show "kept C p q (fs_run (take k (write_synced q bs)) f)"
    using assms K W kept_sync [OF W] by (auto simp del: fs_do.simps simp: write_synced_def numeral_eq_Suc take_Cons')
  show "\<exists>n. fs_names (fs_run (write_synced q bs) f) q = Some n \<and> fs_synced (fs_run (write_synced q bs) f) n
      \<and> fs_data (fs_run (write_synced q bs) f) n = bs"
    by (cases "fs_names f q") (simp_all add: write_synced_def with_names_def)
qed

lemma renamed_kept:
  assumes "kept C p (tmp_name p) f" and g: "g = fs_do (Rename (tmp_name p) p) (fs_run (write_synced (tmp_name p) bs) f)"
  shows "kept (insert (Some bs) C) p (tmp_name p) g" "\<exists>n. fs_names g p = Some n \<and> fs_data g n = bs"
proof -
  let ?h = "fs_run (write_synced (tmp_name p) bs) f"
  obtain n where n: "fs_names ?h (tmp_name p) = Some n" "fs_synced ?h n" "fs_data ?h n = bs"
    using write_synced_kept(2) [OF assms(1)] by blast
  have "kept C p (tmp_name p) ?h"
    using write_synced_kept(1) [OF assms(1), of 3 bs] by (simp add: write_synced_def)
  from kept_rename [OF this n] show "kept (insert (Some bs) C) p (tmp_name p) g" by (simp only: g)
  show "\<exists>n. fs_names g p = Some n \<and> fs_data g n = bs" using n by (simp add: g with_names_def)
qed

text \<open>One write, cut anywhere: the old contents or the new; whole and synced: the new.\<close>

lemma write_atomic_kept:
  assumes "kept C p (tmp_name p) f"
  shows "kept (insert (Some bs) C) p (tmp_name p) (fs_run (take k (write_atomic p bs d)) f)"
    and "kept {Some bs} p (tmp_name p) (fs_run (write_atomic p bs True) f)"
proof -
  let ?q = "tmp_name p"
  let ?ws = "write_synced ?q bs"
  note R = renamed_kept [OF assms refl, of bs]
  have len: "length ?ws = 3" by (simp add: write_synced_def)
  obtain n where n: "fs_names (fs_do (Rename ?q p) (fs_run ?ws f)) p = Some n" "fs_data (fs_do (Rename ?q p) (fs_run ?ws f)) n = bs"
    using R(2) by blast
  have S: "kept {Some bs} p ?q (fs_do SyncDir (fs_do (Rename ?q p) (fs_run ?ws f)))"
    using kept_sync_dir [OF R(1) n(1)] by (simp only: n(2))
  show "kept {Some bs} p ?q (fs_run (write_atomic p bs True) f)"
    using S by (simp only: write_atomic_def fs_run_append fs_run_simps append.simps sync_dir_simps)
  consider "k \<le> 3" | "k = 4 \<or> \<not> d \<and> 4 \<le> k" | "5 \<le> k" "d" by linarith
  then show "kept (insert (Some bs) C) p ?q (fs_run (take k (write_atomic p bs d)) f)"
  proof cases
    case 1
    have "kept C p ?q (fs_run (take k ?ws) f)" by (rule write_synced_kept(1) [OF assms])
    then have "kept (insert (Some bs) C) p ?q (fs_run (take k ?ws) f)" by (rule kept_mono) auto
    then show ?thesis using 1 len by (simp add: write_atomic_def)
  next
    case 2
    then have "take k (write_atomic p bs d) = ?ws @ [Rename ?q p]"
      using len by (auto simp: write_atomic_def)
    then show ?thesis using R(1) by (simp only: fs_run_append fs_run_simps)
  next
    case 3
    then have "take k (write_atomic p bs d) = ?ws @ [Rename ?q p] @ [SyncDir]"
      using len by (simp add: write_atomic_def)
    moreover have "kept (insert (Some bs) C) p ?q (fs_do SyncDir (fs_do (Rename ?q p) (fs_run ?ws f)))"
      using S by (rule kept_mono) auto
    ultimately show ?thesis by (simp only: fs_run_append fs_run_simps)
  qed
qed

text \<open>Any number of whole writes; \<open>snd\<close> says whether the directory was synced.\<close>

definition write_all_atomic :: "string \<Rightarrow> (bytes \<times> bool) list \<Rightarrow> fs \<Rightarrow> fs" where
  "write_all_atomic p ws f = fold (\<lambda>(bs, d). fs_run (write_atomic p bs d)) ws f"

lemma write_all_kept: "kept C p (tmp_name p) f \<Longrightarrow> kept (C \<union> Some ` fst ` set ws) p (tmp_name p) (write_all_atomic p ws f)"
proof (induction ws arbitrary: C f)
  case (Cons w ws)
  obtain bs d where w: "w = (bs, d)" by (cases w)
  have "kept (insert (Some bs) C) p (tmp_name p) (fs_run (write_atomic p bs d) f)"
    using write_atomic_kept(1) [OF Cons.prems, of bs "length (write_atomic p bs d)" d] by simp
  from Cons.IH [OF this] show ?case by (simp add: write_all_atomic_def w Un_commute)
qed (simp add: write_all_atomic_def)

lemma write_all_synced:
  "kept C p (tmp_name p) f \<Longrightarrow> kept {Some bs} p (tmp_name p) (write_all_atomic p (ws @ [(bs, True)]) f)"
  using write_atomic_kept(2) [OF write_all_kept] by (simp add: write_all_atomic_def)

section \<open>Restarts\<close>

definition read_back :: "bytes option \<Rightarrow> file_read" where
  "read_back c = (case c of None \<Rightarrow> NotFound | Some bs \<Rightarrow> ReadBytes bs)"


definition empty_disk :: fs where
  "empty_disk = \<lparr>fs_names = Map.empty, fs_seen = [Map.empty], fs_data = (\<lambda>_. []), fs_synced = (\<lambda>_. False), fs_next = 0\<rparr>"

text \<open>
  One finished save of a drive, the engine told of its temperature, then a save cut after its temporary
  file was written: the file of the finished save is read, and what was told is not in it.
\<close>

definition warm_inventory :: inventory where
  "warm_inventory = empty_inventory\<lparr>iv_drives := [(d_id base_drive, base_drive\<lparr>d_pushed_thermal := Some ''warning''\<rparr>)]\<rparr>"

definition toy_to_vec :: "inventory \<Rightarrow> bytes" where
  "toy_to_vec iv = (if iv_drives iv = [] then [1] else [2])"

definition toy_from_slice :: "bytes \<Rightarrow> string + inventory" where
  "toy_from_slice bs = Inr (if bs = [1] then empty_inventory else as_saved warm_inventory)"

lemma warm_inventory_drives: "iv_drives warm_inventory \<noteq> []" by (simp add: warm_inventory_def)

lemma toy_codec:
  "iv \<in> {empty_inventory, warm_inventory}
   \<Longrightarrow> (\<exists>iv'. toy_from_slice (toy_to_vec iv) = Inr iv' \<and> same_saved iv iv') \<and> \<not> is_blank (toy_to_vec iv)"
proof -
  have "same_saved warm_inventory (as_saved warm_inventory)" "same_saved empty_inventory empty_inventory"
    by (auto simp: warm_inventory_def empty_inventory_def same_saved_def as_saved_def)
  then show "iv \<in> {empty_inventory, warm_inventory}
     \<Longrightarrow> (\<exists>iv'. toy_from_slice (toy_to_vec iv) = Inr iv' \<and> same_saved iv iv') \<and> \<not> is_blank (toy_to_vec iv)"
    by (auto simp: toy_from_slice_def toy_to_vec_def is_blank_def ascii_whitespace_def warm_inventory_drives)
      (simp_all add: empty_inventory_def)
qed

definition cut_save :: fs where
  "cut_save = fs_run (take 2 (write_atomic ''inv'' (toy_to_vec empty_inventory) True))
     (write_all_atomic ''inv'' (map (\<lambda>(iv, d). (toy_to_vec iv, d)) [(warm_inventory, True)]) empty_disk)"

lemma cut_save_reads: "after_crash cut_save ''inv'' (Some [2])"
proof -
  have "fs_seen cut_save = [[''inv.tmp'' \<mapsto> 1, ''inv'' \<mapsto> 0], [''inv'' \<mapsto> 0]] \<and> fs_synced cut_save 0 \<and> fs_data cut_save 0 = [2]"
    by (simp add: cut_save_def write_all_atomic_def write_atomic_def write_synced_def with_names_def tmp_name_def empty_disk_def
        toy_to_vec_def empty_inventory_def warm_inventory_def numeral_eq_Suc fun_eq_iff)
  then show ?thesis using after_crash.durable [of "[''inv'' \<mapsto> 0]" cut_save "''inv''" 0] by auto
qed


end
