(* ===== verification/Jobs.thy ===== *)
theory Jobs
  imports Worker Inventory "HOL-Library.Sublist"
begin

text \<open>
  \<open>src/src/worker.rs\<close>, the run: jobs submitted, cancelled, resumed, kept and recovered, and the task
  that takes one drive through its job's steps (\<open>run_drive\<close>), as a transition system. A task is where
  it stands between two of its awaits; the jobs and the inventory are behind locks, so what it does to
  them between two awaits is one step. A submission or a resume writes the jobs, waits for the file to be
  saved and only then spawns its tasks: in between it is a handler, which may be dropped. A task whose
  job was dropped from the jobs panics at the top of its loop while it holds their lock, which poisons
  it: whoever takes the lock afterwards panics too. The drives, the disks and the apiserver answer as
  they like.
\<close>

section \<open>Jobs and their drives\<close>

type_synonym 'who jobs = "string \<rightharpoonup> 'who job"

definition map_drive :: "nat \<Rightarrow> (drive_job \<Rightarrow> drive_job) \<Rightarrow> 'who job \<Rightarrow> 'who job" where
  "map_drive i f j = (if i < length (jo_drives j) then j\<lparr>jo_drives := (jo_drives j)[i := f (jo_drives j ! i)]\<rparr> else j)"

text \<open>\<open>with\<close>: what a task does to its drive of the job, if the job is still kept.\<close>

definition with_job :: "string \<Rightarrow> nat \<Rightarrow> (drive_job \<Rightarrow> drive_job) \<Rightarrow> 'who jobs \<Rightarrow> 'who jobs" where
  "with_job jid i f js = (case js jid of Some j \<Rightarrow> js(jid \<mapsto> map_drive i f j) | None \<Rightarrow> js)"

definition drive_job_for :: "drive \<Rightarrow> bool \<Rightarrow> bool \<Rightarrow> string option \<Rightarrow> drive_job" where
  "drive_job_for d named in_use_named verdict =
     \<lparr>dj_drive = d_id d, dj_name = d_name d, dj_serial = d_serial d, dj_wwn = d_wwid d, dj_kind = d_kind d,
      dj_state = (if verdict = None then Queued else Refused), dj_step = 0,
      dj_phase = (if verdict = None then ''queued'' else ''refused''), dj_progress_pct = None, dj_error = verdict,
      dj_done = [], dj_destroy_named = named, dj_in_use_named = in_use_named, dj_started = None,
      dj_finished_at = None, dj_ata_password = None\<rparr>"

record request =
  rq_select :: select
  rq_steps :: "step list"
  rq_destroy :: "string list"
  rq_i_know_in_use :: "string list"
  rq_dry_run :: bool

text \<open>The job of a request for the drives selected, with the context read for each.\<close>

definition request_drive :: "request \<Rightarrow> (drive \<Rightarrow> guard_context) \<Rightarrow> drive \<Rightarrow> drive_job" where
  "request_drive rq cx d =
     (let named = named_for_destroy d (rq_destroy rq);
          in_use_named = named_for_destroy d (rq_i_know_in_use rq)
      in drive_job_for d named in_use_named
           (worker_guard d (rq_steps rq) named ((cx d)\<lparr>cx_in_use_named := in_use_named\<rparr>)))"

definition request_job ::
  "request \<Rightarrow> (drive \<Rightarrow> guard_context) \<Rightarrow> drive list \<Rightarrow> string \<Rightarrow> time \<Rightarrow> 'who option \<Rightarrow> string option \<Rightarrow> string option \<Rightarrow> 'who job" where
  "request_job rq cx ds jid now who op pol =
     \<lparr>jo_id = jid, jo_created = now, jo_select = rq_select rq, jo_steps = rq_steps rq, jo_destroy = rq_destroy rq,
      jo_i_know_in_use = rq_i_know_in_use rq, jo_drives = map (request_drive rq cx) ds, jo_cancel = False,
      jo_requester = who, jo_operation = op, jo_policy = pol\<rparr>"

definition queued :: "'who job \<Rightarrow> nat list" where
  "queued j = filter (\<lambda>i. dj_state (jo_drives j ! i) = Queued) [0..<length (jo_drives j)]"

text \<open>\<open>submit\<close>: refused whole, answered as a dry run, or the job created.\<close>

datatype 'who submitted = Malformed string | DryRun "'who job" | Created "'who job"

definition submit_job ::
  "request \<Rightarrow> (drive \<Rightarrow> guard_context) \<Rightarrow> drive list \<Rightarrow> string \<Rightarrow> time \<Rightarrow> 'who option \<Rightarrow> string option \<Rightarrow> string option \<Rightarrow> 'who submitted" where
  "submit_job rq cx ds jid now who op pol =
     (case validate_steps (rq_steps rq) of
        Some e \<Rightarrow> Malformed e
      | None \<Rightarrow>
          if ds = [] then Malformed ''the selection matches no drive''
          else
            (let j = request_job rq cx ds jid now who op pol in
             if rq_dry_run rq then DryRun j
             else if queued j = [] then Malformed ''nothing to run''
             else Created j))"

definition cancel_drive :: "time \<Rightarrow> drive_job \<Rightarrow> drive_job" where
  "cancel_drive now d =
     (if dj_state d \<in> {Queued, Interrupted}
      then d\<lparr>dj_state := Cancelled, dj_phase := ''cancelled'', dj_finished_at := Some now\<rparr> else d)"

definition cancel_job :: "time \<Rightarrow> 'who job \<Rightarrow> 'who job" where
  "cancel_job now j = j\<lparr>jo_cancel := True, jo_drives := map (cancel_drive now) (jo_drives j)\<rparr>"

definition interrupted :: "'who job \<Rightarrow> nat list" where
  "interrupted j = filter (\<lambda>i. dj_state (jo_drives j ! i) = Interrupted) [0..<length (jo_drives j)]"

definition resume_drive :: "drive_job \<Rightarrow> drive_job" where
  "resume_drive d =
     (if dj_state d = Interrupted then d\<lparr>dj_state := Queued, dj_phase := ''queued'', dj_error := None\<rparr> else d)"

text \<open>The answer and the job after it: the requester is replaced even when there is nothing to resume.\<close>

definition resume_job :: "'who option \<Rightarrow> 'who job \<Rightarrow> (string + nat list) \<times> 'who job" where
  "resume_job who j =
     (if jo_cancel j then (Inl (''job '' @ jo_id j @ '' was cancelled''), j)
      else
        (let j1 = j\<lparr>jo_requester := opt_or who (jo_requester j)\<rparr> in
         if interrupted j = [] then (Inl (''job '' @ jo_id j @ '': nothing interrupted to resume''), j1)
         else (Inr (interrupted j), j1\<lparr>jo_drives := map resume_drive (jo_drives j)\<rparr>)))"

definition done_drive :: "time \<Rightarrow> drive_job \<Rightarrow> drive_job" where
  "done_drive now d = d\<lparr>dj_state := Done, dj_phase := ''done'', dj_progress_pct := None, dj_finished_at := Some now\<rparr>"

definition cancelled_drive :: "time \<Rightarrow> drive_job \<Rightarrow> drive_job" where
  "cancelled_drive now d = d\<lparr>dj_state := Cancelled, dj_phase := ''cancelled'', dj_finished_at := Some now\<rparr>"

definition fail_drive :: "time \<Rightarrow> string \<Rightarrow> drive_job \<Rightarrow> drive_job" where
  "fail_drive now why d =
     d\<lparr>dj_state := JobFailed, dj_phase := ''failed'', dj_error := Some why, dj_finished_at := Some now\<rparr>"

definition interrupt_drive :: "string \<Rightarrow> drive_job \<Rightarrow> drive_job" where
  "interrupt_drive why d = d\<lparr>dj_state := Interrupted, dj_phase := ''interrupted'', dj_error := Some why\<rparr>"

definition begin_step :: "time \<Rightarrow> step \<Rightarrow> drive_job \<Rightarrow> drive_job" where
  "begin_step now s d =
     d\<lparr>dj_state := Running, dj_phase := step_name s, dj_progress_pct := None,
       dj_started := (case dj_started d of None \<Rightarrow> Some now | t \<Rightarrow> t)\<rparr>"

definition finish_step :: "step \<Rightarrow> string \<Rightarrow> drive_job \<Rightarrow> drive_job" where
  "finish_step s note_line d =
     d\<lparr>dj_done := dj_done d @ [describe s @ '': '' @ note_line], dj_step := dj_step d + 1, dj_progress_pct := None\<rparr>"

definition progress_drive :: "u8 option \<Rightarrow> string \<Rightarrow> drive_job \<Rightarrow> drive_job" where
  "progress_drive pct phase d =
     (let d1 = (if pct \<noteq> None then d\<lparr>dj_progress_pct := pct\<rparr> else d) in d1\<lparr>dj_phase := phase\<rparr>)"

section \<open>Keeping the jobs\<close>

definition KEEP_JOBS :: nat where "KEEP_JOBS = 64"

fun drop_oldest_finished :: "(string \<times> 'who job) list \<Rightarrow> (string \<times> 'who job) list option" where
  "drop_oldest_finished [] = None"
| "drop_oldest_finished ((k, j) # js) =
     (if job_finished j then Some js else map_option (\<lambda>rest. (k, j) # rest) (drop_oldest_finished js))"

lemma length_drop_oldest: "drop_oldest_finished js = Some js' \<Longrightarrow> length js = Suc (length js')"
  by (induction js arbitrary: js') (auto split: if_splits)

text \<open>What \<open>save\<close> keeps of the jobs, in the order of their ids.\<close>

function keep_jobs :: "(string \<times> 'who job) list \<Rightarrow> (string \<times> 'who job) list" where
  "keep_jobs js =
     (if KEEP_JOBS < length js then (case drop_oldest_finished js of Some js' \<Rightarrow> keep_jobs js' | None \<Rightarrow> js) else js)"
  by pat_completeness auto

termination
  by (relation "measure length") (auto dest: length_drop_oldest)

declare keep_jobs.simps [simp del]

section \<open>A restart\<close>

definition recover_drive :: "step list \<Rightarrow> drive_job \<Rightarrow> drive_job" where
  "recover_drive steps d =
     (case recover_action d (if dj_step d < length steps then Some (steps ! dj_step d) else None) of
        Interrupt why \<Rightarrow> interrupt_drive why d
      | _ \<Rightarrow> d)"

definition reattached :: "step list \<Rightarrow> drive_job \<Rightarrow> bool" where
  "reattached steps d = (recover_action d (if dj_step d < length steps then Some (steps ! dj_step d) else None) = Reattach)"

definition recover_job :: "'who job \<Rightarrow> 'who job" where
  "recover_job j = j\<lparr>jo_drives := map (recover_drive (jo_steps j)) (jo_drives j)\<rparr>"

text \<open>\<open>watch\<close>, when the drive has finished the step it was left with.\<close>

definition watched_done :: "time \<Rightarrow> step \<Rightarrow> nat \<Rightarrow> drive_job \<Rightarrow> drive_job" where
  "watched_done now s n_steps d =
     (let d1 = d\<lparr>dj_done := dj_done d @ [describe s @ '': finished while stormdrive was restarting (watched to the end)''],
                 dj_step := dj_step d + 1, dj_progress_pct := None, dj_state := Interrupted, dj_phase := ''interrupted'',
                 dj_error := Some (''stormdrive restarted mid-job; the running step finished '' @ utf8_dash @ '' resume to continue'')\<rparr>
      in if n_steps \<le> dj_step d1 then d1\<lparr>dj_state := Done, dj_phase := ''done'', dj_error := None, dj_finished_at := Some now\<rparr>
         else d1)"

text \<open>The inventory after a restart: drives left busy by what no job runs, then those of interrupted jobs.\<close>

definition recover_orphan :: "time \<Rightarrow> drive_id set \<Rightarrow> drive \<Rightarrow> drive" where
  "recover_orphan now owned d =
     (case orphan_action d (d_id d \<in> owned) of MakeIdle why \<Rightarrow> idle_orphan now why d | _ \<Rightarrow> d)"

definition recover_interrupted :: "drive_id set \<Rightarrow> drive \<Rightarrow> drive" where
  "recover_interrupted ids d =
     (if d_id d \<in> ids \<and> d_activity d \<in> {Formatting, Sanitizing} then d\<lparr>d_activity := Idle\<rparr> else d)"

section \<open>The tasks\<close>

text \<open>
  A lane: which semaphores (an HBA's or a failure domain's) and its key. A task is spawned and has not
  looked at its job, is at the top of its loop, waits for a permit, holds one before anything is checked, has passed the guard with the drive as
  it was read and asks the apiserver, or runs the step; after a restart it watches a step the drive kept
  running (\<open>watch\<close>).
\<close>

datatype lane = HbaLane string | DomainLane string

datatype 'who task =
    Fresh
  | AtTop
  | Waiting lane nat
  | Holding lane nat
  | Guarded lane nat step drive 'who
  | InStep lane nat step drive 'who
  | Watching nat step

fun holds_lane :: "'who task \<Rightarrow> lane option" where
  "holds_lane Fresh = None"
| "holds_lane AtTop = None"
| "holds_lane (Waiting _ _) = None"
| "holds_lane (Holding l _) = Some l"
| "holds_lane (Guarded l _ _ _ _) = Some l"
| "holds_lane (InStep l _ _ _ _) = Some l"
| "holds_lane (Watching _ _) = None"

record worker_config =
  wc_max_per_hba :: nat
  wc_enroll_per_domain :: nat

definition permits :: "worker_config \<Rightarrow> lane \<Rightarrow> nat" where
  "permits cfg l = (case l of HbaLane _ \<Rightarrow> max 1 (wc_max_per_hba cfg) | DomainLane _ \<Rightarrow> max 1 (wc_enroll_per_domain cfg))"

definition step_lane :: "step \<Rightarrow> drive \<Rightarrow> lane" where
  "step_lane s d = (if low_level s \<or> step_name s = ''partition'' then HbaLane (hba_key d) else DomainLane (domain_key d))"

text \<open>
  The handlers are the submissions and resumes that have still to spawn the tasks of these drives of their
  job. \<open>ws_lost\<close> records, for the statements only, that a handler was dropped since the last start.
\<close>

record 'who worker =
  ws_jobs :: "'who jobs"
  ws_tasks :: "(string \<times> nat) \<rightharpoonup> 'who task"
  ws_drives :: "drive_id \<rightharpoonup> drive"
  ws_handlers :: "(string \<times> nat list) list"
  ws_poisoned :: bool
  ws_lost :: bool

definition to_spawn :: "'who worker \<Rightarrow> (string \<times> nat) list" where
  "to_spawn w = concat (map (\<lambda>(jid, is). map (Pair jid) is) (ws_handlers w))"

definition holders :: "'who worker \<Rightarrow> lane \<Rightarrow> (string \<times> nat) set" where
  "holders w l = {t. Option.bind (ws_tasks w t) holds_lane = Some l}"

definition end_task :: "string \<times> nat \<Rightarrow> (drive_job \<Rightarrow> drive_job) \<Rightarrow> 'who worker \<Rightarrow> 'who worker" where
  "end_task t f w = w\<lparr>ws_jobs := with_job (fst t) (snd t) f (ws_jobs w), ws_tasks := (ws_tasks w)(t := None)\<rparr>"

definition go_on :: "string \<times> nat \<Rightarrow> (drive_job \<Rightarrow> drive_job) \<Rightarrow> 'who task \<Rightarrow> 'who worker \<Rightarrow> 'who worker" where
  "go_on t f pc w = w\<lparr>ws_jobs := with_job (fst t) (snd t) f (ws_jobs w), ws_tasks := (ws_tasks w)(t \<mapsto> pc)\<rparr>"

definition spawn :: "string \<Rightarrow> nat list \<Rightarrow> ((string \<times> nat) \<rightharpoonup> 'who task) \<Rightarrow> ((string \<times> nat) \<rightharpoonup> 'who task)" where
  "spawn jid is ts = (\<lambda>t. if fst t = jid \<and> snd t \<in> set is then Some Fresh else ts t)"

definition watchers :: "'who jobs \<Rightarrow> ((string \<times> nat) \<rightharpoonup> 'who task)" where
  "watchers js t =
     (case js (fst t) of
        None \<Rightarrow> None
      | Some j \<Rightarrow>
          if snd t < length (jo_drives j) \<and> reattached (jo_steps j) (jo_drives j ! snd t)
          then Some (Watching (dj_step (jo_drives j ! snd t)) (jo_steps j ! dj_step (jo_drives j ! snd t))) else None)"

text \<open>The drive of a task's job that is to take a step, and may.\<close>

definition at_work :: "'who worker \<Rightarrow> string \<Rightarrow> nat \<Rightarrow> 'who job \<Rightarrow> bool" where
  "at_work w jid i j \<longleftrightarrow> ws_jobs w jid = Some j \<and> i < length (jo_drives j) \<and> dj_state (jo_drives j ! i) \<in> {Queued, Running}"

definition at_step :: "'who worker \<Rightarrow> string \<Rightarrow> nat \<Rightarrow> 'who job \<Rightarrow> bool" where
  "at_step w jid i j \<longleftrightarrow> at_work w jid i j \<and> dj_step (jo_drives j ! i) < length (jo_steps j)"

text \<open>
  The steps. The job of a task may be gone, dropped by \<open>save\<close> (\<open>keep\<close>, which drops finished jobs once there
  are more than are kept; which of them is \<open>keep_jobs\<close>): a task that has not yet looked at it returns, one
  that holds a permit fails what is no longer there, one at the top of its loop panics. A poisoned lock
  stops all that takes it until a restart. What others do to the inventory is any change of it. A job's
  id is new. The two writes of \<open>watch\<close> at its end are one step.
\<close>

inductive worker_step :: "worker_config \<Rightarrow> 'who worker \<Rightarrow> 'who worker \<Rightarrow> bool" for cfg where
  submit: "\<not> ws_poisoned w \<Longrightarrow> submit_job rq cx ds jid now who op pol = Created j \<Longrightarrow> ws_jobs w jid = None
    \<Longrightarrow> (\<forall>i. ws_tasks w (jid, i) = None) \<Longrightarrow> (\<forall>i. (jid, i) \<notin> set (to_spawn w))
    \<Longrightarrow> worker_step cfg w (w\<lparr>ws_jobs := (ws_jobs w)(jid \<mapsto> j), ws_handlers := ws_handlers w @ [(jid, queued j)]\<rparr>)"
| cancel: "\<not> ws_poisoned w \<Longrightarrow> ws_jobs w jid = Some j
    \<Longrightarrow> worker_step cfg w (w\<lparr>ws_jobs := (ws_jobs w)(jid \<mapsto> cancel_job now j)\<rparr>)"
| resume: "\<not> ws_poisoned w \<Longrightarrow> ws_jobs w jid = Some j \<Longrightarrow> resume_job who j = (Inr is, j')
    \<Longrightarrow> worker_step cfg w (w\<lparr>ws_jobs := (ws_jobs w)(jid \<mapsto> j'), ws_handlers := ws_handlers w @ [(jid, is)]\<rparr>)"
| refused_resume: "\<not> ws_poisoned w \<Longrightarrow> ws_jobs w jid = Some j \<Longrightarrow> resume_job who j = (Inl e, j')
    \<Longrightarrow> worker_step cfg w (w\<lparr>ws_jobs := (ws_jobs w)(jid \<mapsto> j')\<rparr>)"
| spawns: "ws_handlers w = hs @ (jid, is) # hs'
    \<Longrightarrow> worker_step cfg w (w\<lparr>ws_handlers := hs @ hs', ws_tasks := spawn jid is (ws_tasks w)\<rparr>)"
| drops: "ws_handlers w = hs @ (jid, is) # hs' \<Longrightarrow> worker_step cfg w (w\<lparr>ws_handlers := hs @ hs', ws_lost := True\<rparr>)"
| keep: "\<not> ws_poisoned w \<Longrightarrow> KEEP_JOBS < card (dom (ws_jobs w)) \<Longrightarrow> ws_jobs w jid = Some j \<Longrightarrow> job_finished j
    \<Longrightarrow> worker_step cfg w (w\<lparr>ws_jobs := (ws_jobs w)(jid := None)\<rparr>)"
| others: "worker_step cfg w (w\<lparr>ws_drives := drives'\<rparr>)"
| looks: "\<not> ws_poisoned w \<Longrightarrow> ws_tasks w t = Some Fresh \<Longrightarrow> ws_jobs w (fst t) \<noteq> None \<Longrightarrow> worker_step cfg w (go_on t id AtTop w)"
| gone: "\<not> ws_poisoned w \<Longrightarrow> ws_tasks w t \<in> {Some Fresh, Some (Holding l n)} \<Longrightarrow> ws_jobs w (fst t) = None
    \<Longrightarrow> worker_step cfg w (end_task t id w)"
| panics: "\<not> ws_poisoned w \<Longrightarrow> ws_tasks w t = Some AtTop \<Longrightarrow> ws_jobs w (fst t) = None
    \<Longrightarrow> worker_step cfg w (w\<lparr>ws_tasks := (ws_tasks w)(t := None), ws_poisoned := True\<rparr>)"
| dies: "ws_poisoned w \<Longrightarrow> ws_tasks w t \<noteq> None \<Longrightarrow> worker_step cfg w (w\<lparr>ws_tasks := (ws_tasks w)(t := None)\<rparr>)"
| stops: "\<not> ws_poisoned w \<Longrightarrow> ws_tasks w (jid, i) = Some AtTop \<Longrightarrow> ws_jobs w jid = Some j \<Longrightarrow> \<not> at_work w jid i j
    \<Longrightarrow> worker_step cfg w (end_task (jid, i) id w)"
| completes: "\<not> ws_poisoned w \<Longrightarrow> ws_tasks w (jid, i) = Some AtTop \<Longrightarrow> at_work w jid i j \<Longrightarrow> \<not> at_step w jid i j
    \<Longrightarrow> worker_step cfg w (end_task (jid, i) (done_drive now) w)"
| sees_cancel: "\<not> ws_poisoned w \<Longrightarrow> ws_tasks w (jid, i) = Some AtTop \<Longrightarrow> at_step w jid i j \<Longrightarrow> jo_cancel j
    \<Longrightarrow> worker_step cfg w (end_task (jid, i) (cancelled_drive now) w)"
| lost: "\<not> ws_poisoned w \<Longrightarrow> ws_tasks w (jid, i) = Some AtTop \<Longrightarrow> at_step w jid i j \<Longrightarrow> \<not> jo_cancel j
    \<Longrightarrow> ws_drives w (dj_drive (jo_drives j ! i)) = None
    \<Longrightarrow> worker_step cfg w (end_task (jid, i) (fail_drive now ''the drive is no longer in the inventory'') w)"
| waits: "\<not> ws_poisoned w \<Longrightarrow> ws_tasks w (jid, i) = Some AtTop \<Longrightarrow> at_step w jid i j \<Longrightarrow> \<not> jo_cancel j
    \<Longrightarrow> ws_drives w (dj_drive (jo_drives j ! i)) = Some d \<Longrightarrow> n = dj_step (jo_drives j ! i)
    \<Longrightarrow> worker_step cfg w (go_on (jid, i) (progress_drive None phase) (Waiting (step_lane (jo_steps j ! n) d) n) w)"
| acquires: "ws_tasks w t = Some (Waiting l n) \<Longrightarrow> card (holders w l) < permits cfg l
    \<Longrightarrow> worker_step cfg w (go_on t id (Holding l n) w)"
| refuses: "\<not> ws_poisoned w \<Longrightarrow> ws_tasks w (jid, i) = Some (Holding l n) \<Longrightarrow> ws_jobs w jid = Some j \<Longrightarrow> i < length (jo_drives j)
    \<Longrightarrow> ws_drives w (dj_drive (jo_drives j ! i)) = None
        \<or> jo_requester j = None
        \<or> (\<exists>d cx. ws_drives w (dj_drive (jo_drives j ! i)) = Some d
             \<and> worker_guard d (drop n (jo_steps j)) (dj_destroy_named (jo_drives j ! i))
                 (cx\<lparr>cx_in_use_named := dj_in_use_named (jo_drives j ! i)\<rparr>) \<noteq> None)
    \<Longrightarrow> worker_step cfg w (end_task (jid, i) (fail_drive now why) w)"
| passes: "\<not> ws_poisoned w \<Longrightarrow> ws_tasks w (jid, i) = Some (Holding l n) \<Longrightarrow> ws_jobs w jid = Some j \<Longrightarrow> i < length (jo_drives j)
    \<Longrightarrow> ws_drives w (dj_drive (jo_drives j ! i)) = Some d
    \<Longrightarrow> worker_guard d (drop n (jo_steps j)) (dj_destroy_named (jo_drives j ! i))
          (cx\<lparr>cx_in_use_named := dj_in_use_named (jo_drives j ! i)\<rparr>) = None
    \<Longrightarrow> jo_requester j = Some who
    \<Longrightarrow> worker_step cfg w (go_on (jid, i) id (Guarded l n (jo_steps j ! n) d who) w)"
| denied: "\<not> ws_poisoned w \<Longrightarrow> ws_tasks w t = Some (Guarded l n s d who) \<Longrightarrow> worker_step cfg w (end_task t (fail_drive now why) w)"
| unavailable: "\<not> ws_poisoned w \<Longrightarrow> ws_tasks w t = Some (Guarded l n s d who)
    \<Longrightarrow> worker_step cfg w (end_task t (interrupt_drive why) w)"
| starts: "\<not> ws_poisoned w \<Longrightarrow> ws_tasks w t = Some (Guarded l n s d who)
    \<Longrightarrow> worker_step cfg w (go_on t (begin_step now s) (InStep l n s d who) w)"
| progress: "\<not> ws_poisoned w \<Longrightarrow> ws_tasks w t = Some (InStep l n s d who)
    \<Longrightarrow> worker_step cfg w (go_on t (progress_drive pct phase) (InStep l n s d who) w)"
| finishes: "\<not> ws_poisoned w \<Longrightarrow> ws_tasks w t = Some (InStep l n s d who)
    \<Longrightarrow> worker_step cfg w (go_on t (finish_step s note_line) AtTop w)"
| fails: "\<not> ws_poisoned w \<Longrightarrow> ws_tasks w t = Some (InStep l n s d who) \<Longrightarrow> worker_step cfg w (end_task t (fail_drive now why) w)"
| restarts: "worker_step cfg w (w\<lparr>ws_jobs := (\<lambda>jid. map_option recover_job (ws_jobs w jid)), ws_tasks := watchers (ws_jobs w),
      ws_drives := drives', ws_handlers := [], ws_poisoned := False, ws_lost := False\<rparr>)"
| watched: "\<not> ws_poisoned w \<Longrightarrow> ws_tasks w (jid, i) = Some (Watching n s) \<Longrightarrow> ws_jobs w jid = Some j
    \<Longrightarrow> worker_step cfg w (end_task (jid, i) (watched_done now s (length (jo_steps j))) w)"
| watch_fails: "\<not> ws_poisoned w \<Longrightarrow> ws_tasks w t = Some (Watching n s) \<Longrightarrow> worker_step cfg w (end_task t (fail_drive now why) w)"
| watch_lost: "ws_tasks w (jid, i) = Some (Watching n s) \<Longrightarrow> ws_jobs w jid = Some j \<Longrightarrow> i < length (jo_drives j)
    \<Longrightarrow> ws_drives w (dj_drive (jo_drives j ! i)) = None \<Longrightarrow> worker_step cfg w (end_task (jid, i) id w)"

inductive worker_reach :: "worker_config \<Rightarrow> 'who worker \<Rightarrow> bool" for cfg where
  empty: "worker_reach cfg \<lparr>ws_jobs = Map.empty, ws_tasks = Map.empty, ws_drives = drives, ws_handlers = [],
      ws_poisoned = False, ws_lost = False\<rparr>"
| step: "worker_reach cfg w \<Longrightarrow> worker_step cfg w w' \<Longrightarrow> worker_reach cfg w'"

section \<open>What holds throughout\<close>

text \<open>The record of a drive: one line per step taken, in the order of the job's steps.\<close>

definition record_ok :: "step list \<Rightarrow> drive_job \<Rightarrow> bool" where
  "record_ok steps dj \<longleftrightarrow> dj_step dj \<le> length steps \<and> length (dj_done dj) = dj_step dj
     \<and> list_all2 (\<lambda>line s. starts_with line (describe s @ '': '')) (dj_done dj) (take (dj_step dj) steps)"

text \<open>What a task's place says of its drive of the job.\<close>

fun task_ok :: "step list \<Rightarrow> drive_job \<Rightarrow> 'who task \<Rightarrow> bool" where
  "task_ok steps dj Fresh \<longleftrightarrow> dj_state dj \<in> {Queued, Running, Cancelled}"
| "task_ok steps dj AtTop \<longleftrightarrow> dj_state dj \<in> {Queued, Running, Cancelled}"
| "task_ok steps dj (Waiting l n) \<longleftrightarrow> dj_state dj \<in> {Queued, Running, Cancelled} \<and> n = dj_step dj \<and> n < length steps"
| "task_ok steps dj (Holding l n) \<longleftrightarrow> dj_state dj \<in> {Queued, Running, Cancelled} \<and> n = dj_step dj \<and> n < length steps"
| "task_ok steps dj (Guarded l n s d who) \<longleftrightarrow> dj_state dj \<in> {Queued, Running, Cancelled} \<and> n = dj_step dj \<and> n < length steps
     \<and> s = steps ! n \<and> (\<exists>cx. worker_guard d (drop n steps) (dj_destroy_named dj) (cx\<lparr>cx_in_use_named := dj_in_use_named dj\<rparr>) = None)"
| "task_ok steps dj (InStep l n s d who) \<longleftrightarrow> dj_state dj = Running \<and> n = dj_step dj \<and> n < length steps
     \<and> s = steps ! n \<and> (\<exists>cx. worker_guard d (drop n steps) (dj_destroy_named dj) (cx\<lparr>cx_in_use_named := dj_in_use_named dj\<rparr>) = None)"
| "task_ok steps dj (Watching n s) \<longleftrightarrow> dj_state dj = Running \<and> n = dj_step dj \<and> n < length steps \<and> s = steps ! n"

definition place_ok :: "step list \<Rightarrow> drive_job \<Rightarrow> 'who task option \<Rightarrow> bool" where
  "place_ok steps dj pc \<longleftrightarrow> record_ok steps dj \<and> (case pc of Some pc \<Rightarrow> task_ok steps dj pc | None \<Rightarrow> True)"

definition job_ok :: "(nat \<Rightarrow> 'who task option) \<Rightarrow> 'who job \<Rightarrow> bool" where
  "job_ok ts j \<longleftrightarrow> (\<forall>i < length (jo_drives j). place_ok (jo_steps j) (jo_drives j ! i) (ts i))
     \<and> (\<forall>i \<ge> length (jo_drives j). ts i = None)"

text \<open>
  What is still to be spawned is there once, has no task, and is queued or was cancelled since; and a
  queued drive without a task is to be spawned, unless a handler was dropped or the lock is poisoned.
\<close>

definition spawns_ok :: "'who worker \<Rightarrow> bool" where
  "spawns_ok w \<longleftrightarrow> distinct (to_spawn w)
     \<and> (\<forall>jid i. (jid, i) \<in> set (to_spawn w) \<longrightarrow> ws_tasks w (jid, i) = None
          \<and> (\<forall>j. ws_jobs w jid = Some j \<longrightarrow> i < length (jo_drives j) \<and> dj_state (jo_drives j ! i) \<in> {Queued, Cancelled}))"

definition queue_ok :: "'who worker \<Rightarrow> bool" where
  "queue_ok w \<longleftrightarrow> (\<forall>jid j i. ws_jobs w jid = Some j \<longrightarrow> i < length (jo_drives j) \<longrightarrow> dj_state (jo_drives j ! i) = Queued
     \<longrightarrow> ws_tasks w (jid, i) \<noteq> None \<or> (jid, i) \<in> set (to_spawn w) \<or> ws_lost w \<or> ws_poisoned w)"

definition worker_ok :: "worker_config \<Rightarrow> 'who worker \<Rightarrow> bool" where
  "worker_ok cfg w \<longleftrightarrow>
     (\<forall>jid j. ws_jobs w jid = Some j \<longrightarrow> job_ok (\<lambda>i. ws_tasks w (jid, i)) j)
     \<and> finite (dom (ws_jobs w)) \<and> finite (dom (ws_tasks w)) \<and> (\<forall>l. card (holders w l) \<le> permits cfg l)"

definition worker_inv :: "worker_config \<Rightarrow> 'who worker \<Rightarrow> bool" where
  "worker_inv cfg w \<longleftrightarrow> worker_ok cfg w \<and> spawns_ok w \<and> queue_ok w"

lemma to_spawn_cong [simp]: "to_spawn (ws_jobs_update f w) = to_spawn w" "to_spawn (ws_tasks_update g w) = to_spawn w"
  "to_spawn (ws_drives_update h w) = to_spawn w" "to_spawn (ws_poisoned_update b w) = to_spawn w" "to_spawn (ws_lost_update b w) = to_spawn w"
  by (simp_all add: to_spawn_def)

lemma to_spawn_handlers [simp]:
  "to_spawn (ws_handlers_update (\<lambda>_. hs @ [(jid, is)]) w) = to_spawn (ws_handlers_update (\<lambda>_. hs) w) @ map (Pair jid) is"
  "to_spawn (ws_handlers_update (\<lambda>_. []) w) = []"
  by (simp_all add: to_spawn_def)

lemma jobs_with_job:
  "with_job jid i f js jid' = (if jid' = jid then map_option (map_drive i f) (js jid) else js jid')"
  by (simp add: with_job_def split: option.split)

lemma map_drive_simps [simp]:
  "length (jo_drives (map_drive i f j)) = length (jo_drives j)" "jo_steps (map_drive i f j) = jo_steps j"
  "k < length (jo_drives j) \<Longrightarrow> jo_drives (map_drive i f j) ! k = (if k = i then f (jo_drives j ! k) else jo_drives j ! k)"
  by (simp_all add: map_drive_def nth_list_update)

lemma holders_update:
  "holders (w\<lparr>ws_jobs := js, ws_tasks := (ws_tasks w)(t := pc)\<rparr>) l
     = (if Option.bind pc holds_lane = Some l then insert t (holders w l) else holders w l - {t})"
  by (auto simp: holders_def)

lemma holders_finite: "finite (dom (ws_tasks w)) \<Longrightarrow> finite (holders w l)"
  by (rule finite_subset [of _ "dom (ws_tasks w)"]) (auto simp: holders_def split: Option.bind_splits)

text \<open>A task moves: what its new place asks of its drive of the job, and a permit for a lane it newly holds.\<close>

lemma move_ok:
  assumes ok: "worker_ok cfg w" and t: "ws_tasks w (jid, i) \<noteq> None"
    and place: "\<And>j. ws_jobs w jid = Some j \<Longrightarrow> i < length (jo_drives j)
        \<Longrightarrow> place_ok (jo_steps j) (jo_drives j ! i) (ws_tasks w (jid, i)) \<Longrightarrow> place_ok (jo_steps j) (f (jo_drives j ! i)) pc"
    and lane: "\<And>l. Option.bind pc holds_lane = Some l
        \<Longrightarrow> Option.bind (ws_tasks w (jid, i)) holds_lane = Some l \<or> card (holders w l) < permits cfg l"
  shows "worker_ok cfg (w\<lparr>ws_jobs := with_job jid i f (ws_jobs w), ws_tasks := (ws_tasks w)((jid, i) := pc)\<rparr>)"
proof -
  let ?w = "w\<lparr>ws_jobs := with_job jid i f (ws_jobs w), ws_tasks := (ws_tasks w)((jid, i) := pc)\<rparr>"
  have "job_ok (\<lambda>i'. ws_tasks ?w (jid', i')) j'" if "ws_jobs ?w jid' = Some j'" for jid' j'
  proof (cases "jid' = jid")
    case True
    with that obtain j where j: "ws_jobs w jid = Some j" "j' = map_drive i f j" by (auto simp: jobs_with_job)
    from ok j(1) have jo: "job_ok (\<lambda>i. ws_tasks w (jid, i)) j" by (auto simp: worker_ok_def)
    with t have "i < length (jo_drives j)" by (auto simp: job_ok_def not_le [symmetric])
    with jo place [OF j(1)] True j(2) show ?thesis by (auto simp: job_ok_def)
  next
    case False
    with that ok show ?thesis by (simp add: worker_ok_def jobs_with_job)
  qed
  moreover have fin: "finite (holders w l)" for l using ok holders_finite by (auto simp: worker_ok_def)
  have "card (holders ?w l) \<le> permits cfg l" for l
  proof (cases "Option.bind pc holds_lane = Some l")
    case True
    from lane [OF this] show ?thesis
    proof
      assume "Option.bind (ws_tasks w (jid, i)) holds_lane = Some l"
      then have "(jid, i) \<in> holders w l" by (simp add: holders_def)
      with ok True show ?thesis unfolding holders_update by (simp add: insert_absorb worker_ok_def)
    next
      assume "card (holders w l) < permits cfg l"
      with True fin [of l] show ?thesis
        unfolding holders_update by (simp add: card_insert_if)
    qed
  next
    case False
    have "card (holders w l - {(jid, i)}) \<le> card (holders w l)" by (rule card_Diff1_le)
    with ok False show ?thesis unfolding holders_update by (simp add: worker_ok_def) (meson le_trans)
  qed
  moreover have "finite (dom (ws_tasks ?w))" using ok by (simp add: worker_ok_def)
  moreover have "dom (with_job jid i f (ws_jobs w)) = dom (ws_jobs w)" by (auto simp: jobs_with_job split: if_splits)
  then have "finite (dom (ws_jobs ?w))" using ok by (simp add: worker_ok_def)
  ultimately show ?thesis unfolding worker_ok_def by blast
qed

lemma worker_job_ok: "worker_ok cfg w \<Longrightarrow> ws_jobs w jid = Some j \<Longrightarrow> job_ok (\<lambda>i. ws_tasks w (jid, i)) j"
  by (simp add: worker_ok_def)

lemma inv_job_ok: "worker_inv cfg w \<Longrightarrow> ws_jobs w jid = Some j \<Longrightarrow> job_ok (\<lambda>i. ws_tasks w (jid, i)) j"
  unfolding worker_inv_def using worker_job_ok by blast

lemma spawns_move:
  assumes "spawns_ok w" "ws_tasks w t \<noteq> None"
  shows "spawns_ok (w\<lparr>ws_jobs := with_job (fst t) (snd t) f (ws_jobs w), ws_tasks := (ws_tasks w)(t := pc)\<rparr>)"
proof -
  have "t \<notin> set (to_spawn w)" using assms by (cases t) (auto simp: spawns_ok_def)
  with assms(1) show ?thesis
    by (cases t) (fastforce simp: spawns_ok_def jobs_with_job split: if_splits)
qed

lemma queue_move:
  assumes "queue_ok w" "ws_tasks w t \<noteq> None"
    and "pc \<noteq> None \<or> (\<forall>j. ws_jobs w (fst t) = Some j \<longrightarrow> snd t < length (jo_drives j) \<longrightarrow> dj_state (f (jo_drives j ! snd t)) \<noteq> Queued)"
  shows "queue_ok (w\<lparr>ws_jobs := with_job (fst t) (snd t) f (ws_jobs w), ws_tasks := (ws_tasks w)(t := pc)\<rparr>)"
  unfolding queue_ok_def
proof (intro allI impI)
  fix jid j' i
  let ?w = "w\<lparr>ws_jobs := with_job (fst t) (snd t) f (ws_jobs w), ws_tasks := (ws_tasks w)(t := pc)\<rparr>"
  assume j': "ws_jobs ?w jid = Some j'" "i < length (jo_drives j')" "dj_state (jo_drives j' ! i) = Queued"
  show "ws_tasks ?w (jid, i) \<noteq> None \<or> (jid, i) \<in> set (to_spawn ?w) \<or> ws_lost ?w \<or> ws_poisoned ?w"
  proof (cases "(jid, i) = t")
    case True
    with j' assms(3) show ?thesis by (auto simp: jobs_with_job)
  next
    case False
    then have "\<exists>j. ws_jobs w jid = Some j \<and> i < length (jo_drives j) \<and> dj_state (jo_drives j ! i) = Queued"
      using j' by (cases t) (auto simp: jobs_with_job split: if_splits)
    with assms(1) False show ?thesis by (auto simp: queue_ok_def)
  qed
qed

lemma end_task_ok:
  assumes "worker_inv cfg w" "ws_tasks w t = Some pc"
    and "\<And>j. ws_jobs w (fst t) = Some j \<Longrightarrow> snd t < length (jo_drives j) \<Longrightarrow> record_ok (jo_steps j) (jo_drives j ! snd t)
        \<Longrightarrow> task_ok (jo_steps j) (jo_drives j ! snd t) pc
        \<Longrightarrow> record_ok (jo_steps j) (f (jo_drives j ! snd t)) \<and> dj_state (f (jo_drives j ! snd t)) \<noteq> Queued"
  shows "worker_inv cfg (end_task t f w)"
proof -
  have "worker_ok cfg w" "spawns_ok w" "queue_ok w" using assms(1) by (simp_all add: worker_inv_def)
  moreover have "dj_state (f (jo_drives j ! snd t)) \<noteq> Queued" if "ws_jobs w (fst t) = Some j" "snd t < length (jo_drives j)" for j
  proof -
    have "place_ok (jo_steps j) (jo_drives j ! snd t) (Some pc)"
      using worker_job_ok [OF \<open>worker_ok cfg w\<close> that(1)] that(2) assms(2) unfolding job_ok_def by (metis prod.collapse)
    with assms(3) [OF that] show ?thesis by (simp add: place_ok_def)
  qed
  ultimately show ?thesis
    using move_ok [of cfg w "fst t" "snd t" f None] spawns_move [of w t None f] queue_move [of w t None f] assms(2,3)
    by (simp add: worker_inv_def end_task_def place_ok_def)
qed

lemma go_on_ok:
  assumes "worker_inv cfg w" "ws_tasks w t = Some pc"
    and "\<And>j. ws_jobs w (fst t) = Some j \<Longrightarrow> snd t < length (jo_drives j) \<Longrightarrow> record_ok (jo_steps j) (jo_drives j ! snd t)
        \<Longrightarrow> task_ok (jo_steps j) (jo_drives j ! snd t) pc
        \<Longrightarrow> record_ok (jo_steps j) (f (jo_drives j ! snd t)) \<and> task_ok (jo_steps j) (f (jo_drives j ! snd t)) pc'"
    and "\<And>l. holds_lane pc' = Some l \<Longrightarrow> holds_lane pc = Some l \<or> card (holders w l) < permits cfg l"
  shows "worker_inv cfg (go_on t f pc' w)"
  using move_ok [of cfg w "fst t" "snd t" f "Some pc'"] spawns_move [of w t "Some pc'" f] queue_move [of w t "Some pc'" f] assms
  by (simp add: worker_inv_def go_on_def place_ok_def)

lemma death_ok:
  assumes "worker_inv cfg w" "ws_tasks w t \<noteq> None"
  shows "worker_inv cfg (w\<lparr>ws_tasks := (ws_tasks w)(t := None), ws_poisoned := True\<rparr>)"
proof -
  have same: "with_job jid i id (ws_jobs w) = ws_jobs w" for jid i
    by (rule ext) (auto simp: with_job_def map_drive_def split: option.split)
  have "worker_ok cfg (w\<lparr>ws_tasks := (ws_tasks w)(t := None)\<rparr>)" "spawns_ok (w\<lparr>ws_tasks := (ws_tasks w)(t := None)\<rparr>)"
    using assms move_ok [of cfg w "fst t" "snd t" id None] spawns_move [of w t None id]
    by (simp_all add: worker_inv_def same place_ok_def)
  then show ?thesis
    by (simp add: worker_inv_def worker_ok_def spawns_ok_def queue_ok_def holders_def)
qed

text \<open>What the steps do to a drive's record.\<close>

lemma record_ok_same:
  "dj_step dj' = dj_step dj \<Longrightarrow> dj_done dj' = dj_done dj \<Longrightarrow> record_ok steps dj' = record_ok steps dj"
  by (simp add: record_ok_def)

lemma record_ok_finish:
  assumes "record_ok steps dj" "dj_step dj < length steps" "s = steps ! dj_step dj"
    and "dj_step dj' = Suc (dj_step dj)" "dj_done dj' = dj_done dj @ [describe s @ '': '' @ line]"
  shows "record_ok steps dj'"
  using assms by (auto simp: record_ok_def take_Suc_conv_app_nth list_all2_append)

lemma drive_updates [simp]:
  "dj_state (done_drive now d) = Done" "dj_step (done_drive now d) = dj_step d" "dj_done (done_drive now d) = dj_done d"
  "dj_state (cancelled_drive now d) = Cancelled" "dj_step (cancelled_drive now d) = dj_step d" "dj_done (cancelled_drive now d) = dj_done d"
  "dj_state (fail_drive now why d) = JobFailed" "dj_step (fail_drive now why d) = dj_step d" "dj_done (fail_drive now why d) = dj_done d"
  "dj_state (interrupt_drive why d) = Interrupted" "dj_step (interrupt_drive why d) = dj_step d" "dj_done (interrupt_drive why d) = dj_done d"
  "dj_state (begin_step now s d) = Running" "dj_step (begin_step now s d) = dj_step d" "dj_done (begin_step now s d) = dj_done d"
  "dj_state (progress_drive p ph d) = dj_state d" "dj_step (progress_drive p ph d) = dj_step d" "dj_done (progress_drive p ph d) = dj_done d"
  "dj_destroy_named (begin_step now s d) = dj_destroy_named d" "dj_in_use_named (begin_step now s d) = dj_in_use_named d"
  "dj_destroy_named (progress_drive p ph d) = dj_destroy_named d" "dj_in_use_named (progress_drive p ph d) = dj_in_use_named d"
  by (simp_all add: done_drive_def cancelled_drive_def fail_drive_def interrupt_drive_def begin_step_def progress_drive_def Let_def)


lemma finish_updates [simp]:
  "dj_state (finish_step s line d) = dj_state d" "dj_step (finish_step s line d) = Suc (dj_step d)"
  "dj_done (finish_step s line d) = dj_done d @ [describe s @ '': '' @ line]"
  by (simp_all add: finish_step_def)

lemma watched_updates [simp]:
  "dj_state (watched_done now s n d) \<in> {Interrupted, Done}" "dj_step (watched_done now s n d) = Suc (dj_step d)"
  "dj_done (watched_done now s n d) = dj_done d @ [describe s @ '': '' @ ''finished while stormdrive was restarting (watched to the end)'']"
  by (simp_all add: watched_done_def Let_def)

text \<open>A change of one job, with the drives of it that a handler is to spawn.\<close>

lemma jobs_only_ok:
  assumes "worker_ok cfg w" "job_ok (\<lambda>i. ws_tasks w (jid, i)) j'"
  shows "worker_ok cfg (w\<lparr>ws_jobs := (ws_jobs w)(jid \<mapsto> j'), ws_handlers := hs\<rparr>)"
  using assms by (auto simp: worker_ok_def holders_def)

lemma submit_ok:
  assumes "submit_job rq cx ds jid now who op pol = Created j"
  shows "job_ok (\<lambda>_. None) j"
  using assms
  by (auto simp: submit_job_def Let_def request_job_def request_drive_def drive_job_for_def job_ok_def place_ok_def record_ok_def
      split: option.splits if_splits)

lemma submit_inv:
  assumes "worker_inv cfg w" "submit_job rq cx ds jid now who op pol = Created j" "ws_jobs w jid = None"
    "\<forall>i. ws_tasks w (jid, i) = None" "\<forall>i. (jid, i) \<notin> set (to_spawn w)"
  shows "worker_inv cfg (w\<lparr>ws_jobs := (ws_jobs w)(jid \<mapsto> j), ws_handlers := ws_handlers w @ [(jid, queued j)]\<rparr>)"
proof -
  have "distinct (map (Pair jid) (queued j))" by (simp add: queued_def distinct_map inj_on_def)
  then have "spawns_ok (w\<lparr>ws_jobs := (ws_jobs w)(jid \<mapsto> j), ws_handlers := ws_handlers w @ [(jid, queued j)]\<rparr>)"
    using assms(1,4,5) by (auto simp: worker_inv_def spawns_ok_def queued_def)
  moreover have "queue_ok (w\<lparr>ws_jobs := (ws_jobs w)(jid \<mapsto> j), ws_handlers := ws_handlers w @ [(jid, queued j)]\<rparr>)"
    using assms(1) by (auto simp: worker_inv_def queue_ok_def queued_def)
  ultimately show ?thesis using assms(1,4) submit_ok [OF assms(2)] by (simp add: worker_inv_def jobs_only_ok)
qed

lemma cancel_place: "place_ok steps dj pc \<Longrightarrow> place_ok steps (cancel_drive now dj) pc"
  by (cases pc; cases "the pc") (auto simp: place_ok_def cancel_drive_def record_ok_def)

lemma cancel_job_ok: "job_ok ts j \<Longrightarrow> job_ok ts (cancel_job now j)"
  by (auto simp: job_ok_def cancel_job_def intro: cancel_place)

lemma cancel_inv:
  assumes "worker_inv cfg w" "ws_jobs w jid = Some j"
  shows "worker_inv cfg (w\<lparr>ws_jobs := (ws_jobs w)(jid \<mapsto> cancel_job now j)\<rparr>)"
proof -
  have "worker_ok cfg (w\<lparr>ws_jobs := (ws_jobs w)(jid \<mapsto> cancel_job now j), ws_handlers := ws_handlers w\<rparr>)"
    using assms by (intro jobs_only_ok cancel_job_ok worker_job_ok) (auto simp: worker_inv_def)
  moreover have "dj_state (cancel_drive now d) \<noteq> Queued" "dj_state d \<in> {Queued, Cancelled} \<Longrightarrow> dj_state (cancel_drive now d) \<in> {Queued, Cancelled}" for d
    by (auto simp: cancel_drive_def)
  ultimately show ?thesis
    using assms by (auto simp: worker_inv_def spawns_ok_def queue_ok_def cancel_job_def)
qed

lemma no_task_interrupted: "place_ok steps dj pc \<Longrightarrow> dj_state dj = Interrupted \<Longrightarrow> pc = None"
  by (cases pc; cases "the pc") (auto simp: place_ok_def)

lemma resume_place:
  assumes "place_ok steps dj pc"
  shows "place_ok steps (resume_drive dj) pc"
  using assms no_task_interrupted [OF assms] by (auto simp: resume_drive_def place_ok_def record_ok_def)

lemma resume_inv:
  assumes inv: "worker_inv cfg w" "ws_jobs w jid = Some j" and r: "resume_job who j = (Inr is, j')"
  shows "worker_inv cfg (w\<lparr>ws_jobs := (ws_jobs w)(jid \<mapsto> j'), ws_handlers := ws_handlers w @ [(jid, is)]\<rparr>)"
proof -
  have j': "is = interrupted j" "jo_drives j' = map resume_drive (jo_drives j)" "jo_steps j' = jo_steps j"
    using r by (auto simp: resume_job_def Let_def split: if_splits)
  from inv have jo: "job_ok (\<lambda>i. ws_tasks w (jid, i)) j" by (rule inv_job_ok)
  then have "job_ok (\<lambda>i. ws_tasks w (jid, i)) j'" by (auto simp: job_ok_def j' intro: resume_place)
  then have "worker_ok cfg (w\<lparr>ws_jobs := (ws_jobs w)(jid \<mapsto> j'), ws_handlers := ws_handlers w @ [(jid, is)]\<rparr>)"
    using inv by (intro jobs_only_ok) (simp_all add: worker_inv_def)
  moreover have new: "i < length (jo_drives j) \<and> dj_state (jo_drives j ! i) = Interrupted \<and> ws_tasks w (jid, i) = None
      \<and> (jid, i) \<notin> set (to_spawn w)" if "i \<in> set is" for i
  proof -
    have i: "i < length (jo_drives j)" "dj_state (jo_drives j ! i) = Interrupted" using that by (auto simp: j' interrupted_def)
    with jo have "ws_tasks w (jid, i) = None" by (auto simp: job_ok_def dest!: no_task_interrupted)
    moreover have "(jid, i) \<notin> set (to_spawn w)"
    proof
      assume "(jid, i) \<in> set (to_spawn w)"
      moreover have "spawns_ok w" using inv by (simp add: worker_inv_def)
      ultimately have "dj_state (jo_drives j ! i) \<in> {Queued, Cancelled}" using inv(2) unfolding spawns_ok_def by blast
      with i(2) show False by simp
    qed
    ultimately show ?thesis using i by blast
  qed
  moreover have "distinct (map (Pair jid) is)" by (simp add: j' interrupted_def distinct_map inj_on_def)
  moreover have "dj_state (resume_drive d) \<in> {Queued, Cancelled}" if "dj_state d \<in> {Queued, Cancelled, Interrupted}" for d
    using that by (auto simp: resume_drive_def)
  ultimately have "spawns_ok (w\<lparr>ws_jobs := (ws_jobs w)(jid \<mapsto> j'), ws_handlers := ws_handlers w @ [(jid, is)]\<rparr>)"
    using inv by (fastforce simp: worker_inv_def spawns_ok_def j'(2))
  moreover have "queue_ok (w\<lparr>ws_jobs := (ws_jobs w)(jid \<mapsto> j'), ws_handlers := ws_handlers w @ [(jid, is)]\<rparr>)"
    using inv unfolding worker_inv_def queue_ok_def
    by (auto simp: j' interrupted_def resume_drive_def split: if_splits)
  ultimately show ?thesis using \<open>worker_ok cfg (w\<lparr>ws_jobs := _, ws_handlers := _\<rparr>)\<close> by (simp add: worker_inv_def)
qed

lemma refused_resume_inv:
  assumes "worker_inv cfg w" "ws_jobs w jid = Some j" "resume_job who j = (Inl e, j')"
  shows "worker_inv cfg (w\<lparr>ws_jobs := (ws_jobs w)(jid \<mapsto> j')\<rparr>)"
proof -
  have j': "jo_drives j' = jo_drives j" "jo_steps j' = jo_steps j"
    using assms(3) by (auto simp: resume_job_def Let_def split: if_splits)
  from assms(1,2) have "job_ok (\<lambda>i. ws_tasks w (jid, i)) j" by (rule inv_job_ok)
  then have "worker_ok cfg (w\<lparr>ws_jobs := (ws_jobs w)(jid \<mapsto> j'), ws_handlers := ws_handlers w\<rparr>)"
    using assms by (intro jobs_only_ok) (simp_all add: worker_inv_def job_ok_def j')
  with assms show ?thesis by (auto simp: worker_inv_def spawns_ok_def queue_ok_def j')
qed

text \<open>A handler spawns its tasks, or is dropped.\<close>

lemma to_spawn_split:
  assumes "ws_handlers w = hs @ (jid, is) # hs'"
  shows "set (to_spawn w) = set (to_spawn (w\<lparr>ws_handlers := hs @ hs'\<rparr>)) \<union> Pair jid ` set is
     \<and> (distinct (to_spawn w) \<longrightarrow> distinct (to_spawn (w\<lparr>ws_handlers := hs @ hs'\<rparr>))
          \<and> set (to_spawn (w\<lparr>ws_handlers := hs @ hs'\<rparr>)) \<inter> Pair jid ` set is = {})"
proof -
  obtain xs ys where "to_spawn w = xs @ map (Pair jid) is @ ys" "to_spawn (w\<lparr>ws_handlers := hs @ hs'\<rparr>) = xs @ ys"
    using assms by (simp add: to_spawn_def)
  then show ?thesis by auto
qed

lemma drops_inv:
  assumes "worker_inv cfg w" "ws_handlers w = hs @ (jid, is) # hs'"
  shows "worker_inv cfg (w\<lparr>ws_handlers := hs @ hs', ws_lost := True\<rparr>)"
  using assms to_spawn_split [OF assms(2)]
  by (auto simp: worker_inv_def worker_ok_def holders_def spawns_ok_def queue_ok_def)

lemma spawns_inv:
  assumes inv: "worker_inv cfg w" and h: "ws_handlers w = hs @ (jid, is) # hs'"
  shows "worker_inv cfg (w\<lparr>ws_handlers := hs @ hs', ws_tasks := spawn jid is (ws_tasks w)\<rparr>)"
proof -
  let ?w = "w\<lparr>ws_handlers := hs @ hs', ws_tasks := spawn jid is (ws_tasks w)\<rparr>"
  note split = to_spawn_split [OF h]
  have mine: "ws_tasks w (jid, i) = None"
    "ws_jobs w jid = Some j \<Longrightarrow> i < length (jo_drives j) \<and> dj_state (jo_drives j ! i) \<in> {Queued, Cancelled}"
    if "i \<in> set is" for i j
  proof -
    have "(jid, i) \<in> set (to_spawn w)" using split that by blast
    moreover have "spawns_ok w" using inv by (simp add: worker_inv_def)
    ultimately show "ws_tasks w (jid, i) = None"
      "ws_jobs w jid = Some j \<Longrightarrow> i < length (jo_drives j) \<and> dj_state (jo_drives j ! i) \<in> {Queued, Cancelled}"
      unfolding spawns_ok_def by blast+
  qed
  have "holders ?w l \<subseteq> holders w l" for l by (auto simp: holders_def spawn_def split: if_splits)
  then have "card (holders ?w l) \<le> card (holders w l)" for l
    using inv by (intro card_mono holders_finite) (simp_all add: worker_inv_def worker_ok_def)
  then have "card (holders ?w l) \<le> permits cfg l" for l using inv by (meson le_trans worker_inv_def worker_ok_def)
  moreover have "dom (spawn jid is (ws_tasks w)) \<subseteq> dom (ws_tasks w) \<union> Pair jid ` set is"
    by (auto simp: spawn_def split: if_splits)
  then have "finite (dom (spawn jid is (ws_tasks w)))"
    using inv by (auto simp: worker_inv_def worker_ok_def intro: finite_subset)
  moreover have "job_ok (\<lambda>i. ws_tasks ?w (jid2, i)) j2" if "ws_jobs w jid2 = Some j2" for jid2 j2
  proof (cases "jid2 = jid")
    case True
    have "job_ok (\<lambda>i. ws_tasks w (jid, i)) j2" using inv_job_ok [OF inv that] True by simp
    moreover have "i < length (jo_drives j2) \<and> dj_state (jo_drives j2 ! i) \<in> {Queued, Cancelled}" if "i \<in> set is" for i
      using mine(2) [OF that, of j2] \<open>ws_jobs w jid2 = Some j2\<close> True by simp
    ultimately show ?thesis using True by (fastforce simp: job_ok_def place_ok_def spawn_def)
  qed (use inv that in \<open>simp add: worker_inv_def worker_ok_def spawn_def\<close>)
  ultimately have "worker_ok cfg ?w" using inv by (simp add: worker_inv_def worker_ok_def)
  moreover have old: "spawns_ok w" "queue_ok w" using inv by (simp_all add: worker_inv_def)
  have others: "set (to_spawn ?w) \<subseteq> set (to_spawn w)" "set (to_spawn ?w) \<inter> Pair jid ` set is = {}" "distinct (to_spawn ?w)"
    using split old(1) by (auto simp: spawns_ok_def)
  have "spawns_ok ?w"
    unfolding spawns_ok_def
  proof (intro conjI allI impI)
    fix jid' i
    assume t: "(jid', i) \<in> set (to_spawn ?w)"
    with others have "(jid', i) \<in> set (to_spawn w)" "\<not> (jid' = jid \<and> i \<in> set is)" by auto
    with old(1) show "ws_tasks ?w (jid', i) = None" by (auto simp: spawns_ok_def spawn_def)
    fix j assume "ws_jobs ?w jid' = Some j"
    with old(1) \<open>(jid', i) \<in> set (to_spawn w)\<close>
    show "i < length (jo_drives j)" "dj_state (jo_drives j ! i) \<in> {Queued, Cancelled}"
      unfolding spawns_ok_def by simp_all
  qed (rule others(3))
  moreover have "queue_ok ?w"
    unfolding queue_ok_def
  proof (intro allI impI)
    fix jid' j i
    assume j: "ws_jobs ?w jid' = Some j" "i < length (jo_drives j)" "dj_state (jo_drives j ! i) = Queued"
    with old(2) have "ws_tasks w (jid', i) \<noteq> None \<or> (jid', i) \<in> set (to_spawn w) \<or> ws_lost w \<or> ws_poisoned w"
      by (simp add: queue_ok_def)
    moreover have "(jid', i) \<in> set (to_spawn ?w) \<or> jid' = jid \<and> i \<in> set is" if "(jid', i) \<in> set (to_spawn w)"
      using that split by auto
    ultimately show "ws_tasks ?w (jid', i) \<noteq> None \<or> (jid', i) \<in> set (to_spawn ?w) \<or> ws_lost ?w \<or> ws_poisoned ?w"
      by (auto simp: spawn_def)
  qed
  ultimately show ?thesis by (simp add: worker_inv_def)
qed

lemma recover_updates [simp]:
  "dj_step (recover_drive steps d) = dj_step d" "dj_done (recover_drive steps d) = dj_done d"
  by (simp_all add: recover_drive_def interrupt_drive_def split: recover.split)

lemma recover_state:
  "dj_state (recover_drive steps d) =
     (case recover_action d (if dj_step d < length steps then Some (steps ! dj_step d) else None) of
        Interrupt _ \<Rightarrow> Interrupted | _ \<Rightarrow> dj_state d)"
  by (simp add: recover_drive_def interrupt_drive_def split: recover.split)

lemma reattached_running: "recover_action d step = Reattach \<Longrightarrow> dj_state d = Running \<and> step \<noteq> None"
  by (cases step) (auto simp: recover_action_def split: dj_state.splits)

lemma recover_place:
  assumes "place_ok steps d pc"
  shows "place_ok steps (recover_drive steps d)
    (if reattached steps d then Some (Watching (dj_step d) (steps ! dj_step d)) else None)"
proof (cases "reattached steps d")
  case True
  from reattached_running [OF True [unfolded reattached_def]]
  have "dj_state d = Running" "dj_step d < length steps" by (auto split: if_splits)
  moreover from True calculation have "dj_state (recover_drive steps d) = Running"
    by (simp add: recover_state reattached_def)
  ultimately show ?thesis using assms True by (simp add: place_ok_def record_ok_def)
next
  case False
  with assms show ?thesis by (simp add: place_ok_def record_ok_def)
qed

lemma recover_ok:
  assumes "job_ok ts j" "js jid = Some j"
  shows "job_ok (\<lambda>i. watchers js (jid, i)) (recover_job j)"
  unfolding job_ok_def
proof (intro conjI allI impI)
  fix i assume i: "i < length (jo_drives (recover_job j))"
  then have "place_ok (jo_steps j) (jo_drives j ! i) (ts i)" using assms(1) by (simp add: job_ok_def recover_job_def)
  from recover_place [OF this] i assms(2)
  show "place_ok (jo_steps (recover_job j)) (jo_drives (recover_job j) ! i) (watchers js (jid, i))"
    by (simp add: recover_job_def watchers_def split: if_splits)
qed (simp add: assms(2) recover_job_def watchers_def)


lemma drives_ok [simp]: "worker_inv cfg (w\<lparr>ws_drives := ds\<rparr>) = worker_inv cfg w"
  by (simp add: worker_inv_def worker_ok_def spawns_ok_def queue_ok_def holders_def)

lemma forget_ok: "worker_inv cfg w \<Longrightarrow> worker_inv cfg (w\<lparr>ws_jobs := (ws_jobs w)(jid := None)\<rparr>)"
  by (simp add: worker_inv_def worker_ok_def spawns_ok_def queue_ok_def holders_def)

lemma watchers_lane [simp]: "Option.bind (watchers js t) holds_lane = None"
  by (simp add: watchers_def split: option.split)

lemma watchers_finite:
  assumes "finite (dom js)"
  shows "finite (dom (watchers js))"
proof (rule finite_subset)
  show "dom (watchers js) \<subseteq> (SIGMA jid : dom js. {..< length (jo_drives (the (js jid)))})"
    by (auto simp: watchers_def split: option.splits if_splits)
qed (use assms in simp)

lemma dom_recovered: "dom (\<lambda>jid. map_option f (js jid)) = dom js"
  by auto

lemma recovered_not_queued: "dj_state (recover_drive steps d) \<noteq> Queued"
  by (cases "dj_state d") (simp_all add: recover_state recover_action_def split: recover.split)

lemma restart_ok:
  assumes "worker_inv cfg w"
  shows "worker_inv cfg (w\<lparr>ws_jobs := (\<lambda>jid. map_option recover_job (ws_jobs w jid)), ws_tasks := watchers (ws_jobs w),
      ws_drives := ds, ws_handlers := [], ws_poisoned := False, ws_lost := False\<rparr>)"
  using assms
  by (auto simp: worker_inv_def worker_ok_def spawns_ok_def queue_ok_def holders_def dom_recovered recover_job_def [of "the _"]
      recovered_not_queued intro: recover_ok watchers_finite) (auto simp: recover_job_def recovered_not_queued)

lemma record_ok_updates [simp]:
  "record_ok steps (done_drive now d) = record_ok steps d" "record_ok steps (cancelled_drive now d) = record_ok steps d"
  "record_ok steps (fail_drive now why d) = record_ok steps d" "record_ok steps (interrupt_drive why d) = record_ok steps d"
  "record_ok steps (begin_step now s d) = record_ok steps d" "record_ok steps (progress_drive p ph d) = record_ok steps d"
  by (simp_all add: record_ok_def)

lemma steps_taken:
  assumes "record_ok steps d" "dj_step d < length steps"
  shows "record_ok steps (finish_step (steps ! dj_step d) line d)"
    and "record_ok steps (watched_done now (steps ! dj_step d) n d)"
  using record_ok_finish [OF assms refl] by auto

lemma watched_state: "dj_state (watched_done now s n d) \<noteq> Queued"
  by (simp add: watched_done_def Let_def)

theorem worker_step_ok:
  assumes "worker_step cfg w w'" "worker_inv cfg w"
  shows "worker_inv cfg w'"
  using assms
proof (cases rule: worker_step.cases)
  case submit
  show ?thesis unfolding submit(1) using assms(2) submit(3-6) by (rule submit_inv)
next
  case cancel
  show ?thesis unfolding cancel(1) using assms(2) cancel(3) by (rule cancel_inv)
next
  case resume
  show ?thesis unfolding resume(1) using assms(2) resume(3,4) by (rule resume_inv)
next
  case refused_resume
  show ?thesis unfolding refused_resume(1) using assms(2) refused_resume(3,4) by (rule refused_resume_inv)
next
  case spawns
  show ?thesis unfolding spawns(1) using assms(2) spawns(2) by (rule spawns_inv)
next
  case drops
  show ?thesis unfolding drops(1) using assms(2) drops(2) by (rule drops_inv)
next
  case keep
  show ?thesis unfolding keep(1) using assms(2) by (rule forget_ok)
next
  case others
  with assms(2) show ?thesis by simp
next
  case restarts
  show ?thesis unfolding restarts(1) using assms(2) by (rule restart_ok)
next
  case looks
  show ?thesis unfolding looks(1) by (rule go_on_ok [OF assms(2) looks(3)]) auto
next
  case (gone t l n)
  then obtain pc where "ws_tasks w t = Some pc" by auto
  from end_task_ok [OF assms(2) this] gone show ?thesis by simp
next
  case panics
  show ?thesis unfolding panics(1) by (rule death_ok [OF assms(2)]) (simp add: panics)
next
  case (dies t)
  then have "ws_poisoned_update (\<lambda>_. True) w = w" by simp
  with death_ok [OF assms(2) dies(3)] dies show ?thesis
    by (cases w) simp
next
  case stops
  show ?thesis unfolding stops(1) by (rule end_task_ok [OF assms(2) stops(3)]) (use stops in \<open>auto simp: at_work_def\<close>)
next
  case completes
  show ?thesis unfolding completes(1) by (rule end_task_ok [OF assms(2) completes(3)]) (use completes in \<open>auto\<close>)
next
  case sees_cancel
  show ?thesis unfolding sees_cancel(1) by (rule end_task_ok [OF assms(2) sees_cancel(3)]) (use sees_cancel in \<open>auto\<close>)
next
  case lost
  show ?thesis unfolding lost(1) by (rule end_task_ok [OF assms(2) lost(3)]) (use lost in \<open>auto\<close>)
next
  case refuses
  show ?thesis unfolding refuses(1) by (rule end_task_ok [OF assms(2) refuses(3)]) (use refuses in \<open>auto\<close>)
next
  case denied
  show ?thesis unfolding denied(1) by (rule end_task_ok [OF assms(2) denied(3)]) (use denied in \<open>auto\<close>)
next
  case unavailable
  show ?thesis unfolding unavailable(1) by (rule end_task_ok [OF assms(2) unavailable(3)]) (use unavailable in \<open>auto\<close>)
next
  case fails
  show ?thesis unfolding fails(1) by (rule end_task_ok [OF assms(2) fails(3)]) (use fails in \<open>auto\<close>)
next
  case watch_fails
  show ?thesis unfolding watch_fails(1) by (rule end_task_ok [OF assms(2) watch_fails(3)]) (use watch_fails in \<open>auto\<close>)
next
  case watch_lost
  show ?thesis unfolding watch_lost(1) by (rule end_task_ok [OF assms(2) watch_lost(2)]) (use watch_lost in \<open>auto\<close>)
next
  case watched
  show ?thesis unfolding watched(1) by (rule end_task_ok [OF assms(2) watched(3)]) (use watched in \<open>auto simp: steps_taken watched_state\<close>)
next
  case waits
  show ?thesis unfolding waits(1) by (rule go_on_ok [OF assms(2) waits(3)]) (use waits in \<open>auto simp: at_step_def at_work_def\<close>)
next
  case acquires
  show ?thesis unfolding acquires(1) by (rule go_on_ok [OF assms(2) acquires(2)]) (use acquires in \<open>auto\<close>)
next
  case passes
  show ?thesis unfolding passes(1) by (rule go_on_ok [OF assms(2) passes(3)]) (use passes in \<open>auto\<close>)
next
  case starts
  show ?thesis unfolding starts(1) by (rule go_on_ok [OF assms(2) starts(3)]) (use starts in \<open>auto\<close>)
next
  case progress
  show ?thesis unfolding progress(1) by (rule go_on_ok [OF assms(2) progress(3)]) (use progress in \<open>auto\<close>)
next
  case finishes
  show ?thesis unfolding finishes(1) by (rule go_on_ok [OF assms(2) finishes(3)]) (use finishes in \<open>auto simp: steps_taken\<close>)
qed


lemma worker_reach_inv: "worker_reach cfg w \<Longrightarrow> worker_inv cfg w"
proof (induction rule: worker_reach.induct)
  case (empty drives)
  then show ?case by (simp add: worker_inv_def worker_ok_def spawns_ok_def queue_ok_def holders_def to_spawn_def)
next
  case (step w w')
  then show ?case using worker_step_ok by blast
qed

lemma worker_reach_ok: "worker_reach cfg w \<Longrightarrow> worker_ok cfg w"
  using worker_reach_inv unfolding worker_inv_def by blast

section \<open>Cancelling a drive that waits for its turn\<close>

lemma waiting_starts:
  assumes task: "ws_tasks w (jid, i) = Some (Waiting l n)" "\<not> ws_poisoned w"
    and job: "ws_jobs w jid = Some j" "i < length (jo_drives j)" "jo_requester j = Some who"
    and free: "card (holders w l) < permits cfg l"
    and drive: "ws_drives w (dj_drive (jo_drives j ! i)) = Some d"
      "worker_guard d (drop n (jo_steps j)) (dj_destroy_named (jo_drives j ! i)) (cx\<lparr>cx_in_use_named := dj_in_use_named (jo_drives j ! i)\<rparr>) = None"
  shows "\<exists>w'. (worker_step cfg)\<^sup>*\<^sup>* w w' \<and> ws_tasks w' (jid, i) = Some (InStep l n (jo_steps j ! n) d who) \<and> \<not> ws_poisoned w'
    \<and> ws_jobs w' jid = Some (map_drive i (begin_step now (jo_steps j ! n)) j)"
proof -
  let ?w1 = "go_on (jid, i) id (Holding l n) w"
  let ?w2 = "go_on (jid, i) id (Guarded l n (jo_steps j ! n) d who) ?w1"
  let ?w3 = "go_on (jid, i) (begin_step now (jo_steps j ! n)) (InStep l n (jo_steps j ! n) d who) ?w2"
  have "map_drive i id j = j" using job(2) by (simp add: map_drive_def)
  then have jobs: "ws_jobs ?w1 jid = Some j" "ws_jobs ?w3 jid = Some (map_drive i (begin_step now (jo_steps j ! n)) j)"
    using job by (simp_all add: go_on_def jobs_with_job)
  have ok: "\<not> ws_poisoned ?w1" "\<not> ws_poisoned ?w2" "\<not> ws_poisoned ?w3" using task(2) by (simp_all add: go_on_def)
  have "worker_step cfg w ?w1" using task(1) free by (rule worker_step.acquires)
  moreover have "worker_step cfg ?w1 ?w2"
    using jobs(1) job drive ok(1) worker_step.passes [of ?w1 jid i l n j d cx who cfg] by (simp add: go_on_def)
  moreover have "worker_step cfg ?w2 ?w3" by (rule worker_step.starts [OF ok(2)]) (simp add: go_on_def)
  ultimately have "(worker_step cfg)\<^sup>*\<^sup>* w ?w3" by (meson r_into_rtranclp rtranclp.rtrancl_into_rtrancl)
  moreover have "ws_tasks ?w3 (jid, i) = Some (InStep l n (jo_steps j ! n) d who)" by (simp add: go_on_def)
  ultimately show ?thesis using jobs(2) ok(3) by blast
qed

text \<open>
  C31.cancel_does_not_stop_waiting. A drive that is still queued because its task waits for a permit is
  marked cancelled by a cancel, and yet, once there is a permit, the guard passes and the requester is
  allowed, its step is started: the flag is read only before the wait, and the cancelled state is
  overwritten by running.
\<close>

theorem cancel_does_not_stop_waiting:
  assumes task: "ws_tasks w (jid, i) = Some (Waiting l n)" "\<not> ws_poisoned w"
    and job: "ws_jobs w jid = Some j" "i < length (jo_drives j)" "dj_state (jo_drives j ! i) = Queued" "jo_requester j = Some who"
    and free: "card (holders w l) < permits cfg l"
    and drive: "ws_drives w (dj_drive (jo_drives j ! i)) = Some d"
      "worker_guard d (drop n (jo_steps j)) (dj_destroy_named (jo_drives j ! i)) (cx\<lparr>cx_in_use_named := dj_in_use_named (jo_drives j ! i)\<rparr>) = None"
  shows "\<exists>wc w' j'. worker_step cfg w wc \<and> ws_jobs wc jid = Some (cancel_job now j)
    \<and> dj_state (jo_drives (cancel_job now j) ! i) = Cancelled
    \<and> (worker_step cfg)\<^sup>*\<^sup>* wc w' \<and> ws_tasks w' (jid, i) = Some (InStep l n (jo_steps j ! n) d who)
    \<and> ws_jobs w' jid = Some j' \<and> jo_cancel j' \<and> dj_state (jo_drives j' ! i) = Running"
proof -
  let ?wc = "w\<lparr>ws_jobs := (ws_jobs w)(jid \<mapsto> cancel_job now j)\<rparr>"
  let ?j' = "map_drive i (begin_step now (jo_steps j ! n)) (cancel_job now j)"
  have cj: "dj_state (jo_drives (cancel_job now j) ! i) = Cancelled" "jo_steps (cancel_job now j) = jo_steps j"
    "jo_requester (cancel_job now j) = Some who" "i < length (jo_drives (cancel_job now j))"
    "dj_drive (jo_drives (cancel_job now j) ! i) = dj_drive (jo_drives j ! i)"
    "dj_destroy_named (jo_drives (cancel_job now j) ! i) = dj_destroy_named (jo_drives j ! i)"
    "dj_in_use_named (jo_drives (cancel_job now j) ! i) = dj_in_use_named (jo_drives j ! i)" "jo_cancel (cancel_job now j)"
    using job by (simp_all add: cancel_job_def cancel_drive_def)
  have "ws_tasks ?wc (jid, i) = Some (Waiting l n)" "\<not> ws_poisoned ?wc" "card (holders ?wc l) < permits cfg l"
    using task free by (simp_all add: holders_def)
  from waiting_starts [OF this(1,2), of "cancel_job now j" who cfg d cx now] this(3) drive cj
  obtain w' where "(worker_step cfg)\<^sup>*\<^sup>* ?wc w'" "ws_tasks w' (jid, i) = Some (InStep l n (jo_steps j ! n) d who)"
    "ws_jobs w' jid = Some ?j'" by auto
  moreover have "worker_step cfg w ?wc" using task(2) job(1) by (rule worker_step.cancel)
  moreover have "ws_jobs ?wc jid = Some (cancel_job now j)" by simp
  moreover have "jo_cancel ?j'" "dj_state (jo_drives ?j' ! i) = Running" using cj by (simp_all add: map_drive_def)
  ultimately show ?thesis using cj(1) by blast
qed

text \<open>One drive, one job, one lane: the drive's task comes to wait.\<close>

definition demo_steps :: "step list" where "demo_steps = [Format 4096 NoPi]"

definition demo_request :: request where
  "demo_request = \<lparr>rq_select = \<lparr>se_drives = [], se_shelf = None, se_bays = None, se_model = None, se_unusable = False\<rparr>,
     rq_steps = demo_steps, rq_destroy = [], rq_i_know_in_use = [], rq_dry_run = False\<rparr>"

definition demo_config :: worker_config where
  "demo_config = \<lparr>wc_max_per_hba = 1, wc_enroll_per_domain = 1\<rparr>"

definition demo_job :: "string job" where
  "demo_job = request_job demo_request (\<lambda>_. blank_context) [good_drive] ''j1'' 0 (Some ''admin'') None None"

definition demo_submitted :: "string worker" where
  "demo_submitted = \<lparr>ws_jobs = [''j1'' \<mapsto> demo_job], ws_tasks = [(''j1'', 0) \<mapsto> AtTop], ws_drives = [d_id good_drive \<mapsto> good_drive],
     ws_handlers = [], ws_poisoned = False, ws_lost = False\<rparr>"

definition demo_lane :: lane where "demo_lane = HbaLane (hba_key good_drive)"

definition demo_waiting :: "string worker" where
  "demo_waiting = go_on (''j1'', 0) (progress_drive None ''waiting'') (Waiting demo_lane 0) demo_submitted"

lemma demo_guard: "worker_guard good_drive demo_steps False (blank_context\<lparr>cx_in_use_named := False\<rparr>) = None"
  using prepare_passes unfolding worker_guard_None in_use_blocker_None destroy_blocker_None
  by (simp add: demo_steps_def prepare_def blank_context_def)

lemma demo_drive: "jo_drives demo_job = [drive_job_for good_drive False False None]" "jo_steps demo_job = demo_steps"
  "jo_requester demo_job = Some ''admin''" "\<not> jo_cancel demo_job"
  using demo_guard by (simp_all add: demo_job_def request_job_def request_drive_def demo_request_def named_for_destroy_def Let_def)

lemma demo_for [simp]: "dj_state (drive_job_for d n u None) = Queued" "dj_step (drive_job_for d n u v) = 0"
  "dj_drive (drive_job_for d n u v) = d_id d" "dj_destroy_named (drive_job_for d n u v) = n"
  "dj_in_use_named (drive_job_for d n u v) = u"
  by (simp_all add: drive_job_for_def)

lemma demo_submit: "submit_job demo_request (\<lambda>_. blank_context) [good_drive] ''j1'' 0 (Some ''admin'') None None = Created demo_job"
proof -
  have "validate_steps demo_steps = None" by code_simp
  then show ?thesis
    using demo_drive by (simp add: submit_job_def demo_request_def demo_job_def [symmetric, unfolded demo_request_def] queued_def)
qed

lemma demo_submitted_reach: "worker_reach demo_config demo_submitted"
proof -
  let ?w = "\<lambda>js ts hs. \<lparr>ws_jobs = js, ws_tasks = ts, ws_drives = [d_id good_drive \<mapsto> good_drive], ws_handlers = hs,
      ws_poisoned = False, ws_lost = False\<rparr> :: string worker"
  have q: "queued demo_job = [0]" by (simp add: queued_def demo_drive)
  have sp: "spawn ''j1'' [0] Map.empty = [(''j1'', 0) \<mapsto> Fresh :: string task]" by (auto simp: spawn_def)
  have same: "map_drive 0 id demo_job = demo_job" by (simp add: map_drive_def)
  have "worker_step demo_config (?w Map.empty Map.empty []) (?w [''j1'' \<mapsto> demo_job] Map.empty [(''j1'', [0])])"
    using worker_step.submit [of "?w Map.empty Map.empty []", OF _ demo_submit] by (simp add: q to_spawn_def)
  moreover have "worker_step demo_config (?w [''j1'' \<mapsto> demo_job] Map.empty [(''j1'', [0])]) (?w [''j1'' \<mapsto> demo_job] [(''j1'', 0) \<mapsto> Fresh] [])"
    using worker_step.spawns [of "?w [''j1'' \<mapsto> demo_job] Map.empty [(''j1'', [0])]" "[]" "''j1''" "[0]" "[]"] by (simp add: sp)
  moreover have "worker_step demo_config (?w [''j1'' \<mapsto> demo_job] [(''j1'', 0) \<mapsto> Fresh] []) demo_submitted"
    using worker_step.looks [of "?w [''j1'' \<mapsto> demo_job] [(''j1'', 0) \<mapsto> Fresh] []" "(''j1'', 0)"]
    by (simp add: go_on_def with_job_def same demo_submitted_def)
  moreover have "worker_reach demo_config (?w Map.empty Map.empty [])" by (rule worker_reach.empty)
  ultimately show ?thesis using worker_reach.step by blast
qed

lemma demo_waiting_reach: "worker_reach demo_config demo_waiting"
proof -
  have "at_step demo_submitted ''j1'' 0 demo_job"
    by (simp add: at_step_def at_work_def demo_submitted_def demo_drive demo_steps_def)
  moreover have "step_lane (jo_steps demo_job ! 0) good_drive = demo_lane"
    by (simp add: demo_lane_def demo_drive demo_steps_def step_lane_def low_level_def)
  ultimately have "worker_step demo_config demo_submitted demo_waiting"
    using worker_step.waits [of demo_submitted "''j1''" 0 demo_job good_drive 0 demo_config "''waiting''"]
    by (simp add: demo_waiting_def demo_submitted_def demo_drive)
  with demo_submitted_reach show ?thesis by (rule worker_reach.step)
qed


lemma demo_place:
  "ws_tasks demo_waiting (''j1'', 0) = Some (Waiting demo_lane 0)" "card (holders demo_waiting demo_lane) < permits demo_config demo_lane"
  "ws_drives demo_waiting (d_id good_drive) = Some good_drive" "\<not> ws_poisoned demo_waiting" "\<not> ws_lost demo_waiting"
  "to_spawn demo_waiting = []"
  by (simp_all add: to_spawn_def demo_waiting_def demo_submitted_def go_on_def holders_def demo_lane_def permits_def)

lemma demo_waiting_job:
  obtains j where "ws_jobs demo_waiting ''j1'' = Some j" "length (jo_drives j) = 1" "dj_state (jo_drives j ! 0) = Queued"
    "jo_requester j = Some ''admin''" "dj_drive (jo_drives j ! 0) = d_id good_drive" "jo_steps j = demo_steps"
    "\<not> dj_destroy_named (jo_drives j ! 0)" "\<not> dj_in_use_named (jo_drives j ! 0)"
proof
  show "ws_jobs demo_waiting ''j1'' = Some (map_drive 0 (progress_drive None ''waiting'') demo_job)"
    by (simp add: demo_waiting_def go_on_def jobs_with_job demo_submitted_def)
qed (simp_all add: map_drive_def demo_drive progress_drive_def)

lemma cancel_does_not_stop_waiting_witness:
  "\<exists>w :: string worker. worker_reach demo_config w \<and> (\<exists>wc w' j' s d who. worker_step demo_config w wc
     \<and> (\<exists>jc. ws_jobs wc ''j1'' = Some jc \<and> dj_state (jo_drives jc ! 0) = Cancelled)
     \<and> (worker_step demo_config)\<^sup>*\<^sup>* wc w' \<and> ws_tasks w' (''j1'', 0) = Some (InStep demo_lane 0 s d who) \<and> destroys_data s
     \<and> ws_jobs w' ''j1'' = Some j' \<and> jo_cancel j')"
proof -
  obtain j where j: "ws_jobs demo_waiting ''j1'' = Some j" "length (jo_drives j) = 1" "dj_state (jo_drives j ! 0) = Queued"
    "jo_requester j = Some ''admin''" "dj_drive (jo_drives j ! 0) = d_id good_drive" "jo_steps j = demo_steps"
    "\<not> dj_destroy_named (jo_drives j ! 0)" "\<not> dj_in_use_named (jo_drives j ! 0)" by (rule demo_waiting_job)
  have guard: "worker_guard good_drive (drop 0 (jo_steps j)) (dj_destroy_named (jo_drives j ! 0))
      (blank_context\<lparr>cx_in_use_named := dj_in_use_named (jo_drives j ! 0)\<rparr>) = None"
    using demo_guard j by simp
  have "ws_drives demo_waiting (dj_drive (jo_drives j ! 0)) = Some good_drive" "0 < length (jo_drives j)"
    using demo_place j by simp_all
  from cancel_does_not_stop_waiting [OF demo_place(1,4) j(1) this(2) j(3,4) demo_place(2) this(1) guard]
  obtain wc w' j' where "worker_step demo_config demo_waiting wc" "ws_jobs wc ''j1'' = Some (cancel_job 0 j)"
    "dj_state (jo_drives (cancel_job 0 j) ! 0) = Cancelled" "(worker_step demo_config)\<^sup>*\<^sup>* wc w'"
    "ws_tasks w' (''j1'', 0) = Some (InStep demo_lane 0 (jo_steps j ! 0) good_drive ''admin'')"
    "ws_jobs w' ''j1'' = Some j'" "jo_cancel j'" by blast
  moreover have "destroys_data (jo_steps j ! 0)" using j(6) by (simp add: demo_steps_def)
  ultimately show ?thesis using demo_waiting_reach by blast
qed

section \<open>What holds in every state\<close>



section \<open>A restart between the last step and its record\<close>

text \<open>
  A drive whose last step is taken is recorded so, and saved, before it is marked done. A restart between
  the two leaves it running with no step left, and no task: nothing the worker does afterwards changes it.
\<close>

definition stranded :: "string \<Rightarrow> nat \<Rightarrow> 'who worker \<Rightarrow> bool" where
  "stranded jid i w \<longleftrightarrow> (\<exists>j. ws_jobs w jid = Some j \<and> i < length (jo_drives j) \<and> dj_state (jo_drives j ! i) = Running
     \<and> dj_step (jo_drives j ! i) = length (jo_steps j)) \<and> ws_tasks w (jid, i) = None \<and> (jid, i) \<notin> set (to_spawn w)"


lemma stranded_move:
  assumes "stranded jid i w" "ws_tasks w t \<noteq> None"
  shows "stranded jid i (end_task t f w)" "stranded jid i (go_on t f pc w)"
proof -
  have t: "t \<noteq> (jid, i)" using assms by (auto simp: stranded_def)
  have "\<exists>j. with_job (fst t) (snd t) f (ws_jobs w) jid = Some j \<and> i < length (jo_drives j) \<and> dj_state (jo_drives j ! i) = Running
      \<and> dj_step (jo_drives j ! i) = length (jo_steps j)"
    using assms t by (cases t) (auto simp: stranded_def jobs_with_job)
  with assms t show "stranded jid i (end_task t f w)" "stranded jid i (go_on t f pc w)"
    by (auto simp: stranded_def end_task_def go_on_def)
qed

lemma stranded_step:
  assumes "stranded jid i w" "worker_step cfg w w'"
  shows "stranded jid i w'"
proof -
  obtain j where j: "ws_jobs w jid = Some j" "i < length (jo_drives j)" "dj_state (jo_drives j ! i) = Running"
      "dj_step (jo_drives j ! i) = length (jo_steps j)" "ws_tasks w (jid, i) = None"
    using assms(1) by (auto simp: stranded_def)
  from assms(2) show ?thesis
  proof (cases rule: worker_step.cases)
    case submit
    with assms(1) show ?thesis by (auto simp: stranded_def)
  next
    case (spawns hs jid' "is" hs')
    have "(jid, i) \<notin> set (to_spawn w)" using assms(1) by (simp add: stranded_def)
    with assms(1) spawns to_spawn_split [OF spawns(2)] show ?thesis by (auto simp: stranded_def spawn_def)
  next
    case (drops hs jid' "is" hs')
    have "(jid, i) \<notin> set (to_spawn w)" using assms(1) by (simp add: stranded_def)
    with assms(1) drops to_spawn_split [OF drops(2)] show ?thesis by (auto simp: stranded_def)
  next
    case panics
    with assms(1) show ?thesis by (auto simp: stranded_def)
  next
    case dies
    with assms(1) show ?thesis by (auto simp: stranded_def)
  next
    case cancel
    with assms(1) j show ?thesis by (auto simp: stranded_def cancel_job_def cancel_drive_def)
  next
    case resume
    with assms(1) j show ?thesis
      by (auto simp: stranded_def resume_job_def Let_def interrupted_def resume_drive_def split: if_splits)
  next
    case refused_resume
    with assms(1) j show ?thesis by (auto simp: stranded_def resume_job_def Let_def split: if_splits)
  next
    case keep
    with assms(1) j show ?thesis by (auto simp: stranded_def job_finished_def dj_finished_def list_all_length)
  next
    case others
    with assms(1) show ?thesis by (simp add: stranded_def)
  next
    case restarts
    have "recover_drive (jo_steps j) (jo_drives j ! i) = jo_drives j ! i" "\<not> reattached (jo_steps j) (jo_drives j ! i)"
      using j by (simp_all add: recover_drive_def recover_action_def reattached_def)
    with restarts j show ?thesis by (simp add: stranded_def recover_job_def watchers_def)
  qed (use assms(1) in \<open>auto intro!: stranded_move\<close>)
qed

text \<open>
  C32.stranded_forever. A drive left running with all its steps taken, and no task (the worker reaches
  such a state: its last step is recorded and saved before the drive is marked done, and a restart comes
  between), stays so through every submission, cancel, resume and further restart: the job never
  finishes and is never dropped, and its drive counts as busy.
\<close>

theorem stranded_forever:
  assumes "stranded jid i w" "(worker_step cfg)\<^sup>*\<^sup>* w w'"
  shows "stranded jid i w' \<and> (\<exists>j. ws_jobs w' jid = Some j \<and> \<not> job_finished j)"
proof -
  from assms(2,1) have "stranded jid i w'" by (induction rule: rtranclp_induct) (auto intro: stranded_step)
  then show ?thesis by (auto simp: stranded_def job_finished_def dj_finished_def list_all_length)
qed

lemma restart_strands:
  assumes "ws_tasks w (jid, i) = Some AtTop" "ws_jobs w jid = Some j" "i < length (jo_drives j)" "dj_state (jo_drives j ! i) = Running"
    "dj_step (jo_drives j ! i) = length (jo_steps j)"
  shows "\<exists>w'. worker_step cfg w w' \<and> stranded jid i w'"
proof (intro exI conjI)
  have "recover_drive (jo_steps j) (jo_drives j ! i) = jo_drives j ! i" "\<not> reattached (jo_steps j) (jo_drives j ! i)"
    using assms by (simp_all add: recover_drive_def recover_action_def reattached_def)
  with assms show "stranded jid i (w\<lparr>ws_jobs := (\<lambda>jid. map_option recover_job (ws_jobs w jid)), ws_tasks := watchers (ws_jobs w),
      ws_drives := ws_drives w, ws_handlers := [], ws_poisoned := False, ws_lost := False\<rparr>)"
    by (simp add: stranded_def recover_job_def watchers_def to_spawn_def)
qed (rule worker_step.restarts)

lemma reach_steps: "(worker_step cfg)\<^sup>*\<^sup>* w w' \<Longrightarrow> worker_reach cfg w \<Longrightarrow> worker_reach cfg w'"
  by (induction rule: rtranclp_induct) (auto intro: worker_reach.step)

lemma demo_stranded:
  obtains w :: "string worker" where "worker_reach demo_config w" "stranded ''j1'' 0 w"
proof -
  obtain j where j: "ws_jobs demo_waiting ''j1'' = Some j" "length (jo_drives j) = 1" "dj_state (jo_drives j ! 0) = Queued"
    "jo_requester j = Some ''admin''" "dj_drive (jo_drives j ! 0) = d_id good_drive" "jo_steps j = demo_steps"
    "\<not> dj_destroy_named (jo_drives j ! 0)" "\<not> dj_in_use_named (jo_drives j ! 0)" by (rule demo_waiting_job)
  have r: "dj_step (jo_drives j ! 0) = 0"
    using worker_job_ok [OF worker_reach_ok [OF demo_waiting_reach] j(1)] j(2) demo_place(1) by (simp add: job_ok_def place_ok_def)
  from waiting_starts [OF demo_place(1,4) j(1) _ j(4) demo_place(2), of good_drive blank_context 0] demo_guard demo_place(3) j
  obtain w where w: "(worker_step demo_config)\<^sup>*\<^sup>* demo_waiting w"
    "ws_tasks w (''j1'', 0) = Some (InStep demo_lane 0 (jo_steps j ! 0) good_drive ''admin'')"
    "ws_jobs w ''j1'' = Some (map_drive 0 (begin_step 0 (jo_steps j ! 0)) j)" "\<not> ws_poisoned w" by auto
  let ?w2 = "go_on (''j1'', 0) (finish_step (jo_steps j ! 0) ''done'') AtTop w"
  let ?j2 = "map_drive 0 (finish_step (jo_steps j ! 0) ''done'') (map_drive 0 (begin_step 0 (jo_steps j ! 0)) j)"
  have "worker_step demo_config w ?w2" using w(4,2) by (rule worker_step.finishes)
  with w(1) demo_waiting_reach have reach: "worker_reach demo_config ?w2" by (meson reach_steps worker_reach.step)
  have "ws_tasks ?w2 (''j1'', 0) = Some AtTop" "ws_jobs ?w2 ''j1'' = Some ?j2"
    using w(3) by (simp_all add: go_on_def jobs_with_job)
  moreover have "0 < length (jo_drives ?j2)" "dj_state (jo_drives ?j2 ! 0) = Running" "dj_step (jo_drives ?j2 ! 0) = length (jo_steps ?j2)"
    using j r by (simp_all add: demo_steps_def)
  ultimately obtain w3 where "worker_step demo_config ?w2 w3" "stranded ''j1'' 0 w3" using restart_strands by blast
  with reach show ?thesis by (meson that worker_reach.step)
qed

lemma stranded_forever_witness:
  "\<exists>w :: string worker. worker_reach demo_config w \<and> stranded ''j1'' 0 w
     \<and> (\<forall>w'. (worker_step demo_config)\<^sup>*\<^sup>* w w' \<longrightarrow> (\<exists>j. ws_jobs w' ''j1'' = Some j \<and> \<not> job_finished j))"
proof -
  obtain w :: "string worker" where w: "worker_reach demo_config w" "stranded ''j1'' 0 w" by (rule demo_stranded)
  with stranded_forever [OF w(2)] show ?thesis by blast
qed

section \<open>Which jobs are kept\<close>

lemma drop_oldest_None: "drop_oldest_finished js = None \<longleftrightarrow> list_all (\<lambda>(k, j). \<not> job_finished j) js"
  by (induction js) (auto split: if_splits)

lemma drop_oldest_subseq: "drop_oldest_finished js = Some js' \<Longrightarrow> subseq js' js"
  by (induction js arbitrary: js') (auto split: if_splits)

lemma drop_oldest_unfinished:
  "drop_oldest_finished js = Some js'
    \<Longrightarrow> filter (\<lambda>(k, j). \<not> job_finished j) js' = filter (\<lambda>(k, j). \<not> job_finished j) js"
  by (induction js arbitrary: js') (auto split: if_splits)

text \<open>
  C40.keep_jobs_sound. What is kept of the jobs is a part of them, in their order, with every job that is
  not finished; there are at most \<open>KEEP_JOBS\<close> of them unless no kept job is finished.
\<close>

theorem keep_jobs_sound:
  "subseq (keep_jobs js) js
    \<and> filter (\<lambda>(k, j). \<not> job_finished j) (keep_jobs js) = filter (\<lambda>(k, j). \<not> job_finished j) js
    \<and> (KEEP_JOBS < length (keep_jobs js) \<longrightarrow> list_all (\<lambda>(k, j). \<not> job_finished j) (keep_jobs js))"
proof (induction js rule: keep_jobs.induct)
  case (1 js)
  show ?case
  proof (cases "KEEP_JOBS < length js")
    case False
    then show ?thesis by (simp add: keep_jobs.simps [of js])
  next
    case True
    show ?thesis
    proof (cases "drop_oldest_finished js")
      case None
      with True show ?thesis by (simp add: keep_jobs.simps [of js] None [unfolded drop_oldest_None] None)
    next
      case (Some js')
      then show ?thesis
        using 1 [OF True Some] True drop_oldest_subseq [OF Some] drop_oldest_unfinished [OF Some]
        by (simp add: keep_jobs.simps [of js]) (meson subseq_order.order_trans)
    qed
  qed
qed


definition kept_demo :: "(string \<times> string job) list" where
  "kept_demo = map (\<lambda>n. (''job'', demo_job\<lparr>jo_created := n\<rparr>)) [0..<65]"

lemma keep_jobs_sound_witness: "length (keep_jobs kept_demo) = 65 \<and> list_all (\<lambda>(k, j). \<not> job_finished j) (keep_jobs kept_demo)"
proof -
  have unfinished: "\<not> job_finished (demo_job\<lparr>jo_created := n\<rparr>)" for n
    by (simp add: job_finished_def demo_drive dj_finished_def)
  then have "list_all (\<lambda>(k, j). \<not> job_finished j) kept_demo" by (simp add: kept_demo_def list_all_iff)
  then have "drop_oldest_finished kept_demo = None" by (simp add: drop_oldest_None)
  then have "keep_jobs kept_demo = kept_demo" by (simp add: keep_jobs.simps [of kept_demo])
  then have "length (keep_jobs kept_demo) = 65" by (simp add: kept_demo_def)
  with keep_jobs_sound [of kept_demo] show ?thesis by (simp add: KEEP_JOBS_def)
qed

end
