(* ===== verification/Merge.thy ===== *)
theory Merge
  imports Inventory Guards Events
begin

text \<open>
  \<open>src/src/monitor.rs\<close>, what a discovery pass does to the inventory: observations grouped into
  drives, a known drive refreshed, a new one added (and the missing one whose bay it took named), an
  unseen one marked missing, USB media taken out. \<open>Observed\<close> and \<open>Media\<close> are the types of
  \<open>src/src/discovery/mod.rs\<close>, whose scan of /sys is an argument, as are \<open>Uuid::new_v5\<close> and
  \<open>topology::locate\<close> on the pass's shelves. Names, models and serials are taken to be ASCII where
  the code lowers their case.
\<close>

section \<open>What a pass observes\<close>

record observed =
  ob_name :: string
  ob_path :: string
  ob_kind :: drive_kind
  ob_vendor :: "string option"
  ob_model :: string
  ob_serial :: string
  ob_firmware :: string
  ob_wwid :: "string option"
  ob_capacity :: u64
  ob_block_size :: u32
  ob_physical_block_size :: u32
  ob_usable :: bool
  ob_in_use_by :: "string option"
  ob_contents :: "string option"
  ob_slabs :: "slab_part list"
  ob_mounted :: bool
  ob_supports :: "supports option"
  ob_link_rate_mbps :: "u32 option"

text \<open>An entry for the event log: drive, severity, kind and message.\<close>

type_synonym logged = "drive_id option \<times> severity \<times> string \<times> string"

definition push_logged :: "time \<Rightarrow> logged list \<Rightarrow> event_log \<Rightarrow> event_log" where
  "push_logged t evs lg =
     push_all (map (\<lambda>(i, sev, k, m). \<lparr>r_time = t, r_drive_id = i, r_severity = sev, r_kind = k, r_message = m\<rparr>) evs) lg"

fun kind_debug :: "drive_kind \<Rightarrow> string" where
  "kind_debug NvmeSsd = ''NvmeSsd''"
| "kind_debug SasSsd = ''SasSsd''"
| "kind_debug SasHdd = ''SasHdd''"
| "kind_debug SataSsd = ''SataSsd''"
| "kind_debug SataHdd = ''SataHdd''"
| "kind_debug UnknownKind = ''Unknown''"

section \<open>Grouping\<close>

text \<open>The groups in the order their first observation came (the order is replaced by the sort at the end).\<close>

fun add_to_group :: "drive_id \<Rightarrow> observed \<Rightarrow> (drive_id \<times> observed list) list \<Rightarrow> (drive_id \<times> observed list) list" where
  "add_to_group i ob [] = [(i, [ob])]"
| "add_to_group i ob ((j, g) # gs) = (if i = j then (j, g @ [ob]) # gs else (j, g) # add_to_group i ob gs)"

definition observed_id :: "(string \<Rightarrow> drive_id) \<Rightarrow> observed \<Rightarrow> drive_id" where
  "observed_id new_v5 ob = derive new_v5 (ob_wwid ob) (ob_model ob) (ob_serial ob)"

definition by_path :: "observed \<Rightarrow> observed \<Rightarrow> bool" where
  "by_path a b = (ob_path a \<le> ob_path b)"

definition group_observed :: "(string \<Rightarrow> drive_id) \<Rightarrow> observed list \<Rightarrow> (drive_id \<times> observed list) list" where
  "group_observed new_v5 obs =
     (let groups = fold (\<lambda>ob. add_to_group (observed_id new_v5 ob) ob) obs [];
          sorted_groups = map (\<lambda>(i, g). (i, stable_sort by_path g)) groups
      in stable_sort (\<lambda>a b. by_path (hd (snd a)) (hd (snd b))) sorted_groups)"

section \<open>A known drive\<close>

definition fallback_issue :: "string \<Rightarrow> supports option \<Rightarrow> string option" where
  "fallback_issue name s =
     Option.bind s (\<lambda>s.
       case plan s None of
         Inr p \<Rightarrow>
           if pl_fallback p
           then Some (name @ '': planned format '' @ dec (unat (pl_block_size p)) @ '' + '' @ prot_word (pl_protection p)
                  @ '': '' @ pl_reason p)
           else None
       | Inl e \<Rightarrow> Some (name @ '': no format to plan: '' @ e))"

definition log_opt :: "drive_id \<Rightarrow> severity \<Rightarrow> string \<Rightarrow> string option \<Rightarrow> logged list" where
  "log_opt i sev k msg = (case msg of Some m \<Rightarrow> [(Some i, sev, k, m)] | None \<Rightarrow> [])"

text \<open>The parts of the refresh, each with the events it adds, in the code's order.\<close>

definition merge_paths :: "string list \<Rightarrow> drive \<Rightarrow> string option" where
  "merge_paths paths d =
     guard (d_paths d \<noteq> paths) (d_name d @ '': paths now '' @ join '', '' paths)"

definition merged_location :: "string list \<Rightarrow> location \<Rightarrow> drive \<Rightarrow> location" where
  "merged_location paths fresh d = (if d_paths d \<noteq> paths then fresh else refreshed (d_location d) fresh)"

definition merge_location :: "string \<Rightarrow> location \<Rightarrow> drive \<Rightarrow> string option" where
  "merge_location name now_at d =
     guard (moved_to (d_location d) now_at)
       (if labels (d_location d) = [] then name @ '': located at '' @ place now_at
        else name @ '': moved from '' @ place (d_location d) @ '' to '' @ place now_at)"

definition kind_changes :: "observed \<Rightarrow> drive \<Rightarrow> bool" where
  "kind_changes ob d = (ob_kind ob \<noteq> d_kind d \<and> ob_kind ob \<noteq> UnknownKind)"

definition merge_kind :: "observed \<Rightarrow> drive \<Rightarrow> string option" where
  "merge_kind ob d =
     guard (kind_changes ob d)
       (to_lower (ob_name ob @ '': kind now '' @ kind_debug (ob_kind ob) @ '' (was '' @ kind_debug (d_kind d) @ '')''))"

definition supports_changes :: "observed \<Rightarrow> drive \<Rightarrow> bool" where
  "supports_changes ob d = (ob_supports ob \<noteq> None \<and> ob_supports ob \<noteq> d_supports d)"

definition merge_supports :: "observed \<Rightarrow> drive \<Rightarrow> string option" where
  "merge_supports ob d = (if supports_changes ob d then fallback_issue (ob_name ob) (ob_supports ob) else None)"

definition mid_format :: "drive \<Rightarrow> bool" where
  "mid_format d = (d_activity d = Formatting \<or> d_activity d = Sanitizing)"

definition merge_sector :: "observed \<Rightarrow> drive \<Rightarrow> string option" where
  "merge_sector ob d =
     guard (\<not> mid_format d \<and> ob_block_size ob \<noteq> d_block_size d \<and> d_block_size d \<noteq> 0)
       (ob_name ob @ '': sector size now '' @ dec (unat (ob_block_size ob)) @ '' (was '' @ dec (unat (d_block_size d)) @ '')'')"

definition merge_contents :: "observed \<Rightarrow> drive \<Rightarrow> drive" where
  "merge_contents ob d =
     (if mid_format d then d
      else d\<lparr>d_capacity := ob_capacity ob, d_block_size := ob_block_size ob,
             d_physical_block_size := ob_physical_block_size ob, d_usable := ob_usable ob,
             d_in_use_by := ob_in_use_by ob, d_contents := ob_contents ob, d_slab_parts := ob_slabs ob,
             d_mounted := ob_mounted ob\<rparr>)"

definition merge_known :: "time \<Rightarrow> (string \<Rightarrow> location) \<Rightarrow> observed list \<Rightarrow> drive \<Rightarrow> drive \<times> logged list" where
  "merge_known now locate g d =
     (let ob = hd g; i = d_id d; paths = map ob_path g;
          now_at = merged_location paths (locate (ob_name ob)) d;
          d1 = d\<lparr>d_location := now_at, d_path := ob_path ob, d_name := ob_name ob, d_paths := paths,
                 d_firmware := ob_firmware ob, d_vendor := ob_vendor ob,
                 d_kind := (if kind_changes ob d then ob_kind ob else d_kind d),
                 d_link_rate_mbps := opt_or (ob_link_rate_mbps ob) (d_link_rate_mbps d),
                 d_supports := (if supports_changes ob d then ob_supports ob else d_supports d)\<rparr>;
          d2 = (merge_contents ob d1)\<lparr>d_last_seen := now\<rparr>;
          evs = log_opt i Info ''discovered'' (merge_paths paths d)
            @ log_opt i Info ''location'' (merge_location (ob_name ob) now_at d)
            @ log_opt i Info ''discovered'' (merge_kind ob d)
            @ log_opt i Warn ''format'' (merge_supports ob d)
            @ log_opt i Info ''discovered'' (merge_sector ob d)
            @ log_opt i Info ''discovered'' (guard (d_activity d = Missing) (ob_name ob @ '': reappeared''))
      in (if d_activity d = Missing then d2\<lparr>d_activity := Idle\<rparr> else d2, evs))"

section \<open>A new drive\<close>

definition last_seen_max :: "drive list \<Rightarrow> drive option" where
  "last_seen_max ds =
     fold (\<lambda>d best. case best of None \<Rightarrow> Some d | Some b \<Rightarrow> if d_last_seen b \<le> d_last_seen d then Some d else Some b) ds None"

definition taken :: "drives \<Rightarrow> drive_id list" where
  "taken ds = List.map_filter (\<lambda>(_, d). d_replaces d) ds"

definition replaced_in_bay :: "drives \<Rightarrow> location \<Rightarrow> drive_id option" where
  "replaced_in_bay ds l =
     Option.bind (bay_key l) (\<lambda>key.
       map_option d_id (last_seen_max
         (filter (\<lambda>d. d_activity d = Missing \<and> d_id d \<notin> set (taken ds) \<and> bay_key (d_location d) = Some key) (map snd ds))))"

definition new_drive :: "time \<Rightarrow> drive_id \<Rightarrow> location \<Rightarrow> drive_id option \<Rightarrow> observed list \<Rightarrow> drive" where
  "new_drive now i loc replaces g =
     (let ob = hd g in
      \<lparr>d_id = i, d_path = ob_path ob, d_name = ob_name ob, d_paths = map ob_path g, d_kind = ob_kind ob,
       d_vendor = ob_vendor ob, d_model = ob_model ob, d_serial = ob_serial ob, d_firmware = ob_firmware ob,
       d_wwid = ob_wwid ob, d_capacity = ob_capacity ob, d_block_size = ob_block_size ob,
       d_physical_block_size = ob_physical_block_size ob, d_usable = ob_usable ob, d_in_use_by = ob_in_use_by ob,
       d_contents = ob_contents ob, d_slab_parts = ob_slabs ob, d_mounted = ob_mounted ob,
       d_supports = ob_supports ob, d_health_ack = None, d_link_rate_mbps = ob_link_rate_mbps ob,
       d_history = None, d_engine_finding = None, d_enrolable = False, d_wear_projection = None,
       d_format = None, d_firmware_record = None, d_location = loc, d_membership = Out,
       d_designation = NoDesignation, d_overcommit = default_overcommit, d_activity = Idle,
       d_health = default_health, d_first_seen = now, d_last_seen = now, d_pushed_labels = [],
       d_pushed_health = None, d_pushed_overcommit = None, d_thermal = None, d_pushed_thermal = None,
       d_drain = None, d_replaces = replaces, d_usage = None, d_fleet_partition = None\<rparr>)"

definition new_line :: "observed list \<Rightarrow> string" where
  "new_line g =
     (let ob = hd g; n = length g;
          multipath = (if 1 < n then '' ('' @ dec n @ '' paths)'' else []);
          sector = (if ob_usable ob then []
            else '' '' @ utf8_dash @ '' '' @ dec (unat (ob_block_size ob)) @ ''-byte sectors, unusable until reformatted'')
      in ob_name ob @ '': new drive '' @ ob_model ob @ '' '' @ ob_serial ob @ '' ('' @ dec (unat (ob_capacity ob))
           @ '' bytes)'' @ multipath @ sector)"

definition replaces_line :: "observed \<Rightarrow> location \<Rightarrow> drive \<Rightarrow> string" where
  "replaces_line ob loc old =
     ob_name ob @ '' ('' @ ob_serial ob @ '') in '' @ place loc @ '' replaces '' @ d_name old @ '' ('' @ d_serial old @ '', ''
       @ health_debug (health_of old) @ (if d_membership old = Fleet then '', still in the fleet'' else []) @ '')''"

definition merge_new :: "time \<Rightarrow> (string \<Rightarrow> location) \<Rightarrow> drive_id \<Rightarrow> observed list \<Rightarrow> drives \<Rightarrow> drive \<times> logged list" where
  "merge_new now locate i g ds =
     (let ob = hd g; loc = locate (ob_name ob); replaces = replaced_in_bay ds loc;
          evs = [(Some i, if ob_usable ob then Info else Warn, ''discovered'', new_line g)]
            @ log_opt i Warn ''format'' (fallback_issue (ob_name ob) (ob_supports ob))
            @ log_opt i Info ''replaced'' (map_option (replaces_line ob loc) (Option.bind replaces (map_of ds)))
      in (new_drive now i loc replaces g, evs))"

section \<open>The pass\<close>

fun put_drive :: "drive_id \<Rightarrow> drive \<Rightarrow> drives \<Rightarrow> drives" where
  "put_drive i d [] = [(i, d)]"
| "put_drive i d ((j, e) # ds) = (if i = j then (j, d) # ds else (j, e) # put_drive i d ds)"

definition merge_group :: "time \<Rightarrow> (string \<Rightarrow> location) \<Rightarrow> drive_id \<times> observed list \<Rightarrow> drives \<times> logged list \<Rightarrow> drives \<times> logged list" where
  "merge_group now locate ig acc =
     (let (i, g) = ig; (ds, evs) = acc;
          (d, new_evs) = (case map_of ds i of
              Some d \<Rightarrow> merge_known now locate g d | None \<Rightarrow> merge_new now locate i g ds)
      in (put_drive i d ds, evs @ new_evs))"

text \<open>The drives not seen.\<close>

definition goes_missing :: "drive_id list \<Rightarrow> drive_id \<times> drive \<Rightarrow> bool" where
  "goes_missing seen = (\<lambda>(i, d). i \<notin> set seen \<and> d_activity d \<noteq> Missing)"

definition missing_pass :: "drive_id list \<Rightarrow> drives \<Rightarrow> drives \<times> logged list" where
  "missing_pass seen ds =
     (map (\<lambda>(i, d). (i, if goes_missing seen (i, d) then d\<lparr>d_activity := Missing\<rparr> else d)) ds,
      map (\<lambda>(i, d). (Some i, Error, ''missing'', d_name d @ '': device node disappeared'')) (filter (goes_missing seen) ds))"

definition merge_groups :: "time \<Rightarrow> (string \<Rightarrow> location) \<Rightarrow> (drive_id \<times> observed list) list \<Rightarrow> drives \<Rightarrow> drives \<times> logged list" where
  "merge_groups now locate gs ds =
     (let (ds1, evs) = fold (merge_group now locate) gs (ds, []);
          (ds2, gone) = missing_pass (map fst gs) ds1
      in (ds2, evs @ gone))"

definition merge_observed ::
  "(string \<Rightarrow> drive_id) \<Rightarrow> (string \<Rightarrow> location) \<Rightarrow> time \<Rightarrow> observed list \<Rightarrow> inventory \<Rightarrow> inventory \<times> logged list" where
  "merge_observed new_v5 locate now obs iv =
     (let (ds, evs) = merge_groups now locate (group_observed new_v5 obs) (iv_drives iv)
      in (iv\<lparr>iv_drives := ds\<rparr>, evs))"

section \<open>Groups\<close>

definition groups_ok :: "(drive_id \<times> observed list) list \<Rightarrow> bool" where
  "groups_ok gs \<longleftrightarrow> distinct (map fst gs) \<and> list_all (\<lambda>(_, g). g \<noteq> []) gs"

lemma add_to_group_keys: "fst ` set (add_to_group i ob gs) = insert i (fst ` set gs)"
  by (induction i ob gs rule: add_to_group.induct) auto

lemma add_to_group_ok: "groups_ok gs \<Longrightarrow> groups_ok (add_to_group i ob gs)"
proof (induction i ob gs rule: add_to_group.induct)
  case (2 i ob j g gs)
  then show ?case using add_to_group_keys [of i ob gs] by (auto simp: groups_ok_def list_all_iff)
qed (simp add: groups_ok_def)

lemma fold_groups:
  "groups_ok gs \<Longrightarrow> groups_ok (fold (\<lambda>ob. add_to_group (f ob) ob) obs gs)
     \<and> fst ` set (fold (\<lambda>ob. add_to_group (f ob) ob) obs gs) = fst ` set gs \<union> f ` set obs"
  by (induction obs arbitrary: gs) (auto simp: add_to_group_ok add_to_group_keys)

lemma group_observed_ok: "groups_ok (group_observed new_v5 obs)"
  and group_observed_ids: "fst ` set (group_observed new_v5 obs) = observed_id new_v5 ` set obs"
proof -
  let ?gs = "fold (\<lambda>ob. add_to_group (observed_id new_v5 ob) ob) obs []"
  let ?s = "map (\<lambda>(i, g). (i, stable_sort by_path g)) ?gs"
  have g: "groups_ok ?gs" "fst ` set ?gs = observed_id new_v5 ` set obs"
    using fold_groups [of "[]" "observed_id new_v5" obs] by (simp_all add: groups_ok_def)
  have keys: "map fst ?s = map fst ?gs" by (simp add: comp_def split_beta)
  have "mset (map fst (group_observed new_v5 obs)) = mset (map fst ?s)"
    unfolding group_observed_def Let_def mset_map mset_stable_sort ..
  then have same: "mset (map fst (group_observed new_v5 obs)) = mset (map fst ?gs)" by (simp only: keys)
  have ids: "fst ` set (group_observed new_v5 obs) = fst ` set ?gs"
    using mset_eq_setD [OF same] by (simp only: set_map)
  have "distinct (map fst (group_observed new_v5 obs))"
    by (rule mset_eq_imp_distinct_iff [OF same, THEN iffD2]) (use g(1) in \<open>simp only: groups_ok_def\<close>)
  moreover have "list_all (\<lambda>(_, g). g \<noteq> []) (group_observed new_v5 obs)"
    using g(1) by (simp add: groups_ok_def group_observed_def Let_def list_all_iff split_beta)
  ultimately show "groups_ok (group_observed new_v5 obs)" by (simp add: groups_ok_def)
  show "fst ` set (group_observed new_v5 obs) = observed_id new_v5 ` set obs" using ids g(2) by simp
qed

section \<open>The drive table under a pass\<close>

lemma map_of_put_drive [simp]: "map_of (put_drive i d ds) = (map_of ds)(i \<mapsto> d)"
  by (induction i d ds rule: put_drive.induct) auto

lemma keys_put_drive: "map fst (put_drive i d ds) = (if i \<in> fst ` set ds then map fst ds else map fst ds @ [i])"
  by (induction i d ds rule: put_drive.induct) auto

definition drives_ok :: "drives \<Rightarrow> bool" where
  "drives_ok ds \<longleftrightarrow> distinct (map fst ds) \<and> (\<forall>i d. map_of ds i = Some d \<longrightarrow> d_id d = i)"

lemma inventory_ok_iff: "inventory_ok iv \<longleftrightarrow> drives_ok (iv_drives iv)"
  by (auto simp: inventory_ok_def drives_ok_def list_all_iff dest: map_of_SomeD)

lemma drives_ok_put: "drives_ok ds \<Longrightarrow> d_id d = i \<Longrightarrow> drives_ok (put_drive i d ds)"
  by (auto simp: drives_ok_def keys_put_drive image_iff)

text \<open>What a discovery pass never writes on a drive it knows.\<close>

definition owned :: "drive \<Rightarrow> drive" where
  "owned d = d\<lparr>d_path := [], d_name := [], d_paths := [], d_kind := UnknownKind, d_vendor := None, d_firmware := [],
     d_capacity := 0, d_block_size := 0, d_physical_block_size := 0, d_usable := False, d_in_use_by := None,
     d_contents := None, d_slab_parts := [], d_mounted := False, d_supports := None, d_link_rate_mbps := None,
     d_location := default_location, d_activity := Idle, d_last_seen := 0\<rparr>"

definition on_disk :: "drive \<Rightarrow> u64 \<times> u32 \<times> u32 \<times> bool \<times> string option \<times> string option \<times> slab_part list \<times> bool" where
  "on_disk d = (d_capacity d, d_block_size d, d_physical_block_size d, d_usable d, d_in_use_by d, d_contents d,
     d_slab_parts d, d_mounted d)"

lemma merge_known_facts:
  fixes d d' :: drive
  assumes "merge_known now locate g d = (d', evs)"
  shows "owned d' = owned d" "d_id d' = d_id d" "d_replaces d' = d_replaces d" "d_paths d' = map ob_path g" "d_last_seen d' = now"
    "d_activity d' = (if d_activity d = Missing then Idle else d_activity d)" "mid_format d \<Longrightarrow> on_disk d' = on_disk d"
  using assms
  by (auto simp: merge_known_def Let_def merge_contents_def owned_def on_disk_def mid_format_def)

lemma new_drive_facts [simp]:
  "d_id (new_drive now i l r g) = i" "d_replaces (new_drive now i l r g) = r" "d_activity (new_drive now i l r g) = Idle"
  "d_membership (new_drive now i l r g) = Out" "health_of (new_drive now i l r g) = Unknown"
  "d_enrolable (new_drive now i l r g) = False" "d_designation (new_drive now i l r g) = NoDesignation"
  by (simp_all add: new_drive_def Let_def status_of_def default_health_def)

lemma merge_group_map:
  assumes "merge_group now locate (i, g) (ds, evs) = (ds', evs')"
  shows "case map_of ds i of
      Some d \<Rightarrow> ds' = put_drive i (fst (merge_known now locate g d)) ds \<and> evs' = evs @ snd (merge_known now locate g d)
    | None \<Rightarrow> ds' = put_drive i (new_drive now i (locate (ob_name (hd g))) (replaced_in_bay ds (locate (ob_name (hd g)))) g) ds"
  using assms by (auto simp: merge_group_def merge_new_def Let_def split: option.splits prod.splits)

text \<open>What a pass makes of the drive a group is of.\<close>

definition merged_to ::
  "time \<Rightarrow> (string \<Rightarrow> location) \<Rightarrow> drive_id \<Rightarrow> observed list \<Rightarrow> drive option \<Rightarrow> drive option \<Rightarrow> bool" where
  "merged_to now locate i g before after \<longleftrightarrow>
     (case before of
        Some d \<Rightarrow> after = Some (fst (merge_known now locate g d))
      | None \<Rightarrow> \<exists>r. after = Some (new_drive now i (locate (ob_name (hd g))) r g))"

lemma merge_group_facts:
  assumes ok: "drives_ok ds" and r: "merge_group now locate (i, g) (ds, evs) = (ds', evs')"
  shows "drives_ok ds'" "j \<noteq> i \<Longrightarrow> map_of ds' j = map_of ds j" "merged_to now locate i g (map_of ds i) (map_of ds' i)"
proof -
  obtain d where d: "ds' = put_drive i d ds" "merged_to now locate i g (map_of ds i) (Some d)" "d_id d = i"
  proof (cases "map_of ds i")
    case None
    then show ?thesis
      using that [of "new_drive now i (locate (ob_name (hd g))) (replaced_in_bay ds (locate (ob_name (hd g)))) g"]
        merge_group_map [OF r] by (auto simp: merged_to_def)
  next
    case (Some e)
    then have "d_id e = i" using ok by (simp add: drives_ok_def)
    then have "d_id (fst (merge_known now locate g e)) = i"
      using merge_known_facts(2) [OF prod.collapse [symmetric]] by metis
    then show ?thesis using that Some merge_group_map [OF r] by (auto simp: merged_to_def)
  qed
  show "drives_ok ds'" unfolding d(1) using ok d(3) by (rule drives_ok_put)
  show "j \<noteq> i \<Longrightarrow> map_of ds' j = map_of ds j" "merged_to now locate i g (map_of ds i) (map_of ds' i)"
    using d by simp_all
qed

text \<open>Each group touches its own drive, once.\<close>

lemma fold_merge:
  assumes "distinct (map fst gs)" "fold (merge_group now locate) gs (ds, evs) = (ds', evs')" "drives_ok ds"
  shows "drives_ok ds' \<and> (\<forall>i. i \<notin> fst ` set gs \<longrightarrow> map_of ds' i = map_of ds i)
    \<and> (\<forall>(i, g) \<in> set gs. merged_to now locate i g (map_of ds i) (map_of ds' i))"
  using assms
proof (induction gs arbitrary: ds evs)
  case (Cons ig gs)
  obtain j h where ig: "ig = (j, h)" by (cases ig)
  obtain ds1 evs1 where 1: "merge_group now locate (j, h) (ds, evs) = (ds1, evs1)" by force
  note M = merge_group_facts [OF Cons.prems(3) 1]
  have IH: "drives_ok ds' \<and> (\<forall>i. i \<notin> fst ` set gs \<longrightarrow> map_of ds' i = map_of ds1 i)
    \<and> (\<forall>(i, g) \<in> set gs. merged_to now locate i g (map_of ds1 i) (map_of ds' i))"
    using Cons.prems 1 ig M(1) by (intro Cons.IH) auto
  have j: "j \<notin> fst ` set gs" using Cons.prems(1) by (simp add: ig)
  then have "merged_to now locate j h (map_of ds j) (map_of ds' j)" using IH M(3) by simp
  moreover have "merged_to now locate i g (map_of ds i) (map_of ds' i)" if "(i, g) \<in> set gs" for i g
  proof -
    have "i \<noteq> j" using that j by force
    then show ?thesis using IH that M(2) [of i] by fastforce
  qed
  moreover have "\<forall>i. i \<notin> fst ` set (ig # gs) \<longrightarrow> map_of ds' i = map_of ds i"
    using IH M(2) by (simp add: ig)
  ultimately show ?case using IH by (auto simp: ig)
qed simp

lemma map_of_missing_pass:
  "map_of (fst (missing_pass seen ds)) i =
     map_option (\<lambda>d. if goes_missing seen (i, d) then d\<lparr>d_activity := Missing\<rparr> else d) (map_of ds i)"
  by (induction ds) (auto simp: missing_pass_def)

lemma keys_missing_pass [simp]: "map fst (fst (missing_pass seen ds)) = map fst ds"
  by (simp add: missing_pass_def comp_def split_beta)

lemma missing_pass_ok:
  assumes "drives_ok ds" shows "drives_ok (fst (missing_pass seen ds))"
proof -
  have "d_id d = i" if "map_of (fst (missing_pass seen ds)) i = Some d" for i d
  proof -
    from that obtain e where e: "map_of ds i = Some e" "d = (if goes_missing seen (i, e) then e\<lparr>d_activity := Missing\<rparr> else e)"
      unfolding map_of_missing_pass by (cases "map_of ds i") simp_all
    have "d_id e = i" using assms e(1) unfolding drives_ok_def by blast
    then show ?thesis unfolding e(2) by simp
  qed
  moreover have "distinct (map fst (fst (missing_pass seen ds)))"
    using assms unfolding drives_ok_def keys_missing_pass by blast
  ultimately show ?thesis unfolding drives_ok_def by blast
qed

lemma merge_observed_facts:
  assumes iv: "inventory_ok iv" and r: "merge_observed new_v5 locate now obs iv = (iv', evs)"
  defines "gs \<equiv> group_observed new_v5 obs"
  shows "inventory_ok iv'"
    and "i \<notin> fst ` set gs \<Longrightarrow> map_of (iv_drives iv') i = map_option (\<lambda>d. d\<lparr>d_activity := Missing\<rparr>) (map_of (iv_drives iv) i)"
    and "(i, g) \<in> set gs \<Longrightarrow> merged_to now locate i g (map_of (iv_drives iv) i) (map_of (iv_drives iv') i)"
    and "i \<in> fst ` set gs \<longleftrightarrow> i \<in> observed_id new_v5 ` set obs" "(i, g) \<in> set gs \<Longrightarrow> g \<noteq> []"
proof -
  obtain ds1 ev1 where f: "fold (merge_group now locate) gs (iv_drives iv, []) = (ds1, ev1)" by force
  have g: "distinct (map fst gs)" and ne: "\<And>i g. (i, g) \<in> set gs \<Longrightarrow> g \<noteq> []"
    using group_observed_ok [of new_v5 obs] by (auto simp: gs_def groups_ok_def list_all_iff)
  note F = fold_merge [OF g f iv [unfolded inventory_ok_iff]]
  have iv': "iv_drives iv' = fst (missing_pass (map fst gs) ds1)"
    using r f by (auto simp: merge_observed_def merge_groups_def Let_def gs_def split: prod.splits)
  show "inventory_ok iv'" using F missing_pass_ok by (simp add: inventory_ok_iff iv')
  show "i \<in> fst ` set gs \<longleftrightarrow> i \<in> observed_id new_v5 ` set obs" by (simp add: gs_def group_observed_ids)
  show "(i, g) \<in> set gs \<Longrightarrow> g \<noteq> []" by (rule ne)
  show "map_of (iv_drives iv') i = map_option (\<lambda>d. d\<lparr>d_activity := Missing\<rparr>) (map_of (iv_drives iv) i)" if "i \<notin> fst ` set gs"
    using F that by (cases "map_of (iv_drives iv) i") (auto simp: iv' map_of_missing_pass goes_missing_def)
  show "merged_to now locate i g (map_of (iv_drives iv) i) (map_of (iv_drives iv') i)" if "(i, g) \<in> set gs"
  proof -
    have "\<not> goes_missing (map fst gs) (i, d)" for d using that by (force simp: goes_missing_def)
    then have "map_of (iv_drives iv') i = map_of ds1 i"
      by (cases "map_of ds1 i") (simp_all add: iv' map_of_missing_pass)
    then show ?thesis using F that by force
  qed
qed

text \<open>
  C18. A discovery pass, on an inventory where every drive is filed under its own id: still
  so after it; no drive is lost and exactly those observed are added; a drive is missing
  afterwards exactly when the pass did not see it; of a drive already known everything the
  operator, the fleet, the engine and the health poll put on it is as before, and while it is being
  formatted or sanitized so is all that describes what is on it; a drive seen for the first time is
  out of the fleet, without a designation, and not one to offer.
\<close>
theorem pass_sound:
  assumes iv: "inventory_ok iv" and r: "merge_observed new_v5 locate now obs iv = (iv', evs)"
  shows "inventory_ok iv'
    \<and> dom (map_of (iv_drives iv')) = dom (map_of (iv_drives iv)) \<union> observed_id new_v5 ` set obs
    \<and> (\<forall>i d. map_of (iv_drives iv') i = Some d \<longrightarrow> (d_activity d = Missing \<longleftrightarrow> i \<notin> observed_id new_v5 ` set obs))
    \<and> (\<forall>i d. map_of (iv_drives iv) i = Some d \<longrightarrow>
         (\<exists>d'. map_of (iv_drives iv') i = Some d' \<and> owned d' = owned d \<and> (mid_format d \<longrightarrow> on_disk d' = on_disk d)))
    \<and> (\<forall>i d. map_of (iv_drives iv) i = None \<and> map_of (iv_drives iv') i = Some d \<longrightarrow>
         d_membership d = Out \<and> d_designation d = NoDesignation \<and> \<not> d_enrolable d \<and> (\<forall>m. offer_blocker d m \<noteq> None))"
proof -
  note F = merge_observed_facts [OF iv r]
  let ?ids = "observed_id new_v5 ` set obs"
  have after: "(\<exists>g d. g \<noteq> [] \<and> map_of (iv_drives iv') i = Some d
      \<and> (case map_of (iv_drives iv) i of Some e \<Rightarrow> d = fst (merge_known now locate g e)
           | None \<Rightarrow> \<exists>r. d = new_drive now i (locate (ob_name (hd g))) r g))" if "i \<in> ?ids" for i
  proof -
    from that F(4) obtain g where g: "(i, g) \<in> set (group_observed new_v5 obs)" by force
    then show ?thesis
      using F(3) [OF g] F(5) [OF g] by (cases "map_of (iv_drives iv) i") (auto simp: merged_to_def)
  qed
  have unseen: "map_of (iv_drives iv') i = map_option (\<lambda>d. d\<lparr>d_activity := Missing\<rparr>) (map_of (iv_drives iv) i)"
    if "i \<notin> ?ids" for i
    using F(2,4) that by blast
  have known: "owned d' = owned d \<and> (mid_format d \<longrightarrow> on_disk d' = on_disk d) \<and> d_activity d' \<noteq> Missing"
    if "d' = fst (merge_known now locate g d)" for d d' g
    using merge_known_facts [of now locate g d d' "snd (merge_known now locate g d)"] that by auto
  have unoffered: "offer_blocker (new_drive now i l r g) m \<noteq> None" for i l r g m
    by (auto simp: offer_blocker_def first_some_None_iff)
  have "i \<in> dom (map_of (iv_drives iv')) \<longleftrightarrow> i \<in> dom (map_of (iv_drives iv)) \<union> ?ids" for i
    using after [of i] unseen [of i] by (cases "i \<in> ?ids") auto
  moreover have "d_activity d = Missing \<longleftrightarrow> i \<notin> ?ids" if "map_of (iv_drives iv') i = Some d" for i d
    using after [of i] unseen [of i] that known
    by (cases "i \<in> ?ids"; cases "map_of (iv_drives iv) i") auto
  moreover have "\<exists>d'. map_of (iv_drives iv') i = Some d' \<and> owned d' = owned d \<and> (mid_format d \<longrightarrow> on_disk d' = on_disk d)"
    if "map_of (iv_drives iv) i = Some d" for i d
    using after [of i] unseen [of i] that known
    by (cases "i \<in> ?ids") (auto simp: owned_def on_disk_def)
  moreover have "d_membership d = Out \<and> d_designation d = NoDesignation \<and> \<not> d_enrolable d \<and> (\<forall>m. offer_blocker d m \<noteq> None)"
    if "map_of (iv_drives iv) i = None" "map_of (iv_drives iv') i = Some d" for i d
    using after [of i] unseen [of i] that unoffered by (cases "i \<in> ?ids") auto
  ultimately show ?thesis using F(1) by blast
qed

definition example_observed :: observed where
  "example_observed = \<lparr>ob_name = ''sda'', ob_path = ''/dev/sda'', ob_kind = SasHdd, ob_vendor = None, ob_model = ''M'',
     ob_serial = ''S'', ob_firmware = ''1'', ob_wwid = None, ob_capacity = 4096, ob_block_size = 512,
     ob_physical_block_size = 512, ob_usable = True, ob_in_use_by = None, ob_contents = None, ob_slabs = [],
     ob_mounted = False, ob_supports = None, ob_link_rate_mbps = None\<rparr>"

lemma pass_sound_witness:
  "\<exists>iv' evs d. merge_observed (\<lambda>_. 7) (\<lambda>_. default_location) 1 [example_observed] empty_inventory = (iv', evs)
     \<and> map_of (iv_drives iv') 7 = Some d \<and> d_activity d \<noteq> Missing \<and> d_membership d = Out"
proof -
  obtain iv' evs where r: "merge_observed (\<lambda>_. 7) (\<lambda>_. default_location) 1 [example_observed] empty_inventory = (iv', evs)"
    by force
  have "inventory_ok empty_inventory" by (simp add: inventory_ok_def empty_inventory_def)
  note P = pass_sound [OF this r]
  have "7 \<in> dom (map_of (iv_drives iv'))" using P by (simp add: observed_id_def derive_def)
  then obtain d where "map_of (iv_drives iv') 7 = Some d" by blast
  moreover from this have "d_activity d \<noteq> Missing \<and> d_membership d = Out"
    using P by (auto simp: observed_id_def derive_def empty_inventory_def)
  ultimately show ?thesis using r by blast
qed

section \<open>A pass that finds nothing new\<close>

lemma guard_simps [simp]: "guard False m = None" "guard True m = Some m"
  by (simp_all add: guard_def)

definition touched :: "time \<Rightarrow> drive \<Rightarrow> drive" where
  "touched now d = d\<lparr>d_last_seen := now\<rparr>"

text \<open>A drive as a group describes it.\<close>

definition settled :: "(string \<Rightarrow> location) \<Rightarrow> observed list \<Rightarrow> drive \<Rightarrow> bool" where
  "settled locate g d \<longleftrightarrow>
     (let ob = hd g in
        d_paths d = map ob_path g \<and> refreshed (d_location d) (locate (ob_name ob)) = d_location d
        \<and> d_path d = ob_path ob \<and> d_name d = ob_name ob \<and> d_firmware d = ob_firmware ob \<and> d_vendor d = ob_vendor ob
        \<and> \<not> kind_changes ob d \<and> \<not> supports_changes ob d
        \<and> opt_or (ob_link_rate_mbps ob) (d_link_rate_mbps d) = d_link_rate_mbps d
        \<and> d_activity d \<noteq> Missing \<and> merge_contents ob d = d)"

lemma merge_contents_sector:
  assumes "merge_contents ob d = d" shows "mid_format d \<or> ob_block_size ob = d_block_size d"
proof -
  have "d_block_size (merge_contents ob d) = d_block_size d" by (simp only: assms)
  then show ?thesis by (cases "mid_format d") (simp_all add: merge_contents_def)
qed

lemma settled_quiet: "settled locate g d \<Longrightarrow> merge_known now locate g d = (touched now d, [])"
proof -
  assume s: "settled locate g d"
  then have loc: "merged_location (map ob_path g) (locate (ob_name (hd g))) d = d_location d"
    by (simp add: settled_def merged_location_def Let_def)
  have same: "d\<lparr>d_path := ob_path (hd g), d_name := ob_name (hd g), d_paths := map ob_path g,
      d_firmware := ob_firmware (hd g), d_vendor := ob_vendor (hd g)\<rparr> = d"
    using s by (cases d) (simp add: settled_def Let_def)
  have q: "\<not> kind_changes (hd g) d" "\<not> supports_changes (hd g) d" "merge_contents (hd g) d = d" "d_activity d \<noteq> Missing"
    "d_paths d = map ob_path g" "opt_or (ob_link_rate_mbps (hd g)) (d_link_rate_mbps d) = d_link_rate_mbps d"
    using s by (simp_all add: settled_def Let_def)
  have "merge_sector (hd g) d = None"
    using merge_contents_sector [OF q(3)] by (auto simp: merge_sector_def)
  then show ?thesis
    using q by (simp add: merge_known_def Let_def loc same touched_def merge_paths_def merge_location_def moved_to_def
        merge_kind_def merge_supports_def log_opt_def)
qed

lemma settled_touched [simp]: "settled locate g (touched now d) = settled locate g d"
  by (cases d) (auto simp: settled_def touched_def Let_def merge_contents_def mid_format_def kind_changes_def supports_changes_def)

lemma merge_known_settled: "settled locate g (fst (merge_known now locate g d))"
proof (cases "mid_format d")
  case True
  then have "d_activity d \<noteq> Missing" by (auto simp: mid_format_def)
  with True show ?thesis
    by (auto simp: merge_known_def Let_def settled_def merged_location_def refreshed_idem merge_contents_def mid_format_def
        kind_changes_def supports_changes_def opt_or_assoc [symmetric])
next
  case False
  then show ?thesis
    by (auto simp: merge_known_def Let_def settled_def merged_location_def refreshed_idem merge_contents_def mid_format_def
        kind_changes_def supports_changes_def opt_or_assoc [symmetric])
qed

lemma new_drive_settled: "settled locate g (new_drive now i (locate (ob_name (hd g))) r g)"
  by (auto simp: settled_def new_drive_def Let_def merge_contents_def kind_changes_def supports_changes_def)

lemma put_drive_map:
  "distinct (map fst ds) \<Longrightarrow> map_of ds i = Some e \<Longrightarrow> put_drive i d ds = map (\<lambda>(j, x). (j, if j = i then d else x)) ds"
proof (induction i d ds rule: put_drive.induct)
  case (2 i d j e ds)
  have "map (\<lambda>(k, x). (k, if k = i then d else x)) ds = ds" if "i \<notin> fst ` set ds"
    using that by (intro map_idI) force
  with 2 show ?case by (auto split: if_splits)
qed simp

lemma fold_settled:
  assumes "distinct (map fst gs)" "distinct (map fst ds)"
    and "\<forall>(i, g) \<in> set gs. \<exists>d. map_of ds i = Some d \<and> settled locate g d"
  shows "fold (merge_group now locate) gs (ds, evs)
    = (map (\<lambda>(i, d). (i, if i \<in> fst ` set gs then touched now d else d)) ds, evs)"
  using assms
proof (induction gs arbitrary: ds)
  case Nil
  have "map (\<lambda>(i, d). (i, d)) ds = ds" by (rule map_idI) auto
  then show ?case by simp
next
  case (Cons ig gs)
  obtain i g where ig: "ig = (i, g)" by (cases ig)
  obtain d where d: "map_of ds i = Some d" "settled locate g d" using Cons.prems(3) ig by auto
  let ?ds = "put_drive i (touched now d) ds"
  have step: "merge_group now locate ig (ds, evs) = (?ds, evs)"
    using d by (simp add: merge_group_def ig settled_quiet)
  have ds: "?ds = map (\<lambda>(j, x). (j, if j = i then touched now d else x)) ds"
    by (rule put_drive_map [OF Cons.prems(2) d(1)])
  have own: "x = d" if "(i, x) \<in> set ds" for x
    using that d(1) Cons.prems(2) by simp
  have "\<forall>(j, h) \<in> set gs. \<exists>e. map_of ?ds j = Some e \<and> settled locate h e"
  proof clarify
    fix j h assume jh: "(j, h) \<in> set gs"
    then have "j \<noteq> i" using Cons.prems(1) ig by force
    moreover obtain e where "map_of ds j = Some e" "settled locate h e" using Cons.prems(3) jh by auto
    ultimately show "\<exists>e. map_of ?ds j = Some e \<and> settled locate h e" by simp
  qed
  moreover have "distinct (map fst ?ds)" using Cons.prems(2) d(1) by (auto simp: keys_put_drive dest: map_of_SomeD)
  ultimately have "fold (merge_group now locate) gs (?ds, evs)
      = (map (\<lambda>(i, d). (i, if i \<in> fst ` set gs then touched now d else d)) ?ds, evs)"
    using Cons.prems(1) by (intro Cons.IH) simp_all
  moreover have "map (\<lambda>(j, e). (j, if j \<in> fst ` set gs then touched now e else e)) ?ds
      = map (\<lambda>(j, e). (j, if j \<in> fst ` set (ig # gs) then touched now e else e)) ds"
    unfolding ds map_map using own Cons.prems(1) ig by (intro map_cong) (auto simp: touched_def)
  ultimately show ?case by (simp add: step)
qed

lemma missing_pass_quiet:
  "\<forall>(i, d) \<in> set ds. d_activity d = Missing \<or> i \<in> set seen \<Longrightarrow> missing_pass seen ds = (ds, [])"
proof -
  assume a: "\<forall>(i, d) \<in> set ds. d_activity d = Missing \<or> i \<in> set seen"
  then have no: "\<not> goes_missing seen x" if "x \<in> set ds" for x using that by (auto simp: goes_missing_def)
  then have "filter (goes_missing seen) ds = []" by (simp add: filter_empty_conv)
  moreover have "map (\<lambda>(i, d). (i, if goes_missing seen (i, d) then d\<lparr>d_activity := Missing\<rparr> else d)) ds = ds"
    using no by (intro map_idI) auto
  ultimately show ?thesis by (simp add: missing_pass_def)
qed

text \<open>
  A pass that observes what the pass before it observed reports nothing and
  changes nothing but the time the drives were last seen: no flapping of paths, places, kinds or
  sector sizes, for drives known before, new ones, missing ones and ones being formatted alike.
\<close>
theorem repeat_pass_quiet:
  assumes iv: "inventory_ok iv" and r: "merge_observed new_v5 locate now obs iv = (iv1, evs)"
  shows "merge_observed new_v5 locate later obs iv1
    = (iv1\<lparr>iv_drives := map (\<lambda>(i, d). (i, if i \<in> observed_id new_v5 ` set obs then touched later d else d)) (iv_drives iv1)\<rparr>, [])"
proof -
  note F = merge_observed_facts [OF iv r]
  let ?gs = "group_observed new_v5 obs"
  have ok: "drives_ok (iv_drives iv1)" using F(1) by (simp add: inventory_ok_iff)
  have gs: "distinct (map fst ?gs)" using group_observed_ok by (simp add: groups_ok_def)
  have "\<forall>(i, g) \<in> set ?gs. \<exists>d. map_of (iv_drives iv1) i = Some d \<and> settled locate g d"
  proof clarify
    fix i g assume "(i, g) \<in> set ?gs"
    from F(3) [OF this] show "\<exists>d. map_of (iv_drives iv1) i = Some d \<and> settled locate g d"
      using merge_known_settled new_drive_settled by (auto simp: merged_to_def split: option.splits)
  qed
  with gs ok have fold: "fold (merge_group later locate) ?gs (iv_drives iv1, [])
      = (map (\<lambda>(i, d). (i, if i \<in> fst ` set ?gs then touched later d else d)) (iv_drives iv1), [])"
    by (intro fold_settled) (simp_all add: drives_ok_def)
  have "d_activity d = Missing \<or> i \<in> fst ` set ?gs" if "(i, d) \<in> set (iv_drives iv1)" for i d
  proof -
    have "map_of (iv_drives iv1) i = Some d" using that ok by (simp add: drives_ok_def)
    then show ?thesis using F(2) [of i] by (cases "map_of (iv_drives iv) i") auto
  qed
  then have quiet: "missing_pass (map fst ?gs) (map (\<lambda>(i, d). (i, if i \<in> fst ` set ?gs then touched later d else d)) (iv_drives iv1))
      = (map (\<lambda>(i, d). (i, if i \<in> fst ` set ?gs then touched later d else d)) (iv_drives iv1), [])"
    by (intro missing_pass_quiet) (clarsimp, blast)
  show ?thesis
    unfolding merge_observed_def merge_groups_def fold Let_def prod.case quiet by (simp add: group_observed_ids)
qed

lemma repeat_pass_quiet_witness:
  "\<exists>iv1 evs. merge_observed (\<lambda>_. 7) (\<lambda>_. default_location) 1 [example_observed] empty_inventory = (iv1, evs)
     \<and> snd (merge_observed (\<lambda>_. 7) (\<lambda>_. default_location) 2 [example_observed] iv1) = []"
proof -
  obtain iv1 evs where r: "merge_observed (\<lambda>_. 7) (\<lambda>_. default_location) 1 [example_observed] empty_inventory = (iv1, evs)"
    by force
  have "inventory_ok empty_inventory" by (simp add: inventory_ok_def empty_inventory_def)
  from repeat_pass_quiet [OF this r] r show ?thesis by simp
qed

section \<open>Replacements\<close>

text \<open>The passes of a run, each with what it observed, where it found things and when.\<close>

type_synonym pass = "(string \<Rightarrow> location) \<times> time \<times> observed list"

definition run_passes :: "(string \<Rightarrow> drive_id) \<Rightarrow> pass list \<Rightarrow> inventory \<Rightarrow> inventory" where
  "run_passes new_v5 ps iv = fold (\<lambda>(locate, now, obs) iv. fst (merge_observed new_v5 locate now obs iv)) ps iv"

definition taken_ok :: "drives \<Rightarrow> bool" where
  "taken_ok ds \<longleftrightarrow> distinct (taken ds) \<and> set (taken ds) \<subseteq> fst ` set ds"

lemma last_seen_max_in: "last_seen_max ds = Some d \<Longrightarrow> d \<in> set ds"
proof -
  have "fold (\<lambda>d best. case best of None \<Rightarrow> Some d | Some b \<Rightarrow> if d_last_seen b \<le> d_last_seen d then Some d else Some b) ds m = Some d
    \<Longrightarrow> d \<in> set ds \<or> m = Some d" for m
    by (induction ds arbitrary: m) (auto split: option.splits if_splits)
  then show "last_seen_max ds = Some d \<Longrightarrow> d \<in> set ds" unfolding last_seen_max_def by blast
qed

lemma replaced_in_bay_Some:
  assumes "replaced_in_bay ds l = Some i" "drives_ok ds"
  shows "i \<notin> set (taken ds) \<and> i \<in> fst ` set ds"
proof -
  obtain j d where "(j, d) \<in> set ds" "d_id d = i" "i \<notin> set (taken ds)"
    using assms(1) by (auto simp: replaced_in_bay_def bind_eq_Some_conv dest!: last_seen_max_in)
  moreover have "j = d_id d" using calculation(1) assms(2) by (simp add: drives_ok_def)
  ultimately show ?thesis by force
qed

lemma taken_put_known:
  "map_of ds i = Some e \<Longrightarrow> d_replaces d = d_replaces e \<Longrightarrow> taken (put_drive i d ds) = taken ds"
  by (induction i d ds rule: put_drive.induct) (auto simp: taken_def List.map_filter_simps split: if_splits option.split)

lemma taken_put_new:
  "map_of ds i = None \<Longrightarrow> taken (put_drive i d ds) = taken ds @ (case d_replaces d of Some r \<Rightarrow> [r] | None \<Rightarrow> [])"
  by (induction i d ds rule: put_drive.induct) (auto simp: taken_def List.map_filter_simps split: if_splits option.splits)

lemma merge_group_taken:
  assumes "drives_ok ds" "taken_ok ds" "merge_group now locate ig (ds, evs) = (ds', evs')"
  shows "taken_ok ds'"
proof -
  obtain i g where ig: "ig = (i, g)" by (cases ig)
  note M = merge_group_map [OF assms(3) [unfolded ig]]
  show ?thesis
  proof (cases "map_of ds i")
    case None
    let ?r = "replaced_in_bay ds (locate (ob_name (hd g)))"
    have t: "taken ds' = taken ds @ (case ?r of Some r \<Rightarrow> [r] | None \<Rightarrow> [])"
      using M None taken_put_new [OF None] by simp
    have "i \<notin> fst ` set ds" using None by (simp add: map_of_eq_None_iff)
    then have "map fst ds' = map fst ds @ [i]" using M None by (simp add: keys_put_drive)
    then have k: "fst ` set ds' = insert i (fst ` set ds)" using set_map [of fst ds'] by simp
    show ?thesis
      using assms(2) replaced_in_bay_Some [OF _ assms(1)] unfolding taken_ok_def t k
      by (cases ?r) auto
  next
    case (Some e)
    have "d_replaces (fst (merge_known now locate g e)) = d_replaces e"
      by (rule merge_known_facts(3) [OF prod.collapse [symmetric]])
    then have "taken ds' = taken ds" using M Some taken_put_known [OF Some] by simp
    moreover have "i \<in> fst ` set ds" using map_of_SomeD [OF Some] by force
    then have "map fst ds' = map fst ds" using M Some by (simp add: keys_put_drive)
    then have "fst ` set ds' = fst ` set ds" using set_map [of fst ds'] by simp
    ultimately have "taken ds' = taken ds" "fst ` set ds' = fst ` set ds" by simp_all
    then show ?thesis using assms(2) by (simp add: taken_ok_def)
  qed
qed

lemma fold_taken:
  "drives_ok ds \<Longrightarrow> taken_ok ds \<Longrightarrow> fold (merge_group now locate) gs (ds, evs) = (ds', evs') \<Longrightarrow> taken_ok ds'"
proof (induction gs arbitrary: ds evs)
  case (Cons ig gs)
  obtain ds1 evs1 where 1: "merge_group now locate ig (ds, evs) = (ds1, evs1)" by force
  have "drives_ok ds1" using merge_group_facts(1) [of ds now locate "fst ig" "snd ig"] Cons.prems(1) 1 by simp
  then show ?case
    using Cons.IH [of ds1 evs1] merge_group_taken [OF Cons.prems(1,2) 1] Cons.prems(3) 1 by simp
qed simp

lemma missing_pass_taken: "taken (fst (missing_pass seen ds)) = taken ds"
proof (induction ds)
  case (Cons x ds)
  have "d_replaces (if c then snd x\<lparr>d_activity := Missing\<rparr> else snd x) = d_replaces (snd x)" for c by simp
  with Cons show ?case by (simp add: taken_def missing_pass_def List.map_filter_simps split_beta split: option.split)
qed (simp add: taken_def missing_pass_def)

lemma merge_observed_taken:
  assumes "inventory_ok iv" "taken_ok (iv_drives iv)"
  shows "taken_ok (iv_drives (fst (merge_observed new_v5 locate now obs iv)))"
proof -
  let ?gs = "group_observed new_v5 obs"
  obtain ds1 ev1 where f: "fold (merge_group now locate) ?gs (iv_drives iv, []) = (ds1, ev1)" by force
  have "iv_drives (fst (merge_observed new_v5 locate now obs iv)) = fst (missing_pass (map fst ?gs) ds1)"
    using f by (auto simp: merge_observed_def merge_groups_def Let_def split: prod.splits)
  moreover have "fst ` set (fst (missing_pass (map fst ?gs) ds1)) = fst ` set ds1"
    by (metis keys_missing_pass list.set_map)
  ultimately show ?thesis
    using fold_taken [OF _ assms(2) f] assms(1) by (simp add: taken_ok_def missing_pass_taken inventory_ok_iff)
qed

text \<open>
  Over any run of discovery passes from an empty inventory: every drive is
  filed under its own id, no two drives ever claim to replace the same one, and what a drive
  claims to replace is a drive of the inventory.
\<close>
theorem one_replacement_each:
  "inventory_ok (run_passes new_v5 ps empty_inventory)
   \<and> distinct (taken (iv_drives (run_passes new_v5 ps empty_inventory)))
   \<and> set (taken (iv_drives (run_passes new_v5 ps empty_inventory))) \<subseteq> fst ` set (iv_drives (run_passes new_v5 ps empty_inventory))"
proof -
  have "inventory_ok (run_passes new_v5 ps empty_inventory) \<and> taken_ok (iv_drives (run_passes new_v5 ps empty_inventory))"
  proof (induction ps rule: rev_induct)
    case Nil
    show ?case by (simp add: run_passes_def empty_inventory_def inventory_ok_def taken_ok_def taken_def List.map_filter_simps)
  next
    case (snoc p ps)
    obtain locate now obs where p: "p = (locate, now, obs)" by (cases p)
    show ?case
      using snoc merge_observed_taken merge_observed_facts(1) [OF _ prod.collapse [symmetric]]
      by (simp add: run_passes_def p)
  qed
  then show ?thesis by (simp add: taken_ok_def)
qed

end
