(* ===== verification/Health.thy ===== *)
theory Health
  imports Drives
begin

text \<open>
  \<open>src/src/monitor.rs\<close>, the verdict: what one sample says of a drive (\<open>evaluate_acked\<close>), the damping
  that keeps one bad read from moving a drive (\<open>Damper\<close>), and why a drive has no fresh health
  (\<open>stale_reason\<close>). The settings are \<open>MonitorConfig\<close> of \<open>src/src/config.rs\<close>. The \<open>i32\<close> temperatures
  are \<open>int\<close>, as in \<open>Smart\<close>.
\<close>

section \<open>Settings\<close>

record monitor_config =
  mc_interval_secs :: u64
  mc_temp_warn_c :: int
  mc_temp_crit_c :: int
  mc_spare_warn_pct :: u8
  mc_spare_crit_pct :: u8
  mc_wear_warn_pct :: u8
  mc_wear_crit_pct :: u8
  mc_wear_out_warn_days :: u64
  mc_hysteresis :: u32
  mc_max_concurrent :: nat
  mc_sample_timeout_secs :: u64

definition default_monitor :: monitor_config where
  "default_monitor = \<lparr>mc_interval_secs = 60, mc_temp_warn_c = 55, mc_temp_crit_c = 70,
     mc_spare_warn_pct = 20, mc_spare_crit_pct = 10, mc_wear_warn_pct = 80, mc_wear_crit_pct = 95,
     mc_wear_out_warn_days = 180, mc_hysteresis = 3, mc_max_concurrent = 8, mc_sample_timeout_secs = 10\<rparr>"

section \<open>The verdict on a sample\<close>

type_synonym verdict = "health_status \<times> string list"

definition worsen :: "health_status \<Rightarrow> string \<Rightarrow> verdict \<Rightarrow> verdict" where
  "worsen to msg v =
     (if fst v < to then to else fst v, if msg \<in> set (snd v) then snd v else snd v @ [msg])"

definition drive_temp_limits :: "monitor_config \<Rightarrow> temp_limits option \<Rightarrow> f64 \<times> f64" where
  "drive_temp_limits cfg own =
     (let dev = \<lparr>dl_warn_c = map_option f64_of_int (Option.bind own tl_warn_c),
                 dl_crit_c = map_option f64_of_int (Option.bind own tl_crit_c)\<rparr>;
          l = resolve dev None (f64_of_int (mc_temp_warn_c cfg), f64_of_int (mc_temp_crit_c cfg))
      in (lm_warn_c l, lm_crit_c l))"

definition accepted :: "health_ack option \<Rightarrow> string \<Rightarrow> u64 \<Rightarrow> bool" where
  "accepted ack k n = is_some_and (\<lambda>most. n \<le> most) (Option.bind ack (\<lambda>a. ha_counters a k))"

definition underscores :: "string \<Rightarrow> string" where
  "underscores k = map (\<lambda>c. if c = CHR ''_'' then CHR '' '' else c) k"

text \<open>The growth of one watched counter past what was acknowledged.\<close>

definition grown_line :: "health_ack \<Rightarrow> smart_counters \<Rightarrow> string \<Rightarrow> string option" where
  "grown_line a sm k =
     (case (ha_counters a k, counters sm k) of
        (Some old, Some n) \<Rightarrow>
          if old < n then Some (underscores k @ '' '' @ dec (unat old) @ '' '' @ utf8_arrow @ '' ''
              @ dec (unat n) @ '' since '' @ ha_by a @ '' acknowledged'') else None
      | _ \<Rightarrow> None)"

definition worsen_opt :: "health_status \<Rightarrow> string option \<Rightarrow> verdict \<Rightarrow> verdict" where
  "worsen_opt to msg v = (case msg of Some m \<Rightarrow> worsen to m v | None \<Rightarrow> v)"

definition smart_verdict :: "health_ack option \<Rightarrow> smart_counters \<Rightarrow> verdict \<Rightarrow> verdict" where
  "smart_verdict ack sm v0 =
     (let v1 = worsen_opt Failing (predicted_failure sm) v0;
          v2 = worsen_opt Warning (opt_filter (\<lambda>_. case ack of None \<Rightarrow> True | Some a \<Rightarrow> ha_ie a \<noteq> sc_ie sm) (ie_warning sm)) v1;
          v3 = worsen_opt Warning (map_option (\<lambda>n. dec (unat n) @ '' sector(s) pending reallocation'')
                 (opt_filter (\<lambda>n. n > 0 \<and> \<not> accepted ack ''pending_sectors'' n) (pending_sectors sm))) v2;
          v4 = worsen_opt Warning (map_option (\<lambda>n. dec (unat n) @ '' offline-uncorrectable sector(s)'')
                 (opt_filter (\<lambda>n. n > 0 \<and> \<not> accepted ack ''offline_uncorrectable'' n) (offline_uncorrectable sm))) v3
      in case ack of
           Some a \<Rightarrow> fold (\<lambda>k. worsen_opt Warning (grown_line a sm k)) ACK_WATCHED v4
         | None \<Rightarrow> v4)"

definition bit_set :: "u8 \<Rightarrow> u8 \<Rightarrow> bool" where
  "bit_set w b = (w AND b \<noteq> 0)"

definition nvme_verdict :: "u8 \<Rightarrow> verdict \<Rightarrow> verdict" where
  "nvme_verdict w v0 =
     (let v1 = worsen_opt Failed (guard (bit_set w READ_ONLY) ''NVMe: media in read-only mode'') v0;
          v2 = worsen_opt Failing (guard (bit_set w RELIABILITY_DEGRADED) ''NVMe: reliability degraded'') v1;
          v3 = worsen_opt Failing (guard (bit_set w SPARE_BELOW_THRESHOLD) ''NVMe: spare below threshold'') v2;
          v4 = worsen_opt Warning (guard (bit_set w VOLATILE_BACKUP_FAILED) ''NVMe: volatile backup failed'') v3
      in worsen_opt Warning (guard (bit_set w TEMPERATURE) ''NVMe: temperature over threshold'') v4)"

definition percent_line :: "string \<Rightarrow> u8 \<Rightarrow> string \<Rightarrow> u8 \<Rightarrow> string" where
  "percent_line what v op limit =
     what @ '' '' @ dec (unat v) @ ''% '' @ op @ '' '' @ dec (unat limit) @ ''%''"

definition spare_verdict :: "monitor_config \<Rightarrow> u8 option \<Rightarrow> verdict \<Rightarrow> verdict" where
  "spare_verdict cfg spare v =
     (case spare of
        None \<Rightarrow> v
      | Some s \<Rightarrow>
          if s \<le> mc_spare_crit_pct cfg
          then worsen Failing (percent_line ''available spare'' s utf8_le (mc_spare_crit_pct cfg)) v
          else if s \<le> mc_spare_warn_pct cfg
          then worsen Warning (percent_line ''available spare'' s utf8_le (mc_spare_warn_pct cfg)) v
          else v)"

definition wear_verdict :: "monitor_config \<Rightarrow> u8 option \<Rightarrow> verdict \<Rightarrow> verdict" where
  "wear_verdict cfg wear v =
     (case wear of
        None \<Rightarrow> v
      | Some w \<Rightarrow>
          if mc_wear_crit_pct cfg \<le> w
          then worsen Failing (percent_line ''wear'' w utf8_ge (mc_wear_crit_pct cfg)) v
          else if mc_wear_warn_pct cfg \<le> w
          then worsen Warning (percent_line ''wear'' w utf8_ge (mc_wear_warn_pct cfg)) v
          else v)"

definition temp_line :: "f64 \<Rightarrow> string \<Rightarrow> f64 \<Rightarrow> string" where
  "temp_line t word limit =
     ''temperature '' @ fmt0 t @ utf8_degree @ ''C '' @ utf8_ge @ '' '' @ word @ '' '' @ fmt0 limit @ utf8_degree @ ''C''"

definition temp_verdict :: "monitor_config \<Rightarrow> temp_limits option \<Rightarrow> int option \<Rightarrow> verdict \<Rightarrow> verdict" where
  "temp_verdict cfg own temp v =
     (case temp of
        None \<Rightarrow> v
      | Some t \<Rightarrow>
          (let (w, c) = drive_temp_limits cfg own; t = f64_of_int t in
           if f64_le c t then worsen Warning (temp_line t ''critical'' c) v
           else if f64_le w t then worsen Warning (temp_line t ''warn'' w) v
           else v))"

definition growth_verdict :: "u64 option \<Rightarrow> u64 \<Rightarrow> verdict \<Rightarrow> verdict" where
  "growth_verdict prev n v =
     (case prev of
        None \<Rightarrow> v
      | Some p \<Rightarrow>
          if p < n then worsen Warning (''media errors growing: '' @ dec (unat p) @ '' '' @ utf8_arrow @ '' '' @ dec (unat n)) v
          else v)"

definition evaluate_acked ::
  "monitor_config \<Rightarrow> sample \<Rightarrow> u64 option \<Rightarrow> health_ack option \<Rightarrow> verdict" where
  "evaluate_acked cfg s prev ack =
     (let v0 = (Good, s_messages s) in
      if \<not> s_kernel_ok s then worsen Failed ''device unusable (kernel state / command failure)'' v0
      else
        (let v1 = (case s_smart s of Some sm \<Rightarrow> smart_verdict ack sm v0 | None \<Rightarrow> v0);
             v2 = nvme_verdict (s_critical_warning s) v1;
             v3 = spare_verdict cfg (s_available_spare_pct s) v2;
             v4 = wear_verdict cfg (s_wear_pct s) v3;
             v5 = temp_verdict cfg (s_temp_limits s) (s_temperature_c s) v4
         in growth_verdict prev (s_media_errors s) v5))"

definition evaluate :: "monitor_config \<Rightarrow> sample \<Rightarrow> u64 option \<Rightarrow> verdict" where
  "evaluate cfg s prev = evaluate_acked cfg s prev None"

section \<open>Damping\<close>

text \<open>The worse status a drive is a candidate for, and for how many samples in a row.\<close>

type_synonym damper = "drive_id \<rightharpoonup> health_status \<times> u32"

definition damp ::
  "monitor_config \<Rightarrow> drive_id \<Rightarrow> health_status \<Rightarrow> health_status \<Rightarrow> damper \<Rightarrow> health_status \<times> damper" where
  "damp cfg i current candidate pending =
     (if candidate \<le> current then (candidate, pending(i := None))
      else
        (let e0 = (case pending i of Some e \<Rightarrow> e | None \<Rightarrow> (candidate, 0));
             e1 = (if fst e0 \<noteq> candidate then (candidate, 0) else e0);
             n = snd e1 + 1
         in if mc_hysteresis cfg \<le> n then (candidate, pending(i := None))
            else (current, pending(i := Some (candidate, n)))))"

section \<open>No fresh health\<close>

definition stale_reason :: "u64 option \<Rightarrow> u64 \<Rightarrow> u64 \<Rightarrow> bool \<Rightarrow> string option" where
  "stale_reason age up interval stuck =
     (let limit = 3 * interval;
          hung = (if stuck then ''; its health read is hung (see /api/v1/monitor)'' else [])
      in case age of
           Some a \<Rightarrow>
             if a \<le> limit then None
             else Some (''last health sample '' @ dec (unat a) @ '' s ago (every '' @ dec (unat interval) @ '' s expected)'' @ hung)
         | None \<Rightarrow>
             if up \<le> limit then Some (''first health sample due within '' @ dec (unat interval) @ '' s'')
             else Some (''no health sample in the '' @ dec (unat up) @ '' s since stormdrive started'' @ hung))"

section \<open>The verdict, exactly\<close>

text \<open>
  A verdict is a list of rules applied in order: each raises the status to its severity and adds its
  reason once.
\<close>

definition rule :: "health_status \<Rightarrow> string option \<Rightarrow> (health_status \<times> string) list" where
  "rule to msg = (case msg of Some m \<Rightarrow> [(to, m)] | None \<Rightarrow> [])"

definition applied :: "(health_status \<times> string) list \<Rightarrow> verdict \<Rightarrow> verdict" where
  "applied rs v = fold (\<lambda>(to, m). worsen to m) rs v"

lemma applied_simps [simp]: "applied [] v = v" "applied (r # rs) v = applied rs (worsen (fst r) (snd r) v)"
  by (simp_all add: applied_def split_beta)

lemma applied_append: "applied (xs @ ys) v = applied ys (applied xs v)"
  by (simp add: applied_def)

lemma worsen_opt_applied: "worsen_opt to msg v = applied (rule to msg) v"
  by (simp add: worsen_opt_def rule_def split: option.splits)

lemma fold_worsen_opt: "fold (\<lambda>k. worsen_opt to (f k)) ks v = applied (concat (map (\<lambda>k. rule to (f k)) ks)) v"
  by (induction ks arbitrary: v) (simp_all add: worsen_opt_applied applied_append)

lemma worsen_status: "x \<le> fst (worsen to m v) \<longleftrightarrow> x \<le> fst v \<or> x \<le> to"
  by (auto simp: worsen_def)

lemma applied_status: "x \<le> fst (applied rs v) \<longleftrightarrow> x \<le> fst v \<or> (\<exists>r \<in> set rs. x \<le> fst r)"
  by (induction rs arbitrary: v) (auto simp: worsen_status)

lemma worsen_reasons: "\<exists>extra. snd (worsen to m v) = snd v @ extra" "m \<in> set (snd (worsen to m v))"
  by (auto simp: worsen_def)

lemma applied_reasons: "\<exists>extra. snd (applied rs v) = snd v @ extra"
  by (induction rs arbitrary: v) (simp, metis applied_simps(2) append_assoc worsen_reasons(1))

lemma applied_given: "r \<in> set rs \<Longrightarrow> snd r \<in> set (snd (applied rs v))"
proof (induction rs arbitrary: v)
  case (Cons x rs)
  show ?case
  proof (cases "r = x")
    case True
    obtain e where "snd (applied rs (worsen (fst x) (snd x) v)) = snd (worsen (fst x) (snd x) v) @ e"
      using applied_reasons by blast
    then show ?thesis using True worsen_reasons(2) by simp
  qed (use Cons in simp)
qed simp

definition smart_rules :: "health_ack option \<Rightarrow> smart_counters \<Rightarrow> (health_status \<times> string) list" where
  "smart_rules ack sm =
     rule Failing (predicted_failure sm)
     @ rule Warning (opt_filter (\<lambda>_. case ack of None \<Rightarrow> True | Some a \<Rightarrow> ha_ie a \<noteq> sc_ie sm) (ie_warning sm))
     @ rule Warning (map_option (\<lambda>n. dec (unat n) @ '' sector(s) pending reallocation'')
         (opt_filter (\<lambda>n. n > 0 \<and> \<not> accepted ack ''pending_sectors'' n) (pending_sectors sm)))
     @ rule Warning (map_option (\<lambda>n. dec (unat n) @ '' offline-uncorrectable sector(s)'')
         (opt_filter (\<lambda>n. n > 0 \<and> \<not> accepted ack ''offline_uncorrectable'' n) (offline_uncorrectable sm)))
     @ (case ack of Some a \<Rightarrow> concat (map (\<lambda>k. rule Warning (grown_line a sm k)) ACK_WATCHED) | None \<Rightarrow> [])"

definition nvme_rules :: "u8 \<Rightarrow> (health_status \<times> string) list" where
  "nvme_rules w =
     rule Failed (guard (bit_set w READ_ONLY) ''NVMe: media in read-only mode'')
     @ rule Failing (guard (bit_set w RELIABILITY_DEGRADED) ''NVMe: reliability degraded'')
     @ rule Failing (guard (bit_set w SPARE_BELOW_THRESHOLD) ''NVMe: spare below threshold'')
     @ rule Warning (guard (bit_set w VOLATILE_BACKUP_FAILED) ''NVMe: volatile backup failed'')
     @ rule Warning (guard (bit_set w TEMPERATURE) ''NVMe: temperature over threshold'')"

lemma smart_verdict_applied: "smart_verdict ack sm v = applied (smart_rules ack sm) v"
  by (cases ack) (simp_all add: smart_verdict_def smart_rules_def Let_def worsen_opt_applied
      applied_append fold_worsen_opt)

lemma nvme_verdict_applied: "nvme_verdict w v = applied (nvme_rules w) v"
  by (simp add: nvme_verdict_def nvme_rules_def Let_def worsen_opt_applied applied_append)

text \<open>What makes a drive failed, failing or worth a warning, as the settings say it.\<close>

definition failed_signs :: "sample \<Rightarrow> bool" where
  "failed_signs s \<longleftrightarrow> \<not> s_kernel_ok s \<or> bit_set (s_critical_warning s) READ_ONLY"

definition failing_signs :: "monitor_config \<Rightarrow> sample \<Rightarrow> bool" where
  "failing_signs cfg s \<longleftrightarrow>
     is_some_and (\<lambda>sm. predicted_failure sm \<noteq> None) (s_smart s)
     \<or> bit_set (s_critical_warning s) RELIABILITY_DEGRADED
     \<or> bit_set (s_critical_warning s) SPARE_BELOW_THRESHOLD
     \<or> is_some_and (\<lambda>n. n \<le> mc_spare_crit_pct cfg) (s_available_spare_pct s)
     \<or> is_some_and (\<lambda>n. mc_wear_crit_pct cfg \<le> n) (s_wear_pct s)"

definition outgrown :: "health_ack \<Rightarrow> smart_counters \<Rightarrow> bool" where
  "outgrown a sm \<longleftrightarrow> list_ex (\<lambda>k. grown_line a sm k \<noteq> None) ACK_WATCHED"

definition sector_signs :: "health_ack option \<Rightarrow> smart_counters \<Rightarrow> bool" where
  "sector_signs ack sm \<longleftrightarrow>
     (ie_warning sm \<noteq> None \<and> (ack = None \<or> map_option ha_ie ack \<noteq> Some (sc_ie sm)))
     \<or> is_some_and (\<lambda>n. 0 < n \<and> \<not> accepted ack ''pending_sectors'' n) (pending_sectors sm)
     \<or> is_some_and (\<lambda>n. 0 < n \<and> \<not> accepted ack ''offline_uncorrectable'' n) (offline_uncorrectable sm)
     \<or> is_some_and (\<lambda>a. outgrown a sm) ack"

definition warning_signs :: "monitor_config \<Rightarrow> health_ack option \<Rightarrow> u64 option \<Rightarrow> sample \<Rightarrow> bool" where
  "warning_signs cfg ack prev s \<longleftrightarrow>
     is_some_and (sector_signs ack) (s_smart s)
     \<or> bit_set (s_critical_warning s) VOLATILE_BACKUP_FAILED
     \<or> bit_set (s_critical_warning s) TEMPERATURE
     \<or> is_some_and (\<lambda>n. n \<le> mc_spare_warn_pct cfg) (s_available_spare_pct s)
     \<or> is_some_and (\<lambda>n. mc_wear_warn_pct cfg \<le> n) (s_wear_pct s)
     \<or> is_some_and (\<lambda>t. let (w, c) = drive_temp_limits cfg (s_temp_limits s)
           in f64_le w (f64_of_int t) \<or> f64_le c (f64_of_int t)) (s_temperature_c s)
     \<or> is_some_and (\<lambda>p. p < s_media_errors s) prev"

definition reading_rules :: "monitor_config \<Rightarrow> u64 option \<Rightarrow> sample \<Rightarrow> (health_status \<times> string) list" where
  "reading_rules cfg prev s =
     (case s_available_spare_pct s of None \<Rightarrow> [] | Some n \<Rightarrow>
        if n \<le> mc_spare_crit_pct cfg then [(Failing, percent_line ''available spare'' n utf8_le (mc_spare_crit_pct cfg))]
        else if n \<le> mc_spare_warn_pct cfg then [(Warning, percent_line ''available spare'' n utf8_le (mc_spare_warn_pct cfg))]
        else [])
     @ (case s_wear_pct s of None \<Rightarrow> [] | Some n \<Rightarrow>
        if mc_wear_crit_pct cfg \<le> n then [(Failing, percent_line ''wear'' n utf8_ge (mc_wear_crit_pct cfg))]
        else if mc_wear_warn_pct cfg \<le> n then [(Warning, percent_line ''wear'' n utf8_ge (mc_wear_warn_pct cfg))]
        else [])
     @ (case s_temperature_c s of None \<Rightarrow> [] | Some t \<Rightarrow>
        let (w, c) = drive_temp_limits cfg (s_temp_limits s) in
        if f64_le c (f64_of_int t) then [(Warning, temp_line (f64_of_int t) ''critical'' c)]
        else if f64_le w (f64_of_int t) then [(Warning, temp_line (f64_of_int t) ''warn'' w)] else [])
     @ (case prev of None \<Rightarrow> [] | Some p \<Rightarrow>
        if p < s_media_errors s then [(Warning, ''media errors growing: '' @ dec (unat p) @ '' '' @ utf8_arrow
          @ '' '' @ dec (unat (s_media_errors s)))] else [])"

definition rules :: "monitor_config \<Rightarrow> sample \<Rightarrow> u64 option \<Rightarrow> health_ack option \<Rightarrow> (health_status \<times> string) list" where
  "rules cfg s prev ack =
     (if \<not> s_kernel_ok s then [(Failed, ''device unusable (kernel state / command failure)'')]
      else (case s_smart s of Some sm \<Rightarrow> smart_rules ack sm | None \<Rightarrow> [])
        @ nvme_rules (s_critical_warning s) @ reading_rules cfg prev s)"

lemma reading_verdict_applied:
  "growth_verdict prev (s_media_errors s) (temp_verdict cfg (s_temp_limits s) (s_temperature_c s)
     (wear_verdict cfg (s_wear_pct s) (spare_verdict cfg (s_available_spare_pct s) v)))
   = applied (reading_rules cfg prev s) v"
  unfolding reading_rules_def applied_append
  by (simp add: growth_verdict_def temp_verdict_def wear_verdict_def spare_verdict_def Let_def
      split: option.split prod.split)

lemma evaluate_applied: "evaluate_acked cfg s prev ack = applied (rules cfg s prev ack) (Good, s_messages s)"
proof (cases "s_kernel_ok s")
  case True
  then show ?thesis
    by (simp add: evaluate_acked_def rules_def Let_def applied_append nvme_verdict_applied
        smart_verdict_applied flip: reading_verdict_applied split: option.split)
qed (simp add: evaluate_acked_def rules_def)

lemma ex_rule [simp]: "(\<exists>r \<in> set (rule to m). x \<le> fst r) \<longleftrightarrow> m \<noteq> None \<and> x \<le> to"
  by (auto simp: rule_def split: option.splits)

lemma rank_simps [simp]:
  "\<not> Failed \<le> Failing" "\<not> Failed \<le> Warning" "\<not> Failed \<le> Good" "\<not> Failing \<le> Warning" "\<not> Failing \<le> Good"
  "\<not> Warning \<le> Good" "Warning \<le> Failing" "Warning \<le> Failed" "Failing \<le> Failed" "Good \<le> x \<longleftrightarrow> x \<noteq> Unknown"
  by (cases x; simp add: less_eq_health_status_def)+

lemma opt_filter_None_iff: "opt_filter p x = None \<longleftrightarrow> \<not> is_some_and p x"
  by (cases x) simp_all

lemma ex_smart_rules:
  "(\<exists>r \<in> set (smart_rules ack sm). Failed \<le> fst r) \<longleftrightarrow> False"
  "(\<exists>r \<in> set (smart_rules ack sm). Failing \<le> fst r) \<longleftrightarrow> predicted_failure sm \<noteq> None"
  "(\<exists>r \<in> set (smart_rules ack sm). Warning \<le> fst r) \<longleftrightarrow> predicted_failure sm \<noteq> None \<or> sector_signs ack sm"
proof -
  have grown: "(\<exists>r \<in> set (concat (map (\<lambda>k. rule Warning (grown_line a sm k)) ks)). x \<le> fst r)
      \<longleftrightarrow> x \<le> Warning \<and> list_ex (\<lambda>k. grown_line a sm k \<noteq> None) ks" for a x ks
    by (induction ks) (auto simp add: bex_Un simp del: not_None_eq)
  show "(\<exists>r \<in> set (smart_rules ack sm). Failed \<le> fst r) \<longleftrightarrow> False"
    "(\<exists>r \<in> set (smart_rules ack sm). Failing \<le> fst r) \<longleftrightarrow> predicted_failure sm \<noteq> None"
    by (cases ack; simp add: smart_rules_def bex_Un grown del: set_concat)+
  show "(\<exists>r \<in> set (smart_rules ack sm). Warning \<le> fst r) \<longleftrightarrow> predicted_failure sm \<noteq> None \<or> sector_signs ack sm"
    by (cases ack; cases "ie_warning sm")
      (auto simp add: smart_rules_def sector_signs_def outgrown_def bex_Un grown opt_filter_None_iff simp del: set_concat not_None_eq)
qed

lemma ex_nvme_rules:
  "(\<exists>r \<in> set (nvme_rules w). Failed \<le> fst r) \<longleftrightarrow> bit_set w READ_ONLY"
  "(\<exists>r \<in> set (nvme_rules w). Failing \<le> fst r) \<longleftrightarrow>
     bit_set w READ_ONLY \<or> bit_set w RELIABILITY_DEGRADED \<or> bit_set w SPARE_BELOW_THRESHOLD"
  "(\<exists>r \<in> set (nvme_rules w). Warning \<le> fst r) \<longleftrightarrow>
     bit_set w READ_ONLY \<or> bit_set w RELIABILITY_DEGRADED \<or> bit_set w SPARE_BELOW_THRESHOLD
     \<or> bit_set w VOLATILE_BACKUP_FAILED \<or> bit_set w TEMPERATURE"
  by (simp_all add: nvme_rules_def bex_Un disj_ac)

lemma ex_reading_rules:
  "(\<exists>r \<in> set (reading_rules cfg prev s). Failed \<le> fst r) \<longleftrightarrow> False"
  "(\<exists>r \<in> set (reading_rules cfg prev s). Failing \<le> fst r) \<longleftrightarrow>
     is_some_and (\<lambda>n. n \<le> mc_spare_crit_pct cfg) (s_available_spare_pct s)
     \<or> is_some_and (\<lambda>n. mc_wear_crit_pct cfg \<le> n) (s_wear_pct s)"
  "(\<exists>r \<in> set (reading_rules cfg prev s). Warning \<le> fst r) \<longleftrightarrow>
     is_some_and (\<lambda>n. n \<le> mc_spare_crit_pct cfg \<or> n \<le> mc_spare_warn_pct cfg) (s_available_spare_pct s)
     \<or> is_some_and (\<lambda>n. mc_wear_crit_pct cfg \<le> n \<or> mc_wear_warn_pct cfg \<le> n) (s_wear_pct s)
     \<or> is_some_and (\<lambda>t. let (w, c) = drive_temp_limits cfg (s_temp_limits s)
           in f64_le w (f64_of_int t) \<or> f64_le c (f64_of_int t)) (s_temperature_c s)
     \<or> is_some_and (\<lambda>p. p < s_media_errors s) prev"
  by (cases "s_available_spare_pct s"; cases "s_wear_pct s"; cases "s_temperature_c s"; cases prev;
      cases "drive_temp_limits cfg (s_temp_limits s)"; simp add: reading_rules_def bex_Un)+

lemma ex_rules:
  "(\<exists>r \<in> set (rules cfg s prev ack). Failed \<le> fst r) \<longleftrightarrow> failed_signs s"
  "(\<exists>r \<in> set (rules cfg s prev ack). Failing \<le> fst r) \<longleftrightarrow> failed_signs s \<or> failing_signs cfg s"
  "(\<exists>r \<in> set (rules cfg s prev ack). Warning \<le> fst r) \<longleftrightarrow>
     failed_signs s \<or> failing_signs cfg s \<or> warning_signs cfg ack prev s"
proof -
  show "(\<exists>r \<in> set (rules cfg s prev ack). Failed \<le> fst r) \<longleftrightarrow> failed_signs s"
    by (cases "s_smart s")
      (auto simp: rules_def failed_signs_def bex_Un ex_smart_rules ex_nvme_rules ex_reading_rules)
  show "(\<exists>r \<in> set (rules cfg s prev ack). Failing \<le> fst r) \<longleftrightarrow> failed_signs s \<or> failing_signs cfg s"
    by (cases "s_smart s")
      (auto simp add: rules_def failed_signs_def failing_signs_def bex_Un ex_smart_rules ex_nvme_rules ex_reading_rules
       simp del: not_None_eq)
  have or: "is_some_and (\<lambda>n. P n \<or> Q n) x \<longleftrightarrow> is_some_and P x \<or> is_some_and Q x" for P Q and x :: "u8 option"
    by (cases x) simp_all
  show "(\<exists>r \<in> set (rules cfg s prev ack). Warning \<le> fst r) \<longleftrightarrow>
      failed_signs s \<or> failing_signs cfg s \<or> warning_signs cfg ack prev s"
    by (cases "s_smart s")
      (auto simp add: rules_def failed_signs_def failing_signs_def warning_signs_def or bex_Un ex_smart_rules
        ex_nvme_rules ex_reading_rules simp del: not_None_eq)
qed

lemma verdict_status:
  "fst (evaluate_acked cfg s prev ack) = (if failed_signs s then Failed else if failing_signs cfg s then Failing
     else if warning_signs cfg ack prev s then Warning else Good)"
proof -
  let ?v = "applied (rules cfg s prev ack) (Good, s_messages s)"
  have "Failed \<le> fst ?v \<longleftrightarrow> failed_signs s" "Failing \<le> fst ?v \<longleftrightarrow> failed_signs s \<or> failing_signs cfg s"
    "Warning \<le> fst ?v \<longleftrightarrow> failed_signs s \<or> failing_signs cfg s \<or> warning_signs cfg ack prev s"
    "Good \<le> fst ?v"
    unfolding applied_status by (simp_all add: ex_rules)
  then show ?thesis
    unfolding evaluate_applied by (cases "fst ?v") (auto split: if_splits)
qed

lemma verdict_reason: "fst (evaluate_acked cfg s prev ack) = Good \<or> snd (evaluate_acked cfg s prev ack) \<noteq> []"
  unfolding evaluate_applied
  using applied_given [of _ "rules cfg s prev ack" "(Good, s_messages s)"]
  by (cases "rules cfg s prev ack") (simp, force)

text \<open>
  C16. The verdict on a sample is exactly what its signs call for: failed when the
  device is unusable or its media read-only; else failing when the drive predicts its own failure,
  its reliability is degraded, its spare is at or under the critical mark or its wear at or over
  it; else a warning on any of the lesser signs; else good - never unknown. Every status but good
  comes with a reason, and the sample's own messages are kept in front.
\<close>
theorem verdict_exact:
  "case evaluate_acked cfg s prev ack of (st, why) \<Rightarrow>
     st = (if failed_signs s then Failed else if failing_signs cfg s then Failing
           else if warning_signs cfg ack prev s then Warning else Good)
     \<and> take (length (s_messages s)) why = s_messages s
     \<and> (st = Good \<or> why \<noteq> [])"
proof -
  obtain extra where "snd (evaluate_acked cfg s prev ack) = s_messages s @ extra"
    using applied_reasons unfolding evaluate_applied by fastforce
  then show ?thesis
    using verdict_status [of cfg s prev ack] verdict_reason [of cfg s prev ack] by (auto simp: split_beta)
qed

lemma verdict_exact_witness:
  "fst (evaluate_acked default_monitor default_sample None None) = Failed \<and> snd (evaluate_acked default_monitor default_sample None None) \<noteq> []"
proof -
  have "failed_signs default_sample" by (simp add: failed_signs_def default_sample_def)
  then show ?thesis
    using verdict_exact [where cfg = default_monitor and s = default_sample and prev = None and ack = None]
    by (auto simp: split_beta)
qed

section \<open>An acknowledged warning\<close>

text \<open>What \<open>POST .../ack\<close> records: the code and the counters the drive reports now.\<close>

definition acks_now :: "health_ack \<Rightarrow> smart_counters \<Rightarrow> bool" where
  "acks_now a sm \<longleftrightarrow> ha_ie a = sc_ie sm \<and> ha_counters a = counters sm"

lemma acked_quiet: "acks_now a sm \<Longrightarrow> \<not> sector_signs (Some a) sm"
proof -
  assume a: "acks_now a sm"
  have "\<not> outgrown a sm"
    using a by (auto simp: outgrown_def list_ex_iff grown_line_def acks_now_def split: option.splits)
  moreover have "counters sm ''pending_sectors'' = pending_sectors sm"
    "counters sm ''offline_uncorrectable'' = offline_uncorrectable sm"
    by (simp_all add: counters_def counter_list_def)
  ultimately show ?thesis
    using a by (auto simp: sector_signs_def accepted_def acks_now_def is_some_and_iff)
qed

text \<open>
  C17. Acknowledging a drive's warning never hides that it is failing or failed:
  above a warning the verdict is the same with and without it. A watched counter that grew past
  what was acknowledged, or another exception code, is a warning again. And what was acknowledged
  no longer warns: with the code and the counters as they were, the drive's own counters add
  nothing.
\<close>
theorem ack_hides_no_failure:
  assumes smart: "s_smart s = Some sm"
  shows "(Failing \<le> fst (evaluate cfg s prev) \<or> Failing \<le> fst (evaluate_acked cfg s prev (Some a))
           \<longrightarrow> fst (evaluate_acked cfg s prev (Some a)) = fst (evaluate cfg s prev))
    \<and> (outgrown a sm \<or> ie_warning sm \<noteq> None \<and> ha_ie a \<noteq> sc_ie sm
           \<longrightarrow> Warning \<le> fst (evaluate_acked cfg s prev (Some a)))
    \<and> (acks_now a sm \<and> Failing > fst (evaluate cfg s prev)
           \<longrightarrow> fst (evaluate_acked cfg s prev (Some a)) = fst (evaluate cfg (s\<lparr>s_smart := None\<rparr>) prev))"
proof -
  have quiet: "warning_signs cfg (Some a) prev s \<longleftrightarrow> warning_signs cfg None prev (s\<lparr>s_smart := None\<rparr>)" if "acks_now a sm"
    using acked_quiet [OF that] smart by (simp add: warning_signs_def)
  have same: "failed_signs (s\<lparr>s_smart := None\<rparr>) = failed_signs s" by (simp add: failed_signs_def)
  have weaker: "failing_signs cfg (s\<lparr>s_smart := None\<rparr>) \<Longrightarrow> failing_signs cfg s" by (auto simp: failing_signs_def)
  show ?thesis
    unfolding evaluate_def verdict_status
    using quiet same weaker smart
    by (auto simp: warning_signs_def [of _ "Some a"] sector_signs_def)
qed

lemma ack_hides_no_failure_witness:
  "\<exists>s sm a. s_smart s = Some sm \<and> acks_now a sm
     \<and> fst (evaluate default_monitor s None) = Warning
     \<and> fst (evaluate_acked default_monitor s None (Some a)) = Good"
proof -
  let ?sm = "default_counters\<lparr>pending_sectors := Some 5\<rparr>"
  let ?s = "default_sample\<lparr>s_kernel_ok := True, s_smart := Some ?sm\<rparr>"
  let ?a = "\<lparr>ha_by = ''ops'', ha_at_unix = 0, ha_ie = None, ha_counters = counters ?sm\<rparr>"
  have ack: "acks_now ?a ?sm" by (simp add: acks_now_def default_counters_def)
  have clear: "\<not> bit_set 0 b" for b by (simp add: bit_set_def)
  have good: "fst (evaluate default_monitor (?s\<lparr>s_smart := None\<rparr>) None) = Good"
    by (simp add: evaluate_def verdict_status failed_signs_def failing_signs_def warning_signs_def default_sample_def clear)
  have warn: "fst (evaluate default_monitor ?s None) = Warning"
    by (simp add: evaluate_def verdict_status failed_signs_def failing_signs_def warning_signs_def sector_signs_def
        default_sample_def default_counters_def clear accepted_def)
  have "Failing > Warning" by (simp add: less_health_status_def)
  with ack warn good ack_hides_no_failure [of ?s ?sm default_monitor None ?a]
  have "fst (evaluate_acked default_monitor ?s None (Some ?a)) = Good" by simp
  then show ?thesis using ack warn by (intro exI [of _ ?s] exI [of _ ?sm] exI [of _ ?a]) simp
qed

section \<open>What damping keeps\<close>

text \<open>A call of \<open>apply\<close>: the drive, its status now and the candidate. \<open>damped\<close> is the damper after calls.\<close>

type_synonym damp_call = "drive_id \<times> health_status \<times> health_status"

definition damp_step :: "monitor_config \<Rightarrow> damp_call \<Rightarrow> damper \<Rightarrow> health_status \<times> damper" where
  "damp_step cfg c p = damp cfg (fst c) (fst (snd c)) (snd (snd c)) p"

definition damped :: "monitor_config \<Rightarrow> damp_call list \<Rightarrow> damper" where
  "damped cfg calls = fold (\<lambda>c p. snd (damp_step cfg c p)) calls Map.empty"

definition calls_of :: "drive_id \<Rightarrow> damp_call list \<Rightarrow> (health_status \<times> health_status) list" where
  "calls_of i calls = map snd (filter (\<lambda>c. fst c = i) calls)"

text \<open>The last \<open>n\<close> calls were all candidates for the one worse status \<open>st\<close>.\<close>

definition streak :: "health_status \<Rightarrow> nat \<Rightarrow> (health_status \<times> health_status) list \<Rightarrow> bool" where
  "streak st n hs \<longleftrightarrow> n \<le> length hs \<and> list_all (\<lambda>h. snd h = st \<and> fst h < st) (drop (length hs - n) hs)"

lemma streak_0 [simp]: "streak st 0 hs"
  by (simp add: streak_def)

lemma streak_snoc [simp]: "streak st (Suc n) (hs @ [h]) \<longleftrightarrow> streak st n hs \<and> snd h = st \<and> fst h < st"
  by (auto simp: streak_def)

lemma damped_snoc: "damped cfg (calls @ [c]) = snd (damp_step cfg c (damped cfg calls))"
  by (simp add: damped_def)

lemma damp_step_other: "fst c \<noteq> i \<Longrightarrow> snd (damp_step cfg c p) i = p i"
  by (simp add: damp_step_def damp_def Let_def)

lemma calls_of_snoc: "calls_of i (calls @ [c]) = (if fst c = i then calls_of i calls @ [snd c] else calls_of i calls)"
  by (simp add: calls_of_def)

lemma unat_succ_below: "unat (n :: u32) < unat (h :: u32) \<Longrightarrow> unat (n + 1) = Suc (unat n)"
  by unat_arith

text \<open>What the damper holds for a drive: a streak too short to have moved it.\<close>

lemma damped_streak:
  "damped cfg calls i = Some (st, n) \<Longrightarrow> 0 < n \<and> unat n < unat (mc_hysteresis cfg) \<and> streak st (unat n) (calls_of i calls)"
proof (induction calls arbitrary: st n rule: rev_induct)
  case (snoc c calls)
  let ?p = "damped cfg calls"
  obtain j cu ca where c: "c = (j, cu, ca)" by (cases c)
  show ?case
  proof (cases "j = i")
    case False
    then have "damped cfg (calls @ [c]) i = ?p i"
      by (simp add: damped_snoc c damp_step_other)
    then show ?thesis using snoc False by (simp add: calls_of_snoc c)
  next
    case True
    from snoc.prems have worse: "cu < ca"
      by (simp add: damped_snoc damp_step_def c damp_def True Let_def split: if_splits)
    define m where "m = (case ?p i of Some e \<Rightarrow> if fst e = ca then snd e else 0 | None \<Rightarrow> 0)"
    have m: "unat m = 0 \<or> unat m < unat (mc_hysteresis cfg)" "streak ca (unat m) (calls_of i calls)"
      using snoc.IH by (auto simp: m_def split: option.splits)
    have p': "st = ca \<and> n = m + 1 \<and> \<not> mc_hysteresis cfg \<le> m + 1"
      using snoc.prems worse
      by (auto simp: damped_snoc damp_step_def c damp_def True Let_def m_def split: if_splits option.splits)
    have "unat (m + 1) = Suc (unat m)"
      using m(1) by (auto intro: unat_succ_below) (metis add_0 unat_1 unat_eq_zero One_nat_def)
    then show ?thesis
      using p' m(2) worse by (simp add: calls_of_snoc c True word_less_nat_alt word_le_nat_alt)
  qed
qed (simp add: damped_def)

text \<open>One more call: the streak it makes, whether it moves the drive or not.\<close>

lemma damp_worse:
  assumes "cu < ca"
  shows "\<exists>m. streak ca m (calls_of i calls @ [(cu, ca)]) \<and> 0 < m
    \<and> (if unat (mc_hysteresis cfg) \<le> m then damp cfg i cu ca (damped cfg calls) = (ca, (damped cfg calls)(i := None))
       else fst (damp cfg i cu ca (damped cfg calls)) = cu
          \<and> snd (damp cfg i cu ca (damped cfg calls)) i = Some (ca, word_of_nat m))
    \<and> (case damped cfg calls i of Some (st, n) \<Rightarrow> st = ca \<longrightarrow> m = Suc (unat n) | None \<Rightarrow> m = 1)"
proof -
  let ?p = "damped cfg calls"
  define m where "m = (case ?p i of Some e \<Rightarrow> if fst e = ca then snd e else 0 | None \<Rightarrow> 0)"
  have m: "unat m = 0 \<or> unat m < unat (mc_hysteresis cfg)" "streak ca (unat m) (calls_of i calls)"
    using damped_streak [of cfg calls i] by (auto simp: m_def split: option.splits)
  have suc: "unat (m + 1) = Suc (unat m)"
    using m(1) by (auto intro: unat_succ_below) (metis add_0 unat_1 unat_eq_zero One_nat_def)
  have "mc_hysteresis cfg \<le> m + 1 \<longleftrightarrow> unat (mc_hysteresis cfg) \<le> Suc (unat m)"
    by (simp add: word_le_nat_alt suc)
  moreover have "word_of_nat (Suc (unat m)) = m + 1"
    by (simp flip: suc)
  ultimately show ?thesis
    using assms m(2)
    by (intro exI [of _ "Suc (unat m)"]) (auto simp: damp_def m_def Let_def split: option.splits if_splits)
qed

text \<open>
  Damping, over any interleaving of samples of any drives: a candidate no worse
  than the drive's status is taken at once; a worse one leaves the status as it is, or becomes it
  after a streak of samples of this drive, as long as the hysteresis and ending with this one, that
  were every one a candidate for this same worse status. One bad read among good ones never moves
  a drive.
\<close>
theorem damper_sound:
  "(ca \<le> cu \<longrightarrow> fst (damp cfg i cu ca (damped cfg calls)) = ca)
   \<and> (cu < ca \<longrightarrow> fst (damp cfg i cu ca (damped cfg calls)) = cu
       \<or> fst (damp cfg i cu ca (damped cfg calls)) = ca
         \<and> (\<exists>m \<ge> max 1 (unat (mc_hysteresis cfg)). streak ca m (calls_of i calls @ [(cu, ca)])))"
proof (intro conjI impI)
  show "fst (damp cfg i cu ca (damped cfg calls)) = ca" if "ca \<le> cu"
    using that by (simp add: damp_def)
  show "fst (damp cfg i cu ca (damped cfg calls)) = cu
       \<or> fst (damp cfg i cu ca (damped cfg calls)) = ca
         \<and> (\<exists>m \<ge> max 1 (unat (mc_hysteresis cfg)). streak ca m (calls_of i calls @ [(cu, ca)]))" if "cu < ca"
    using damp_worse [OF that, of i calls cfg] by (auto split: if_splits simp: Suc_le_eq)
qed

text \<open>The streak so far of drive \<open>i\<close> for \<open>st\<close>, while nothing in the block moved it.\<close>

lemma stuck_streak:
  assumes "list_all (\<lambda>c. fst c = i \<longrightarrow> snd (snd c) = st \<and> fst (snd c) < st) block"
    and "list_all (\<lambda>n. fst (block ! n) = i \<longrightarrow> fst (damp_step cfg (block ! n) (damped cfg (pre @ take n block))) \<noteq> st) [0..<length block]"
    and "calls_of i block \<noteq> []"
  shows "\<exists>n. damped cfg (pre @ block) i = Some (st, n) \<and> length (calls_of i block) \<le> unat n"
  using assms
proof (induction block rule: rev_induct)
  case (snoc c block)
  have IH: "calls_of i block \<noteq> [] \<Longrightarrow> \<exists>n. damped cfg (pre @ block) i = Some (st, n) \<and> length (calls_of i block) \<le> unat n"
    using snoc.IH snoc.prems by (auto simp: list_all_iff nth_append)
  obtain j cu ca where c: "c = (j, cu, ca)" by (cases c)
  have after: "damped cfg (pre @ block @ [c]) = snd (damp_step cfg c (damped cfg (pre @ block)))"
    using damped_snoc [of cfg "pre @ block" c] by simp
  show ?case
  proof (cases "j = i")
    case False
    then have "damped cfg (pre @ block @ [c]) i = damped cfg (pre @ block) i"
      using after by (simp add: c damp_step_other)
    then show ?thesis using False IH snoc.prems by (simp add: calls_of_snoc c)
  next
    case True
    have worse: "cu < ca" "ca = st" using snoc.prems(1) by (simp_all add: c True)
    have stays: "fst (damp cfg i cu ca (damped cfg (pre @ block))) \<noteq> st"
      using snoc.prems(2) by (auto simp: list_all_iff nth_append c True damp_step_def)
    obtain m where m: "streak ca m (calls_of i (pre @ block) @ [(cu, ca)])" "\<not> unat (mc_hysteresis cfg) \<le> m"
      "snd (damp cfg i cu ca (damped cfg (pre @ block))) i = Some (ca, word_of_nat m)"
      "case damped cfg (pre @ block) i of Some (st, n) \<Rightarrow> st = ca \<longrightarrow> m = Suc (unat n) | None \<Rightarrow> m = 1" "0 < m"
      using damp_worse [OF worse(1), of i "pre @ block" cfg] stays worse(2) by (auto split: if_splits)
    have "m < 2 ^ 32" using m(2) unsigned_less [where w = "mc_hysteresis cfg" and ?'a = nat] by simp
    then have "unat (word_of_nat m :: u32) = m" by (simp add: unsigned_of_nat take_bit_nat_eq_self)
    moreover have "length (calls_of i block) < m"
      using IH m(4,5) worse(2) by (cases "calls_of i block = []") auto
    ultimately show ?thesis
      using m(3) worse(2) after by (simp add: damp_step_def c True calls_of_snoc)
  qed
qed (simp add: calls_of_def)

text \<open>
  A drive that really got worse is moved: among any block of samples in which every
  one of this drive's is a candidate for the same worse status, and there are as many of them as the
  hysteresis asks (at least one), one moves the drive to it - whatever came before and whatever
  samples of other drives lie between.
\<close>
theorem damper_moves:
  assumes worse: "list_all (\<lambda>c. fst c = i \<longrightarrow> snd (snd c) = st \<and> fst (snd c) < st) block"
    and enough: "max 1 (unat (mc_hysteresis cfg)) \<le> length (calls_of i block)"
  shows "\<exists>n < length block. fst (block ! n) = i \<and> fst (damp_step cfg (block ! n) (damped cfg (pre @ take n block))) = st"
proof (rule ccontr)
  assume "\<not> ?thesis"
  then have "list_all (\<lambda>n. fst (block ! n) = i \<longrightarrow> fst (damp_step cfg (block ! n) (damped cfg (pre @ take n block))) \<noteq> st) [0..<length block]"
    by (auto simp: list_all_iff)
  with worse enough obtain n where n: "damped cfg (pre @ block) i = Some (st, n)" "length (calls_of i block) \<le> unat n"
    using stuck_streak [of i st block cfg pre] by fastforce
  then show False using damped_streak [OF n(1)] enough by simp
qed

lemma damper_sound_witness:
  "let cfg = default_monitor; W = (1 :: drive_id, Good, Warning) in
     fst (damp cfg 1 Good Warning (damped cfg [W])) = Good
     \<and> fst (damp cfg 1 Warning Good (damped cfg [W, W])) = Good"
  using damper_sound [where ca = Good and cu = Warning and i = 1 and cfg = default_monitor
      and calls = "[(1, Good, Warning), (1, Good, Warning)]"]
    damper_sound [where ca = Warning and cu = Good and i = 1 and cfg = default_monitor and calls = "[(1, Good, Warning)]"]
  by (auto simp: Let_def default_monitor_def less_eq_health_status_def less_health_status_def streak_def calls_of_def)

definition example_block :: "damp_call list" where
  "example_block = [(1, Good, Warning), (1, Good, Warning), (2, Good, Good), (1, Good, Warning)]"

lemma damper_moves_witness:
  "\<exists>n < length example_block. fst (example_block ! n) = 1
     \<and> fst (damp_step default_monitor (example_block ! n) (damped default_monitor ([] @ take n example_block))) = Warning"
  by (rule damper_moves) (simp_all add: example_block_def default_monitor_def calls_of_def less_health_status_def)

section \<open>Fresh, due or stale\<close>

lemma stale_reason_iff:
  assumes "3 * unat interval < 2 ^ 64"
  shows "stale_reason (Some a) up interval stuck = None \<longleftrightarrow> unat a \<le> 3 * unat interval"
    and "\<exists>m. stale_reason None up interval stuck = Some m"
proof -
  have "unat (3 * interval) = 3 * unat interval"
    using assms by (subst unat_mult_lem [THEN iffD1]) simp_all
  then show "stale_reason (Some a) up interval stuck = None \<longleftrightarrow> unat a \<le> 3 * unat interval"
    by (simp add: stale_reason_def Let_def word_le_nat_alt)
qed (simp add: stale_reason_def Let_def)

end
