(* ===== verification/Poller.thy ===== *)
theory Poller
  imports Health
begin

text \<open>
  \<open>src/src/poller.rs\<close>: when each drive is due (\<open>Schedule\<close>), what asking a drive gives (\<open>Outcome\<close>),
  the bounded, timed-out reads (\<open>Sampler\<close>) as a labelled transition system, and the cost figures.
  \<open>Duration\<close> and \<open>Instant\<close> are counts of nanoseconds (their overflow panics are not modelled).
\<close>

section \<open>The schedule\<close>

definition second :: nat where "second = 1000000000"
definition milli :: nat where "milli = 1000000"

text \<open>\<open>id.0.as_u128() % ms\<close>, cast to \<open>u64\<close> and read as milliseconds.\<close>

definition phase :: "drive_id \<Rightarrow> nat \<Rightarrow> nat" where
  "phase i interval =
     (let ms = max 1 (interval div milli) in unat (word_of_nat (unat i mod ms) :: u64) * milli)"

record schedule =
  sc_interval :: nat
  sc_next_due :: "drive_id \<rightharpoonup> nat"

definition new_schedule :: "nat \<Rightarrow> schedule" where
  "new_schedule interval = \<lparr>sc_interval = max interval second, sc_next_due = Map.empty\<rparr>"

text \<open>One drive of \<open>take_due\<close>: its entry made if need be, and moved on when it was due.\<close>

definition due_one :: "nat \<Rightarrow> nat \<Rightarrow> drive_id \<Rightarrow> (drive_id \<rightharpoonup> nat) \<Rightarrow> bool \<times> (drive_id \<rightharpoonup> nat)" where
  "due_one interval now i next_due =
     (let w = (case next_due i of Some t \<Rightarrow> t | None \<Rightarrow> now + phase i interval) in
      if w \<le> now
      then (True, next_due(i \<mapsto> (if w + interval \<le> now then now + interval else w + interval)))
      else (False, next_due(i \<mapsto> w)))"

fun due_all :: "nat \<Rightarrow> nat \<Rightarrow> drive_id list \<Rightarrow> (drive_id \<rightharpoonup> nat) \<Rightarrow> drive_id list \<times> (drive_id \<rightharpoonup> nat)" where
  "due_all interval now [] m = ([], m)"
| "due_all interval now (i # is) m =
     (let (b, m1) = due_one interval now i m; (due, m2) = due_all interval now is m1
      in (if b then i # due else due, m2))"

definition take_due :: "nat \<Rightarrow> drive_id list \<Rightarrow> schedule \<Rightarrow> drive_id list \<times> schedule" where
  "take_due now present s =
     (let kept = sc_next_due s |` set present;
          (due, m) = due_all (sc_interval s) now present kept
      in (due, s\<lparr>sc_next_due := m\<rparr>))"

section \<open>What came of asking a drive\<close>

datatype outcome = Sampled sample | TimedOut | StillStuck

text \<open>\<open>Outcome::sample\<close>: what the thresholds see. The timeout is in seconds here (\<open>as_secs\<close>).\<close>

fun outcome_sample :: "nat \<Rightarrow> outcome \<Rightarrow> sample" where
  "outcome_sample timeout (Sampled s) = s"
| "outcome_sample timeout TimedOut =
     default_sample\<lparr>s_kernel_ok := False,
       s_messages := [''health read did not answer within '' @ dec timeout @ '' s'']\<rparr>"
| "outcome_sample timeout StillStuck =
     default_sample\<lparr>s_kernel_ok := False, s_messages := [''health read still hung from an earlier poll'']\<rparr>"

definition answered :: "outcome \<Rightarrow> bool" where
  "answered out = (case out of Sampled _ \<Rightarrow> True | _ \<Rightarrow> False)"

section \<open>The cost figures\<close>

record poll_stats =
  ps_interval_secs :: u64
  ps_max_concurrent :: nat
  ps_sample_timeout_secs :: u64
  ps_drives :: nat
  ps_in_flight :: nat
  ps_stuck :: "string list"
  ps_samples :: u64
  ps_timeouts :: u64
  ps_last_sample_ms :: "u64 option"
  ps_avg_sample_ms :: "f64 option"
  ps_max_sample_ms :: u64
  ps_busy_ms_per_interval :: "f64 option"
  ps_load_pct :: "f64 option"
  ps_discovery_ms :: "u64 option"
  ps_discovery_drives :: nat
  ps_discovery_cached :: nat

definition f64_of_nat :: "nat \<Rightarrow> f64" where "f64_of_nat n = f64_of_int (int n)"

definition refresh_cost :: "poll_stats \<Rightarrow> poll_stats" where
  "refresh_cost s =
     (case ps_avg_sample_ms s of
        None \<Rightarrow> s
      | Some avg \<Rightarrow>
          (let busy = f64_mul avg (f64_of_nat (ps_drives s));
               capacity = f64_mul (f64_of_nat (unat (max (ps_interval_secs s) 1 * 1000))) (f64_of_nat (ps_max_concurrent s))
           in s\<lparr>ps_busy_ms_per_interval := Some busy,
                ps_load_pct := Some (f64_div (f64_mul (f64_of_int 100) busy) capacity)\<rparr>))"

definition set_drives :: "nat \<Rightarrow> poll_stats \<Rightarrow> poll_stats" where
  "set_drives n s = refresh_cost (s\<lparr>ps_drives := n\<rparr>)"

definition record_discovery :: "u64 \<Rightarrow> nat \<Rightarrow> nat \<Rightarrow> poll_stats \<Rightarrow> poll_stats" where
  "record_discovery ms drives cached s =
     s\<lparr>ps_discovery_ms := Some ms, ps_discovery_drives := drives, ps_discovery_cached := cached\<rparr>"

text \<open>The accounting of one finished \<open>sample\<close>, by how the timed wait for the read ended.\<close>

datatype wait_end = Finished sample | Panicked | Elapsed

definition account :: "u64 \<Rightarrow> wait_end \<Rightarrow> poll_stats \<Rightarrow> outcome \<times> poll_stats" where
  "account ms e s0 =
     (let s = s0\<lparr>ps_samples := ps_samples s0 + 1\<rparr>; x = f64_of_nat (unat ms) in
      case e of
        Finished smp \<Rightarrow>
          (Sampled smp, refresh_cost (s\<lparr>ps_last_sample_ms := Some ms,
             ps_max_sample_ms := max (ps_max_sample_ms s) ms,
             ps_avg_sample_ms := Some (case ps_avg_sample_ms s of
                Some a \<Rightarrow> f64_add a (f64_div (f64_sub x a) (f64_of_int 16)) | None \<Rightarrow> x)\<rparr>))
      | Panicked \<Rightarrow> (TimedOut, s)
      | Elapsed \<Rightarrow> (TimedOut, s\<lparr>ps_timeouts := ps_timeouts s + 1\<rparr>))"

section \<open>Every drive once an interval, never a burst\<close>

lemma second_pos: "0 < second" by (simp add: second_def)

lemma phase_less: "second \<le> interval \<Longrightarrow> phase i interval < interval"
proof -
  assume i: "second \<le> interval"
  let ?ms = "max 1 (interval div milli)"
  have ms: "?ms * milli \<le> interval" using i by (simp add: second_def milli_def)
  have "unat (word_of_nat (unat i mod ?ms) :: u64) \<le> unat i mod ?ms"
    by (simp add: unsigned_of_nat take_bit_nat_less_eq_self)
  also have "\<dots> < ?ms" by simp
  finally have "unat (word_of_nat (unat i mod ?ms) :: u64) * milli < ?ms * milli"
    by (simp add: milli_def)
  then have "phase i interval < ?ms * milli" by (simp only: phase_def Let_def)
  then show ?thesis using ms by (rule less_le_trans)
qed

text \<open>No entry lies more than an interval ahead; after a call every present drive's lies ahead.\<close>

definition sched_ok :: "nat \<Rightarrow> schedule \<Rightarrow> bool" where
  "sched_ok now s \<longleftrightarrow> second \<le> sc_interval s \<and> (\<forall>i t. sc_next_due s i = Some t \<longrightarrow> t \<le> now + sc_interval s)"

lemma sched_ok_mono: "sched_ok now s \<Longrightarrow> now \<le> later \<Longrightarrow> sched_ok later s"
  by (fastforce simp: sched_ok_def)

lemma due_one_facts:
  assumes I: "second \<le> I" and m: "\<forall>t. m i = Some t \<longrightarrow> t \<le> now + I" and r: "due_one I now i m = (b, m')"
  shows "\<exists>y. m' i = Some y \<and> now < y \<and> y \<le> now + I
      \<and> (\<forall>t. m i = Some t \<longrightarrow> (b \<longleftrightarrow> t \<le> now) \<and> (if b then t + I \<le> y else y = t))"
    and "j \<noteq> i \<Longrightarrow> m' j = m j"
proof -
  have "0 < I" using I second_pos by linarith
  then show "\<exists>y. m' i = Some y \<and> now < y \<and> y \<le> now + I
      \<and> (\<forall>t. m i = Some t \<longrightarrow> (b \<longleftrightarrow> t \<le> now) \<and> (if b then t + I \<le> y else y = t))"
    using r m phase_less [OF I, of i] by (cases "m i") (auto simp: due_one_def Let_def split: if_splits)
  show "j \<noteq> i \<Longrightarrow> m' j = m j"
    using r by (auto simp: due_one_def Let_def split: if_splits)
qed

lemma due_all_facts:
  assumes "second \<le> I" "distinct is" "\<forall>i t. m i = Some t \<longrightarrow> t \<le> now + I" "due_all I now is m = (due, m')"
  shows "if i \<in> set is then (\<exists>y. m' i = Some y \<and> now < y \<and> y \<le> now + I
      \<and> (\<forall>t. m i = Some t \<longrightarrow> (i \<in> set due \<longleftrightarrow> t \<le> now) \<and> (if i \<in> set due then t + I \<le> y else y = t)))
    else m' i = m i \<and> i \<notin> set due"
  using assms(2-4)
proof (induction "is" arbitrary: m due)
  case (Cons j js)
  obtain b m1 where one: "due_one I now j m = (b, m1)" by force
  obtain due1 where rest: "due_all I now js m1 = (due1, m')" "due = (if b then j # due1 else due1)"
    using Cons.prems(3) one by (auto split: prod.splits)
  have m: "\<forall>t. m j = Some t \<longrightarrow> t \<le> now + I" using Cons.prems(2) by blast
  note J = due_one_facts [OF assms(1) m one]
  have m1: "\<forall>i t. m1 i = Some t \<longrightarrow> t \<le> now + I"
    using J Cons.prems(2) by (metis option.sel)
  have IH: "if i \<in> set js then (\<exists>y. m' i = Some y \<and> now < y \<and> y \<le> now + I
      \<and> (\<forall>t. m1 i = Some t \<longrightarrow> (i \<in> set due1 \<longleftrightarrow> t \<le> now) \<and> (if i \<in> set due1 then t + I \<le> y else y = t)))
    else m' i = m1 i \<and> i \<notin> set due1"
    using Cons.IH [OF _ m1 rest(1)] Cons.prems(1) by simp
  show ?case
  proof (cases "i = j")
    case True
    then have "m' j = m1 j" "j \<notin> set due1" using IH Cons.prems(1) by simp_all
    then show ?thesis using True J(1) rest(2) by (cases b) simp_all
  next
    case False
    then show ?thesis using IH J(2) [OF False] rest(2) by auto
  qed
qed auto

lemma take_due_facts:
  assumes ok: "sched_ok now s" and d: "distinct present" and r: "take_due now present s = (due, s')"
  shows "sched_ok now s'" "sc_interval s' = sc_interval s" "set due \<subseteq> set present"
    "i \<in> set present \<Longrightarrow> \<exists>y. sc_next_due s' i = Some y \<and> now < y \<and> y \<le> now + sc_interval s
       \<and> (\<forall>t. sc_next_due s i = Some t \<longrightarrow> (i \<in> set due \<longleftrightarrow> t \<le> now)
            \<and> (if i \<in> set due then t + sc_interval s \<le> y else y = t))"
proof -
  let ?I = "sc_interval s"
  let ?m = "sc_next_due s |` set present"
  obtain m' where m': "due_all ?I now present ?m = (due, m')" "s' = s\<lparr>sc_next_due := m'\<rparr>"
    using r by (auto simp: take_due_def Let_def split: prod.splits)
  have I: "second \<le> ?I" and m: "\<forall>i t. ?m i = Some t \<longrightarrow> t \<le> now + ?I"
    using ok by (auto simp: sched_ok_def restrict_map_def)
  note F = due_all_facts [OF I d m m'(1)]
  show "sc_interval s' = ?I" by (simp add: m'(2))
  show "set due \<subseteq> set present" using F by (meson subsetI)
  have out: "i \<notin> set present \<Longrightarrow> m' i = None" for i using F [of i] by simp
  show "sched_ok now s'"
    unfolding sched_ok_def
  proof (intro conjI allI impI)
    fix i t assume "sc_next_due s' i = Some t"
    then show "t \<le> now + sc_interval s'"
      using F [of i] out [of i] by (cases "i \<in> set present") (auto simp: m'(2))
  qed (use I m'(2) in simp)
  show "\<exists>y. sc_next_due s' i = Some y \<and> now < y \<and> y \<le> now + ?I
       \<and> (\<forall>t. sc_next_due s i = Some t \<longrightarrow> (i \<in> set due \<longleftrightarrow> t \<le> now) \<and> (if i \<in> set due then t + ?I \<le> y else y = t))"
    if "i \<in> set present"
    using F [of i] that by (auto simp: m'(2))
qed

text \<open>A run of the schedule: the calls (time and drives present), and the drives due at each.\<close>

type_synonym call = "nat \<times> drive_id list"

fun schedule_run :: "call list \<Rightarrow> schedule \<Rightarrow> drive_id list list \<times> schedule" where
  "schedule_run [] s = ([], s)"
| "schedule_run (c # cs) s =
     (let (due, s1) = take_due (fst c) (snd c) s; (rest, s2) = schedule_run cs s1 in (due # rest, s2))"

definition times_due :: "drive_id \<Rightarrow> drive_id list list \<Rightarrow> nat" where
  "times_due i dues = length (filter (\<lambda>due. i \<in> set due) dues)"

text \<open>Calls at increasing times, none naming a drive twice (they are the keys of a map).\<close>

definition calls_ok :: "call list \<Rightarrow> bool" where
  "calls_ok cs \<longleftrightarrow> sorted (map fst cs) \<and> list_all (\<lambda>c. distinct (snd c)) cs"

lemma schedule_run_append:
  "schedule_run (xs @ ys) s =
     (let (a, s1) = schedule_run xs s; (b, s2) = schedule_run ys s1 in (a @ b, s2))"
  by (induction xs arbitrary: s) (simp_all split: prod.splits)

lemma schedule_run_ok:
  assumes "sched_ok t s" "calls_ok cs" "list_all (\<lambda>c. t \<le> fst c) cs" "schedule_run cs s = (dues, s')"
  shows "sched_ok (last (t # map fst cs)) s' \<and> sc_interval s' = sc_interval s"
  using assms
proof (induction cs arbitrary: t s dues)
  case (Cons c cs)
  obtain due s1 rest where 1: "take_due (fst c) (snd c) s = (due, s1)" "schedule_run cs s1 = (rest, s')"
    using Cons.prems(4) by (auto split: prod.splits)
  have "sched_ok (fst c) s" using Cons.prems(1,3) by (auto intro: sched_ok_mono)
  from take_due_facts(1,2) [OF this _ 1(1)] Cons.prems(2) have "sched_ok (fst c) s1" "sc_interval s1 = sc_interval s"
    by (simp_all add: calls_ok_def)
  then show ?case
    using Cons.IH [OF _ _ _ 1(2), of "fst c"] Cons.prems(2) by (auto simp: calls_ok_def list_all_iff)
qed simp

text \<open>Each time a drive is due its next time moves an interval on; otherwise it stays.\<close>

lemma run_potential:
  assumes "sched_ok t s" "calls_ok cs" "list_all (\<lambda>c. t \<le> fst c \<and> i \<in> set (snd c)) cs"
    "sc_next_due s i = Some x" "t < x" "x \<le> t + sc_interval s" "schedule_run cs s = (dues, s')"
  shows "\<exists>y. times_due i dues * sc_interval s + x \<le> y \<and> last (t # map fst cs) < y
    \<and> y \<le> last (t # map fst cs) + sc_interval s \<and> (times_due i dues = 0 \<longrightarrow> y = x)"
  using assms
proof (induction cs arbitrary: t s x dues)
  case Nil
  then show ?case by (auto simp: times_due_def)
next
  case (Cons c cs)
  let ?I = "sc_interval s"
  obtain due s1 rest where 1: "take_due (fst c) (snd c) s = (due, s1)" "schedule_run cs s1 = (rest, s')" "dues = due # rest"
    using Cons.prems(7) by (auto split: prod.splits)
  have ok: "sched_ok (fst c) s" "distinct (snd c)" "i \<in> set (snd c)"
    using Cons.prems(1-3) by (auto intro: sched_ok_mono simp: calls_ok_def)
  note T = take_due_facts [OF ok(1,2) 1(1)]
  obtain y where y: "sc_next_due s1 i = Some y" "fst c < y" "y \<le> fst c + ?I"
    "i \<in> set due \<longleftrightarrow> x \<le> fst c" "if i \<in> set due then x + ?I \<le> y else y = x"
    using T(4) [OF ok(3)] Cons.prems(4) by blast
  obtain z where z: "times_due i rest * ?I + y \<le> z" "last (fst c # map fst cs) < z"
    "z \<le> last (fst c # map fst cs) + ?I" "times_due i rest = 0 \<longrightarrow> z = y"
    using Cons.IH [OF T(1) _ _ y(1,2) _ 1(2)] Cons.prems(2,3) y(3) T(2)
    by (auto simp: calls_ok_def list_all_iff)
  have n: "times_due i dues = (if i \<in> set due then Suc (times_due i rest) else times_due i rest)"
    by (simp add: times_due_def 1(3))
  show ?case
    using y(5) z n by (intro exI [of _ z]) (auto split: if_splits)
qed

text \<open>
  C19. Whatever came before, and however late the poller runs, a drive that is
  present from some call on is due about once an interval from there: over any span of time the
  calls in which it is due number less than the span in intervals plus one, so it is never read in
  a burst to catch up, and over a span of at least an interval it is due at least once, so it is
  never forgotten.
\<close>
theorem polled_each_interval:
  assumes calls: "calls_ok (before @ c # cs)" and here: "list_all (\<lambda>c. i \<in> set (snd c)) (c # cs)"
    and run: "schedule_run before (new_schedule interval) = (d0, s0)" "take_due (fst c) (snd c) s0 = (d1, s1)"
      "schedule_run cs s1 = (dues, s2)"
    and window: "window = last (map fst (c # cs)) - fst c" and I: "I = max interval second"
  shows "times_due i dues * I < window + I \<and> (I \<le> window \<longrightarrow> 1 \<le> times_due i dues)"
proof -
  have "sched_ok 0 (new_schedule interval)" "sc_interval (new_schedule interval) = I"
    by (simp_all add: sched_ok_def new_schedule_def I)
  moreover have "calls_ok before" using calls by (simp add: calls_ok_def sorted_append)
  ultimately have s0: "sched_ok (last (0 # map fst before)) s0" "sc_interval s0 = I"
    using schedule_run_ok [OF _ _ _ run(1), of 0] by (simp_all add: list_all_iff)
  have "last (0 # map fst before) \<le> fst c"
    using calls by (cases before rule: rev_cases) (auto simp: calls_ok_def sorted_append)
  with s0(1) have ok: "sched_ok (fst c) s0" by (rule sched_ok_mono)
  have c: "distinct (snd c)" "i \<in> set (snd c)" using calls here by (simp_all add: calls_ok_def)
  note T = take_due_facts [OF ok c(1) run(2)]
  obtain x where x: "sc_next_due s1 i = Some x" "fst c < x" "x \<le> fst c + I"
    using T(4) [OF c(2)] s0(2) by blast
  have "list_all (\<lambda>c'. fst c \<le> fst c' \<and> i \<in> set (snd c')) cs" "calls_ok cs"
    using calls here by (auto simp: calls_ok_def sorted_append list_all_iff)
  then obtain y where y: "times_due i dues * I + x \<le> y" "last (fst c # map fst cs) < y"
      "y \<le> last (fst c # map fst cs) + I" "times_due i dues = 0 \<longrightarrow> y = x"
    using run_potential [OF T(1) _ _ x(1,2) _ run(3)] x(3) T(2) s0(2) by auto
  have "fst c \<le> last (map fst (c # cs))"
    using calls by (cases cs rule: rev_cases) (auto simp: calls_ok_def sorted_append)
  then have l: "last (fst c # map fst cs) = fst c + window" by (simp add: window)
  show ?thesis
    using x y l by (cases "times_due i dues") auto
qed

definition example_calls :: "call list" where
  "example_calls = [(second, [1]), (2 * second, [1]), (3 * second, [1])]"

lemma polled_each_interval_witness:
  "\<exists>d1 s1 dues s2. take_due 0 [1] (new_schedule (2 * second)) = (d1, s1) \<and> schedule_run example_calls s1 = (dues, s2)
     \<and> times_due 1 dues * (2 * second) < 3 * second + 2 * second \<and> 1 \<le> times_due 1 dues"
proof -
  obtain d1 s1 where 1: "take_due 0 [1] (new_schedule (2 * second)) = (d1, s1)" by force
  obtain dues s2 where 2: "schedule_run example_calls s1 = (dues, s2)" by force
  have "take_due (fst (0 :: nat, [1])) (snd (0, [1])) (new_schedule (2 * second)) = (d1, s1)" using 1 by simp
  from polled_each_interval [where before = "[]" and i = 1 and interval = "2 * second", OF _ _ _ this 2 refl refl]
  have "times_due 1 dues * (2 * second) < 3 * second + 2 * second \<and> (2 * second \<le> 3 * second \<longrightarrow> 1 \<le> times_due 1 dues)"
    by (simp add: calls_ok_def example_calls_def second_def)
  then show ?thesis using 1 2 by (auto simp: second_def)
qed

section \<open>The sampler\<close>

text \<open>
  The reads in progress. \<open>sm_queued\<close> wait for a permit, \<open>sm_reading\<close> hold one and are within
  their timeout, \<open>sm_late\<close> gave it back at the timeout while the blocking read goes on. \<open>sm_running\<close>
  is the map \<open>running\<close>, from the drive to its name, that \<open>sample\<close> looks at before it asks. One
  entry of a list is one call, or one thread, so that two reads of one drive would show.
\<close>

record sampler =
  sm_permits :: nat
  sm_queued :: "drive_id list"
  sm_reading :: "drive_id list"
  sm_late :: "drive_id list"
  sm_running :: "drive_id \<rightharpoonup> string"

definition new_sampler :: "nat \<Rightarrow> sampler" where
  "new_sampler max_concurrent =
     \<lparr>sm_permits = max max_concurrent 1, sm_queued = [], sm_reading = [], sm_late = [], sm_running = Map.empty\<rparr>"

text \<open>\<open>stats().in_flight\<close> and the names \<open>refresh_stuck\<close> publishes come from \<open>running\<close>.\<close>

definition stuck_names :: "sampler \<Rightarrow> string set" where
  "stuck_names s = ran (sm_running s)"

text \<open>
  The steps: a call of \<open>sample\<close>; a queued call gets a permit and its read starts; a read returns in
  time or panics; the timeout of a read strikes; a late read returns or panics.
\<close>

datatype sampler_event =
    Ask drive_id string
  | Start drive_id
  | Return drive_id
  | Panic drive_id
  | Expire drive_id
  | LateReturn drive_id
  | LatePanic drive_id

inductive sampler_step :: "sampler \<Rightarrow> sampler_event \<Rightarrow> outcome option \<Rightarrow> sampler \<Rightarrow> bool" where
  refused: "i \<in> dom (sm_running s) \<Longrightarrow> sampler_step s (Ask i name) (Some StillStuck) s"
| queued: "i \<notin> dom (sm_running s) \<Longrightarrow>
     sampler_step s (Ask i name) None (s\<lparr>sm_running := (sm_running s)(i \<mapsto> name), sm_queued := sm_queued s @ [i]\<rparr>)"
| start: "i \<in> set (sm_queued s) \<Longrightarrow> length (sm_reading s) < sm_permits s \<Longrightarrow>
     sampler_step s (Start i) None (s\<lparr>sm_queued := remove1 i (sm_queued s), sm_reading := i # sm_reading s\<rparr>)"
| return: "i \<in> set (sm_reading s) \<Longrightarrow>
     sampler_step s (Return i) (Some (Sampled smp))
       (s\<lparr>sm_running := (sm_running s)(i := None), sm_reading := remove1 i (sm_reading s)\<rparr>)"
| panic: "i \<in> set (sm_reading s) \<Longrightarrow>
     sampler_step s (Panic i) (Some TimedOut)
       (s\<lparr>sm_running := (sm_running s)(i := None), sm_reading := remove1 i (sm_reading s)\<rparr>)"
| expire: "i \<in> set (sm_reading s) \<Longrightarrow>
     sampler_step s (Expire i) (Some TimedOut)
       (s\<lparr>sm_reading := remove1 i (sm_reading s), sm_late := i # sm_late s\<rparr>)"
| late_return: "i \<in> set (sm_late s) \<Longrightarrow>
     sampler_step s (LateReturn i) None
       (s\<lparr>sm_running := (sm_running s)(i := None), sm_late := remove1 i (sm_late s)\<rparr>)"
| late_panic: "i \<in> set (sm_late s) \<Longrightarrow>
     sampler_step s (LatePanic i) None (s\<lparr>sm_late := remove1 i (sm_late s)\<rparr>)"

inductive_cases sampler_stepE: "sampler_step s e out s'"

inductive sampler_reach :: "nat \<Rightarrow> sampler \<Rightarrow> bool" for n where
  init: "sampler_reach n (new_sampler n)"
| step: "sampler_reach n s \<Longrightarrow> sampler_step s e out s' \<Longrightarrow> sampler_reach n s'"

definition reads :: "sampler \<Rightarrow> drive_id list" where
  "reads s = sm_reading s @ sm_late s"

definition sampler_ok :: "nat \<Rightarrow> sampler \<Rightarrow> bool" where
  "sampler_ok n s \<longleftrightarrow> sm_permits s = max n 1 \<and> length (sm_reading s) \<le> max n 1
     \<and> distinct (sm_queued s @ reads s) \<and> set (sm_queued s @ reads s) \<subseteq> dom (sm_running s)"

lemma sampler_step_ok: "sampler_step s e out s' \<Longrightarrow> sampler_ok n s \<Longrightarrow> sampler_ok n s'"
  by (erule sampler_stepE) (auto simp: sampler_ok_def reads_def length_remove1 distinct_remove1 set_remove1_eq)

lemma sampler_reach_ok: "sampler_reach n s \<Longrightarrow> sampler_ok n s"
  by (induction rule: sampler_reach.induct)
    (simp add: sampler_ok_def new_sampler_def reads_def, rule sampler_step_ok)

text \<open>
  C20. However asks, reads, timeouts and late answers interleave: at most the
  configured number of reads (at least one) hold a permit, the threads beyond those are reads past
  their timeout, no drive is ever read by two threads at once, and every drive being read or
  waiting to be is in \<open>running\<close> - where an ask for it is refused and changes nothing.
\<close>
theorem sampler_bounded:
  assumes "sampler_reach n s"
  shows "length (sm_reading s) \<le> max n 1 \<and> length (reads s) \<le> max n 1 + length (sm_late s)
    \<and> distinct (reads s)
    \<and> list_all (\<lambda>i. \<forall>name out s'. sampler_step s (Ask i name) out s' \<longleftrightarrow> out = Some StillStuck \<and> s' = s)
        (sm_queued s @ reads s)"
proof -
  have ok: "sampler_ok n s" using assms by (rule sampler_reach_ok)
  have "sampler_step s (Ask i name) out s' \<longleftrightarrow> out = Some StillStuck \<and> s' = s" if "i \<in> set (sm_queued s @ reads s)" for i name out s'
    using ok that by (auto simp: sampler_ok_def intro: sampler_step.intros elim!: sampler_stepE)
  then show ?thesis using ok by (auto simp: sampler_ok_def reads_def list_all_iff)
qed

definition two_asked :: sampler where
  "two_asked = \<lparr>sm_permits = 1, sm_queued = [2], sm_reading = [1], sm_late = [], sm_running = [1 \<mapsto> ''sda'', 2 \<mapsto> ''sdb'']\<rparr>"

lemma two_asked_reached: "sampler_reach 1 two_asked"
proof -
  have 1: "sampler_reach 1 ((new_sampler 1)\<lparr>sm_running := [1 \<mapsto> ''sda''], sm_queued := [1]\<rparr>)"
    using sampler_reach.step [OF sampler_reach.init [of 1] sampler_step.queued [of 1 _ "''sda''"]]
    by (simp add: new_sampler_def)
  have 2: "sampler_reach 1 ((new_sampler 1)\<lparr>sm_running := [1 \<mapsto> ''sda''], sm_reading := [1]\<rparr>)"
    using sampler_reach.step [OF 1 sampler_step.start [of 1]] by (simp add: new_sampler_def)
  show ?thesis
    using sampler_reach.step [OF 2 sampler_step.queued [of 2 _ "''sdb''"]] by (simp add: new_sampler_def two_asked_def)
qed

lemma sampler_bounded_witness:
  "length (sm_reading two_asked) \<le> 1 \<and> distinct (reads two_asked)
    \<and> (\<forall>out s'. sampler_step two_asked (Ask 1 ''sda'') out s' \<longleftrightarrow> out = Some StillStuck \<and> s' = two_asked)"
  using sampler_bounded [OF two_asked_reached] by (simp add: two_asked_def reads_def)

section \<open>Two drives wrongly taken for hung\<close>

text \<open>
  A drive that only waits for a permit is in \<open>running\<close> as well: nobody has asked it anything, and
  the next ask for it answers that an earlier read still hangs, which the thresholds take for a
  failed device.
\<close>

lemma queued_drive_taken_for_hung:
  "\<exists>s i. sampler_reach 1 s \<and> i \<in> set (sm_queued s) \<and> i \<notin> set (reads s)
     \<and> sampler_step s (Ask i ''sdb'') (Some StillStuck) s
     \<and> fst (evaluate cfg (outcome_sample t StillStuck) prev) = Failed"
proof (intro exI conjI)
  show "sampler_reach 1 two_asked" by (rule two_asked_reached)
  show "sampler_step two_asked (Ask 2 ''sdb'') (Some StillStuck) two_asked"
    by (rule sampler_step.refused) (simp add: two_asked_def)
  show "fst (evaluate cfg (outcome_sample t StillStuck) prev) = Failed"
    by (simp add: evaluate_def verdict_status failed_signs_def)
qed (simp_all add: two_asked_def reads_def)

text \<open>A run of the sampler.\<close>

inductive sampler_runs :: "sampler \<Rightarrow> sampler \<Rightarrow> bool" where
  stop: "sampler_runs s s"
| more: "sampler_step s e out s1 \<Longrightarrow> sampler_runs s1 s2 \<Longrightarrow> sampler_runs s s2"

definition leaked :: "drive_id \<Rightarrow> sampler \<Rightarrow> bool" where
  "leaked i s \<longleftrightarrow> i \<in> dom (sm_running s) \<and> i \<notin> set (sm_queued s @ reads s)"

lemma leaked_step: "sampler_step s e out s' \<Longrightarrow> leaked i s \<Longrightarrow> leaked i s'"
  by (erule sampler_stepE) (auto simp: leaked_def reads_def dest: notin_set_remove1)

lemma leaked_runs: "sampler_runs s s' \<Longrightarrow> leaked i s \<Longrightarrow> leaked i s'"
  by (induction rule: sampler_runs.induct) (auto intro: leaked_step)

text \<open>
  C37. When the read of a drive panics after its timeout, nothing takes the
  drive out of \<open>running\<close>: it is never read again, and every later ask, for as long as the daemon
  runs, says that an earlier read still hangs - although no read of it is in progress.
\<close>
theorem late_panic_never_read_again:
  assumes "sampler_reach n s" "sampler_step s (LatePanic i) out s1" "sampler_runs s1 s2"
  shows "i \<notin> set (reads s2) \<and> (\<forall>name out s3. sampler_step s2 (Ask i name) out s3 \<longrightarrow> out = Some StillStuck \<and> s3 = s2)"
proof -
  have "leaked i s1"
    using sampler_reach_ok [OF assms(1)] assms(2)
    by (auto simp: sampler_ok_def leaked_def reads_def elim!: sampler_stepE)
  then have "leaked i s2" using assms(3) by (rule leaked_runs [rotated])
  then show ?thesis by (auto simp: leaked_def elim!: sampler_stepE)
qed

lemma late_panic_never_read_again_witness:
  "\<exists>s s1. sampler_reach 1 s \<and> sampler_step s (LatePanic 1) None s1 \<and> 1 \<notin> set (reads s1)
    \<and> sampler_step s1 (Ask 1 ''sda'') (Some StillStuck) s1"
proof -
  let ?s = "two_asked\<lparr>sm_reading := [], sm_late := [1]\<rparr>"
  have r: "sampler_reach 1 ?s"
    using sampler_reach.step [OF two_asked_reached sampler_step.expire [of 1]] by (simp add: two_asked_def)
  have l: "sampler_step ?s (LatePanic 1) None (?s\<lparr>sm_late := []\<rparr>)"
    using sampler_step.late_panic [of 1 ?s] by simp
  have "sampler_step (?s\<lparr>sm_late := []\<rparr>) (Ask 1 ''sda'') (Some StillStuck) (?s\<lparr>sm_late := []\<rparr>)"
    by (rule sampler_step.refused) (simp add: two_asked_def)
  with r l late_panic_never_read_again [OF r l sampler_runs.stop] show ?thesis by blast
qed

end
