(* ===== verification/Engine.thy ===== *)
theory Engine
  imports Guards
begin

text \<open>
  \<open>src/src/engine.rs\<close>: what the node's engine says of its own slabs, held against the slabs found on
  a drive. The engine's answer (\<open>EngineSlabs\<close>) is an input; decoding its JSON is the library's.
\<close>

text \<open>\<open>dev.split('@').next()\<close> and \<open>strip_prefix("/dev/")\<close>.\<close>

definition strip_prefix :: "string \<Rightarrow> string \<Rightarrow> string" where
  "strip_prefix p s = (if starts_with s p then drop (length p) s else s)"

definition names_drive :: "string \<Rightarrow> string \<Rightarrow> string list \<Rightarrow> bool" where
  "names_drive dev name paths =
     (let d = takeWhile (\<lambda>c. c \<noteq> CHR ''@'') dev;
          base = strip_prefix ''/dev/'' d
      in base = name \<or> d \<in> set paths)"

definition verdict_for :: "string \<Rightarrow> string list \<Rightarrow> engine_slabs \<Rightarrow> local_disk option" where
  "verdict_for name paths r =
     opt_filter (\<lambda>l. case ld_drive l of Some d \<Rightarrow> names_drive d name paths | None \<Rightarrow> True) (en_local_disk r)"

definition half :: "engine_slabs \<Rightarrow> string \<Rightarrow> string" where
  "half r role = (if role = ''data'' then en_data r else en_system r)"

definition unused :: "engine_slabs \<Rightarrow> slab_part \<Rightarrow> bool" where
  "unused r s =
     (if sp_role s = ''system'' \<or> sp_role s = ''data'' then half r (sp_role s) = ''remote'' \<or> en_diskless r
      else en_diskless r \<or> en_system r = ''remote'' \<or> en_data r = ''remote'')"

definition unused_roles :: "engine_slabs \<Rightarrow> slab_part list \<Rightarrow> string list" where
  "unused_roles r slabs =
     fold (\<lambda>s roles. if unused r s \<and> sp_role s \<notin> set roles then roles @ [sp_role s] else roles) slabs []"

definition part_line :: "slab_part \<Rightarrow> string" where
  "part_line s =
     (case sp_partition s of
        Some n \<Rightarrow> ''partition '' @ dec n @ (if sp_name s = [] then [] else '' '' @ quoted (sp_name s)) @ '' ('' @ sp_role s @ '')''
      | None \<Rightarrow> ''the whole drive'')"

definition or_unknown :: "string \<Rightarrow> string" where
  "or_unknown s = (if s = [] then ''?'' else s)"

definition finding_message :: "string \<Rightarrow> slab_part list \<Rightarrow> engine_slabs \<Rightarrow> string \<Rightarrow> string" where
  "finding_message lead slabs r why =
     lead @ '': stormblock slabs in '' @ join '', '' (map part_line slabs) @ '' while the engine runs system=''
     @ or_unknown (en_system r) @ '' data='' @ or_unknown (en_data r)
     @ (if en_diskless r then '' (diskless)'' else []) @ why"

definition verdict_reason :: "local_disk option \<Rightarrow> string" where
  "verdict_reason v =
     (case v of None \<Rightarrow> []
      | Some l \<Rightarrow> (case ld_reason l of None \<Rightarrow> []
          | Some rs \<Rightarrow> ''; the engine''@[CHR 0x27]@''s boot says: '' @ ld_state l @ '' '' @ utf8_dash @ '' '' @ rs))"

definition finding :: "string \<Rightarrow> string list \<Rightarrow> slab_part list \<Rightarrow> engine_slabs \<Rightarrow> engine_finding option" where
  "finding name paths slabs r =
     (if slabs = [] then None
      else
        (let verdict = verdict_for name paths r;
             roles = unused_roles r slabs;
             failed = is_some_and (\<lambda>l. ld_state l = ''failed'') verdict;
             refused = is_some_and (\<lambda>l. ld_state l = ''refused'') verdict
         in if roles = [] \<and> \<not> failed \<and> \<not> refused then None
            else
              (let why = verdict_reason verdict;
                   (severity, lead) =
                     (if failed then (Failing, ''the engine took this disk and could not use it'')
                      else (Warning, ''suspect: the engine is not using this disk''@[CHR 0x27]@''s slabs''))
               in Some \<lparr>ef_severity = severity, ef_roles = roles, ef_message = finding_message lead slabs r why\<rparr>)))"

section \<open>When there is a finding\<close>

lemma unused_roles_fold:
  "set (fold (\<lambda>s roles. if unused r s \<and> sp_role s \<notin> set roles then roles @ [sp_role s] else roles) slabs acc)
     = set acc \<union> sp_role ` {s \<in> set slabs. unused r s}"
proof (induction slabs arbitrary: acc)
  case (Cons s slabs)
  show ?case by (simp only: fold_Cons comp_apply Cons.IH) auto
qed simp

lemma set_unused_roles: "set (unused_roles r slabs) = sp_role ` {s \<in> set slabs. unused r s}"
  by (simp add: unused_roles_def unused_roles_fold)

lemma unused_roles_distinct: "distinct (unused_roles r slabs)"
proof -
  have "distinct acc \<Longrightarrow>
    distinct (fold (\<lambda>s roles. if unused r s \<and> sp_role s \<notin> set roles then roles @ [sp_role s] else roles) slabs acc)" for acc
    by (induction slabs arbitrary: acc) auto
  then show ?thesis by (simp add: unused_roles_def)
qed

lemma unused_roles_Nil: "unused_roles r slabs = [] \<longleftrightarrow> (\<forall>s \<in> set slabs. \<not> unused r s)"
  using set_unused_roles [of r slabs] by (auto simp: set_empty [symmetric] simp del: set_empty)

text \<open>
  The engine's finding on a drive: there is one exactly when the drive carries slabs
  and the engine runs one of their halves from elsewhere (or diskless), or its boot failed or
  refused this very disk; it is failing exactly when the boot failed on the disk, and its roles are
  the roles of the unused slabs, each once.
\<close>
theorem finding_iff:
  "case finding name paths slabs r of
     None \<Rightarrow> slabs = [] \<or> list_all (\<lambda>s. \<not> unused r s) slabs
        \<and> \<not> is_some_and (\<lambda>l. ld_state l = ''failed'' \<or> ld_state l = ''refused'') (verdict_for name paths r)
   | Some f \<Rightarrow> slabs \<noteq> []
        \<and> (list_ex (unused r) slabs
           \<or> is_some_and (\<lambda>l. ld_state l = ''failed'' \<or> ld_state l = ''refused'') (verdict_for name paths r))
        \<and> ef_severity f = (if is_some_and (\<lambda>l. ld_state l = ''failed'') (verdict_for name paths r) then Failing else Warning)
        \<and> set (ef_roles f) = sp_role ` set (filter (unused r) slabs) \<and> distinct (ef_roles f)"
  by (auto simp: finding_def Let_def unused_roles_Nil set_unused_roles unused_roles_distinct list_all_iff list_ex_iff
      is_some_and_iff split: option.splits prod.splits if_splits)

end
