(* ===== verification/Usage.thy ===== *)
theory Usage
  imports Guards
begin

text \<open>
  \<open>src/src/usage.rs\<close>: joining the engine's slab and volume listings (JSON values) to a drive: what
  of it is used, free and outside its slabs, what it may promise, and which volumes have legs on it.
  Sums of \<open>u64\<close> wrap, as in a release build.
\<close>

section \<open>Whose slab\<close>

definition slab_on :: "json \<Rightarrow> drive \<Rightarrow> bool" where
  "slab_on slab d =
     (case get ''drive'' slab of
        None \<Rightarrow> False
      | Some r \<Rightarrow>
          (let wwn = str_of r ''wwn''; serial = str_of r ''serial''; path = str_of r ''path'' in
           if wwn \<noteq> [] then is_some_and (\<lambda>w. eq_ignore_ascii_case w wwn) (d_wwid d)
           else if serial \<noteq> [] then serial = d_serial d
           else path \<noteq> [] \<and> (path = d_path d \<or> path \<in> set (d_paths d))))"

definition placed_on :: "json \<Rightarrow> drive \<Rightarrow> bool" where
  "placed_on entry d =
     (let path = (case get ''drive'' entry of Some r \<Rightarrow> str_of r ''path'' | None \<Rightarrow> [])
      in \<not> contains path ''://'' \<and> slab_on entry d)"

section \<open>Volumes\<close>

definition WORST :: "string list" where
  "WORST = [''missing'', ''failed'', ''quarantined'', ''draining'']"

definition nonempty_or :: "string \<Rightarrow> string \<Rightarrow> string" where
  "nonempty_or s other = (if s \<noteq> [] then s else other)"

definition worst_state :: "json list \<Rightarrow> string" where
  "worst_state slabs =
     (case find (\<lambda>w. list_ex (\<lambda>s. str_of s ''state'' = w) slabs) WORST of Some w \<Rightarrow> w | None \<Rightarrow> ''ok'')"

definition volume_consumer :: "json \<Rightarrow> consumer option" where
  "volume_consumer v =
     Option.bind (get ''consumer'' v) (\<lambda>c.
       let kind = str_of c ''kind''; name = str_of c ''name'' in
       if kind \<noteq> [] \<and> name \<noteq> []
       then Some \<lparr>cn_kind = kind, cn_namespace = str_of c ''namespace'', cn_name = name\<rparr> else None)"

definition volume_on :: "drive \<Rightarrow> json \<times> json \<Rightarrow> drive_volume option" where
  "volume_on d = (\<lambda>(v, p).
     let here = filter (\<lambda>e. placed_on e d) (array_of p ''drives'');
         slabs = filter (\<lambda>s. placed_on s d) (array_of p ''slabs'');
         i = str_of v ''id'';
         legs = get ''legs'' p;
         word = (\<lambda>k. opt_filter (\<lambda>s. s \<noteq> []) (map_option (\<lambda>l. str_of l k) legs))
     in if here = [] then None
        else Some \<lparr>dv_id = i, dv_name = nonempty_or (str_of v ''name'') i,
          dv_kind = nonempty_or (str_of v ''kind'') ''volume'', dv_consumer = volume_consumer v,
          dv_bytes = sum_list (map (\<lambda>e. u64_of e ''bytes'') here),
          dv_legs = sum_list (map (\<lambda>e. u64_of e ''legs'') here),
          dv_shared_legs = sum_list (map (\<lambda>s. u64_of s ''shared_legs'') slabs),
          dv_state = worst_state slabs, dv_rebuild = nonempty_or (str_of p ''rebuild'') ''none'',
          dv_policy = word ''policy'', dv_health = word ''health''\<rparr>)"

definition volume_before :: "drive_volume \<Rightarrow> drive_volume \<Rightarrow> bool" where
  "volume_before a b = (dv_bytes b < dv_bytes a \<or> dv_bytes a = dv_bytes b \<and> dv_id a \<le> dv_id b)"

definition placed_volumes :: "json list \<Rightarrow> (json \<times> json) list" where
  "placed_volumes volumes =
     List.map_filter (\<lambda>v. map_option (\<lambda>p. (v, p)) (opt_filter is_object (get ''placement'' v))) volumes"

definition volumes_on :: "drive \<Rightarrow> json list \<Rightarrow> drive_volume list option" where
  "volumes_on d volumes =
     (let placed = placed_volumes volumes
      in if placed = [] \<and> volumes \<noteq> [] then None
         else Some (stable_sort volume_before (List.map_filter (volume_on d) placed)))"

section \<open>Bytes\<close>

definition slab_usage_of :: "json \<Rightarrow> slab_usage" where
  "slab_usage_of slab =
     (let slot = u64_of slab ''slot_size''; total = u64_of slab ''total_bytes''; free = u64_of slab ''free_bytes'';
          allocated = (case Option.bind (get ''allocated_slots'' slab) as_u64 of
              Some n \<Rightarrow> (if 0 < slot then n * slot else sat_sub total free)
            | None \<Rightarrow> sat_sub total free)
      in \<lparr>us_id = str_of slab ''id'', us_role = str_of slab ''role'', us_tier = str_of slab ''tier'',
          us_slot_size = slot, us_total = total, us_allocated = allocated, us_free = free,
          us_committed = Option.bind (get ''committed_bytes'' slab) as_u64\<rparr>)"

text \<open>\<open>Iterator<Item = Option<u64>>::sum\<close>: \<open>None\<close> as soon as one is.\<close>

fun sum_options :: "u64 option list \<Rightarrow> u64 option" where
  "sum_options [] = Some 0"
| "sum_options (None # xs) = None"
| "sum_options (Some a # xs) = map_option (\<lambda>s. a + s) (sum_options xs)"

definition f64_of_u64 :: "u64 \<Rightarrow> f64" where
  "f64_of_u64 w = f64_of_int (uint w)"

definition priced :: "usage \<Rightarrow> overcommit \<Rightarrow> usage" where
  "priced u oc =
     (let p = f64_to_u64 (f64_mul (f64_of_u64 (ug_in_slabs u)) (factor oc))
      in u\<lparr>ug_promisable := p, ug_headroom := map_option (\<lambda>c. sat_sub p c) (ug_committed u)\<rparr>)"

definition slab_before :: "slab_usage \<Rightarrow> slab_usage \<Rightarrow> bool" where
  "slab_before a b = (us_role a < us_role b \<or> us_role a = us_role b \<and> us_id a \<le> us_id b)"

definition compute :: "drive \<Rightarrow> json list \<Rightarrow> time \<Rightarrow> usage" where
  "compute d slabs now =
     (let mine = stable_sort slab_before (map slab_usage_of (filter (\<lambda>s. slab_on s d) slabs));
          cap = d_capacity d;
          in_slabs = sum_list (map us_total mine);
          used = sum_list (map us_allocated mine)
      in priced \<lparr>ug_capacity = cap, ug_slabs = mine, ug_in_slabs = in_slabs, ug_used = used,
           ug_free_in_slabs = sum_list (map us_free mine), ug_outside_slabs = sat_sub cap in_slabs,
           ug_free = sat_sub cap used, ug_promisable = 0, ug_committed = sum_options (map us_committed mine),
           ug_headroom = None, ug_collected_at = now, ug_volumes = None, ug_volumes_collected_at = None\<rparr>
         (d_overcommit d))"

definition refresh_usage :: "drive \<Rightarrow> json list \<Rightarrow> json list option \<Rightarrow> usage option \<Rightarrow> time \<Rightarrow> usage" where
  "refresh_usage d slabs volumes before now =
     (let u = compute d slabs now in
      case volumes of
        Some vs \<Rightarrow> (let v = volumes_on d vs in
            u\<lparr>ug_volumes := v, ug_volumes_collected_at := (if v = None then None else Some now)\<rparr>)
      | None \<Rightarrow>
          (case before of
             Some l \<Rightarrow> u\<lparr>ug_volumes := ug_volumes l, ug_volumes_collected_at := ug_volumes_collected_at l\<rparr>
           | None \<Rightarrow> u))"

section \<open>The books balance\<close>

lemma compute_fields:
  "ug_capacity (compute d slabs now) = d_capacity d"
  "ug_slabs (compute d slabs now) = stable_sort slab_before (map slab_usage_of (filter (\<lambda>s. slab_on s d) slabs))"
  "ug_used (compute d slabs now) = sum_list (map us_allocated (ug_slabs (compute d slabs now)))"
  "ug_in_slabs (compute d slabs now) = sum_list (map us_total (ug_slabs (compute d slabs now)))"
  "ug_free (compute d slabs now) = sat_sub (d_capacity d) (ug_used (compute d slabs now))"
  "ug_outside_slabs (compute d slabs now) = sat_sub (d_capacity d) (ug_in_slabs (compute d slabs now))"
  "ug_promisable (compute d slabs now) = f64_to_u64 (f64_mul (f64_of_u64 (ug_in_slabs (compute d slabs now))) (factor (d_overcommit d)))"
  "ug_committed (compute d slabs now) = sum_options (map us_committed (ug_slabs (compute d slabs now)))"
  "ug_headroom (compute d slabs now) = map_option (sat_sub (ug_promisable (compute d slabs now))) (ug_committed (compute d slabs now))"
  by (simp_all add: compute_def priced_def Let_def)

lemma unat_sum_list_small:
  "sum_list (map unat xs) < 2 ^ 64 \<Longrightarrow> unat (sum_list xs) = sum_list (map unat xs)" for xs :: "u64 list"
proof (induction xs)
  case (Cons x xs)
  then show ?case by (simp add: unat_word_ariths)
qed simp

lemma sum_list_mset_eq: "mset xs = mset ys \<Longrightarrow> sum_list xs = sum_list ys" for xs ys :: "'a::comm_monoid_add list"
  by (metis sum_mset_sum_list)

lemma sum_slabs:
  "sum_list (map g (ug_slabs (compute d slabs now))) = sum_list (map (g \<circ> slab_usage_of) (filter (\<lambda>s. slab_on s d) slabs))"
  for g :: "slab_usage \<Rightarrow> 'a::comm_monoid_add"
  by (rule sum_list_mset_eq) (simp add: compute_fields multiset.map_comp)

lemma sum_list_balance:
  "\<forall>x \<in> set xs. f x + g x = h x \<Longrightarrow> sum_list (map f xs) + sum_list (map g xs) = sum_list (map h xs)" for f g h :: "'b \<Rightarrow> nat"
  by (induction xs) auto

lemma f64_mul_one:
  assumes "n < 2 ^ 53"
  shows "f64_to_u64 (f64_mul (f64_of_int (int n)) (f64_of_int 1)) = word_of_nat n"
proof -
  have n: "f64_of_int (int n) = Fin False n 0"
  proof (cases "n = 0")
    case False
    have "bit_length n \<le> 53" using assms by (rule bit_length_le)
    then show ?thesis using False by (simp add: f64_of_int_def rnd_def Let_def)
  qed (simp add: f64_of_int_def)
  have "f64_of_int 1 = Fin False 1 0" by code_simp
  then have "f64_mul (f64_of_int (int n)) (f64_of_int 1) = rnd False n 0" by (simp add: n)
  also have "\<dots> = Fin False n 0" using n by (simp add: f64_of_int_def)
  finally show ?thesis using assms by (simp add: f64_to_u64_def trunc_int_def signed_def)
qed

text \<open>
  On a drive whose slabs (as the engine lists them) each add up and together fit,
  the books balance: used and free make up the capacity; used, free in slabs and outside of slabs
  make up the capacity; and with overcommit off what the drive may promise is exactly its slab
  space, so headroom and commitments make up the slab space.
\<close>
theorem usage_balances:
  assumes each: "\<forall>s \<in> set (filter (\<lambda>s. slab_on s d) slabs).
      unat (us_allocated (slab_usage_of s)) + unat (us_free (slab_usage_of s)) = unat (us_total (slab_usage_of s))"
    and fit: "(\<Sum>s \<leftarrow> filter (\<lambda>s. slab_on s d) slabs. unat (us_total (slab_usage_of s))) \<le> unat (d_capacity d)"
    and u: "u = compute d slabs now"
  shows "unat (ug_used u) + unat (ug_free u) = unat (d_capacity d)
    \<and> unat (ug_used u) + unat (ug_free_in_slabs u) + unat (ug_outside_slabs u) = unat (d_capacity d)
    \<and> (\<not> oc_enabled (d_overcommit d) \<and> unat (ug_in_slabs u) < 2 ^ 53 \<longrightarrow>
         ug_promisable u = ug_in_slabs u
         \<and> (\<forall>c h. ug_committed u = Some c \<and> ug_headroom u = Some h \<and> c \<le> ug_in_slabs u \<longrightarrow>
              unat h + unat c = unat (ug_in_slabs u)))"
proof -
  let ?mine = "filter (\<lambda>s. slab_on s d) slabs"
  let ?sum = "\<lambda>g. \<Sum>s \<leftarrow> ?mine. unat (g (slab_usage_of s))"
  have cap: "unat (d_capacity d) < 2 ^ 64" using unsigned_less [of "d_capacity d"] by simp
  have split: "?sum us_allocated + ?sum us_free = ?sum us_total"
    using each by (intro sum_list_balance) simp
  have total: "unat (sum_list (map g (ug_slabs u))) = ?sum g" if "?sum g \<le> ?sum us_total" for g :: "slab_usage \<Rightarrow> u64"
    using that fit cap unat_sum_list_small [of "map g (map slab_usage_of ?mine)"]
    by (simp add: u sum_slabs comp_def)
  have t: "unat (ug_in_slabs u) = ?sum us_total" "unat (ug_used u) = ?sum us_allocated" "unat (ug_free_in_slabs u) = ?sum us_free"
    using total [of us_total] total [of us_allocated] total [of us_free] split
    by (simp_all add: u compute_fields) (simp add: compute_def priced_def Let_def)
  have out: "unat (ug_outside_slabs u) = unat (d_capacity d) - ?sum us_total" "unat (ug_free u) = unat (d_capacity d) - ?sum us_allocated"
    using t by (simp_all add: u compute_fields unat_sat_sub)
  have "ug_promisable u = ug_in_slabs u" if "\<not> oc_enabled (d_overcommit d)" "unat (ug_in_slabs u) < 2 ^ 53"
    using that f64_mul_one [of "unat (ug_in_slabs u)"]
    by (simp add: u compute_fields(7) factor_def f64_of_u64_def flip: uint_nat)
  moreover have "unat h + unat c = unat (ug_in_slabs u)"
    if "ug_committed u = Some c" "ug_headroom u = Some h" "c \<le> ug_in_slabs u" "ug_promisable u = ug_in_slabs u" for c h
    using that by (simp add: u compute_fields(9) word_le_nat_alt) (auto simp: unat_sat_sub)
  ultimately show ?thesis using t out split fit by auto
qed

definition example_slab :: json where
  "example_slab = JObj [(''allocated_slots'', JInt 1), (''drive'', JObj [(''serial'', JStr ''S'')]),
     (''free_bytes'', JInt 3), (''slot_size'', JInt 1), (''total_bytes'', JInt 4)]"

lemma example_slab_usage:
  "slab_on example_slab good_drive"
  "slab_usage_of example_slab = \<lparr>us_id = [], us_role = [], us_tier = [], us_slot_size = 1, us_total = 4,
     us_allocated = 1, us_free = 3, us_committed = None\<rparr>"
  by (simp_all add: example_slab_def slab_on_def slab_usage_of_def str_of_def u64_of_def good_drive_def base_drive_def)

lemma usage_balances_witness:
  "unat (ug_used (compute good_drive [example_slab] 0)) + unat (ug_free (compute good_drive [example_slab] 0))
     = 1073741824
   \<and> ug_promisable (compute good_drive [example_slab] 0) = ug_in_slabs (compute good_drive [example_slab] 0)"
proof -
  have m: "filter (\<lambda>s. slab_on s good_drive) [example_slab] = [example_slab]" by (simp add: example_slab_usage)
  have "ug_in_slabs (compute good_drive [example_slab] 0) = 4"
    by (simp add: compute_def priced_def Let_def m example_slab_usage stable_sort_def)
  moreover have "d_capacity good_drive = 1073741824" "\<not> oc_enabled (d_overcommit good_drive)"
    by (simp_all add: good_drive_def base_drive_def default_overcommit_def)
  ultimately show ?thesis
    using usage_balances [of good_drive "[example_slab]", OF _ _ refl, of 0] unfolding m
    by (simp add: example_slab_usage)
qed

text \<open>
  The volumes reported on a drive: nothing is reported only when the engine
  lists volumes and gives no placement for any of them; otherwise they are exactly the volumes
  with a leg on this drive, largest first, and each one's state is that of its worst slab here.
\<close>
theorem volumes_complete:
  "case volumes_on d vs of
     None \<Rightarrow> vs \<noteq> [] \<and> placed_volumes vs = []
   | Some vols \<Rightarrow> sorted_wrt volume_before vols
       \<and> mset vols = mset (List.map_filter (volume_on d) (placed_volumes vs))"
proof -
  have "volume_before a b \<or> volume_before b a" for a b by (auto simp: volume_before_def)
  moreover have "volume_before a b \<Longrightarrow> volume_before b c \<Longrightarrow> volume_before a c" for a b c
    by (auto simp: volume_before_def)
  ultimately show ?thesis by (simp add: volumes_on_def Let_def sorted_stable_sort)
qed

end
