(* ===== verification/Monitor.thy ===== *)
theory Monitor
  imports Merge Poller Engine Usage Guards
begin

text \<open>
  \<open>src/src/monitor.rs\<close>, what the loop does with the inventory besides discovery: applying the
  outcome of a health read (\<open>apply_outcome\<close>: verdict, damping, the record on the drive, the wear
  trend and its projection, the events), and the refreshes after a pass (offers, stale health, usage,
  the engine's slab report, fleet membership, USB media). Each refresh holds the inventory's lock
  throughout and is one step; \<open>apply_outcome\<close> takes it twice and is two (theory \<open>Rounds\<close>). The history
  store is the arguments \<open>baseline\<close> and \<open>observe\<close>.
\<close>

section \<open>The outcome of a health read\<close>

text \<open>\<open>{:.3}\<close> of an \<open>f64\<close>.\<close>

fun fmt3 :: "f64 \<Rightarrow> string" where
  "fmt3 NaN = ''NaN''"
| "fmt3 (Inf s) = (if s then ''-inf'' else ''inf'')"
| "fmt3 (Fin s m e) =
     (let q = (if 0 \<le> e then 1000 * m * 2 ^ nat e else shift_round (1000 * m) (nat (- e)))
      in (if s then ''-'' else []) @ dec (q div 1000) @ ''.'' @ dec (q mod 1000 div 100) @ dec (q mod 100 div 10) @ dec (q mod 10))"

definition TREND_HEARTBEAT_SECS :: u64 where "TREND_HEARTBEAT_SECS = 86400"

definition sampled_health :: "sample \<Rightarrow> health_status \<Rightarrow> string list \<Rightarrow> time \<Rightarrow> health_report" where
  "sampled_health s st why t =
     \<lparr>hr_status = Some st, hr_temperature_c = s_temperature_c s, hr_temp_limits = s_temp_limits s,
      hr_power_on_hours = s_power_on_hours s, hr_media_errors = s_media_errors s, hr_io_errors = s_io_errors s,
      hr_io_errors_not_ours = s_io_errors_not_ours s, hr_available_spare_pct = s_available_spare_pct s,
      hr_wear_pct = s_wear_pct s, hr_critical_warning = s_critical_warning s, hr_messages = why,
      hr_collected_at = Some t, hr_not_collected = None, hr_nvme = s_nvme s, hr_smart = s_smart s\<rparr>"

definition unanswered_health :: "sample \<Rightarrow> health_status \<Rightarrow> string list \<Rightarrow> health_report \<Rightarrow> health_report" where
  "unanswered_health s st why h =
     h\<lparr>hr_status := Some st, hr_messages := why,
       hr_not_collected := (case s_messages s of m # _ \<Rightarrow> Some m | [] \<Rightarrow> None)\<rparr>"

definition baseline_errors :: "(drive \<Rightarrow> u64 option) \<Rightarrow> drive \<Rightarrow> outcome \<Rightarrow> health_report \<Rightarrow> u64 option" where
  "baseline_errors baseline asked out h =
     (if hr_collected_at h \<noteq> None then Some (hr_media_errors h)
      else if answered out then baseline asked else None)"

definition trend_due :: "trend_sample option \<Rightarrow> sample \<Rightarrow> u64 \<Rightarrow> bool" where
  "trend_due before s now =
     (case before of
        None \<Rightarrow> True
      | Some l \<Rightarrow> ts_wear_pct l \<noteq> s_wear_pct s \<or> ts_media_errors l \<noteq> s_media_errors s
          \<or> TREND_HEARTBEAT_SECS \<le> sat_sub now (ts_unix_secs l))"

definition last_trend :: "drive_id \<Rightarrow> inventory \<Rightarrow> trend_sample option" where
  "last_trend i iv = (case iv_trends iv i of Some v \<Rightarrow> if v = [] then None else Some (last v) | None \<Rightarrow> None)"

definition drive_line :: "drive \<Rightarrow> string" where
  "drive_line d = d_name d @ '' ('' @ d_model d @ '' '' @ d_serial d @ '')''"

text \<open>The trend and the projection: the inventory after it, and the event when the days left fall under the mark.\<close>

definition with_drive :: "drive_id \<Rightarrow> (drive \<Rightarrow> drive) \<Rightarrow> inventory \<Rightarrow> inventory" where
  "with_drive i f iv = (case map_of (iv_drives iv) i of
      Some d \<Rightarrow> iv\<lparr>iv_drives := put_drive i (f d) (iv_drives iv)\<rparr> | None \<Rightarrow> iv)"

definition wear_line :: "drive \<Rightarrow> wear_projection \<Rightarrow> string" where
  "wear_line asked p = drive_line asked @ '': projected to reach its rated endurance in ''
     @ dec (unat (wp_days_left p)) @ '' days, at '' @ fmt3 (wp_rate_pct_per_day p) @ '' %/day''"

definition record_wear ::
  "monitor_config \<Rightarrow> drive_id \<Rightarrow> drive \<Rightarrow> sample \<Rightarrow> u64 \<Rightarrow> inventory \<Rightarrow> inventory \<times> logged list" where
  "record_wear cfg i asked s now iv =
     (if \<not> trend_due (last_trend i iv) s now then (iv, [])
      else
        (let iv1 = record_trend i \<lparr>ts_unix_secs = now, ts_wear_pct = s_wear_pct s, ts_media_errors = s_media_errors s\<rparr> iv;
             p = Option.bind (iv_trends iv1 i) (\<lambda>t. project t now);
             warn = mc_wear_out_warn_days cfg;
             was = Option.bind (map_of (iv_drives iv1) i) (\<lambda>d. map_option wp_days_left (d_wear_projection d));
             news = opt_filter (\<lambda>np. wp_days_left np < warn \<and> (case was of None \<Rightarrow> True | Some w \<Rightarrow> warn \<le> w)) p
         in (with_drive i (\<lambda>d. d\<lparr>d_wear_projection := p\<rparr>) iv1,
             log_opt i Warn ''wear'' (map_option (wear_line asked) news))))"

definition health_severity :: "health_status \<Rightarrow> severity" where
  "health_severity st = (case st of Failed \<Rightarrow> Error | Failing \<Rightarrow> Error | Warning \<Rightarrow> Warn | _ \<Rightarrow> Info)"

definition health_line :: "drive \<Rightarrow> health_status \<Rightarrow> health_status \<Rightarrow> string list \<Rightarrow> string" where
  "health_line asked current effective why =
     d_name asked @ '' ('' @ d_model asked @ ''): '' @ health_debug current @ '' '' @ utf8_arrow @ '' ''
       @ health_debug effective @ '': '' @ join ''; '' why"

text \<open>The verdict with the engine's finding folded in, undamped.\<close>

definition with_finding :: "engine_finding option \<Rightarrow> health_status \<Rightarrow> string list \<Rightarrow> verdict" where
  "with_finding f st why =
     (case f of Some e \<Rightarrow> (max st (ef_severity e), why @ [ef_message e]) | None \<Rightarrow> (st, why))"

text \<open>The verdict an outcome comes to for the drive \<open>d\<close>: status, reasons and the damper.\<close>

definition outcome_verdict ::
  "monitor_config \<Rightarrow> nat \<Rightarrow> (drive \<Rightarrow> u64 option) \<Rightarrow> drive \<Rightarrow> outcome \<Rightarrow> drive \<Rightarrow> damper \<Rightarrow> verdict \<times> damper" where
  "outcome_verdict cfg timeout baseline asked out d pending =
     (let prev = baseline_errors baseline asked out (d_health d);
          (candidate, why) = evaluate_acked cfg (outcome_sample timeout out) prev (d_health_ack d);
          (damped_st, pending') = damp cfg (d_id asked) (health_of d) candidate pending
      in (with_finding (d_engine_finding d) damped_st why, pending'))"

text \<open>The rest of the step, under the verdict: the record, the wear trend, the history and the events.\<close>

definition outcome_health :: "nat \<Rightarrow> outcome \<Rightarrow> verdict \<Rightarrow> time \<Rightarrow> health_report \<Rightarrow> health_report" where
  "outcome_health timeout out v t h =
     (if answered out then sampled_health (outcome_sample timeout out) (fst v) (snd v) t
      else unanswered_health (outcome_sample timeout out) (fst v) (snd v) h)"

definition wear_step :: "monitor_config \<Rightarrow> nat \<Rightarrow> drive \<Rightarrow> outcome \<Rightarrow> u64 \<Rightarrow> inventory \<Rightarrow> inventory \<times> logged list" where
  "wear_step cfg timeout asked out now iv =
     (let s = outcome_sample timeout out in
      if answered out \<and> (is_ssd (d_kind asked) \<or> s_wear_pct s \<noteq> None)
      then record_wear cfg (d_id asked) asked s now iv else (iv, []))"

definition history_step ::
  "nat \<Rightarrow> (drive \<Rightarrow> sample \<Rightarrow> health_status \<Rightarrow> u64 \<Rightarrow> string list) \<Rightarrow> drive \<Rightarrow> outcome \<Rightarrow> health_status \<Rightarrow> u64 \<Rightarrow> inventory \<Rightarrow> logged list" where
  "history_step timeout observe asked out st now iv =
     (if answered out
      then (case map_of (iv_drives iv) (d_id asked) of
          Some snap \<Rightarrow> map (\<lambda>m. (Some (d_id asked), Warn, ''history'', drive_line asked @ '': '' @ m))
              (observe snap (outcome_sample timeout out) st now)
        | None \<Rightarrow> []) else [])"

definition status_event :: "drive \<Rightarrow> health_status \<Rightarrow> verdict \<Rightarrow> logged list" where
  "status_event asked current v =
     (if fst v \<noteq> current
      then [(Some (d_id asked), health_severity (fst v), ''health'', health_line asked current (fst v) (snd v))] else [])"

text \<open>
  \<open>apply_outcome\<close> holds the inventory's lock twice: what it decides is read under the first, what it
  writes under the second. \<open>current\<close> and \<open>v\<close> are from the first.
\<close>

definition write_outcome ::
  "monitor_config \<Rightarrow> nat \<Rightarrow> (drive \<Rightarrow> sample \<Rightarrow> health_status \<Rightarrow> u64 \<Rightarrow> string list)
   \<Rightarrow> drive \<Rightarrow> outcome \<Rightarrow> time \<Rightarrow> u64 \<Rightarrow> health_status \<Rightarrow> verdict \<Rightarrow> inventory \<Rightarrow> inventory \<times> logged list" where
  "write_outcome cfg timeout observe asked out t now current v iv =
     (case map_of (iv_drives iv) (d_id asked) of
        None \<Rightarrow> (iv, [])
      | Some _ \<Rightarrow>
          (let iv1 = with_drive (d_id asked) (\<lambda>d. d\<lparr>d_health := outcome_health timeout out v t (d_health d)\<rparr>) iv;
               (iv2, wear_evs) = wear_step cfg timeout asked out now iv1
           in (iv2, history_step timeout observe asked out (fst v) now iv2 @ wear_evs @ status_event asked current v)))"

text \<open>Both halves, with nothing in between.\<close>

definition apply_outcome ::
  "monitor_config \<Rightarrow> nat \<Rightarrow> (drive \<Rightarrow> u64 option) \<Rightarrow> (drive \<Rightarrow> sample \<Rightarrow> health_status \<Rightarrow> u64 \<Rightarrow> string list)
   \<Rightarrow> drive \<Rightarrow> outcome \<Rightarrow> time \<Rightarrow> u64 \<Rightarrow> inventory \<times> damper \<Rightarrow> (inventory \<times> damper) \<times> logged list" where
  "apply_outcome cfg timeout baseline observe asked out t now st =
     (case map_of (iv_drives (fst st)) (d_id asked) of
        None \<Rightarrow> (st, [])
      | Some d \<Rightarrow>
          (let (v, pending) = outcome_verdict cfg timeout baseline asked out d (snd st);
               (iv, evs) = write_outcome cfg timeout observe asked out t now (health_of d) v (fst st)
           in ((iv, pending), evs)))"

section \<open>Offers\<close>

text \<open>A pass over the values of the table: the table after it and what is logged.\<close>

definition each_drive :: "(drive \<Rightarrow> drive \<times> logged list) \<Rightarrow> drives \<Rightarrow> drives \<times> logged list" where
  "each_drive f ds = (map (\<lambda>(i, d). (i, fst (f d))) ds, concat (map (\<lambda>(_, d). snd (f d)) ds))"

definition refresh_offer :: "bool \<Rightarrow> u64 \<Rightarrow> drive \<Rightarrow> drive \<times> logged list" where
  "refresh_offer offer min_bytes d =
     (let now = (offer \<and> offer_blocker d min_bytes = None) in
      (d\<lparr>d_enrolable := now\<rparr>,
       if now \<and> \<not> d_enrolable d
       then [(Some (d_id d), Info, ''offer'', d_name d @ '' ('' @ d_serial d @ '', '' @ dec (unat (d_capacity d div 1000000000))
               @ '' GB, '' @ d_model d @ ''): blank and healthy '' @ utf8_dash
               @ '' enrolable (a worker job or a DrivePolicy can enrol it)'')]
       else []))"

definition refresh_offers :: "bool \<Rightarrow> u64 \<Rightarrow> drives \<Rightarrow> drives \<times> logged list" where
  "refresh_offers offer min_bytes = each_drive (refresh_offer offer min_bytes)"

section \<open>Stale health\<close>

text \<open>\<open>now\<close>, the samples' times and \<open>up\<close> in seconds; \<open>stuck\<close> are the names \<open>refresh_stuck\<close> published.\<close>

definition stale_one :: "u64 \<Rightarrow> u64 \<Rightarrow> time \<Rightarrow> string list \<Rightarrow> drive \<Rightarrow> drive \<times> logged list" where
  "stale_one interval up now stuck d =
     (if d_activity d = Missing then (d, [])
      else
        (let age = map_option (\<lambda>t. word_of_nat (now - t)) (hr_collected_at (d_health d)) in
         case stale_reason age up interval (d_name d \<in> set stuck) of
           None \<Rightarrow> (d, [])
         | Some why \<Rightarrow>
             (d\<lparr>d_health := (d_health d)\<lparr>hr_not_collected := Some why\<rparr>\<rparr>,
              if hr_not_collected (d_health d) = None \<and> \<not> starts_with why ''first health sample''
              then [(Some (d_id d), Warn, ''health'', drive_line d @ '': '' @ why)] else [])))"

definition stale_health :: "monitor_config \<Rightarrow> u64 \<Rightarrow> time \<Rightarrow> string list \<Rightarrow> drives \<Rightarrow> drives \<times> logged list" where
  "stale_health cfg up now stuck = each_drive (stale_one (max (mc_interval_secs cfg) 1) up now stuck)"

section \<open>The engine's view\<close>

definition refresh_usages :: "json list \<Rightarrow> json list option \<Rightarrow> time \<Rightarrow> drives \<Rightarrow> drives" where
  "refresh_usages slabs volumes now =
     map (\<lambda>(i, d). (i, d\<lparr>d_usage := Some (refresh_usage (d\<lparr>d_usage := None\<rparr>) slabs volumes (d_usage d) now)\<rparr>))"

definition engine_one :: "engine_slabs \<Rightarrow> drive \<Rightarrow> drive \<times> logged list" where
  "engine_one report d =
     (let f = finding (d_name d) (d_paths d) (d_slab_parts d) report in
      if d_activity d = Missing \<or> f = d_engine_finding d then (d, [])
      else
        (let h = d_health d;
             h1 = (case d_engine_finding d of
                 Some old \<Rightarrow> h\<lparr>hr_messages := filter (\<lambda>m. m \<noteq> ef_message old) (hr_messages h)\<rparr> | None \<Rightarrow> h)
         in case f of
              Some nf \<Rightarrow>
                (d\<lparr>d_health := h1\<lparr>hr_status := (if status_of h1 < ef_severity nf then Some (ef_severity nf) else hr_status h1),
                               hr_messages := hr_messages h1 @ [ef_message nf]\<rparr>, d_engine_finding := f\<rparr>,
                 [(Some (d_id d), if Failing \<le> ef_severity nf then Error else Warn, ''engine'', drive_line d @ '': '' @ ef_message nf)])
            | None \<Rightarrow>
                (d\<lparr>d_health := h1, d_engine_finding := f\<rparr>,
                 [(Some (d_id d), Info, ''engine'', drive_line d @ '': the engine runs its slabs from this drive again'')])))"

definition refresh_engine :: "engine_slabs \<Rightarrow> drives \<Rightarrow> drives \<times> logged list" where
  "refresh_engine report = each_drive (engine_one report)"

text \<open>Membership against stormblock's drive list, matched by path or serial.\<close>

definition json_str :: "string \<Rightarrow> json \<Rightarrow> string option" where
  "json_str k v = Option.bind (get k v) as_str"

definition listed_drive :: "drive \<Rightarrow> json \<Rightarrow> bool" where
  "listed_drive d sd \<longleftrightarrow>
     json_str ''path'' sd = Some (d_path d) \<or> json_str ''path'' sd = Some (stormblock_path d)
     \<or> d_serial d \<noteq> [] \<and> json_str ''serial'' sd = Some (d_serial d)"

definition reconcile_one :: "json list \<Rightarrow> drive \<Rightarrow> drive \<times> logged list" where
  "reconcile_one listed d =
     (case (list_ex (listed_drive d) listed, d_membership d) of
        (True, Out) \<Rightarrow> (d\<lparr>d_membership := Fleet\<rparr>,
          [(Some (d_id d), Info, ''stormblock'', d_name d @ '': in stormblock''@[CHR 0x27]@''s drive list '' @ utf8_dash @ '' marked fleet'')])
      | (False, Fleet) \<Rightarrow> (d\<lparr>d_membership := Out\<rparr>,
          [(Some (d_id d), Warn, ''stormblock'', d_name d @ '': no longer in stormblock''@[CHR 0x27]@''s drive list '' @ utf8_dash
              @ '' marked out of fleet'')])
      | _ \<Rightarrow> (d, []))"

definition reconcile_stormblock :: "json list \<Rightarrow> drives \<Rightarrow> drives \<times> logged list" where
  "reconcile_stormblock listed = each_drive (reconcile_one listed)"

section \<open>USB media\<close>

record media =
  md_name :: string
  md_path :: string
  md_vendor :: "string option"
  md_model :: string
  md_serial :: string
  md_wwid :: "string option"
  md_capacity :: u64
  md_contents :: "string option"
  md_in_use_by :: "string option"
  md_boot_stick :: bool

definition is_boot_stick :: "string option \<Rightarrow> bool" where
  "is_boot_stick c = is_some_and (\<lambda>c. contains c ([CHR 0x27] @ ''STORMBOOTX'' @ [CHR 0x27])) c"

definition is_usb_host_driver :: "string \<Rightarrow> bool" where
  "is_usb_host_driver driver = list_ex (\<lambda>p. starts_with driver p) [''xhci'', ''ehci'', ''ohci'', ''uhci'']"

definition usb_entry :: "(string \<Rightarrow> drive_id) \<Rightarrow> media list \<Rightarrow> drive \<Rightarrow> bool" where
  "usb_entry new_v5 ms d \<longleftrightarrow>
     d_id d \<in> set (map (\<lambda>m. derive new_v5 (md_wwid m) (md_model m) (md_serial m)) ms)
     \<or> is_some_and is_usb_host_driver (Option.bind (lo_controller (d_location d)) co_driver)"

definition usb_entries :: "(string \<Rightarrow> drive_id) \<Rightarrow> drives \<Rightarrow> media list \<Rightarrow> drive_id list" where
  "usb_entries new_v5 ds ms = map d_id (filter (usb_entry new_v5 ms) (map snd ds))"

fun membership_debug :: "membership \<Rightarrow> string" where
  "membership_debug Out = ''Out''" | "membership_debug Fleet = ''Fleet''"

definition media_lines :: "media list \<Rightarrow> media list \<Rightarrow> logged list" where
  "media_lines old ms =
     map (\<lambda>m. (None, Info, ''media'', md_name m @ '': '' @ md_model m @ '' '' @ dec (unat (md_capacity m)) @ '' B, ''
            @ (if md_boot_stick m then ''the boot stick'' else ''removable'') @ '', not a drive of this node''))
       (filter (\<lambda>m. \<not> list_ex (\<lambda>o1. md_name o1 = md_name m \<and> md_capacity o1 = md_capacity m) old) ms)
     @ map (\<lambda>o1. (None, Info, ''media'', md_name o1 @ '': removable media gone ('' @ md_model o1 @ '')''))
       (filter (\<lambda>o1. \<not> list_ex (\<lambda>m. md_name m = md_name o1) ms) old)"

definition usb_line :: "drive \<Rightarrow> logged" where
  "usb_line d = (None, if d_membership d = Fleet then Warn else Info, ''media'',
     to_lower (d_name d @ '' ('' @ d_model d @ ''): on a USB host, no longer listed as a drive (was ''
       @ membership_debug (d_membership d) @ '')''))"

fun drop_drive :: "drive_id \<Rightarrow> drives \<times> logged list \<Rightarrow> drives \<times> logged list" where
  "drop_drive i (ds, evs) =
     (case map_of ds i of
        Some d \<Rightarrow> (filter (\<lambda>(j, _). j \<noteq> i) ds, evs @ [usb_line d])
      | None \<Rightarrow> (ds, evs))"

definition merge_media :: "(string \<Rightarrow> drive_id) \<Rightarrow> media list \<Rightarrow> media list \<Rightarrow> drives \<Rightarrow> drives \<times> logged list" where
  "merge_media new_v5 old ms ds = fold drop_drive (usb_entries new_v5 ds ms) (ds, media_lines old ms)"

section \<open>What an outcome does to the inventory\<close>

lemma map_of_with_drive:
  "map_of (iv_drives (with_drive i f iv)) j = (if j = i then map_option f (map_of (iv_drives iv) i) else map_of (iv_drives iv) j)"
  by (auto simp: with_drive_def split: option.split)

lemma record_wear_drive:
  "\<exists>w. map_of (iv_drives (fst (record_wear cfg i asked s now iv))) j
     = (if j = i then map_option (\<lambda>d. d\<lparr>d_wear_projection := w d\<rparr>) (map_of (iv_drives iv) i) else map_of (iv_drives iv) j)"
proof (cases "trend_due (last_trend i iv) s now")
  case True
  let ?x = "Option.bind (iv_trends (record_trend i
      \<lparr>ts_unix_secs = now, ts_wear_pct = s_wear_pct s, ts_media_errors = s_media_errors s\<rparr> iv) i) (\<lambda>t. project t now)"
  show ?thesis
    using True by (intro exI [of _ "\<lambda>_. ?x"]) (simp add: record_wear_def Let_def map_of_with_drive)
next
  case False
  then show ?thesis
    by (intro exI [of _ d_wear_projection]; cases "map_of (iv_drives iv) i") (simp_all add: record_wear_def)
qed

lemma wear_step_drive:
  "\<exists>w. map_of (iv_drives (fst (wear_step cfg timeout asked out now iv))) j
     = (if j = d_id asked then map_option (\<lambda>d. d\<lparr>d_wear_projection := w d\<rparr>) (map_of (iv_drives iv) j) else map_of (iv_drives iv) j)"
proof (cases "answered out \<and> (is_ssd (d_kind asked) \<or> s_wear_pct (outcome_sample timeout out) \<noteq> None)")
  case True
  then show ?thesis
    using record_wear_drive [of cfg "d_id asked" asked "outcome_sample timeout out" now iv j]
    by (auto simp: wear_step_def Let_def)
next
  case False
  then show ?thesis
    by (intro exI [of _ d_wear_projection]; cases "map_of (iv_drives iv) j") (auto simp: wear_step_def Let_def)
qed

lemma wear_step_logs: "\<forall>e\<in>set (snd (wear_step cfg timeout asked out now iv)). fst (snd (snd e)) = ''wear''"
  by (simp add: wear_step_def record_wear_def Let_def log_opt_def option.case_eq_if)

lemma history_step_logs: "\<forall>e\<in>set (history_step timeout observe asked out st now iv). fst (snd (snd e)) = ''history''"
proof (cases "answered out")
  case True
  then show ?thesis
    by (cases "map_of (iv_drives iv) (d_id asked)") (auto simp: history_step_def)
qed (simp add: history_step_def)

lemma write_outcome_known:
  assumes d: "map_of (iv_drives iv) (d_id asked) = Some d"
    and a: "write_outcome cfg timeout observe asked out t now current v iv = (iv', evs)"
  shows "\<exists>w. map_of (iv_drives iv') (d_id asked) = Some (d\<lparr>d_health := outcome_health timeout out v t (d_health d), d_wear_projection := w\<rparr>)"
    and "j \<noteq> d_id asked \<Longrightarrow> map_of (iv_drives iv') j = map_of (iv_drives iv) j"
    and "\<exists>pre. (\<forall>e\<in>set pre. fst (snd (snd e)) \<in> {''history'', ''wear''}) \<and> evs = pre @ status_event asked current v"
proof -
  let ?iv1 = "with_drive (d_id asked) (\<lambda>d. d\<lparr>d_health := outcome_health timeout out v t (d_health d)\<rparr>) iv"
  obtain iv2 wevs where w: "wear_step cfg timeout asked out now ?iv1 = (iv2, wevs)" by fastforce
  have "(iv', evs) = (iv2, history_step timeout observe asked out (fst v) now iv2 @ wevs @ status_event asked current v)"
    using a unfolding write_outcome_def Let_def by (simp only: d w option.case prod.case)
  then have out: "iv' = iv2" "evs = history_step timeout observe asked out (fst v) now iv2 @ wevs @ status_event asked current v"
    by simp_all
  show "map_of (iv_drives iv') j = map_of (iv_drives iv) j" if "j \<noteq> d_id asked"
    using wear_step_drive [of cfg timeout asked out now ?iv1 j] that by (auto simp: w out(1) map_of_with_drive)
  show "\<exists>w. map_of (iv_drives iv') (d_id asked) = Some (d\<lparr>d_health := outcome_health timeout out v t (d_health d), d_wear_projection := w\<rparr>)"
    using wear_step_drive [of cfg timeout asked out now ?iv1 "d_id asked"] by (auto simp: w out(1) map_of_with_drive d)
  have wear: "\<forall>e\<in>set wevs. fst (snd (snd e)) = ''wear''"
    using wear_step_logs [of cfg timeout asked out now ?iv1] by (simp add: w)
  have hist: "\<forall>e\<in>set (history_step timeout observe asked out (fst v) now iv2). fst (snd (snd e)) = ''history''"
    by (rule history_step_logs)
  show "\<exists>pre. (\<forall>e\<in>set pre. fst (snd (snd e)) \<in> {''history'', ''wear''}) \<and> evs = pre @ status_event asked current v"
    using wear hist out(2)
    by (intro exI [of _ "history_step timeout observe asked out (fst v) now iv2 @ wevs"]) (simp add: ball_Un)
qed

lemma apply_outcome_known:
  assumes d: "map_of (iv_drives iv) (d_id asked) = Some d"
    and a: "apply_outcome cfg timeout baseline observe asked out t now (iv, pending) = ((iv', pending'), evs)"
    and v: "outcome_verdict cfg timeout baseline asked out d pending = (v, p)"
  shows "pending' = p"
    and "\<exists>w. map_of (iv_drives iv') (d_id asked) = Some (d\<lparr>d_health := outcome_health timeout out v t (d_health d), d_wear_projection := w\<rparr>)"
    and "j \<noteq> d_id asked \<Longrightarrow> map_of (iv_drives iv') j = map_of (iv_drives iv) j"
    and "\<exists>pre. (\<forall>e\<in>set pre. fst (snd (snd e)) \<in> {''history'', ''wear''}) \<and> evs = pre @ status_event asked (health_of d) v"
proof -
  obtain iv1 evs1 where w: "write_outcome cfg timeout observe asked out t now (health_of d) v iv = (iv1, evs1)" by fastforce
  have "((iv', pending'), evs) = ((iv1, p), evs1)"
    using a unfolding apply_outcome_def Let_def by (simp only: fst_conv snd_conv d v w option.case prod.case)
  then have out: "pending' = p" "iv' = iv1" "evs = evs1" by simp_all
  show "pending' = p" by (rule out)
  show "\<exists>w. map_of (iv_drives iv') (d_id asked) = Some (d\<lparr>d_health := outcome_health timeout out v t (d_health d), d_wear_projection := w\<rparr>)"
    and "\<exists>pre. (\<forall>e\<in>set pre. fst (snd (snd e)) \<in> {''history'', ''wear''}) \<and> evs = pre @ status_event asked (health_of d) v"
    unfolding out by (rule write_outcome_known [OF d w])+
  show "map_of (iv_drives iv') j = map_of (iv_drives iv) j" if "j \<noteq> d_id asked"
    unfolding out by (rule write_outcome_known(2) [OF d w that])
qed

section \<open>A run of outcomes\<close>

type_synonym read_outcome = "drive \<times> outcome \<times> time \<times> u64"

definition apply_one ::
  "monitor_config \<Rightarrow> nat \<Rightarrow> (drive \<Rightarrow> u64 option) \<Rightarrow> (drive \<Rightarrow> sample \<Rightarrow> health_status \<Rightarrow> u64 \<Rightarrow> string list)
   \<Rightarrow> read_outcome \<Rightarrow> inventory \<times> damper \<Rightarrow> inventory \<times> damper" where
  "apply_one cfg timeout baseline observe r st =
     fst (apply_outcome cfg timeout baseline observe (fst r) (fst (snd r)) (fst (snd (snd r))) (snd (snd (snd r))) st)"

definition apply_all ::
  "monitor_config \<Rightarrow> nat \<Rightarrow> (drive \<Rightarrow> u64 option) \<Rightarrow> (drive \<Rightarrow> sample \<Rightarrow> health_status \<Rightarrow> u64 \<Rightarrow> string list)
   \<Rightarrow> read_outcome list \<Rightarrow> inventory \<times> damper \<Rightarrow> inventory \<times> damper" where
  "apply_all cfg timeout baseline observe = fold (apply_one cfg timeout baseline observe)"

text \<open>The streaks the damper holds are below the hysteresis, so their counts never wrap.\<close>

definition damper_below :: "monitor_config \<Rightarrow> damper \<Rightarrow> bool" where
  "damper_below cfg p \<longleftrightarrow> (\<forall>i st n. p i = Some (st, n) \<longrightarrow> unat n < unat (mc_hysteresis cfg))"

lemma damp_below: "damper_below cfg p \<Longrightarrow> damper_below cfg (snd (damp cfg i cu ca p))"
  by (auto simp: damper_below_def damp_def Let_def word_le_nat_alt not_le split: if_splits)

lemma damp_other: "j \<noteq> i \<Longrightarrow> snd (damp cfg i cu ca p) j = p j"
  by (simp add: damp_def Let_def)

lemma outcome_verdict_damper:
  "\<exists>ca. snd (outcome_verdict cfg timeout baseline asked out d p) = snd (damp cfg (d_id asked) (health_of d) ca p)"
  by (simp add: outcome_verdict_def Let_def split_beta) blast

lemma apply_one_cases:
  obtains (unknown) "map_of (iv_drives (fst st)) (d_id (fst r)) = None" "apply_one cfg timeout baseline observe r st = st"
  | (known) d v p w iv where "map_of (iv_drives (fst st)) (d_id (fst r)) = Some d"
      "outcome_verdict cfg timeout baseline (fst r) (fst (snd r)) d (snd st) = (v, p)"
      "apply_one cfg timeout baseline observe r st = (iv, p)"
      "map_of (iv_drives iv) (d_id (fst r))
         = Some (d\<lparr>d_health := outcome_health timeout (fst (snd r)) v (fst (snd (snd r))) (d_health d), d_wear_projection := w\<rparr>)"
      "\<And>j. j \<noteq> d_id (fst r) \<Longrightarrow> map_of (iv_drives iv) j = map_of (iv_drives (fst st)) j"
proof (cases "map_of (iv_drives (fst st)) (d_id (fst r))")
  case None
  then show ?thesis using unknown by (simp add: apply_one_def apply_outcome_def)
next
  case (Some d)
  obtain asked out t now where r: "r = (asked, out, t, now)" by (cases r)
  obtain iv0 p0 where st: "st = (iv0, p0)" by (cases st)
  obtain iv p evs where a: "apply_outcome cfg timeout baseline observe asked out t now (iv0, p0) = ((iv, p), evs)"
    by (metis surj_pair)
  obtain v q where v: "outcome_verdict cfg timeout baseline asked out d p0 = (v, q)" by (metis surj_pair)
  from Some have d: "map_of (iv_drives iv0) (d_id asked) = Some d" by (simp add: r st)
  note known' = apply_outcome_known [OF d a v]
  obtain w where "map_of (iv_drives iv) (d_id asked)
      = Some (d\<lparr>d_health := outcome_health timeout out v t (d_health d), d_wear_projection := w\<rparr>)"
    using known'(2) by blast
  with known'(1,3) d a v show ?thesis
    by (intro known [of d v p iv w]) (simp_all add: r st apply_one_def)
qed

lemma apply_one_below: "damper_below cfg (snd st) \<Longrightarrow> damper_below cfg (snd (apply_one cfg timeout baseline observe r st))"
  by (cases rule: apply_one_cases [of st r cfg timeout baseline observe])
    (simp_all, metis damp_below outcome_verdict_damper snd_conv)

lemma apply_all_below: "damper_below cfg (snd st) \<Longrightarrow> damper_below cfg (snd (apply_all cfg timeout baseline observe rs st))"
  by (induction rs arbitrary: st) (simp_all add: apply_all_def apply_one_below)

text \<open>After \<open>k\<close> reads without an answer, drive \<open>i\<close> is failed or its streak is that long.\<close>

definition hung_for :: "drive_id \<Rightarrow> nat \<Rightarrow> inventory \<times> damper \<Rightarrow> bool" where
  "hung_for i k st \<longleftrightarrow> (\<exists>d. map_of (iv_drives (fst st)) i = Some d
     \<and> (health_of d = Failed \<or> k = 0 \<or> (\<exists>n. snd st i = Some (Failed, n) \<and> k \<le> unat n)))"

lemma unanswered_verdict:
  assumes "\<not> answered out"
  shows "fst (evaluate_acked cfg (outcome_sample timeout out) prev ack) = Failed"
  using assms by (cases out) (simp_all add: answered_def verdict_status failed_signs_def)

lemma failed_top [simp]: "st \<le> Failed" "max st Failed = Failed" "max Failed st = Failed"
  by (cases st; simp add: less_eq_health_status_def max_def)+

lemma damp_failed:
  assumes "cu = Failed \<or> k = 0 \<or> (\<exists>n. p i = Some (Failed, n) \<and> k \<le> unat n)" "damper_below cfg p"
  shows "fst (damp cfg i cu Failed p) = Failed \<or> (\<exists>n. snd (damp cfg i cu Failed p) i = Some (Failed, n) \<and> Suc k \<le> unat n)"
proof (cases "\<exists>n. p i = Some (Failed, n)")
  case True
  then obtain n where n: "p i = Some (Failed, n)" by blast
  then have "unat (n + 1) = Suc (unat n)"
    using assms(2) unsigned_less [of "mc_hysteresis cfg", where ?'a = nat]
    by (intro unat_succ_below [of n "mc_hysteresis cfg"]) (auto simp: damper_below_def)
  then show ?thesis using assms(1) n by (auto simp: damp_def Let_def)
next
  case False
  have "unat ((0 :: u32) + 1) = 1" by simp
  then show ?thesis using assms(1) False by (auto simp: damp_def Let_def split: option.split)
qed

lemma with_finding_status:
  "fst (with_finding f st why) = max st (case f of Some e \<Rightarrow> ef_severity e | None \<Rightarrow> Unknown)"
proof -
  have "max st Unknown = st" by (cases st; simp add: less_eq_health_status_def max_def)
  then show ?thesis by (simp add: with_finding_def split: option.split)
qed

lemma unanswered_outcome:
  assumes "\<not> answered out"
  shows "\<exists>damped. damp cfg (d_id asked) (health_of d) Failed p = (damped, snd (outcome_verdict cfg timeout baseline asked out d p))
     \<and> fst (fst (outcome_verdict cfg timeout baseline asked out d p))
         = max damped (case d_engine_finding d of Some e \<Rightarrow> ef_severity e | None \<Rightarrow> Unknown)"
proof -
  obtain why where e: "evaluate_acked cfg (outcome_sample timeout out) (baseline_errors baseline asked out (d_health d)) (d_health_ack d) = (Failed, why)"
    using unanswered_verdict [OF assms] by (metis prod.collapse)
  show ?thesis
    by (intro exI [of _ "fst (damp cfg (d_id asked) (health_of d) Failed p)"])
      (simp add: outcome_verdict_def e with_finding_status split_beta)
qed

lemma status_outcome [simp]: "status_of (outcome_health timeout out v t h) = fst v"
  by (simp add: outcome_health_def status_of_def sampled_health_def unanswered_health_def)

lemma hung_for_step:
  assumes "hung_for i k st" "damper_below cfg (snd st)" "d_id (fst r) = i \<longrightarrow> \<not> answered (fst (snd r))"
  shows "hung_for i (if d_id (fst r) = i then Suc k else k) (apply_one cfg timeout baseline observe r st)"
proof -
  obtain d0 where d0: "map_of (iv_drives (fst st)) i = Some d0"
      "health_of d0 = Failed \<or> k = 0 \<or> (\<exists>n. snd st i = Some (Failed, n) \<and> k \<le> unat n)"
    using assms(1) by (auto simp: hung_for_def)
  show ?thesis
  proof (cases rule: apply_one_cases [of st r cfg timeout baseline observe])
    case unknown
    with d0(1) have "d_id (fst r) \<noteq> i" by auto
    with unknown assms(1) show ?thesis by simp
  next
    case (known d v p w iv)
    show ?thesis
    proof (cases "d_id (fst r) = i")
      case False
      have "p i = snd st i"
        using outcome_verdict_damper [of cfg timeout baseline "fst r" "fst (snd r)" d "snd st"] False known(2) damp_other by (metis snd_conv)
      with False known d0 show ?thesis by (simp add: hung_for_def)
    next
      case True
      with known d0 have "d = d0" by simp
      from assms(3) True have un: "\<not> answered (fst (snd r))" by simp
      obtain dm where dm: "damp cfg i (health_of d0) Failed (snd st) = (dm, p)"
          "fst v = max dm (case d_engine_finding d0 of Some e \<Rightarrow> ef_severity e | None \<Rightarrow> Unknown)"
        using unanswered_outcome [OF un, of cfg "fst r" d "snd st" timeout baseline] known(2) True \<open>d = d0\<close> by auto
      have "fst v = Failed \<or> (\<exists>n. p i = Some (Failed, n) \<and> Suc k \<le> unat n)"
        using damp_failed [OF d0(2) assms(2)] dm by auto
      with True known show ?thesis by (auto simp: hung_for_def)
    qed
  qed
qed

lemma hung_for_run:
  assumes "hung_for i k st" "damper_below cfg (snd st)" "\<forall>r\<in>set rs. d_id (fst r) = i \<longrightarrow> \<not> answered (fst (snd r))"
  shows "hung_for i (k + length (filter (\<lambda>r. d_id (fst r) = i) rs)) (apply_all cfg timeout baseline observe rs st)"
  using assms
proof (induction rs arbitrary: k st)
  case (Cons r rs)
  have "hung_for i (if d_id (fst r) = i then Suc k else k) (apply_one cfg timeout baseline observe r st)"
    using Cons.prems by (intro hung_for_step) auto
  from Cons.IH [OF this apply_one_below] Cons.prems show ?case
    by (auto simp: apply_all_def split: if_splits)
qed (simp add: apply_all_def)

text \<open>
  C11.hung_drive_fails. A drive whose health reads stop being answered does not stay healthy on its last
  good sample: from a monitor started with an empty damper, whatever outcomes came before and however those of
  other drives come in between, once \<open>max 1 hysteresis\<close> reads in a row of a known drive ended
  without an answer (timed out or still stuck) its status is Failed.
\<close>

theorem hung_drive_fails:
  assumes known: "map_of (iv_drives (fst (apply_all cfg timeout baseline observe before (iv, Map.empty)))) i \<noteq> None"
    and silent: "list_all (\<lambda>r. d_id (fst r) = i \<longrightarrow> \<not> answered (fst (snd r))) block"
    and enough: "max 1 (unat (mc_hysteresis cfg)) \<le> length (filter (\<lambda>r. d_id (fst r) = i) block)"
  shows "map_option health_of (map_of (iv_drives (fst (apply_all cfg timeout baseline observe (before @ block) (iv, Map.empty)))) i)
           = Some Failed"
proof -
  let ?st = "apply_all cfg timeout baseline observe before (iv, Map.empty)"
  have below: "damper_below cfg (snd ?st)" by (intro apply_all_below) (simp add: damper_below_def)
  have run: "apply_all cfg timeout baseline observe (before @ block) (iv, Map.empty) = apply_all cfg timeout baseline observe block ?st"
    by (simp add: apply_all_def)
  have "hung_for i 0 ?st" using known by (auto simp: hung_for_def)
  from hung_for_run [OF this below, of block] silent enough
  obtain k where k: "hung_for i k (apply_all cfg timeout baseline observe block ?st)" "max 1 (unat (mc_hysteresis cfg)) \<le> k"
    by (auto simp: list_all_iff)
  have "damper_below cfg (snd (apply_all cfg timeout baseline observe block ?st))" using below by (rule apply_all_below)
  with k show ?thesis unfolding run by (force simp: hung_for_def damper_below_def)
qed

definition healthy_inventory :: inventory where
  "healthy_inventory = empty_inventory\<lparr>iv_drives := [(d_id good_drive, good_drive)]\<rparr>"

lemma hung_drive_fails_witness:
  "let silent = (good_drive, TimedOut, 100, 100); other = (good_drive\<lparr>d_id := 7\<rparr>, Sampled default_sample, 100, 100) in
     map_option health_of (map_of (iv_drives (fst (apply_all default_monitor 30 (\<lambda>_. None) (\<lambda>_ _ _ _. [])
       ([] @ [silent, other, silent, (good_drive, StillStuck, 200, 200)]) (healthy_inventory, Map.empty)))) (d_id good_drive)) = Some Failed"
  unfolding Let_def
  by (rule hung_drive_fails)
    (simp_all add: apply_all_def healthy_inventory_def answered_def default_monitor_def good_drive_def base_drive_def)

text \<open>
  C29.outcome_recorded. What one outcome does to a known drive. Only that drive changes, and of it only the health
  report and the projection; its status is the damped verdict, or the engine's finding where that is
  worse; an answer replaces every reading, while a read that did not answer keeps them all as they were,
  with the time they were collected, and records why they are not newer; and a health event is logged
  exactly when the status changes.
\<close>

theorem outcome_recorded:
  assumes d: "map_of (iv_drives iv) (d_id asked) = Some d"
    and a: "apply_outcome cfg timeout baseline observe asked out t now (iv, pending) = ((iv', pending'), evs)"
  shows "\<exists>d' ca. map_of (iv_drives iv') (d_id asked) = Some d'
     \<and> (\<forall>j. j \<noteq> d_id asked \<longrightarrow> map_of (iv_drives iv') j = map_of (iv_drives iv) j)
     \<and> d'\<lparr>d_health := d_health d, d_wear_projection := d_wear_projection d\<rparr> = d
     \<and> ca = fst (evaluate_acked cfg (outcome_sample timeout out) (baseline_errors baseline asked out (d_health d)) (d_health_ack d))
     \<and> pending' = snd (damp cfg (d_id asked) (health_of d) ca pending)
     \<and> health_of d' = max (fst (damp cfg (d_id asked) (health_of d) ca pending))
                        (case d_engine_finding d of Some e \<Rightarrow> ef_severity e | None \<Rightarrow> Unknown)
     \<and> (if answered out
        then hr_collected_at (d_health d') = Some t \<and> hr_not_collected (d_health d') = None
           \<and> hr_media_errors (d_health d') = s_media_errors (outcome_sample timeout out)
        else hr_not_collected (d_health d') \<noteq> None
           \<and> (d_health d')\<lparr>hr_status := hr_status (d_health d), hr_messages := hr_messages (d_health d),
                 hr_not_collected := hr_not_collected (d_health d)\<rparr> = d_health d)
     \<and> ((\<exists>e\<in>set evs. fst (snd (snd e)) = ''health'') \<longleftrightarrow> health_of d' \<noteq> health_of d)"
proof -
  obtain v p where v: "outcome_verdict cfg timeout baseline asked out d pending = (v, p)" by (metis surj_pair)
  note F = apply_outcome_known [OF d a v]
  obtain w where w: "map_of (iv_drives iv') (d_id asked)
      = Some (d\<lparr>d_health := outcome_health timeout out v t (d_health d), d_wear_projection := w\<rparr>)" using F(2) by blast
  let ?d = "d\<lparr>d_health := outcome_health timeout out v t (d_health d), d_wear_projection := w\<rparr>"
  define ca where "ca = fst (evaluate_acked cfg (outcome_sample timeout out) (baseline_errors baseline asked out (d_health d)) (d_health_ack d))"
  have st: "p = snd (damp cfg (d_id asked) (health_of d) ca pending)"
    "fst v = max (fst (damp cfg (d_id asked) (health_of d) ca pending)) (case d_engine_finding d of Some e \<Rightarrow> ef_severity e | None \<Rightarrow> Unknown)"
    using v by (auto simp: outcome_verdict_def ca_def split_beta Let_def with_finding_status)
  obtain pre where pre: "\<forall>e\<in>set pre. fst (snd (snd e)) \<in> {''history'', ''wear''}" "evs = pre @ status_event asked (health_of d) v"
    using F(4) by blast
  then have "\<forall>e\<in>set pre. fst (snd (snd e)) \<noteq> ''health''" by fastforce
  then have ev: "(\<exists>e\<in>set evs. fst (snd (snd e)) = ''health'') \<longleftrightarrow> fst v \<noteq> health_of d"
    by (auto simp: pre(2) status_event_def)
  have rd: "if answered out
        then hr_collected_at (d_health ?d) = Some t \<and> hr_not_collected (d_health ?d) = None
           \<and> hr_media_errors (d_health ?d) = s_media_errors (outcome_sample timeout out)
        else hr_not_collected (d_health ?d) \<noteq> None
           \<and> (d_health ?d)\<lparr>hr_status := hr_status (d_health d), hr_messages := hr_messages (d_health d),
                 hr_not_collected := hr_not_collected (d_health d)\<rparr> = d_health d"
    by (cases out) (simp_all add: outcome_health_def answered_def sampled_health_def unanswered_health_def)
  show ?thesis
    using F(1,3) w st ev rd by (intro exI [of _ ?d] exI [of _ ca]) (simp add: ca_def)
qed

lemma outcome_recorded_witness:
  "let r = apply_outcome default_monitor 30 (\<lambda>_. None) (\<lambda>_ _ _ _. []) good_drive TimedOut 100 100 (healthy_inventory, Map.empty) in
     \<exists>d'. map_of (iv_drives (fst (fst r))) (d_id good_drive) = Some d' \<and> hr_not_collected (d_health d') \<noteq> None
       \<and> hr_collected_at (d_health d') = hr_collected_at (d_health good_drive)"
proof -
  obtain iv p evs where r: "apply_outcome default_monitor 30 (\<lambda>_. None) (\<lambda>_ _ _ _. []) good_drive TimedOut 100 100 (healthy_inventory, Map.empty)
      = ((iv, p), evs)" by (metis surj_pair)
  have d: "map_of (iv_drives healthy_inventory) (d_id good_drive) = Some good_drive" by (simp add: healthy_inventory_def)
  from outcome_recorded [OF d r] obtain d' where d': "map_of (iv_drives iv) (d_id good_drive) = Some d'"
    "hr_not_collected (d_health d') \<noteq> None"
    "(d_health d')\<lparr>hr_status := hr_status (d_health good_drive), hr_messages := hr_messages (d_health good_drive),
        hr_not_collected := hr_not_collected (d_health good_drive)\<rparr> = d_health good_drive"
    by (auto simp: answered_def)
  have "hr_collected_at (d_health d') = hr_collected_at (d_health good_drive)"
    using arg_cong [OF d'(3), of hr_collected_at] by simp
  with d' show ?thesis by (simp add: r)
qed

end
