(* ===== verification/Rounds.thy ===== *)
theory Rounds
  imports Monitor
begin

text \<open>
  The monitor's two tasks as one transition system over the inventory (\<open>src/src/monitor.rs\<close>): the tick
  (discovery passes, the refreshes after a pass, the removal of USB media) and the health loop (one
  outcome at a time, its verdict read under one lock and written under another), interleaved in any
  order. A refresh is a pass over the drives one at a time; the contract its body keeps is the locale
  \<open>drive_pass\<close>, interpreted for each refresh.
\<close>

section \<open>The contract of a refresh\<close>

text \<open>A drive with an engine finding is shown at least that bad and names the finding.\<close>

definition folded :: "drive \<Rightarrow> bool" where
  "folded d \<longleftrightarrow> (\<forall>f. d_engine_finding d = Some f \<longrightarrow> ef_severity f \<le> health_of d \<and> ef_message f \<in> set (hr_messages (d_health d)))"

definition folded_but :: "drive_id set \<Rightarrow> drives \<Rightarrow> bool" where
  "folded_but R ds \<longleftrightarrow> (\<forall>i d. map_of ds i = Some d \<and> i \<notin> R \<longrightarrow> folded d)"

lemma folded_fields:
  "d_engine_finding d' = d_engine_finding d \<Longrightarrow> hr_status (d_health d') = hr_status (d_health d)
     \<Longrightarrow> hr_messages (d_health d') = hr_messages (d_health d) \<Longrightarrow> folded d' = folded d"
  by (simp add: folded_def status_of_def)

lemma map_of_each_drive: "map_of (fst (each_drive f ds)) i = map_option (\<lambda>d. fst (f d)) (map_of ds i)"
  by (induction ds) (auto simp: each_drive_def)

lemma keys_each_drive: "map fst (fst (each_drive f ds)) = map fst ds"
  by (induction ds) (auto simp: each_drive_def)

locale drive_pass =
  fixes f :: "drive \<Rightarrow> drive \<times> logged list"
  assumes keeps_id: "d_id (fst (f d)) = d_id d"
    and keeps_folded: "folded d \<Longrightarrow> folded (fst (f d))"
    and settles: "f (fst (f d)) = (fst (f d), [])"
begin

lemma pass_ok: "drives_ok ds \<Longrightarrow> drives_ok (fst (each_drive f ds))"
  unfolding drives_ok_def keys_each_drive map_of_each_drive by (auto simp: keeps_id)

lemma pass_folded: "folded_but R ds \<Longrightarrow> folded_but R (fst (each_drive f ds))"
  by (auto simp: folded_but_def map_of_each_drive keeps_folded)

lemma pass_settles: "each_drive f (fst (each_drive f ds)) = (fst (each_drive f ds), [])"
  by (induction ds) (auto simp: each_drive_def settles)

end

interpretation offer_pass: drive_pass "refresh_offer offer min_bytes" for offer min_bytes
proof
  fix d
  have "offer_blocker (d\<lparr>d_enrolable := e\<rparr>) min_bytes = offer_blocker d min_bytes" for e
    by (simp add: offer_blocker_def busy_line_def needs_reformat_def hot_blocker_def)
  then show "refresh_offer offer min_bytes (fst (refresh_offer offer min_bytes d)) = (fst (refresh_offer offer min_bytes d), [])"
    by (cases "offer \<and> offer_blocker d min_bytes = None") (simp_all add: refresh_offer_def Let_def)
qed (simp_all add: refresh_offer_def folded_def Let_def)

interpretation reconcile_pass: drive_pass "reconcile_one listed" for listed
proof
  fix d :: drive
  have l: "listed_drive (d\<lparr>d_membership := m\<rparr>) = listed_drive d" for m
    by (rule ext) (simp add: listed_drive_def stormblock_path_def split: option.split)
  have cases: "reconcile_one listed d = (d, [])
     \<or> (\<exists>m evs. reconcile_one listed d = (d\<lparr>d_membership := m\<rparr>, evs) \<and> (m = Fleet \<longleftrightarrow> list_ex (listed_drive d) listed))"
    by (cases "list_ex (listed_drive d) listed"; cases "d_membership d")
      (auto simp add: reconcile_one_def intro: exI [of _ Out] exI [of _ Fleet])
  show "d_id (fst (reconcile_one listed d)) = d_id d" using cases by auto
  show "folded (fst (reconcile_one listed d))" if "folded d"
    using cases that folded_fields [of "d\<lparr>d_membership := m\<rparr>" d for m] by auto
  show "reconcile_one listed (fst (reconcile_one listed d)) = (fst (reconcile_one listed d), [])"
    using cases
  proof (elim disjE exE conjE)
    fix m evs
    assume m: "reconcile_one listed d = (d\<lparr>d_membership := m\<rparr>, evs)" "m = Fleet \<longleftrightarrow> list_ex (listed_drive d) listed"
    show ?thesis unfolding m(1) fst_conv using m(2)
      by (cases m) (simp_all add: reconcile_one_def l)
  qed simp
qed

interpretation stale_pass: drive_pass "stale_one interval up now stuck" for interval up now stuck
proof
  fix d :: drive
  have cases: "stale_one interval up now stuck d = (d, [])
     \<or> (\<exists>why evs. stale_one interval up now stuck d = (d\<lparr>d_health := (d_health d)\<lparr>hr_not_collected := Some why\<rparr>\<rparr>, evs)
          \<and> stale_reason (map_option (\<lambda>t. word_of_nat (now - t)) (hr_collected_at (d_health d))) up interval
                (d_name d \<in> set stuck) = Some why \<and> d_activity d \<noteq> Missing)"
    by (cases "d_activity d = Missing"; cases "stale_reason (map_option (\<lambda>t. word_of_nat (now - t)) (hr_collected_at (d_health d)))
          up interval (d_name d \<in> set stuck)") (simp_all add: stale_one_def Let_def)
  show "d_id (fst (stale_one interval up now stuck d)) = d_id d" using cases by auto
  show "folded (fst (stale_one interval up now stuck d))" if "folded d"
    using cases that folded_fields [of "d\<lparr>d_health := (d_health d)\<lparr>hr_not_collected := w\<rparr>\<rparr>" d for w] by auto
  show "stale_one interval up now stuck (fst (stale_one interval up now stuck d)) = (fst (stale_one interval up now stuck d), [])"
    using cases
  proof (elim disjE exE conjE)
    fix why evs
    assume "stale_one interval up now stuck d = (d\<lparr>d_health := (d_health d)\<lparr>hr_not_collected := Some why\<rparr>\<rparr>, evs)"
      and "stale_reason (map_option (\<lambda>t. word_of_nat (now - t)) (hr_collected_at (d_health d))) up interval
             (d_name d \<in> set stuck) = Some why" "d_activity d \<noteq> Missing"
    then show ?thesis by (simp add: stale_one_def)
  qed simp
qed

interpretation engine_pass: drive_pass "engine_one report" for report
proof
  fix d :: drive
  let ?f = "finding (d_name d) (d_paths d) (d_slab_parts d) report"
  have cases: "engine_one report d = (d, []) \<or>
     (\<exists>h evs. engine_one report d = (d\<lparr>d_health := h, d_engine_finding := ?f\<rparr>, evs)
        \<and> (\<forall>nf. ?f = Some nf \<longrightarrow> ef_severity nf \<le> status_of h \<and> ef_message nf \<in> set (hr_messages h)))"
  proof (cases ?f)
    case None
    then show ?thesis unfolding engine_one_def Let_def by (auto split: if_split)
  next
    case (Some nf)
    then show ?thesis by (auto simp: engine_one_def Let_def status_of_def)
  qed
  show "d_id (fst (engine_one report d)) = d_id d" using cases by auto
  show "folded (fst (engine_one report d))" if "folded d"
    using cases that by (auto simp: folded_def)
  show "engine_one report (fst (engine_one report d)) = (fst (engine_one report d), [])"
    using cases
  proof (elim disjE exE conjE)
    fix h evs
    assume "engine_one report d = (d\<lparr>d_health := h, d_engine_finding := ?f\<rparr>, evs)"
    then show ?thesis by (simp add: engine_one_def Let_def)
  qed simp
qed

section \<open>The two tasks\<close>

text \<open>
  The state: the inventory, the damper of the health loop, the outcome it has read but not written
  (the drive asked, the outcome, the status and the verdict it decided on, the finding it saw), and, for
  the statements only, the drives whose last outcome was written over a finding it had not seen.
\<close>

record loop_state =
  lp_iv :: inventory
  lp_damper :: damper
  lp_reading :: "(drive \<times> outcome \<times> health_status \<times> verdict \<times> engine_finding option) option"
  lp_raced :: "drive_id set"

definition with_drives :: "(drives \<Rightarrow> drives) \<Rightarrow> loop_state \<Rightarrow> loop_state" where
  "with_drives f s = s\<lparr>lp_iv := (lp_iv s)\<lparr>iv_drives := f (iv_drives (lp_iv s))\<rparr>\<rparr>"

text \<open>
  The clock, the observations, the outcomes, the lists of stormblock and the media are whatever the
  outside gives at a step.
\<close>

inductive loop_step ::
  "monitor_config \<Rightarrow> nat \<Rightarrow> (drive \<Rightarrow> u64 option) \<Rightarrow> (drive \<Rightarrow> sample \<Rightarrow> health_status \<Rightarrow> u64 \<Rightarrow> string list)
   \<Rightarrow> (string \<Rightarrow> drive_id) \<Rightarrow> loop_state \<Rightarrow> loop_state \<Rightarrow> bool"
  for cfg timeout baseline observe new_v5 where
  discovery: "merge_observed new_v5 locate now obs (lp_iv s) = (iv', evs)
    \<Longrightarrow> loop_step cfg timeout baseline observe new_v5 s (s\<lparr>lp_iv := iv'\<rparr>)"
| health_read: "lp_reading s = None \<Longrightarrow> map_of (iv_drives (lp_iv s)) (d_id asked) = Some d
    \<Longrightarrow> outcome_verdict cfg timeout baseline asked out d (lp_damper s) = (v, p)
    \<Longrightarrow> loop_step cfg timeout baseline observe new_v5 s
          (s\<lparr>lp_damper := p, lp_reading := Some (asked, out, health_of d, v, d_engine_finding d)\<rparr>)"
| health_write: "lp_reading s = Some (asked, out, current, v, f)
    \<Longrightarrow> write_outcome cfg timeout observe asked out t now current v (lp_iv s) = (iv', evs)
    \<Longrightarrow> loop_step cfg timeout baseline observe new_v5 s
          (s\<lparr>lp_iv := iv', lp_reading := None,
             lp_raced := (case map_of (iv_drives (lp_iv s)) (d_id asked) of
                 Some d \<Rightarrow> (if d_engine_finding d = f then lp_raced s - {d_id asked} else insert (d_id asked) (lp_raced s))
               | None \<Rightarrow> lp_raced s)\<rparr>)"
| offers: "loop_step cfg timeout baseline observe new_v5 s (with_drives (\<lambda>ds. fst (refresh_offers offer min_bytes ds)) s)"
| stale: "loop_step cfg timeout baseline observe new_v5 s (with_drives (\<lambda>ds. fst (stale_health cfg up now stuck ds)) s)"
| engine: "loop_step cfg timeout baseline observe new_v5 s (with_drives (\<lambda>ds. fst (refresh_engine report ds)) s)"
| membership: "loop_step cfg timeout baseline observe new_v5 s (with_drives (\<lambda>ds. fst (reconcile_stormblock listed ds)) s)"
| usage: "loop_step cfg timeout baseline observe new_v5 s (with_drives (refresh_usages slabs volumes now) s)"
| media: "loop_step cfg timeout baseline observe new_v5 s (with_drives (\<lambda>ds. fst (merge_media new_v5 old ms ds)) s)"

definition loop_start :: "inventory \<Rightarrow> loop_state" where
  "loop_start iv = \<lparr>lp_iv = iv, lp_damper = Map.empty, lp_reading = None, lp_raced = {}\<rparr>"

inductive loop_reach ::
  "monitor_config \<Rightarrow> nat \<Rightarrow> (drive \<Rightarrow> u64 option) \<Rightarrow> (drive \<Rightarrow> sample \<Rightarrow> health_status \<Rightarrow> u64 \<Rightarrow> string list)
   \<Rightarrow> (string \<Rightarrow> drive_id) \<Rightarrow> inventory \<Rightarrow> loop_state \<Rightarrow> bool"
  for cfg timeout baseline observe new_v5 start where
  started: "loop_reach cfg timeout baseline observe new_v5 start (loop_start start)"
| stepped: "loop_reach cfg timeout baseline observe new_v5 start s \<Longrightarrow> loop_step cfg timeout baseline observe new_v5 s s'
    \<Longrightarrow> loop_reach cfg timeout baseline observe new_v5 start s'"

text \<open>What holds throughout.\<close>

definition verdict_folds :: "engine_finding option \<Rightarrow> verdict \<Rightarrow> bool" where
  "verdict_folds f v \<longleftrightarrow> (\<forall>e. f = Some e \<longrightarrow> ef_severity e \<le> fst v \<and> ef_message e \<in> set (snd v))"

definition loop_ok :: "monitor_config \<Rightarrow> loop_state \<Rightarrow> bool" where
  "loop_ok cfg s \<longleftrightarrow> drives_ok (iv_drives (lp_iv s)) \<and> damper_below cfg (lp_damper s)
     \<and> folded_but (lp_raced s) (iv_drives (lp_iv s))
     \<and> (\<forall>asked out current v f. lp_reading s = Some (asked, out, current, v, f) \<longrightarrow> verdict_folds f v)"

text \<open>Each step keeps the invariant: discovery,\<close>

lemma owned_folded:
  assumes "owned d' = owned d"
  shows "folded d' = folded d"
proof -
  have kept: "d_engine_finding (owned x) = d_engine_finding x" "d_health (owned x) = d_health x" for x
    by (simp_all add: owned_def)
  then have "d_engine_finding d' = d_engine_finding d" "d_health d' = d_health d" using assms by metis+
  then show ?thesis by (intro folded_fields) simp_all
qed

lemma discovery_folded:
  assumes iv: "inventory_ok iv" and r: "merge_observed new_v5 locate now obs iv = (iv', evs)" and f: "folded_but R (iv_drives iv)"
  shows "folded_but R (iv_drives iv')"
  unfolding folded_but_def
proof (intro allI impI)
  fix i d
  note F = merge_observed_facts [OF iv r]
  assume "map_of (iv_drives iv') i = Some d \<and> i \<notin> R"
  then have d: "map_of (iv_drives iv') i = Some d" and iR: "i \<notin> R" by simp_all
  have new: "folded (new_drive now i l r g)" for l r g by (simp add: folded_def new_drive_def Let_def)
  show "folded d"
  proof (cases "i \<in> fst ` set (group_observed new_v5 obs)")
    case True
    then obtain g where "(i, g) \<in> set (group_observed new_v5 obs)" by auto
    from F(3) [OF this] have m: "merged_to now locate i g (map_of (iv_drives iv) i) (Some d)" by (simp add: d)
    show ?thesis
    proof (cases "map_of (iv_drives iv) i")
      case None
      with m new show ?thesis by (auto simp: merged_to_def)
    next
      case (Some e)
      with m have "d = fst (merge_known now locate g e)" by (simp add: merged_to_def)
      with merge_known_facts(1) [of now locate g e d] have "owned d = owned e" by (metis prod.collapse)
      then have "folded d = folded e" by (rule owned_folded)
      moreover have "folded e" using f Some iR unfolding folded_but_def by blast
      ultimately show ?thesis by simp
    qed
  next
    case False
    from F(2) [OF this] d obtain e where "map_of (iv_drives iv) i = Some e" "d = e\<lparr>d_activity := Missing\<rparr>"
      by (cases "map_of (iv_drives iv) i") auto
    then show ?thesis using f iR folded_fields [of d e] unfolding folded_but_def by auto
  qed
qed

text \<open>the outcome of a read,\<close>

lemma with_drive_ok:
  assumes "drives_ok (iv_drives iv)" "\<And>d. d_id (f d) = d_id d"
  shows "drives_ok (iv_drives (with_drive i f iv))"
proof (cases "map_of (iv_drives iv) i")
  case (Some d)
  with assms have "d_id (f d) = i" unfolding drives_ok_def by auto
  from drives_ok_put [OF assms(1) this] Some show ?thesis by (simp add: with_drive_def)
qed (use assms in \<open>simp add: with_drive_def\<close>)

lemma wear_step_ok: "drives_ok (iv_drives iv) \<Longrightarrow> drives_ok (iv_drives (fst (wear_step cfg timeout asked out now iv)))"
  unfolding wear_step_def record_wear_def Let_def
  by (simp add: record_trend_def Let_def with_drive_ok)

lemma outcome_ok:
  assumes "drives_ok (iv_drives iv)"
  shows "drives_ok (iv_drives (fst (write_outcome cfg timeout observe asked out t now current v iv)))"
  using assms unfolding write_outcome_def Let_def
  by (simp add: split_beta wear_step_ok with_drive_ok split: option.split)

lemma verdict_folded: "outcome_verdict cfg timeout baseline asked out d p = (v, p') \<Longrightarrow> verdict_folds (d_engine_finding d) v"
  by (auto simp: verdict_folds_def outcome_verdict_def split_beta Let_def with_finding_def)

lemma outcome_folded:
  assumes w: "write_outcome cfg timeout observe asked out t now current v iv = (iv', evs)"
    and v: "verdict_folds f v" and R: "folded_but R (iv_drives iv)"
  shows "folded_but (case map_of (iv_drives iv) (d_id asked) of
      Some d \<Rightarrow> (if d_engine_finding d = f then R - {d_id asked} else insert (d_id asked) R) | None \<Rightarrow> R) (iv_drives iv')"
proof (cases "map_of (iv_drives iv) (d_id asked)")
  case None
  with w R show ?thesis by (simp add: write_outcome_def)
next
  case (Some d)
  note F = write_outcome_known [OF Some w]
  obtain wp where d': "map_of (iv_drives iv') (d_id asked)
      = Some (d\<lparr>d_health := outcome_health timeout out v t (d_health d), d_wear_projection := wp\<rparr>)" using F(1) by blast
  have "folded (d\<lparr>d_health := outcome_health timeout out v t (d_health d), d_wear_projection := wp\<rparr>)" if "d_engine_finding d = f"
    using v that by (auto simp: folded_def verdict_folds_def outcome_health_def sampled_health_def unanswered_health_def status_of_def)
  note this_folded = this
  show ?thesis
    unfolding folded_but_def Some option.case
  proof (intro allI impI)
    fix i e
    assume e: "map_of (iv_drives iv') i = Some e
      \<and> i \<notin> (if d_engine_finding d = f then R - {d_id asked} else insert (d_id asked) R)"
    show "folded e"
    proof (cases "i = d_id asked")
      case True
      with e d' this_folded show ?thesis by (auto split: if_splits)
    next
      case False
      with e have "i \<notin> R" "map_of (iv_drives iv) i = Some e" by (auto simp: F(2) split: if_splits)
      with R show ?thesis unfolding folded_but_def by blast
    qed
  qed
qed

text \<open>usage and media.\<close>

lemma usage_ok: "drives_ok ds \<Longrightarrow> drives_ok (refresh_usages slabs volumes now ds)"
  and usage_folded: "folded_but R ds \<Longrightarrow> folded_but R (refresh_usages slabs volumes now ds)"
proof -
  let ?g = "\<lambda>d. d\<lparr>d_usage := Some (refresh_usage (d\<lparr>d_usage := None\<rparr>) slabs volumes (d_usage d) now)\<rparr>"
  have m: "map_of (refresh_usages slabs volumes now ds) i = map_option ?g (map_of ds i)" for i
    by (induction ds) (auto simp: refresh_usages_def)
  have k: "map fst (refresh_usages slabs volumes now ds) = map fst ds"
    by (induction ds) (auto simp: refresh_usages_def)
  show "drives_ok ds \<Longrightarrow> drives_ok (refresh_usages slabs volumes now ds)"
    unfolding drives_ok_def m k by auto
  have "folded (?g d) = folded d" for d by (rule folded_fields) simp_all
  then show "folded_but R ds \<Longrightarrow> folded_but R (refresh_usages slabs volumes now ds)"
    unfolding folded_but_def m by auto
qed

lemma media_sub: "\<exists>keep. fst (merge_media new_v5 old ms ds) = filter (\<lambda>(i, _). keep i) ds"
proof -
  have "\<exists>keep. fst (fold drop_drive is (ds, evs)) = filter (\<lambda>(i, _). keep i) ds" for "is" evs
  proof (induction "is" arbitrary: ds evs)
    case Nil
    show ?case by (intro exI [of _ "\<lambda>_. True"]) (simp add: filter_id_conv)
  next
    case (Cons i "is")
    show ?case
    proof (cases "map_of ds i")
      case None
      with Cons.IH show ?thesis by simp
    next
      case (Some d)
      obtain keep where "fst (fold drop_drive is (filter (\<lambda>(j, _). j \<noteq> i) ds, evs @ [usb_line d]))
          = filter (\<lambda>(i, _). keep i) (filter (\<lambda>(j, _). j \<noteq> i) ds)" using Cons.IH by blast
      with Some show ?thesis
        by (intro exI [of _ "\<lambda>j. keep j \<and> j \<noteq> i"]) (simp add: case_prod_unfold conj_commute)
    qed
  qed
  then show ?thesis by (simp add: merge_media_def)
qed

lemma media_ok: "drives_ok ds \<Longrightarrow> drives_ok (fst (merge_media new_v5 old ms ds))"
  and media_folded: "folded_but R ds \<Longrightarrow> drives_ok ds \<Longrightarrow> folded_but R (fst (merge_media new_v5 old ms ds))"
proof -
  obtain keep where k: "fst (merge_media new_v5 old ms ds) = filter (\<lambda>(i, _). keep i) ds" using media_sub by blast
  have m: "map_of (filter (\<lambda>(i, _). keep i) ds) i = (if keep i then map_of ds i else None)" for i
    by (induction ds) auto
  show "drives_ok ds \<Longrightarrow> drives_ok (fst (merge_media new_v5 old ms ds))"
    unfolding k drives_ok_def m by (auto simp: distinct_map_filter)
  show "folded_but R ds \<Longrightarrow> drives_ok ds \<Longrightarrow> folded_but R (fst (merge_media new_v5 old ms ds))"
    unfolding k folded_but_def m by auto
qed

lemmas pass_oks = offer_pass.pass_ok stale_pass.pass_ok engine_pass.pass_ok reconcile_pass.pass_ok usage_ok media_ok
lemmas pass_foldeds = offer_pass.pass_folded stale_pass.pass_folded engine_pass.pass_folded reconcile_pass.pass_folded
  usage_folded media_folded
lemmas refresh_defs = refresh_offers_def stale_health_def refresh_engine_def reconcile_stormblock_def

lemma with_drives_ok:
  assumes "loop_ok cfg s" "drives_ok (f (iv_drives (lp_iv s)))" "folded_but (lp_raced s) (f (iv_drives (lp_iv s)))"
  shows "loop_ok cfg (with_drives f s)"
  using assms by (simp add: loop_ok_def with_drives_def)

lemma loop_step_ok: "loop_step cfg timeout baseline observe new_v5 s s' \<Longrightarrow> loop_ok cfg s \<Longrightarrow> loop_ok cfg s'"
proof (induction rule: loop_step.induct)
  case (discovery locate now obs s iv' evs)
  then have "inventory_ok iv'" "folded_but (lp_raced s) (iv_drives iv')"
    using merge_observed_facts(1) discovery_folded by (metis loop_ok_def inventory_ok_iff)+
  with discovery.prems show ?case by (simp add: loop_ok_def inventory_ok_iff)
next
  case (health_read s asked d out v p)
  obtain ca where "p = snd (damp cfg (d_id asked) (health_of d) ca (lp_damper s))"
    using outcome_verdict_damper [of cfg timeout baseline asked out d "lp_damper s"] health_read.hyps(3) by auto
  then have "damper_below cfg p" using health_read.prems damp_below by (simp add: loop_ok_def)
  with health_read.prems verdict_folded [OF health_read.hyps(3)] show ?case by (cases v) (simp add: loop_ok_def)
next
  case (health_write s asked out current v f t now iv' evs)
  have "drives_ok (iv_drives iv')"
    using outcome_ok [of "lp_iv s" cfg timeout observe asked out t now current v] health_write by (simp add: loop_ok_def)
  moreover have "verdict_folds f v" "folded_but (lp_raced s) (iv_drives (lp_iv s))"
    using health_write.prems health_write.hyps(1) by (cases v, simp_all add: loop_ok_def)
  note outcome_folded [OF health_write.hyps(2) this]
  ultimately show ?case using health_write.prems by (simp add: loop_ok_def)
qed (rule with_drives_ok; simp add: loop_ok_def refresh_defs pass_oks pass_foldeds)+

lemma loop_reach_ok:
  "loop_reach cfg timeout baseline observe new_v5 start s \<Longrightarrow> loop_ok cfg (loop_start start) \<Longrightarrow> loop_ok cfg s"
  by (induction rule: loop_reach.induct) (auto intro: loop_step_ok)

text \<open>
  C10.loop_sound. In every state the monitor reaches from an inventory whose drives have no engine finding yet,
  through any interleaving of discovery passes, read outcomes, refreshes and media removals: each drive is
  kept once and under its own id; a drive with an engine finding is shown at least as bad as the finding and
  names it among its messages, unless its last outcome was written over a finding that came after the
  outcome's verdict was read; and no streak the damper keeps has reached the hysteresis.
\<close>

theorem loop_sound:
  assumes start: "inventory_ok start" "list_all (\<lambda>(_, d). d_engine_finding d = None) (iv_drives start)"
    and reach: "loop_reach cfg timeout baseline observe new_v5 start s"
  shows "inventory_ok (lp_iv s)
    \<and> (\<forall>i d f. map_of (iv_drives (lp_iv s)) i = Some d \<and> d_engine_finding d = Some f \<and> i \<notin> lp_raced s \<longrightarrow>
         ef_severity f \<le> health_of d \<and> ef_message f \<in> set (hr_messages (d_health d)))
    \<and> (\<forall>i st n. lp_damper s i = Some (st, n) \<longrightarrow> unat n < unat (mc_hysteresis cfg))"
proof -
  have "folded_but {} (iv_drives start)"
    unfolding folded_but_def
  proof (intro allI impI)
    fix i d
    assume "map_of (iv_drives start) i = Some d \<and> i \<notin> {}"
    then have "(i, d) \<in> set (iv_drives start)" by (blast intro: map_of_SomeD)
    then show "folded d" using start(2) by (auto simp: list_all_iff folded_def)
  qed
  then have "loop_ok cfg (loop_start start)"
    using start(1) by (simp add: loop_ok_def inventory_ok_iff damper_below_def loop_start_def)
  from loop_reach_ok [OF reach this] show ?thesis
    unfolding loop_ok_def inventory_ok_iff folded_but_def folded_def damper_below_def by blast
qed

text \<open>A healthy drive with a slab, under an engine that runs diskless.\<close>

definition suspect_drive :: drive where
  "suspect_drive = good_drive\<lparr>d_slab_parts := [\<lparr>sp_partition = None, sp_name = [], sp_role = ''data'', sp_offset_bytes = 0\<rparr>]\<rparr>"

definition suspect_report :: engine_slabs where
  "suspect_report = \<lparr>en_diskless = True, en_system = ''remote'', en_data = ''remote'', en_items = [], en_local_disk = None\<rparr>"

definition suspect_inventory :: inventory where
  "suspect_inventory = empty_inventory\<lparr>iv_drives := [(d_id suspect_drive, suspect_drive)]\<rparr>"

lemma suspect_finding:
  "finding (d_name suspect_drive) (d_paths suspect_drive) (d_slab_parts suspect_drive) suspect_report
     = Some \<lparr>ef_severity = Warning, ef_roles = [''data''], ef_message = finding_message
         (''suspect: the engine is not using this disk''@[CHR 0x27]@''s slabs'') (d_slab_parts suspect_drive) suspect_report []\<rparr>"
  by (simp add: finding_def unused_roles_def unused_def suspect_drive_def suspect_report_def Let_def verdict_reason_def
      verdict_for_def)

lemma suspect_facts [simp]:
  "d_activity suspect_drive = Idle" "d_engine_finding suspect_drive = None"
  "map_of (iv_drives suspect_inventory) (d_id suspect_drive) = Some suspect_drive" "inventory_ok suspect_inventory"
  "list_all (\<lambda>(_, d). d_engine_finding d = None) (iv_drives suspect_inventory)"
  by (simp_all add: suspect_drive_def good_drive_def base_drive_def suspect_inventory_def inventory_ok_def)

lemma loop_sound_witness:
  "\<exists>d f. map_of (fst (refresh_engine suspect_report (iv_drives suspect_inventory))) (d_id suspect_drive) = Some d
     \<and> d_engine_finding d = Some f \<and> ef_severity f \<le> health_of d \<and> ef_message f \<in> set (hr_messages (d_health d))"
proof -
  let ?s = "with_drives (\<lambda>ds. fst (refresh_engine suspect_report ds)) (loop_start suspect_inventory)"
  have reach: "loop_reach default_monitor 30 (\<lambda>_. None) (\<lambda>_ _ _ _. []) (\<lambda>_. 0) suspect_inventory ?s"
    by (rule loop_reach.stepped [OF loop_reach.started loop_step.engine])
  obtain d where d: "map_of (iv_drives (lp_iv ?s)) (d_id suspect_drive) = Some d" "d = fst (engine_one suspect_report suspect_drive)"
    by (simp add: with_drives_def loop_start_def refresh_engine_def map_of_each_drive)
  have "d_engine_finding d \<noteq> None" using suspect_finding by (simp add: d(2) engine_one_def Let_def)
  then obtain f where "d_engine_finding d = Some f" by blast
  with loop_sound [OF suspect_facts(4,5) reach] d(1) show ?thesis
    by (auto simp: with_drives_def loop_start_def)
qed

text \<open>
  The race the exception is about does happen: a good sample is read, the tick then folds a finding into
  the drive's health, and the health loop writes the verdict it had decided on over it. The drive is
  then shown good, without the finding's message, until its next sample.
\<close>

definition fine_sample :: sample where
  "fine_sample = default_sample\<lparr>s_kernel_ok := True\<rparr>"

lemma fine_verdict:
  "outcome_verdict default_monitor 30 (\<lambda>_. None) suspect_drive (Sampled fine_sample) suspect_drive Map.empty = ((Good, []), Map.empty)"
proof -
  have st: "health_of suspect_drive = Good" "hr_collected_at (d_health suspect_drive) = None"
    by (simp_all add: suspect_drive_def good_drive_def base_drive_def status_of_def default_health_def)
  then have "baseline_errors (\<lambda>_. None) suspect_drive (Sampled fine_sample) (d_health suspect_drive) = None"
    by (simp add: baseline_errors_def answered_def)
  moreover have "evaluate_acked default_monitor fine_sample None (d_health_ack suspect_drive) = (Good, [])"
    by (simp add: evaluate_acked_def fine_sample_def default_sample_def nvme_verdict_def bit_set_def guard_def worsen_opt_def
        spare_verdict_def wear_verdict_def temp_verdict_def growth_verdict_def Let_def)
  ultimately show ?thesis
    by (simp add: outcome_verdict_def st damp_def with_finding_def less_eq_health_status_def)
qed

theorem finding_hidden_by_race:
  "\<exists>s d f. loop_reach default_monitor 30 (\<lambda>_. None) (\<lambda>_ _ _ _. []) (\<lambda>_. 0) suspect_inventory s
     \<and> map_of (iv_drives (lp_iv s)) (d_id suspect_drive) = Some d
     \<and> d_engine_finding d = Some f \<and> health_of d < ef_severity f \<and> hr_messages (d_health d) = []"
proof -
  let ?reach = "loop_reach default_monitor 30 (\<lambda>_. None) (\<lambda>_ _ _ _. []) (\<lambda>_. 0) suspect_inventory"
  let ?s1 = "(loop_start suspect_inventory)\<lparr>lp_damper := Map.empty,
      lp_reading := Some (suspect_drive, Sampled fine_sample, health_of suspect_drive, (Good, []), d_engine_finding suspect_drive)\<rparr>"
  let ?s2 = "with_drives (\<lambda>ds. fst (refresh_engine suspect_report ds)) ?s1"
  let ?d = "fst (engine_one suspect_report suspect_drive)"
  have "?reach ?s1"
    by (rule loop_reach.stepped [OF loop_reach.started loop_step.health_read]) (simp_all add: loop_start_def fine_verdict)
  then have r2: "?reach ?s2" by (rule loop_reach.stepped [OF _ loop_step.engine])
  obtain iv evs where w: "write_outcome default_monitor 30 (\<lambda>_ _ _ _. []) suspect_drive (Sampled fine_sample) 0 0
      (health_of suspect_drive) (Good, []) (lp_iv ?s2) = (iv, evs)" by fastforce
  have "map_of (iv_drives (lp_iv ?s2)) (d_id suspect_drive) = Some ?d"
    by (simp add: with_drives_def loop_start_def refresh_engine_def map_of_each_drive)
  from write_outcome_known(1) [OF this w] obtain wp where
    d: "map_of (iv_drives iv) (d_id suspect_drive)
      = Some (?d\<lparr>d_health := outcome_health 30 (Sampled fine_sample) (Good, []) 0 (d_health ?d), d_wear_projection := wp\<rparr>)" by blast
  have f: "\<exists>f. d_engine_finding ?d = Some f \<and> ef_severity f = Warning"
    using suspect_finding by (simp add: engine_one_def Let_def)
  have "lp_reading ?s2 = Some (suspect_drive, Sampled fine_sample, health_of suspect_drive, (Good, []), d_engine_finding suspect_drive)"
    by (simp add: with_drives_def)
  from loop_reach.stepped [OF r2 loop_step.health_write [OF this w]] obtain s where s: "?reach s" "lp_iv s = iv" by auto
  have good: "hr_messages (outcome_health 30 (Sampled fine_sample) (Good, []) 0 (d_health ?d)) = []" "Good < Warning"
    by (simp_all add: outcome_health_def answered_def sampled_health_def less_health_status_def)
  from f obtain e where e: "d_engine_finding ?d = Some e" "ef_severity e = Warning" by blast
  show ?thesis
    by (rule exI [of _ s], rule exI, rule exI [of _ e], intro conjI, rule s(1), unfold s(2), rule d) (simp_all add: e good)
qed

text \<open>
  C31.refreshes_settle. The refreshes after a pass settle at once: the same facts a second time change no drive
  and log nothing, so a steady state raises no repeated events; and after the offers' refresh a drive is
  offered exactly when offers are on and nothing blocks it, one event for each drive that was not offered before.
\<close>

theorem refreshes_settle:
  "refresh_offers offer min_bytes (fst (refresh_offers offer min_bytes ds)) = (fst (refresh_offers offer min_bytes ds), [])
   \<and> refresh_engine report (fst (refresh_engine report ds)) = (fst (refresh_engine report ds), [])
   \<and> reconcile_stormblock listed (fst (reconcile_stormblock listed ds)) = (fst (reconcile_stormblock listed ds), [])
   \<and> stale_health cfg up now stuck (fst (stale_health cfg up now stuck ds)) = (fst (stale_health cfg up now stuck ds), [])
   \<and> (\<forall>i. map_option d_enrolable (map_of (fst (refresh_offers offer min_bytes ds)) i)
         = map_option (\<lambda>d. offer \<and> offer_blocker d min_bytes = None) (map_of ds i))
   \<and> map (\<lambda>e. fst e) (snd (refresh_offers offer min_bytes ds))
       = map (\<lambda>(_, d). Some (d_id d)) (filter (\<lambda>(_, d). offer \<and> offer_blocker d min_bytes = None \<and> \<not> d_enrolable d) ds)"
proof -
  have "map (\<lambda>e. fst e) (snd (refresh_offers offer min_bytes ds))
       = map (\<lambda>(_, d). Some (d_id d)) (filter (\<lambda>(_, d). offer \<and> offer_blocker d min_bytes = None \<and> \<not> d_enrolable d) ds)"
    by (induction ds) (auto simp: refresh_offers_def each_drive_def refresh_offer_def Let_def split: if_splits)
  moreover have "map_option d_enrolable (map_of (fst (refresh_offers offer min_bytes ds)) i)
         = map_option (\<lambda>d. offer \<and> offer_blocker d min_bytes = None) (map_of ds i)" for i
    by (cases "map_of ds i") (simp_all add: refresh_offers_def map_of_each_drive refresh_offer_def Let_def)
  ultimately show ?thesis
    unfolding refresh_offers_def refresh_engine_def reconcile_stormblock_def stale_health_def
    using offer_pass.pass_settles engine_pass.pass_settles reconcile_pass.pass_settles stale_pass.pass_settles by simp
qed

end
