(* ===== verification/Retry.thy ===== *)
theory Retry
  imports F64
begin

text \<open>
  \<open>src/retry/src/lib.rs\<close>: the one retry helper. A \<open>Duration\<close> is its number of nanoseconds, bounded as
  Rust's is; adding past the bound panics, and so is the value \<open>None\<close> here. The clock is the times the
  tries take and the lateness of the timer, which with the random numbers are arguments; the operation
  is a function of the try and of the state its closure keeps.
\<close>

section \<open>Durations\<close>

type_synonym dur = nat

definition NS :: nat where "NS = 1000000000"

definition dur_max :: dur where "dur_max = (2 ^ 64 - 1) * NS + (NS - 1)"

definition ms :: "nat \<Rightarrow> dur" where "ms n = n * 1000000"

definition seconds :: "nat \<Rightarrow> dur" where "seconds n = n * NS"

definition dur_add :: "dur \<Rightarrow> dur \<Rightarrow> dur option" where
  "dur_add a b = (if a + b \<le> dur_max then Some (a + b) else None)"

definition dur_saturating_mul :: "dur \<Rightarrow> u32 \<Rightarrow> dur" where
  "dur_saturating_mul d n = min (d * unat n) dur_max"

definition as_secs_f64 :: "dur \<Rightarrow> f64" where
  "as_secs_f64 d = f64_add (f64_of_int (int (d div NS))) (f64_div (f64_of_int (int (d mod NS))) (f64_of_int (int NS)))"

text \<open>\<open>{:.1}\<close> of an \<open>f64\<close>.\<close>

fun fmt1 :: "f64 \<Rightarrow> string" where
  "fmt1 NaN = ''NaN''"
| "fmt1 (Inf s) = (if s then ''-inf'' else ''inf'')"
| "fmt1 (Fin s m e) =
     (let q = (if 0 \<le> e then 10 * m * 2 ^ nat e else shift_round (10 * m) (nat (- e)))
      in (if s then ''-'' else []) @ dec (q div 10) @ ''.'' @ dec (q mod 10))"

section \<open>Policies\<close>

record policy =
  rp_name :: string
  rp_attempts :: u32
  rp_base :: dur
  rp_max_delay :: dur
  rp_deadline :: dur

definition ENGINE :: policy where
  "ENGINE = \<lparr>rp_name = ''engine'', rp_attempts = 4, rp_base = ms 250, rp_max_delay = seconds 4, rp_deadline = seconds 30\<rparr>"

definition ENGINE_SLOW :: policy where
  "ENGINE_SLOW = \<lparr>rp_name = ''engine-slow'', rp_attempts = 3, rp_base = seconds 1, rp_max_delay = seconds 5,
     rp_deadline = seconds 100\<rparr>"

definition ENGINE_FORMAT :: policy where
  "ENGINE_FORMAT = \<lparr>rp_name = ''engine-format'', rp_attempts = 4, rp_base = ms 250, rp_max_delay = seconds 4,
     rp_deadline = seconds (20 * 60)\<rparr>"

definition KUBE :: policy where
  "KUBE = \<lparr>rp_name = ''kube'', rp_attempts = 3, rp_base = ms 200, rp_max_delay = seconds 2, rp_deadline = seconds 20\<rparr>"

definition TEST :: policy where
  "TEST = \<lparr>rp_name = ''test'', rp_attempts = 4, rp_base = ms 500, rp_max_delay = seconds 5, rp_deadline = seconds 150\<rparr>"

text \<open>\<open>1u32.checked_shl(k)\<close> is \<open>None\<close> from 32 on.\<close>

definition backoff :: "policy \<Rightarrow> u32 \<Rightarrow> dur" where
  "backoff p n =
     (let k = unat (sat_sub n 1);
          factor = (if k < 32 then push_bit k 1 else - 1)
      in min (dur_saturating_mul (rp_base p) factor) (rp_max_delay p))"

record attempt =
  at_n :: u32
  at_remaining :: dur

definition attempt_timeout :: "attempt \<Rightarrow> dur \<Rightarrow> dur" where
  "attempt_timeout a usual = max (min usual (at_remaining a)) (ms 100)"

datatype try_verdict = TryOk | TryFail string | TryRetry string "dur option"

record infra =
  if_what :: string
  if_attempts :: u32
  if_elapsed :: dur
  if_last :: string

definition infra_line :: "infra \<Rightarrow> string" where
  "infra_line i =
     if_what i @ '': infrastructure: gave up after '' @ dec (unat (if_attempts i)) @ '' attempt''
       @ (if if_attempts i = 1 then [] else ''s'') @ '' / '' @ fmt1 (as_secs_f64 (if_elapsed i)) @ '' s: '' @ if_last i"

text \<open>An error is its text and those of its sources, each perhaps an \<open>Infra\<close>.\<close>

type_synonym chain = "(string \<times> infra option) list"

definition find_infra :: "chain \<Rightarrow> infra option" where
  "find_infra e = first_some (map snd e)"

definition error_chain :: "chain \<Rightarrow> string" where
  "error_chain e = fold (\<lambda>t s. if contains s t then s else s @ '': '' @ t) (map fst (tl e)) (fst (hd e))"

section \<open>The loop\<close>

text \<open>
  What a run comes to. The tries it made, with the time each started at, are kept for the statements.
\<close>

record ('r, 'w) tried =
  tr_result :: 'r
  tr_attempts :: u32
  tr_elapsed :: dur
  tr_gave_up :: "infra option"
  tr_state :: 'w
  tr_tries :: "(dur \<times> attempt \<times> 'r) list"
  tr_lines :: "(bool \<times> string) list"

text \<open>Equal jitter, with the random number \<open>r\<close>: \<open>span + 1\<close> overflows for a half of \<open>2^64 - 1\<close> ns.\<close>

definition jitter :: "u64 \<Rightarrow> dur \<Rightarrow> dur option" where
  "jitter r d =
     (let half = d div 2; ns = (of_nat half :: u64) in
      if ns = 0 then Some half
      else if ns = - 1 then None
      else dur_add half (unat (r mod (ns + 1))))"

definition succeeded_line :: "string \<Rightarrow> u32 \<Rightarrow> dur \<Rightarrow> bool \<times> string" where
  "succeeded_line what n elapsed =
     (False, what @ '': succeeded on attempt '' @ dec (unat n) @ '' after '' @ fmt1 (as_secs_f64 elapsed) @ '' s'')"

definition answered_line :: "string \<Rightarrow> u32 \<Rightarrow> dur \<Rightarrow> string \<Rightarrow> bool \<times> string" where
  "answered_line what n elapsed why =
     (False, what @ '': a real answer on attempt '' @ dec (unat n) @ '' after '' @ fmt1 (as_secs_f64 elapsed)
        @ '' s, not retried: '' @ why)"

text \<open>The measure of the loop: the tries an \<open>u32\<close> can still count.\<close>

definition tries_left :: "u32 \<Rightarrow> nat" where
  "tries_left n = (if n = - 1 then 2 ^ 32 else 2 ^ 32 - 1 - unat n)"

lemma unat_suc_less: "unat (n :: u32) < unat (m :: u32) \<Longrightarrow> unat (n + 1) = Suc (unat n)"
  by unat_arith

lemma tries_left_less:
  assumes "n + 1 < (m :: u32)"
  shows "tries_left (n + 1) < tries_left n"
proof (cases "n = - 1")
  case False
  then have "n + 1 \<noteq> 0" by (metis add_diff_cancel diff_0)
  then have "unat (n + 1) = Suc (unat n)" by (metis Suc_eq_plus1 unatSuc add.commute)
  moreover have "n + 1 \<noteq> - 1" using assms by (metis word_order.extremum_strict)
  moreover have "unat m < 2 ^ 32" using unsigned_less [of m, where ?'a = nat] by simp
  moreover have "unat (n + 1) < unat m" using assms by (simp add: word_less_nat_alt)
  ultimately show ?thesis using False by (simp add: tries_left_def)
qed (simp add: tries_left_def)

text \<open>
  \<open>op\<close> is asked with the try and answers with its result, the time it took and its closure's new
  state; \<open>draw n\<close> is the random number of the \<open>n\<close>-th delay and \<open>late n\<close> how much the timer oversleeps it.
  \<open>n\<close> tries were made, \<open>t\<close> is the time since the start.
\<close>

function retry_loop ::
  "policy \<Rightarrow> string \<Rightarrow> (attempt \<Rightarrow> 'w \<Rightarrow> 'r \<times> dur \<times> 'w) \<Rightarrow> ('r \<Rightarrow> try_verdict) \<Rightarrow> (u32 \<Rightarrow> u64) \<Rightarrow> (u32 \<Rightarrow> dur)
   \<Rightarrow> u32 \<Rightarrow> dur \<Rightarrow> 'w \<Rightarrow> (dur \<times> attempt \<times> 'r) list \<Rightarrow> ('r, 'w) tried option" where
  "retry_loop p what op classify draw late n0 t w tries =
     (let n = n0 + 1;
          a = \<lparr>at_n = n, at_remaining = rp_deadline p - t\<rparr>;
          (result, took, w') = op a w;
          elapsed = t + took;
          tries' = tries @ [(t, a, result)]
      in case classify result of
           TryOk \<Rightarrow> Some \<lparr>tr_result = result, tr_attempts = n, tr_elapsed = elapsed, tr_gave_up = None, tr_state = w',
               tr_tries = tries', tr_lines = (if 1 < n then [succeeded_line what n elapsed] else [])\<rparr>
         | TryFail why \<Rightarrow> Some \<lparr>tr_result = result, tr_attempts = n, tr_elapsed = elapsed, tr_gave_up = None, tr_state = w',
               tr_tries = tries', tr_lines = (if 1 < n then [answered_line what n elapsed why] else [])\<rparr>
         | TryRetry why after \<Rightarrow>
             (case jitter (draw n) (backoff p n) of
                None \<Rightarrow> None
              | Some j \<Rightarrow>
                  (let delay = (case after of Some a \<Rightarrow> max j a | None \<Rightarrow> j);
                       infra = \<lparr>if_what = what, if_attempts = n, if_elapsed = elapsed, if_last = why\<rparr>;
                       gave_up = Some \<lparr>tr_result = result, tr_attempts = n, tr_elapsed = elapsed, tr_gave_up = Some infra,
                           tr_state = w', tr_tries = tries', tr_lines = [(True, infra_line infra)]\<rparr>
                   in if rp_attempts p \<le> n then gave_up
                      else case dur_add elapsed delay of
                          None \<Rightarrow> None
                        | Some due \<Rightarrow>
                            if rp_deadline p \<le> due then gave_up
                            else retry_loop p what op classify draw late n (due + late n) w' tries')))"
  by pat_completeness auto

termination
proof (relation "measure (\<lambda>(p, what, op, classify, draw, late, n, t, w, tries). tries_left n)", goal_cases)
  case 1
  show ?case by simp
next
  case (2 p what op classify draw late n0 t w tries n)
  then have "n = n0 + 1" "n < rp_attempts p" by auto
  then show ?case by (simp add: tries_left_less)
qed

definition with_backoff ::
  "policy \<Rightarrow> string \<Rightarrow> (attempt \<Rightarrow> 'w \<Rightarrow> 'r \<times> dur \<times> 'w) \<Rightarrow> ('r \<Rightarrow> try_verdict) \<Rightarrow> (u32 \<Rightarrow> u64) \<Rightarrow> (u32 \<Rightarrow> dur) \<Rightarrow> 'w
   \<Rightarrow> ('r, 'w) tried option" where
  "with_backoff p what op classify draw late w = retry_loop p what op classify draw late 0 0 w []"

section \<open>What is transient\<close>

datatype idempotent = Yes | No

record request_error =
  re_chain :: chain
  re_connect :: bool
  re_timeout :: bool
  re_request :: bool
  re_body :: bool

definition classify_error :: "request_error \<Rightarrow> idempotent \<Rightarrow> try_verdict" where
  "classify_error e idem =
     (let why = error_chain (re_chain e);
          unsent = re_connect e;
          maybe_sent = (re_timeout e \<or> re_request e \<or> re_body e)
      in if unsent \<or> idem = Yes \<and> maybe_sent then TryRetry why None
         else if maybe_sent then TryFail (why @ '' (not retried: the write may have been applied)'')
         else TryFail why)"

definition http_line :: "u16 \<Rightarrow> string" where
  "http_line code = ''HTTP '' @ dec (unat code)"

definition classify_status :: "u16 \<Rightarrow> dur option \<Rightarrow> idempotent \<Rightarrow> try_verdict" where
  "classify_status code retry_after idem =
     (if 200 \<le> code \<and> code \<le> 399 then TryOk
      else if code = 429 then TryRetry (http_line code) retry_after
      else if (code = 408 \<or> 500 \<le> code \<and> code \<le> 599) \<and> idem = Yes then TryRetry (http_line code) retry_after
      else TryFail (http_line code))"

text \<open>A \<open>Retry-After\<close> header that is text, in seconds.\<close>

definition retry_after :: "string option \<Rightarrow> dur option" where
  "retry_after h = Option.bind h (\<lambda>v. map_option seconds (parse_unsigned (2 ^ 64) (trim v)))"

text \<open>A try of a request: its error, or the status and the \<open>Retry-After\<close> of the response.\<close>

type_synonym response = "request_error + u16 \<times> string option"

definition classify_response :: "response \<Rightarrow> idempotent \<Rightarrow> try_verdict" where
  "classify_response r idem =
     (case r of Inr (code, h) \<Rightarrow> classify_status code (retry_after h) idem | Inl e \<Rightarrow> classify_error e idem)"

section \<open>What a run does\<close>

lemma jitter_bounds: "jitter r d = Some j \<Longrightarrow> d div 2 \<le> j \<and> j \<le> d"
proof -
  assume "jitter r d = Some j"
  then consider "j = d div 2" | ns :: u64 where "ns = of_nat (d div 2)" "ns \<noteq> - 1" "j = d div 2 + unat (r mod (ns + 1))"
    by (auto simp: jitter_def dur_add_def Let_def split: if_splits)
  then show ?thesis
  proof cases
    case (2 ns)
    have "ns + 1 \<noteq> 0" using 2(2) by (metis add.commute add_eq_0_iff)
    then have "r mod (ns + 1) < ns + 1" by (simp add: word_mod_less_divisor word_neq_0_conv)
    then have "unat (r mod (ns + 1)) < unat (ns + 1)" by (simp add: word_less_nat_alt)
    moreover have "unat (ns + 1) = Suc (unat ns)" using \<open>ns + 1 \<noteq> 0\<close> by (metis Suc_eq_plus1 unatSuc add.commute)
    ultimately have "unat (r mod (ns + 1)) \<le> unat ns" by simp
    also have "\<dots> \<le> d div 2" by (simp add: 2(1) unsigned_of_nat take_bit_eq_mod)
    finally show ?thesis using 2(3) by simp
  qed auto
qed

text \<open>The least wait after a try, before the next may start.\<close>

definition least_wait :: "policy \<Rightarrow> nat \<Rightarrow> dur option \<Rightarrow> dur" where
  "least_wait p i after = max (backoff p (of_nat (Suc i)) div 2) (case after of Some a \<Rightarrow> a | None \<Rightarrow> 0)"

definition leads_to :: "policy \<Rightarrow> ('r \<Rightarrow> try_verdict) \<Rightarrow> (u32 \<Rightarrow> dur) \<Rightarrow> nat \<Rightarrow> dur \<times> attempt \<times> 'r \<Rightarrow> dur \<Rightarrow> bool" where
  "leads_to p classify late i x t \<longleftrightarrow>
     (\<exists>why after. classify (snd (snd x)) = TryRetry why after \<and> fst x + least_wait p i after \<le> t)
     \<and> t < rp_deadline p + late (of_nat (Suc i))"

definition tries_ok :: "policy \<Rightarrow> ('r \<Rightarrow> try_verdict) \<Rightarrow> (u32 \<Rightarrow> dur) \<Rightarrow> (dur \<times> attempt \<times> 'r) list \<Rightarrow> bool" where
  "tries_ok p classify late tries \<longleftrightarrow>
     (\<forall>i<length tries. at_n (fst (snd (tries ! i))) = of_nat (Suc i)
        \<and> at_remaining (fst (snd (tries ! i))) = rp_deadline p - fst (tries ! i))
     \<and> (\<forall>i. Suc i < length tries \<longrightarrow> leads_to p classify late i (tries ! i) (fst (tries ! Suc i)))"

definition ready :: "policy \<Rightarrow> ('r \<Rightarrow> try_verdict) \<Rightarrow> (u32 \<Rightarrow> dur) \<Rightarrow> (dur \<times> attempt \<times> 'r) list \<Rightarrow> dur \<Rightarrow> bool" where
  "ready p classify late tries t \<longleftrightarrow> tries_ok p classify late tries
     \<and> (tries \<noteq> [] \<longrightarrow> leads_to p classify late (length tries - 1) (last tries) t)"

lemma tries_ok_snoc:
  assumes "ready p classify late tries t" "at_n a = of_nat (Suc (length tries))" "at_remaining a = rp_deadline p - t"
  shows "tries_ok p classify late (tries @ [(t, a, r)])"
proof -
  have "leads_to p classify late i ((tries @ [(t, a, r)]) ! i) (fst ((tries @ [(t, a, r)]) ! Suc i))"
    if "Suc i < length (tries @ [(t, a, r)])" for i
  proof (cases "Suc i = length tries")
    case True
    then have "tries \<noteq> []" "i = length tries - 1" by auto
    with assms(1) True show ?thesis by (auto simp: ready_def nth_append last_conv_nth)
  next
    case False
    with that assms(1) show ?thesis by (auto simp: ready_def tries_ok_def nth_append)
  qed
  with assms show ?thesis by (auto simp: ready_def tries_ok_def nth_append less_Suc_eq)
qed

text \<open>What a run leaves behind.\<close>

definition tried_ok :: "policy \<Rightarrow> ('r \<Rightarrow> try_verdict) \<Rightarrow> (u32 \<Rightarrow> dur) \<Rightarrow> ('r, 'w) tried \<Rightarrow> bool" where
  "tried_ok p classify late r \<longleftrightarrow>
     tries_ok p classify late (tr_tries r) \<and> tr_tries r \<noteq> [] \<and> length (tr_tries r) = unat (tr_attempts r)
     \<and> tr_attempts r \<le> max 1 (rp_attempts p) \<and> snd (snd (last (tr_tries r))) = tr_result r
     \<and> (tr_gave_up r \<noteq> None \<longleftrightarrow> (\<exists>why after. classify (tr_result r) = TryRetry why after))"

lemma retry_loop_ok:
  assumes "retry_loop p what op classify draw late n0 t w tries = Some r"
    and "ready p classify late tries t" "unat n0 = length tries" "n0 = 0 \<or> n0 < rp_attempts p"
  shows "tried_ok p classify late r"
  using assms
proof (induction p what op classify draw late n0 t w tries rule: retry_loop.induct)
  case (1 p what op classify draw late n0 t w tries)
  obtain result took w' where op: "op \<lparr>at_n = n0 + 1, at_remaining = rp_deadline p - t\<rparr> w = (result, took, w')" by (metis surj_pair)
  let ?n = "n0 + 1" and ?a = "\<lparr>at_n = n0 + 1, at_remaining = rp_deadline p - t\<rparr>"
  let ?tries = "tries @ [(t, ?a, result)]"
  have n: "unat ?n = Suc (unat n0)"
    using 1(5) by (auto simp: word_less_nat_alt intro: unat_suc_less)
  have le: "?n \<le> max 1 (rp_attempts p)"
    using 1(5) n by (auto simp: word_le_nat_alt word_less_nat_alt max_def)
  have "at_n ?a = of_nat (Suc (length tries))" by (simp flip: 1(4))
  from tries_ok_snoc [OF 1(3) this] have tries: "tries_ok p classify late ?tries" by simp
  note unfolded = 1(2) [unfolded retry_loop.simps [of p what op classify draw late n0 t w tries] Let_def op prod.case]
  show ?case
  proof (cases "classify result")
    case TryOk
    with unfolded tries n le 1(4) show ?thesis by (auto simp: tried_ok_def)
  next
    case (TryFail why)
    with unfolded tries n le 1(4) show ?thesis by (auto simp: tried_ok_def)
  next
    case (TryRetry why after)
    then obtain j where j: "jitter (draw ?n) (backoff p ?n) = Some j"
      using unfolded by (auto split: option.splits)
    let ?delay = "case after of Some a \<Rightarrow> max j a | None \<Rightarrow> j"
    let ?infra = "\<lparr>if_what = what, if_attempts = ?n, if_elapsed = t + took, if_last = why\<rparr>"
    let ?up = "\<lparr>tr_result = result, tr_attempts = ?n, tr_elapsed = t + took, tr_gave_up = Some ?infra, tr_state = w',
        tr_tries = ?tries, tr_lines = [(True, infra_line ?infra)]\<rparr>"
    have up: "tried_ok p classify late ?up" using tries n le 1(4) TryRetry by (simp add: tried_ok_def)
    have step: "(if rp_attempts p \<le> ?n then Some ?up else case dur_add (t + took) ?delay of None \<Rightarrow> None
        | Some due \<Rightarrow> if rp_deadline p \<le> due then Some ?up
            else retry_loop p what op classify draw late ?n (due + late ?n) w' ?tries) = Some r"
      using unfolded by (simp only: TryRetry try_verdict.case j option.case)
    show ?thesis
    proof (cases "rp_attempts p \<le> ?n")
      case True
      with step up show ?thesis by simp
    next
      case False
      then obtain due where due: "dur_add (t + took) ?delay = Some due" using step by (auto split: option.splits)
      show ?thesis
      proof (cases "rp_deadline p \<le> due")
        case True
        with step due False up show ?thesis by simp
      next
        case go: False
        have wait: "t + least_wait p (length tries) after \<le> due"
          using due jitter_bounds [OF j] unfolding 1(4) [symmetric] least_wait_def
          by (cases after) (auto simp: dur_add_def add.commute split: if_splits)
        have "1 + word_of_nat (length tries) = ?n" by (simp flip: 1(4))
        then have "ready p classify late ?tries (due + late ?n)"
          using tries wait go TryRetry by (simp add: ready_def leads_to_def add.commute)
        moreover have "retry_loop p what op classify draw late ?n (due + late ?n) w' ?tries = Some r"
          using step due False go by simp
        ultimately show ?thesis
          using 1(1) False due go TryRetry j op n 1(4) by (simp add: not_le)
      qed
    qed
  qed
qed

lemma tried_ok_with_backoff:
  "with_backoff p what op classify draw late w = Some r \<Longrightarrow> tried_ok p classify late r"
  unfolding with_backoff_def by (erule retry_loop_ok) (simp_all add: ready_def tries_ok_def)

text \<open>
  Where the loop cannot panic: no delay, added to any time the clock can show, passes Rust's bound.
\<close>

definition fits_clock :: "policy \<Rightarrow> (attempt \<Rightarrow> 'w \<Rightarrow> 'r \<times> dur \<times> 'w) \<Rightarrow> ('r \<Rightarrow> try_verdict) \<Rightarrow> (u32 \<Rightarrow> dur) \<Rightarrow> dur \<Rightarrow> dur \<Rightarrow> bool" where
  "fits_clock p op classify late slow far \<longleftrightarrow>
     rp_max_delay p < 2 ^ 64 \<and> rp_deadline p + slow + max (rp_max_delay p) far \<le> dur_max
     \<and> (\<forall>a w n. late n + fst (snd (op a w)) \<le> slow)
     \<and> (\<forall>a w why after. classify (fst (op a w)) = TryRetry why (Some after) \<longrightarrow> after \<le> far)"

lemma backoff_le: "backoff p n \<le> rp_max_delay p"
  by (simp add: backoff_def Let_def)

lemma jitter_Some:
  assumes "d < 2 ^ 64"
  shows "\<exists>j. jitter r d = Some j"
proof -
  have half: "unat (word_of_nat (d div 2) :: u64) = d div 2" using assms
    by (simp add: unsigned_of_nat take_bit_nat_eq_self)
  have "d div 2 < 2 ^ 64 - 1" using assms by (simp add: less_mult_imp_div_less)
  then have "(word_of_nat (d div 2) :: u64) \<noteq> - 1"
    using half unat_minus_one_word [where 'a = 64] by auto
  moreover have "d div 2 + unat (x :: u64) \<le> dur_max" for x
    using assms unsigned_less [of x, where ?'a = nat] by (simp add: dur_max_def NS_def)
  ultimately show ?thesis by (simp add: jitter_def Let_def dur_add_def)
qed

lemma retry_loop_returns:
  assumes "fits_clock p op classify late slow far" "t < rp_deadline p + late n0 \<or> t = 0" 
  shows "\<exists>r. retry_loop p what op classify draw late n0 t w tries = Some r"
  using assms
proof (induction p what op classify draw late n0 t w tries rule: retry_loop.induct)
  case (1 p what op classify draw late n0 t w tries)
  obtain result took w' where op: "op \<lparr>at_n = n0 + 1, at_remaining = rp_deadline p - t\<rparr> w = (result, took, w')" by (metis surj_pair)
  let ?n = "n0 + 1"
  show ?case
  proof (cases "classify result")
    case (TryRetry why after)
    have "backoff p ?n < 2 ^ 64" using backoff_le [of p ?n] 1(2) unfolding fits_clock_def by linarith
    from jitter_Some [OF this] obtain j where j: "jitter (draw ?n) (backoff p ?n) = Some j" by blast
    have far: "b \<le> far" if "after = Some b" for b
      using 1(2) op TryRetry that unfolding fits_clock_def by (metis fst_conv)
    have le: "(case after of Some a \<Rightarrow> max j a | None \<Rightarrow> j) \<le> max (rp_max_delay p) far"
      using jitter_bounds [OF j] backoff_le [of p ?n] far
      by (cases after) (auto simp: max_def split: if_splits)
    have "late n0 + took \<le> slow" using 1(2) op unfolding fits_clock_def by (metis fst_conv snd_conv)
    then have "t + took \<le> rp_deadline p + slow" using 1(3) by auto
    then have add: "dur_add (t + took) (case after of Some a \<Rightarrow> max j a | None \<Rightarrow> j)
        = Some (t + took + (case after of Some a \<Rightarrow> max j a | None \<Rightarrow> j))"
      using le 1(2) unfolding fits_clock_def by (simp add: dur_add_def)
    show ?thesis
    proof (cases "rp_attempts p \<le> ?n \<or> rp_deadline p \<le> t + took + (case after of Some a \<Rightarrow> max j a | None \<Rightarrow> j)")
      case True
      then show ?thesis
        by (subst retry_loop.simps) (auto simp: Let_def op TryRetry j add)
    next
      case False
      then show ?thesis
        using 1(1) 1(2) op TryRetry j add
        by (subst retry_loop.simps) (simp add: Let_def not_le)
    qed
  qed (subst retry_loop.simps, simp add: Let_def op)+
qed

text \<open>
  C24.retry_returns. The helper always comes back: under a policy whose longest delay is a sane number of
  nanoseconds, and as long as no time the clock can show plus a delay passes what a \<open>Duration\<close> holds, it
  returns after at least one and at most \<open>max 1 attempts\<close> tries, whatever the operation answers and
  however it is classified.
\<close>

theorem retry_returns:
  assumes "rp_max_delay p < 2 ^ 64" "rp_deadline p + slow + max (rp_max_delay p) far \<le> dur_max"
    and "\<forall>a w n. late n + fst (snd (op a w)) \<le> slow"
    and "\<forall>a w why after. classify (fst (op a w)) = TryRetry why (Some after) \<longrightarrow> after \<le> far"
  shows "\<exists>r. with_backoff p what op classify draw late w = Some r
    \<and> 1 \<le> tr_attempts r \<and> tr_attempts r \<le> max 1 (rp_attempts p)"
proof -
  have "fits_clock p op classify late slow far" using assms by (simp add: fits_clock_def)
  from retry_loop_returns [OF this, of 0 0] obtain r where r: "with_backoff p what op classify draw late w = Some r"
    unfolding with_backoff_def by blast
  from tried_ok_with_backoff [OF r] have t: "tried_ok p classify late r" .
  then have "0 < unat (tr_attempts r)" unfolding tried_ok_def by (metis length_greater_0_conv)
  then have "1 \<le> tr_attempts r" by (simp add: word_le_nat_alt)
  with r t show ?thesis by (simp add: tried_ok_def)
qed

text \<open>A dependency that is down for \<open>k\<close> tries, then answers; each try takes 20 ms.\<close>

definition flaky :: "nat \<Rightarrow> attempt \<Rightarrow> nat \<Rightarrow> response \<times> dur \<times> nat" where
  "flaky k a c = (Inr (if c < k then 503 else 200, None), ms 20, c + 1)"

lemma retry_returns_witness:
  "\<exists>r. with_backoff ENGINE ''stormblock'' (flaky 9) (\<lambda>r. classify_response r Yes) (\<lambda>_. 7) (\<lambda>_. ms 1) 0 = Some r
     \<and> 1 \<le> tr_attempts r \<and> tr_attempts r \<le> max 1 (rp_attempts ENGINE)"
proof (rule retry_returns [where slow = "ms 21" and far = 0])
  show "rp_max_delay ENGINE < 2 ^ 64" by (simp add: ENGINE_def seconds_def NS_def)
  show "rp_deadline ENGINE + ms 21 + max (rp_max_delay ENGINE) 0 \<le> dur_max"
    by (simp add: ENGINE_def seconds_def ms_def dur_max_def NS_def)
qed (auto simp: flaky_def ms_def classify_response_def classify_status_def retry_after_def split: if_splits)

text \<open>One failure, then an answer: the second try starts after 20 ms, 125000007 ns of delay and 1 ms of lateness.\<close>

lemma flaky_run:
  "\<exists>r. with_backoff ENGINE ''stormblock'' (flaky 1) (\<lambda>r. classify_response r Yes) (\<lambda>_. 7) (\<lambda>_. ms 1) 0 = Some r
     \<and> map fst (tr_tries r) = [0, 146000007] \<and> tr_result r = Inr (200, None)"
proof -
  have j: "jitter 7 (backoff ENGINE 1) = Some 125000007"
    by (simp add: jitter_def backoff_def ENGINE_def dur_saturating_mul_def dur_max_def dur_add_def seconds_def ms_def NS_def
        Let_def sat_sub_def)
  have c: "classify_response (Inr (503, None)) Yes = TryRetry (http_line 503) None"
    "classify_response (Inr (200, None)) Yes = TryOk"
    by (simp_all add: classify_response_def classify_status_def retry_after_def)
  have p: "\<not> rp_attempts ENGINE \<le> 1" "rp_deadline ENGINE = 30000000000"
    by (simp_all add: ENGINE_def seconds_def NS_def word_le_nat_alt)
  show ?thesis
    unfolding with_backoff_def
    by (subst retry_loop.simps, subst retry_loop.simps)
      (simp add: Let_def flaky_def c j p dur_add_def dur_max_def ms_def NS_def)
qed

text \<open>
  C23.retry_discipline. What a run that came back did: tries 1, 2, ... in order, each told what is left of the
  deadline; every try but the last was judged transient, and the next started only after at least half
  of the backoff and any \<open>Retry-After\<close> had passed, and was due before the deadline (it starts later than
  that by the timer's lateness at most); the last try is the result, and the run says that it gave up
  exactly when that result was transient.
\<close>

theorem retry_discipline:
  assumes "with_backoff p what op classify draw late w = Some r"
  shows "tr_tries r \<noteq> [] \<and> length (tr_tries r) = unat (tr_attempts r) \<and> snd (snd (last (tr_tries r))) = tr_result r
    \<and> (tr_gave_up r \<noteq> None \<longleftrightarrow> (\<exists>why after. classify (tr_result r) = TryRetry why after))
    \<and> (\<forall>i < length (tr_tries r). at_n (fst (snd (tr_tries r ! i))) = of_nat (Suc i)
         \<and> at_remaining (fst (snd (tr_tries r ! i))) = rp_deadline p - fst (tr_tries r ! i))
    \<and> (\<forall>i. Suc i < length (tr_tries r) \<longrightarrow>
         (\<exists>why after. classify (snd (snd (tr_tries r ! i))) = TryRetry why after
            \<and> fst (tr_tries r ! i) + max (backoff p (of_nat (Suc i)) div 2) (case after of Some a \<Rightarrow> a | None \<Rightarrow> 0)
                \<le> fst (tr_tries r ! Suc i))
         \<and> fst (tr_tries r ! Suc i) < rp_deadline p + late (of_nat (Suc i)))"
  using tried_ok_with_backoff [OF assms] unfolding tried_ok_def tries_ok_def leads_to_def least_wait_def by simp

lemma retry_discipline_witness:
  "\<exists>r. with_backoff ENGINE ''stormblock'' (flaky 1) (\<lambda>r. classify_response r Yes) (\<lambda>_. 7) (\<lambda>_. ms 1) 0 = Some r
     \<and> length (tr_tries r) = 2 \<and> tr_attempts r = 2 \<and> at_remaining (fst (snd (tr_tries r ! 1))) = 29853999993
     \<and> tr_gave_up r = None"
proof -
  obtain r where r: "with_backoff ENGINE ''stormblock'' (flaky 1) (\<lambda>r. classify_response r Yes) (\<lambda>_. 7) (\<lambda>_. ms 1) 0 = Some r"
    and t: "map fst (tr_tries r) = [0, 146000007]" "tr_result r = Inr (200, None)"
    using flaky_run by (elim exE conjE) (rule that)
  have two: "length (tr_tries r) = 2" using arg_cong [OF t(1), of length] by simp
  note D = retry_discipline [OF r]
  have "unat (tr_attempts r) = unat (2 :: u32)" using D two by simp
  then have "tr_attempts r = 2" by (rule word_unat_eq_iff [THEN iffD2])
  moreover have "fst (tr_tries r ! 1) = 146000007" using arg_cong [OF t(1), of "\<lambda>xs. xs ! 1"] two by simp
  then have "at_remaining (fst (snd (tr_tries r ! 1))) = 29853999993" using D two by (simp add: ENGINE_def seconds_def NS_def)
  moreover have "tr_gave_up r = None" using D by (simp add: t(2) classify_response_def classify_status_def)
  ultimately show ?thesis using r two by blast
qed

text \<open>
  C12.write_not_repeated. A write that must not be repeated is sent again only when it never reached the server
  (the connection failed) or the server refused it unprocessed (429); any other failure ends the run and
  is reported as an answer, not as infrastructure.
\<close>

theorem write_not_repeated:
  assumes "with_backoff p what op (\<lambda>x. classify_response x No) draw late w = Some r"
  shows "(\<forall>i. Suc i < length (tr_tries r) \<longrightarrow>
        (case snd (snd (tr_tries r ! i)) of Inl e \<Rightarrow> re_connect e | Inr (code, _) \<Rightarrow> code = 429))
    \<and> (tr_gave_up r \<noteq> None \<longrightarrow> (case tr_result r of Inl e \<Rightarrow> re_connect e | Inr (code, _) \<Rightarrow> code = 429))"
proof -
  have unsent: "case x of Inl e \<Rightarrow> re_connect e | Inr (code, _) \<Rightarrow> code = 429"
    if "classify_response x No = TryRetry why after" for x why after
    using that by (auto simp: classify_response_def classify_error_def classify_status_def Let_def
        split: sum.splits prod.splits if_splits)
  show ?thesis
    using tried_ok_with_backoff [OF assms] unsent unfolding tried_ok_def tries_ok_def leads_to_def by blast
qed

text \<open>A refused connection, then an answer to the write.\<close>

definition refused :: request_error where
  "refused = \<lparr>re_chain = [(''connection refused'', None)], re_connect = True, re_timeout = False, re_request = True, re_body = False\<rparr>"

definition cut_off :: request_error where
  "cut_off = \<lparr>re_chain = [(''connection reset'', None)], re_connect = False, re_timeout = False, re_request = True, re_body = False\<rparr>"

lemma write_not_repeated_witness:
  "\<exists>r. with_backoff KUBE ''POST'' (\<lambda>_ w. (Inl (if w = 0 then refused else cut_off), ms 5, w + 1 :: nat))
       (\<lambda>x. classify_response x No) (\<lambda>_. 0) (\<lambda>_. 0) 0 = Some r
     \<and> length (tr_tries r) = 2 \<and> tr_gave_up r = None
     \<and> (case snd (snd (tr_tries r ! 0)) of Inl e \<Rightarrow> re_connect e | Inr (code, _) \<Rightarrow> code = 429)"
proof -
  let ?op = "\<lambda>_ w. (Inl (if w = 0 then refused else cut_off), ms 5, w + 1 :: nat)"
  have j: "jitter 0 (backoff KUBE 1) = Some 100000000"
    by (simp add: jitter_def backoff_def KUBE_def dur_saturating_mul_def dur_max_def dur_add_def seconds_def ms_def NS_def
        Let_def sat_sub_def)
  have c: "\<exists>m. classify_response (Inl refused) No = TryRetry m None" "\<exists>m. classify_response (Inl cut_off) No = TryFail m"
    by (simp_all add: classify_response_def classify_error_def refused_def cut_off_def Let_def)
  then obtain m1 m2 where c: "classify_response (Inl refused) No = TryRetry m1 None" "classify_response (Inl cut_off) No = TryFail m2"
    by blast
  have p: "\<not> rp_attempts KUBE \<le> 1" "rp_deadline KUBE = 20000000000"
    by (simp_all add: KUBE_def seconds_def NS_def word_le_nat_alt)
  have "\<exists>r. with_backoff KUBE ''POST'' ?op (\<lambda>x. classify_response x No) (\<lambda>_. 0) (\<lambda>_. 0) 0 = Some r \<and> length (tr_tries r) = 2 \<and> tr_gave_up r = None"
    unfolding with_backoff_def
    by (subst retry_loop.simps, subst retry_loop.simps)
      (simp add: Let_def c j p dur_add_def dur_max_def ms_def NS_def)
  then obtain r where r: "with_backoff KUBE ''POST'' ?op (\<lambda>x. classify_response x No) (\<lambda>_. 0) (\<lambda>_. 0) 0 = Some r"
    "length (tr_tries r) = 2" "tr_gave_up r = None" by blast
  with write_not_repeated [OF r(1)] show ?thesis by (intro exI [of _ r] conjI) auto
qed

section \<open>A Retry-After that is too far\<close>

lemma ws_prefix_ascii:
  assumes "s \<noteq> []" "\<not> ascii_ws (hd s)" "of_char (hd s) < (128 :: nat)"
    and "\<forall>w\<in>set seqs. w \<noteq> [] \<and> (128 :: nat) \<le> of_char (hd w)"
  shows "ws_prefix seqs s = 0"
proof -
  have "\<not> prefix w s" if "w \<in> set seqs" for w
    using assms(1,3,4) that by (cases w; cases s) fastforce+
  then have "find (\<lambda>w. prefix w s) seqs = None" by (simp add: find_None_iff)
  with assms(1,2) show ?thesis by (cases s) (simp_all add: ws_prefix_def)
qed

lemma trim_ascii:
  assumes "s \<noteq> []" "\<not> ascii_ws (hd s)" "of_char (hd s) < (128 :: nat)" "\<not> ascii_ws (last s)" "of_char (last s) < (128 :: nat)"
  shows "trim s = s"
proof -
  have high: "\<forall>w\<in>set ws_sequences. w \<noteq> [] \<and> (128 :: nat) \<le> of_char (hd w) \<and> (128 :: nat) \<le> of_char (last w)"
    by (auto simp: ws_sequences_def)
  then have "\<forall>w\<in>set (map rev ws_sequences). w \<noteq> [] \<and> (128 :: nat) \<le> of_char (hd w)" by (simp add: hd_rev)
  with high assms show ?thesis
    by (simp add: trim_def trim_start_with.simps ws_prefix_ascii hd_rev)
qed

text \<open>
  A delay past what a \<open>Duration\<close> holds is added to the elapsed time before it is compared with the
  deadline, and the addition panics: an answer with the largest \<open>Retry-After\<close>, a second or more after
  the start, takes the calling task down instead of ending the run.
\<close>

lemma huge_retry_after_panics:
  "with_backoff ENGINE what (\<lambda>_ w. (Inr (503, Some ''18446744073709551615''), seconds 1, w)) (\<lambda>x. classify_response x Yes)
     (\<lambda>_. 0) (\<lambda>_. 0) () = None"
proof -
  have j: "jitter 0 (backoff ENGINE 1) = Some 125000000"
    by (simp add: jitter_def backoff_def ENGINE_def dur_saturating_mul_def dur_max_def dur_add_def seconds_def ms_def NS_def
        Let_def sat_sub_def)
  have "undec ''18446744073709551615'' = 18446744073709551615" by (simp add: undec_def)
  moreover have "trim ''18446744073709551615'' = ''18446744073709551615''"
    by (rule trim_ascii) (simp_all add: ascii_ws_def)
  ultimately have "retry_after (Some ''18446744073709551615'') = Some (seconds 18446744073709551615)"
    by (simp add: retry_after_def parse_unsigned_def digits_value_def ascii_digit_def)
  then have c: "classify_response (Inr (503, Some ''18446744073709551615'')) Yes
      = TryRetry (http_line 503) (Some (seconds 18446744073709551615))"
    by (simp add: classify_response_def classify_status_def)
  have p: "\<not> rp_attempts ENGINE \<le> 1" by (simp add: ENGINE_def word_le_nat_alt)
  show ?thesis
    unfolding with_backoff_def
    by (subst retry_loop.simps)
      (simp add: Let_def c j p dur_add_def dur_max_def seconds_def NS_def)
qed

end
