(* ===== verification/Policy.thy ===== *)
theory Policy
  imports Worker
begin

text \<open>
  \<open>src/src/policy.rs\<close>: which of a node's drives a \<open>DrivePolicy\<close> makes slabs of, and by which steps. The
  decision is from the drive's record; the worker's guard then looks at its contents. Reading the object
  (\<open>PolicySpec::parse\<close>) is serde's; \<open>check_policy\<close> is its \<open>validate\<close>.
\<close>

definition TIERS :: "string list" where
  "TIERS = [''hot'', ''warm'', ''cool'', ''cold'']"

text \<open>\<open>ses::normalize_sas\<close>.\<close>

definition normalize_sas :: "string \<Rightarrow> string" where
  "normalize_sas s = map ascii_lower (trim_start_with [''0X''] (trim_start_with [''0x''] (trim s)))"

record drive_selector =
  sl_kinds :: "drive_kind list"
  sl_min_bytes :: "u64 option"
  sl_max_bytes :: "u64 option"
  sl_block_sizes :: "u32 list"
  sl_model :: "string option"
  sl_shelf :: "string option"
  sl_bays :: "string option"

record policy_enroll =
  pe_role :: role
  pe_tier :: string

record policy =
  po_nodes :: "string list"
  po_match_labels :: "(string \<times> string) list option"
  po_drives :: drive_selector
  po_reformat :: "u32 option"
  po_enroll :: policy_enroll
  po_require_data_slab :: bool
  po_suspend :: bool
  po_dry_run :: bool

section \<open>The spec\<close>

definition steps_for :: "policy \<Rightarrow> bool \<Rightarrow> step list" where
  "steps_for p needs =
     (case po_reformat p of Some bs \<Rightarrow> if needs then [Format bs NoPi] else [] | None \<Rightarrow> [])
     @ [Partition (pe_role (po_enroll p)), Enroll (Some (pe_tier (po_enroll p))) (pe_role (po_enroll p))]"

definition selects_nodes :: "policy \<Rightarrow> bool" where
  "selects_nodes p \<longleftrightarrow> list_ex (\<lambda>n. trim n \<noteq> []) (po_nodes p) \<or> is_some_and (\<lambda>ls. ls \<noteq> []) (po_match_labels p)"

definition sizes_cross :: "drive_selector \<Rightarrow> bool" where
  "sizes_cross s = (case (sl_min_bytes s, sl_max_bytes s) of (Some a, Some b) \<Rightarrow> b < a | _ \<Rightarrow> False)"

definition check_bays :: "drive_selector \<Rightarrow> string option" where
  "check_bays s =
     (case sl_bays s of
        None \<Rightarrow> None
      | Some b \<Rightarrow>
          if sl_shelf s = None then Some ''drives.bays needs drives.shelf''
          else case parse_bays b of Inl e \<Rightarrow> Some e | Inr _ \<Rightarrow> None)"

definition check_policy :: "policy \<Rightarrow> string option" where
  "check_policy p =
     first_some
       [guard (\<not> selects_nodes p)
          ''name the nodes: spec.nodes or spec.nodeSelector.matchLabels (a policy for every node is not taken)'',
        guard (pe_tier (po_enroll p) \<notin> set TIERS)
          (''enroll.tier '' @ debug_str (pe_tier (po_enroll p)) @ '': one of hot, warm, cool, cold''),
        (case po_reformat p of
           Some bs \<Rightarrow> guard (\<not> valid_target bs) (''reformat '' @ dec (unat bs) @ '': use 512 or 4096'') | None \<Rightarrow> None),
        (case (sl_min_bytes (po_drives p), sl_max_bytes (po_drives p)) of
           (Some a, Some b) \<Rightarrow> guard (b < a) (''drives.minBytes '' @ dec (unat a) @ '' > maxBytes '' @ dec (unat b))
         | _ \<Rightarrow> None),
        check_bays (po_drives p),
        validate_steps (steps_for p True)]"

text \<open>Does the policy apply to this node? The labels are the node's, when they are known.\<close>

definition selects_node :: "policy \<Rightarrow> string \<Rightarrow> (string \<rightharpoonup> string) option \<Rightarrow> bool" where
  "selects_node p node node_labels =
     (let named = filter (\<lambda>n. n \<noteq> []) (map trim (po_nodes p)) in
      if named \<noteq> [] \<and> \<not> list_ex (\<lambda>n. eq_ignore_ascii_case n (trim node)) named then False
      else case opt_filter (\<lambda>ls. ls \<noteq> []) (po_match_labels p) of
          None \<Rightarrow> named \<noteq> []
        | Some ls \<Rightarrow> is_some_and (\<lambda>l. list_all (\<lambda>(k, v). l k = Some v) ls) node_labels)"

definition on_shelf :: "drive \<Rightarrow> string \<Rightarrow> bool" where
  "on_shelf d want =
     (case lo_shelf (d_location d) of
        None \<Rightarrow> False
      | Some sh \<Rightarrow>
          list_ex (\<lambda>n. is_some_and (\<lambda>n. normalize_sas n = normalize_sas want) n)
            [shelf_key sh, sh_logical_id sh, sh_serial sh, sh_id sh])"

definition selects_drive :: "policy \<Rightarrow> drive \<Rightarrow> bool" where
  "selects_drive p d =
     (let s = po_drives p in
      (sl_kinds s = [] \<or> d_kind d \<in> set (sl_kinds s))
      \<and> \<not> is_some_and (\<lambda>m. d_capacity d < m) (sl_min_bytes s) \<and> \<not> is_some_and (\<lambda>m. m < d_capacity d) (sl_max_bytes s)
      \<and> (sl_block_sizes s = [] \<or> d_block_size d \<in> set (sl_block_sizes s))
      \<and> (case sl_model s of Some m \<Rightarrow> same_model d m | None \<Rightarrow> True)
      \<and> (case sl_shelf s of Some want \<Rightarrow> on_shelf d want | None \<Rightarrow> True)
      \<and> (case sl_bays s of Some b \<Rightarrow> (case parse_bays b of Inr bays \<Rightarrow> bay_in d bays | Inl _ \<Rightarrow> False) | None \<Rightarrow> True))"

definition node_has_data_slab :: "drive list \<Rightarrow> bool" where
  "node_has_data_slab ds = list_ex (\<lambda>d. is_some_and (\<lambda>u. list_ex (\<lambda>s. us_role s = ''data'') (ug_slabs u)) (d_usage d)) ds"

section \<open>The verdict on a drive\<close>

datatype policy_verdict = Pass | Skip string | Run "step list"

definition verdict :: "policy \<Rightarrow> drive \<Rightarrow> bool \<Rightarrow> policy_verdict" where
  "verdict p d in_job =
     (if d_membership d = Fleet \<or> d_activity d = Missing \<or> in_job then Pass
      else if d_designation d \<noteq> NoDesignation then Skip (''designated '' @ designation_word (d_designation d))
      else case d_in_use_by d of
        Some who \<Rightarrow> Skip (''holds data for '' @ who)
      | None \<Rightarrow>
          if d_activity d \<noteq> Idle then Skip (''busy: '' @ activity_word (d_activity d))
          else if Failing \<le> health_of d then Skip (''health is '' @ health_debug (health_of d))
          else if is_some_and throttle_background (d_thermal d) then Skip ''running over its warning temperature''
          else if needs_reformat d \<and> po_reformat p = None
          then Skip (dec (unat (d_block_size d)) @ ''-byte sectors and the policy has no reformat'')
          else if health_of d = health_status.Unknown \<and> \<not> needs_reformat d then Skip ''no health verdict yet''
          else Run (steps_for p (needs_reformat d)))"

fun as_i64 :: "json \<Rightarrow> int option" where
  "as_i64 (JInt i) = (if - (2 ^ 63) \<le> i \<and> i < 2 ^ 63 then Some i else None)"
| "as_i64 _ = None"

text \<open>A drive's last record in the policy's status, when it says not to try again.\<close>

definition retry_blocked :: "json option \<Rightarrow> int option \<Rightarrow> string option" where
  "retry_blocked last_record generation =
     Option.bind last_record (\<lambda>r.
       let st = str_of r ''state'' in
       if st \<notin> {''failed'', ''refused'', ''cancelled''} then None
       else if Option.bind (get ''generation'' r) as_i64 \<noteq> generation then None
       else let why = (case opt_filter (\<lambda>s. s \<noteq> []) (Option.bind (get ''reason'' r) as_str) of Some w \<Rightarrow> w | None \<Rightarrow> st)
            in Some (st @ '' under generation '' @ dec_int (case generation of Some g \<Rightarrow> g | None \<Rightarrow> 0)
                 @ '' ('' @ why @ ''); edit the policy to try again''))"

section \<open>What a policy takes\<close>

lemma verdict_Run:
  "verdict p d in_job = Run steps \<longleftrightarrow>
     d_membership d \<noteq> Fleet \<and> d_activity d = Idle \<and> \<not> in_job \<and> d_designation d = NoDesignation \<and> d_in_use_by d = None
     \<and> \<not> Failing \<le> health_of d \<and> \<not> is_some_and throttle_background (d_thermal d)
     \<and> (needs_reformat d \<longrightarrow> po_reformat p \<noteq> None) \<and> (health_of d = health_status.Unknown \<longrightarrow> needs_reformat d)
     \<and> steps = steps_for p (needs_reformat d)"
  by (auto simp: verdict_def split: option.split)

lemma check_policy_steps: "check_policy p = None \<Longrightarrow> validate_steps (steps_for p True) = None"
  by (simp add: check_policy_def first_some_None_iff)

lemma steps_for_valid:
  assumes "check_policy p = None"
  shows "validate_steps (steps_for p needs) = None"
proof (cases "needs \<and> po_reformat p \<noteq> None")
  case True
  then show ?thesis using check_policy_steps [OF assms] by auto
next
  case False
  then have "steps_for p needs = [Partition (pe_role (po_enroll p)), Enroll (Some (pe_tier (po_enroll p))) (pe_role (po_enroll p))]"
    by (auto simp: steps_for_def split: option.split)
  then show ?thesis by (simp add: validate_steps_def partition_role_def enroll_role_def)
qed

lemma is_format_steps_for: "list_ex is_format (steps_for p needs) \<longleftrightarrow> needs \<and> po_reformat p \<noteq> None"
  by (auto simp: steps_for_def split: option.split)

lemma steps_destroy: "list_ex destroys_data (steps_for p needs)" "\<not> list_all read_only (steps_for p needs)"
  by (auto simp: steps_for_def split: option.split)

text \<open>A drive that must not be partitioned as it is gets its reformat first.\<close>

lemma steps_blocked:
  assumes "cx_stormblock cx" "d_designation d = NoDesignation" "\<not> Failing \<le> health_of d"
    and "needs_reformat d \<longrightarrow> po_reformat p \<noteq> None" "s \<in> set (steps_for p (needs_reformat d))"
  shows "step_blocker d cx (list_ex is_format (steps_for p (needs_reformat d))) s = None"
proof -
  have "unreadable d = needs_reformat d" by (auto simp: unreadable_def needs_reformat_def)
  then show ?thesis
    using assms unfolding is_format_steps_for
    by (auto simp: steps_for_def pi_refusal_def first_some_None_iff split: option.splits if_splits)
qed

text \<open>
  C7.policy_takes_only_free. A policy that was accepted takes a drive only when it is out of the fleet
  and idle, in no job, designated nothing, its record names no holder, and it is not failing and not
  hot. The verdict does not look at mounts or at the slabs a probe found: those are left to the worker's
  guard. The steps are those of a valid job, with a reformat exactly when the kernel cannot use the
  drive's sectors, and with stormblock on and nothing named by the requester the guard lets them pass
  exactly when nothing is found on the drive, nothing of it is mounted and its record's use is \<open>Free\<close>.
\<close>

theorem policy_takes_only_free:
  assumes "check_policy p = None" "verdict p d in_job = Run steps"
  shows "d_membership d = Out \<and> d_activity d = Idle \<and> \<not> in_job \<and> d_designation d = NoDesignation \<and> d_in_use_by d = None
    \<and> health_of d < Failing \<and> \<not> is_some_and throttle_background (d_thermal d)
    \<and> validate_steps steps = None
    \<and> (list_ex is_format steps \<longleftrightarrow> needs_reformat d)
    \<and> (\<forall>cx. cx_stormblock cx \<longrightarrow> \<not> cx_in_use_named cx
          \<longrightarrow> (worker_guard d steps False cx = None
               \<longleftrightarrow> cx_holds cx = None \<and> \<not> cx_mounted cx \<and> iu_use (in_use_of d) = Free))"
proof -
  note R = assms(2) [unfolded verdict_Run]
  have out: "d_membership d = Out" using R by (cases "d_membership d") auto
  have "worker_guard d steps False cx = None \<longleftrightarrow> cx_holds cx = None \<and> \<not> cx_mounted cx \<and> iu_use (in_use_of d) = Free"
    if "cx_stormblock cx" "\<not> cx_in_use_named cx" for cx
    using R that steps_blocked [of cx d p] out steps_destroy
    by (auto simp: worker_guard_None in_use_blocker_None destroy_blocker_None fresh_reason_def)
  with R out steps_for_valid [OF assms(1)] show ?thesis by (auto simp: not_le is_format_steps_for)
qed

definition demo_policy :: policy where
  "demo_policy =
     \<lparr>po_nodes = [], po_match_labels = Some [(''storm.io/tier'', ''warm'')],
      po_drives = \<lparr>sl_kinds = [SasHdd], sl_min_bytes = None, sl_max_bytes = None, sl_block_sizes = [], sl_model = None,
                   sl_shelf = None, sl_bays = None\<rparr>,
      po_reformat = Some 4096, po_enroll = \<lparr>pe_role = Data, pe_tier = ''warm''\<rparr>,
      po_require_data_slab = False, po_suspend = False, po_dry_run = False\<rparr>"

lemma demo_policy_ok: "check_policy demo_policy = None"
proof -
  have "validate_steps [Format 4096 NoPi, Partition Data, Enroll (Some ''warm'') Data] = None" by code_simp
  then show ?thesis
    by (simp add: check_policy_def demo_policy_def selects_nodes_def TIERS_def check_bays_def valid_target_def
        USABLE_BLOCK_SIZES_def steps_for_def first_some_None_iff guard_None_iff)
qed

definition netapp :: drive where
  "netapp = good_drive\<lparr>d_block_size := 520, d_usable := False\<rparr>"

lemma policy_takes_only_free_witness:
  "check_policy demo_policy = None
     \<and> verdict demo_policy netapp False = Run [Format 4096 NoPi, Partition Data, Enroll (Some ''warm'') Data]
     \<and> worker_guard netapp [Format 4096 NoPi, Partition Data, Enroll (Some ''warm'') Data] False blank_context = None"
proof -
  have v: "verdict demo_policy netapp False = Run [Format 4096 NoPi, Partition Data, Enroll (Some ''warm'') Data]"
    by (simp add: verdict_Run netapp_def good_drive_def base_drive_def status_of_def less_eq_health_status_def
        needs_reformat_def USABLE_BLOCK_SIZES_def demo_policy_def steps_for_def)
  moreover have "iu_use (in_use_of netapp) = Free"
    by (simp add: use_Free_iff netapp_def good_drive_def base_drive_def)
  ultimately show ?thesis
    using policy_takes_only_free [OF demo_policy_ok v] demo_policy_ok by (auto simp: blank_context_def)
qed

text \<open>
  A drive whose job failed, was refused or cancelled under a policy is
  not tried again while the policy is the one it was tried under, and is again after any edit of it.
\<close>

theorem retry_needs_new_generation:
  assumes "str_of r ''state'' \<in> {''failed'', ''refused'', ''cancelled''}" "get ''generation'' r = Some (JInt g)"
    "- (2 ^ 63) \<le> g" "g < 2 ^ 63"
  shows "(retry_blocked (Some r) (Some g) \<noteq> None) \<and> (\<forall>g'. g' \<noteq> g \<longrightarrow> retry_blocked (Some r) (Some g') = None)"
  using assms by (auto simp: retry_blocked_def Let_def)

end
