(* ===== verification/Scsi.thy ===== *)
theory Scsi
  imports Pi
begin

text \<open>
  \<open>src/src/scsi.rs\<close>: the CDBs and parameter lists stormdrive sends, the answers it reads, and the sense
  data. The SG_IO ioctl is the kernel's: \<open>sg_outcome\<close> is what \<open>Device::io\<close> makes of the header it fills.
\<close>

section \<open>Sense data\<close>

record field_pointer =
  fp_in_cdb :: bool
  fp_bit :: "u8 option"
  fp_byte :: u16

record sense =
  sn_key :: u8
  sn_asc :: u8
  sn_ascq :: u8
  sn_progress :: "u16 option"
  sn_field :: "field_pointer option"

definition from_sks :: "u8 \<Rightarrow> u8 \<Rightarrow> u8 \<Rightarrow> field_pointer option" where
  "from_sks a b c =
     (if a AND 0x80 \<noteq> 0
      then Some \<lparr>fp_in_cdb = (a AND 0x40 \<noteq> 0), fp_bit = (if a AND 8 \<noteq> 0 then Some (a AND 7) else None), fp_byte = word_of_be [b, c]\<rparr>
      else None)"

definition field_pointer_str :: "field_pointer \<Rightarrow> string" where
  "field_pointer_str f =
     (if fp_in_cdb f then ''cdb'' else ''parameter list'') @ '' byte '' @ dec (unat (fp_byte f))
     @ (case fp_bit f of Some b \<Rightarrow> '' bit '' @ dec (unat b) | None \<Rightarrow> [])"

definition key_name :: "u8 \<Rightarrow> string" where
  "key_name k =
     (if k = 0 then ''no sense'' else if k = 1 then ''recovered error'' else if k = 2 then ''not ready''
      else if k = 3 then ''medium error'' else if k = 4 then ''hardware error'' else if k = 5 then ''illegal request''
      else if k = 6 then ''unit attention'' else if k = 7 then ''data protect'' else if k = 8 then ''blank check''
      else if k = 0xb then ''aborted command'' else if k = 0xd then ''volume overflow'' else if k = 0xe then ''miscompare''
      else ''reserved'')"

definition is_format_in_progress :: "sense \<Rightarrow> bool" where
  "is_format_in_progress s \<longleftrightarrow> sn_key s = 2 \<and> sn_asc s = 4 \<and> sn_ascq s = 4"

definition is_illegal_request :: "sense \<Rightarrow> bool" where "is_illegal_request s \<longleftrightarrow> sn_key s = 5"

definition is_unit_attention :: "sense \<Rightarrow> bool" where "is_unit_attention s \<longleftrightarrow> sn_key s = 6"

definition pct_of :: "u16 \<Rightarrow> u8" where
  "pct_of p = word_of_nat (unat p * 100 div 65536)"

definition progress_pct :: "sense \<Rightarrow> u8 option" where
  "progress_pct s = map_option pct_of (sn_progress s)"

definition sense_str :: "sense \<Rightarrow> string" where
  "sense_str s =
     key_name (sn_key s) @ '' (key 0x'' @ hex_short (sn_key s) @ '', asc/ascq 0x'' @ hex_lower (sn_asc s) @ ''/0x'' @ hex_lower (sn_ascq s)
     @ (case sn_field s of Some p \<Rightarrow> '', field pointer: '' @ field_pointer_str p | None \<Rightarrow> []) @ '')''"

text \<open>The descriptors of descriptor-format sense, from byte \<open>i\<close>: the progress and field pointer they give.\<close>

function sense_descriptors ::
  "bytes \<Rightarrow> u8 \<Rightarrow> nat \<Rightarrow> nat \<Rightarrow> u16 option \<times> field_pointer option \<Rightarrow> u16 option \<times> field_pointer option" where
  "sense_descriptors raw key fin i found =
     (if i + 2 \<le> fin then
        (let dlen = unat (raw ! (i + 1)); at = (\<lambda>k. raw ! (i + k));
             here = raw ! i = 2 \<and> 6 \<le> dlen \<and> i + 2 + dlen \<le> length raw;
             progress = (if here \<and> at 4 AND 0x80 \<noteq> 0 \<and> (key = 0 \<or> key = 2)
                         then Some (word_of_be [at 5, at 6]) else fst found);
             field = (if here \<and> key = 5 then from_sks (at 4) (at 5) (at 6) else snd found)
         in sense_descriptors raw key fin (i + 2 + dlen) (progress, field))
      else found)"
  by pat_completeness auto

termination
  by (relation "measure (\<lambda>(raw, key, fin, i, found). fin - i)") auto

declare sense_descriptors.simps [simp del]

definition parse_fixed :: "bytes \<Rightarrow> sense option" where
  "parse_fixed raw =
     (if length raw < 14 then None
      else (let key = raw ! 2 AND 0x0f in
            Some \<lparr>sn_key = key, sn_asc = raw ! 12, sn_ascq = raw ! 13,
                  sn_progress = (if 18 \<le> length raw \<and> raw ! 15 AND 0x80 \<noteq> 0 \<and> (key = 0 \<or> key = 2)
                                 then Some (word_of_be [raw ! 16, raw ! 17]) else None),
                  sn_field = (if 18 \<le> length raw \<and> key = 5 then from_sks (raw ! 15) (raw ! 16) (raw ! 17) else None)\<rparr>))"

definition parse_descriptor :: "bytes \<Rightarrow> sense option" where
  "parse_descriptor raw =
     (if length raw < 8 then None
      else (let key = raw ! 1 AND 0x0f;
                (progress, field) = sense_descriptors raw key (min (8 + unat (raw ! 7)) (length raw)) 8 (None, None)
            in Some \<lparr>sn_key = key, sn_asc = raw ! 2, sn_ascq = raw ! 3, sn_progress = progress, sn_field = field\<rparr>))"

definition parse_sense :: "bytes \<Rightarrow> sense option" where
  "parse_sense raw =
     (if raw = [] then None
      else (let code = raw ! 0 AND 0x7f in
            if code = 0x70 \<or> code = 0x71 then parse_fixed raw
            else if code = 0x72 \<or> code = 0x73 then parse_descriptor raw
            else None))"

section \<open>Errors and what a command came to\<close>

datatype scsi_error = Io string | SenseError sense | Transport u8 u16 u16 | Short nat | Unsupported string

definition hex16 :: "u16 \<Rightarrow> string" where
  "hex16 w = (let hi = drop_bit 8 w in if hi = 0 then hex_lower (ucast w) else hex_short (ucast hi) @ hex_lower (ucast w))"

fun error_str :: "scsi_error \<Rightarrow> string" where
  "error_str (Io e) = e"
| "error_str (SenseError s) = sense_str s"
| "error_str (Transport st h d) = ''scsi status 0x'' @ hex_lower st @ '', host 0x'' @ hex16 h @ '', driver 0x'' @ hex16 d"
| "error_str (Short n) = ''short response ('' @ dec n @ '' bytes)''"
| "error_str (Unsupported s) = s"

text \<open>What the ioctl leaves in its header: its own error, or the status bytes, the sense and the residual.\<close>

record sg_header =
  sg_status :: u8
  sg_host :: u16
  sg_driver :: u16
  sg_sense :: bytes
  sg_dxfer_len :: nat
  sg_resid :: int

definition transferred :: "sg_header \<Rightarrow> nat \<Rightarrow> nat" where
  "transferred h len = min (nat (int (sg_dxfer_len h) - sg_resid h)) len"

definition transport_error :: "sg_header \<Rightarrow> scsi_error" where
  "transport_error h = Transport (sg_status h) (sg_host h) (sg_driver h)"

definition sg_outcome :: "nat \<Rightarrow> string + sg_header \<Rightarrow> scsi_error + nat" where
  "sg_outcome len answer =
     (case answer of
        Inl e \<Rightarrow> Inl (Io e)
      | Inr h \<Rightarrow>
          if sg_status h = 0 \<and> sg_host h = 0 \<and> sg_driver h AND 0x0f = 0 then Inr (transferred h len)
          else case (if sg_sense h = [] then None else parse_sense (sg_sense h)) of
              Some s \<Rightarrow> (if sn_key s = 1 then Inr (transferred h len) else Inl (SenseError s))
            | None \<Rightarrow> Inl (transport_error h))"

text \<open>The key of a command in the counts of those that did not end GOOD (\<open>record_not_good\<close>).\<close>

definition byte_or0 :: "nat \<Rightarrow> bytes \<Rightarrow> u8" where
  "byte_or0 i cdb = (if i < length cdb then cdb ! i else 0)"

definition not_good_key :: "bytes \<Rightarrow> string \<Rightarrow> string" where
  "not_good_key cdb outcome =
     (let code = byte_or0 0 cdb in
      if code = 0x4D then ''4d/'' @ hex_lower (byte_or0 2 cdb AND 0x3f) @ '' '' @ outcome
      else if code = 0x12 \<and> 1 < length cdb \<and> cdb ! 1 AND 1 \<noteq> 0 then ''12/'' @ hex_lower (byte_or0 2 cdb) @ '' '' @ outcome
      else if code = 0x85 then ''85/'' @ hex_lower (byte_or0 4 cdb) @ '' '' @ outcome
      else hex_lower code @ '' '' @ outcome)"

definition record_not_good ::
  "string \<Rightarrow> bytes \<Rightarrow> string \<Rightarrow> (string \<Rightarrow> string \<Rightarrow> nat) \<Rightarrow> string \<Rightarrow> string \<Rightarrow> nat" where
  "record_not_good path cdb outcome counts =
     (\<lambda>p k. counts p k + (if p = path \<and> k = not_good_key cdb outcome then 1 else 0))"

section \<open>Answers\<close>

record capacity =
  ca_last_lba :: u64
  ca_block_len :: u32
  ca_lbppbe :: u8
  ca_prot_type :: u8

definition capacity_blocks :: "capacity \<Rightarrow> u64" where "capacity_blocks c = ca_last_lba c + 1"

definition capacity_bytes :: "capacity \<Rightarrow> u64" where "capacity_bytes c = capacity_blocks c * ucast (ca_block_len c)"

definition physical_block_len :: "capacity \<Rightarrow> u32" where
  "physical_block_len c = push_bit (min (unat (ca_lbppbe c)) 16) (ca_block_len c)"

definition parse_read_capacity16 :: "bytes \<Rightarrow> scsi_error + capacity" where
  "parse_read_capacity16 raw =
     (if length raw < 16 then Inl (Short (length raw))
      else Inr \<lparr>ca_last_lba = word_of_be (slice 0 8 raw), ca_block_len = word_of_be (slice 8 4 raw),
                ca_lbppbe = raw ! 13 AND 0x0f,
                ca_prot_type = (if raw ! 12 AND 1 \<noteq> 0 then (drop_bit 1 (raw ! 12) AND 7) + 1 else 0)\<rparr>)"

record mode_header =
  mh_medium_type :: u8
  mh_device_specific :: u8
  mh_long_lba :: bool
  mh_descriptor :: "bytes option"

definition parse_mode_sense10 :: "bytes \<Rightarrow> scsi_error + mode_header" where
  "parse_mode_sense10 raw =
     (if length raw < 8 then Inl (Short (length raw))
      else (let n = nat_of_be (slice 6 2 raw) in
            Inr \<lparr>mh_medium_type = raw ! 2, mh_device_specific = raw ! 3, mh_long_lba = (raw ! 4 AND 1 \<noteq> 0),
                 mh_descriptor = (if 0 < n \<and> 8 + n \<le> length raw then Some (slice 8 n raw) else None)\<rparr>))"

definition long_descriptor :: "mode_header \<Rightarrow> bool" where
  "long_descriptor h \<longleftrightarrow> mh_long_lba h \<and> is_some_and (\<lambda>bd. 16 \<le> length bd) (mh_descriptor h)"

text \<open>The MODE SELECT lists: the header, then the drive's own descriptor with no block count and the new length.\<close>

definition new_descriptor :: "mode_header \<Rightarrow> u32 \<Rightarrow> bool \<Rightarrow> bytes" where
  "new_descriptor h len long =
     (let n = (if long then 16 else 8);
          own = (case mh_descriptor h of Some bd \<Rightarrow> bd | None \<Rightarrow> []);
          bd = (if length own = n then own else replicate n 0)
      in if long then put 12 (word_be 4 len) (put 0 (replicate 8 0) bd)
         else put 5 (drop 1 (word_be 4 len)) (put 0 (replicate 4 0) bd))"

definition mode_select10_list :: "mode_header \<Rightarrow> u32 \<Rightarrow> bool \<Rightarrow> bytes" where
  "mode_select10_list h len long =
     (let long = long \<and> long_descriptor h in
      [0, 0, mh_medium_type h, 0, if long then 1 else 0, 0, 0, if long then 16 else 8] @ new_descriptor h len long)"

definition mode_select6_list :: "mode_header \<Rightarrow> u32 \<Rightarrow> bytes" where
  "mode_select6_list h len = [0, mh_medium_type h, 0, 8] @ slice 8 8 (mode_select10_list h len False)"

definition format_unit_param :: "bool \<Rightarrow> bytes" where
  "format_unit_param immed = [0, if immed then 2 else 0, 0, 0]"

definition parse_read_buffer_descriptor :: "bytes \<Rightarrow> (u32 \<times> u32) option" where
  "parse_read_buffer_descriptor raw =
     (if length raw < 4 then None
      else Some (if raw ! 0 = 0 \<or> 24 < raw ! 0 then 0 else push_bit (unat (raw ! 0)) 1, word_of_be (slice 1 3 raw)))"

section \<open>CDBs\<close>

definition cdb_test_unit_ready :: bytes where "cdb_test_unit_ready = [0, 0, 0, 0, 0, 0]"

definition cdb_inquiry :: "u8 option \<Rightarrow> u16 \<Rightarrow> bytes" where
  "cdb_inquiry evpd len = (case evpd of Some page \<Rightarrow> [0x12, 1, page] | None \<Rightarrow> [0x12, 0, 0]) @ word_be 2 len @ [0]"

definition cdb_request_sense :: "u8 \<Rightarrow> bytes" where "cdb_request_sense len = [3, 0, 0, 0, len, 0]"

definition cdb_read16 :: "u64 \<Rightarrow> u32 \<Rightarrow> bytes" where
  "cdb_read16 lba n = [0x88, 0] @ word_be 8 lba @ word_be 4 n @ [0, 0]"

definition cdb_read_capacity16 :: "u32 \<Rightarrow> bytes" where
  "cdb_read_capacity16 len = [0x9e, 0x10, 0, 0, 0, 0, 0, 0, 0, 0] @ word_be 4 len @ [0, 0]"

definition cdb_mode_sense10_llbaa :: "u8 \<Rightarrow> u16 \<Rightarrow> bool \<Rightarrow> bytes" where
  "cdb_mode_sense10_llbaa page len llbaa =
     [0x5a, if llbaa then 0x10 else 0, page AND 0x3f, 0, 0, 0, 0] @ word_be 2 len @ [0]"

definition cdb_mode_sense10 :: "u8 \<Rightarrow> u16 \<Rightarrow> bytes" where
  "cdb_mode_sense10 page len = cdb_mode_sense10_llbaa page len False"

definition cdb_mode_select10 :: "u16 \<Rightarrow> bytes" where
  "cdb_mode_select10 len = [0x55, 0x10, 0, 0, 0, 0, 0] @ word_be 2 len @ [0]"

definition cdb_mode_select6 :: "u8 \<Rightarrow> bytes" where "cdb_mode_select6 len = [0x15, 0x10, 0, 0, len, 0]"

definition cdb_format_unit :: "u8 \<Rightarrow> bytes" where
  "cdb_format_unit pinfo = [4, push_bit 6 (pinfo AND 3) OR 0x10, 0, 0, 0, 0]"

definition cdb_receive_diagnostic :: "u8 \<Rightarrow> u16 \<Rightarrow> bytes" where
  "cdb_receive_diagnostic page len = [0x1c, 1, page] @ word_be 2 len @ [0]"

definition cdb_send_diagnostic :: "u16 \<Rightarrow> bytes" where
  "cdb_send_diagnostic len = [0x1d, 0x10, 0] @ word_be 2 len @ [0]"

definition cdb_write_buffer :: "u8 \<Rightarrow> u32 \<Rightarrow> u32 \<Rightarrow> bytes" where
  "cdb_write_buffer mode off len =
     [0x3b, mode AND 0x1f, 0] @ drop 1 (word_be 4 off) @ drop 1 (word_be 4 len) @ [0]"

definition cdb_read_buffer_descriptor :: bytes where
  "cdb_read_buffer_descriptor = [0x3c, 3, 0, 0, 0, 0, 0, 0, 4, 0]"

section \<open>The two sense formats\<close>

text \<open>SPC's sense data, to state that both formats are read alike.\<close>

definition sks_bytes :: "sense \<Rightarrow> bytes" where
  "sks_bytes s =
     (case sn_progress s of
        Some p \<Rightarrow> 0x80 # word_be 2 p
      | None \<Rightarrow>
          (case sn_field s of
             Some f \<Rightarrow> (0x80 OR (if fp_in_cdb f then 0x40 else 0) OR (case fp_bit f of Some b \<Rightarrow> 8 OR b | None \<Rightarrow> 0)) # word_be 2 (fp_byte f)
           | None \<Rightarrow> [0, 0, 0]))"

definition fixed_sense :: "sense \<Rightarrow> bytes" where
  "fixed_sense s = [0x70, 0, sn_key s, 0, 0, 0, 0, 10, 0, 0, 0, 0, sn_asc s, sn_ascq s, 0] @ sks_bytes s"

definition descriptor_sense :: "sense \<Rightarrow> bytes" where
  "descriptor_sense s = [0x72, sn_key s, sn_asc s, sn_ascq s, 0, 0, 0, 8] @ [2, 6, 0, 0] @ sks_bytes s @ [0]"

definition sense_ok :: "sense \<Rightarrow> bool" where
  "sense_ok s \<longleftrightarrow> sn_key s < 16 \<and> (sn_progress s \<noteq> None \<longrightarrow> sn_key s \<in> {0, 2})
     \<and> (sn_field s \<noteq> None \<longrightarrow> sn_key s = 5) \<and> (\<forall>f b. sn_field s = Some f \<longrightarrow> fp_bit f = Some b \<longrightarrow> b < 8)"

lemma key_mask: "(k :: u8) < 16 \<Longrightarrow> k AND 0x0f = k"
proof -
  assume "k < 16"
  then have "take_bit 4 k = k" by (simp add: word_unat_eq_iff unsigned_take_bit_eq take_bit_nat_eq_self word_less_nat_alt)
  then show ?thesis by (simp add: take_bit_eq_mask mask_eq_exp_minus_1)
qed

lemma bit_mask: "(b :: u8) < 8 \<Longrightarrow> b AND 7 = b"
proof -
  assume "b < 8"
  then have "take_bit 3 b = b" by (simp add: word_unat_eq_iff unsigned_take_bit_eq take_bit_nat_eq_self word_less_nat_alt)
  then show ?thesis by (simp add: take_bit_eq_mask mask_eq_exp_minus_1)
qed


lemma word_be2:
  obtains x y where "word_be 2 (w :: u16) = [x, y]" "word_of_be [x, y] = w"
proof -
  obtain x y where "word_be 2 w = [x, y]"
    using length_word_be [of 2 w] by (cases "word_be 2 w"; cases "tl (word_be 2 w)") auto
  moreover have "word_of_be (word_be 2 w) = w" by (rule word_of_be_word_be) simp
  ultimately show thesis by (intro that) simp_all
qed

lemma below8: "(b :: u8) < 8 \<Longrightarrow> b = 0 \<or> b = 1 \<or> b = 2 \<or> b = 3 \<or> b = 4 \<or> b = 5 \<or> b = 6 \<or> b = 7"
proof -
  assume "b < 8"
  then have "unat b < 8" by (simp add: word_less_nat_alt)
  then have "unat b = 0 \<or> unat b = 1 \<or> unat b = 2 \<or> unat b = 3 \<or> unat b = 4 \<or> unat b = 5 \<or> unat b = 6 \<or> unat b = 7" by arith
  then show ?thesis by (elim disjE) (simp_all add: word_unat_eq_iff)
qed

lemma from_sks_encode:
  assumes "\<forall>b. fp_bit f = Some b \<longrightarrow> b < 8" "word_of_be [x, y] = fp_byte f"
  shows "from_sks (0x80 OR (if fp_in_cdb f then 0x40 else 0) OR (case fp_bit f of Some b \<Rightarrow> 8 OR b | None \<Rightarrow> 0)) x y = Some f"
proof (cases "fp_bit f")
  case None
  then show ?thesis using assms(2) by (cases f) (simp add: from_sks_def)
next
  case (Some b)
  with assms(1) have "b < 8" by simp
  then show ?thesis using Some assms(2) by (cases f; elim disjE [OF below8]) (auto simp: from_sks_def)
qed

lemma sks_read:
  assumes "sense_ok s"
  shows "\<exists>a x y. sks_bytes s = [a, x, y]
    \<and> (if a AND 0x80 \<noteq> 0 \<and> (sn_key s = 0 \<or> sn_key s = 2) then Some (word_of_be [x, y]) else None) = sn_progress s
    \<and> (if sn_key s = 5 then from_sks a x y else None) = sn_field s"
proof (cases "sn_progress s")
  case (Some p)
  obtain x y where "word_be 2 p = [x, y]" "word_of_be [x, y] = p" by (rule word_be2)
  with Some assms show ?thesis by (intro exI [of _ "0x80"] exI [of _ x] exI [of _ y]) (auto simp: sks_bytes_def sense_ok_def)
next
  case None
  show ?thesis
  proof (cases "sn_field s")
    case None
    with \<open>sn_progress s = None\<close> assms show ?thesis
      by (intro exI [of _ 0]) (auto simp: sks_bytes_def sense_ok_def from_sks_def)
  next
    case (Some f)
    obtain x y where xy: "word_be 2 (fp_byte f) = [x, y]" "word_of_be [x, y] = fp_byte f" by (rule word_be2)
    let ?a = "0x80 OR (if fp_in_cdb f then 0x40 else 0) OR (case fp_bit f of Some b \<Rightarrow> 8 OR b | None \<Rightarrow> 0) :: u8"
    have "sn_key s = 5" "\<forall>b. fp_bit f = Some b \<longrightarrow> b < 8" using Some assms by (auto simp: sense_ok_def)
    moreover from from_sks_encode [OF this(2) xy(2)] have "from_sks ?a x y = Some f" .
    ultimately show ?thesis
      using Some xy \<open>sn_progress s = None\<close>
      by (intro exI [of _ ?a] exI [of _ x] exI [of _ y]) (simp add: sks_bytes_def)
  qed
qed

lemma parse_fixed_sense:
  assumes "sense_ok s"
  shows "parse_sense (fixed_sense s) = Some s"
proof -
  obtain a x y where "sks_bytes s = [a, x, y]"
    "(if a AND 0x80 \<noteq> 0 \<and> (sn_key s = 0 \<or> sn_key s = 2) then Some (word_of_be [x, y]) else None) = sn_progress s"
    "(if sn_key s = 5 then from_sks a x y else None) = sn_field s" using sks_read [OF assms] by blast
  note sks = this
  have key: "sn_key s AND 0x0f = sn_key s" using assms by (simp add: sense_ok_def key_mask)
  have "parse_sense (fixed_sense s) = Some \<lparr>sn_key = sn_key s, sn_asc = sn_asc s, sn_ascq = sn_ascq s,
      sn_progress = (if a AND 0x80 \<noteq> 0 \<and> (sn_key s = 0 \<or> sn_key s = 2) then Some (word_of_be [x, y]) else None),
      sn_field = (if sn_key s = 5 then from_sks a x y else None)\<rparr>"
    by (simp add: parse_sense_def parse_fixed_def fixed_sense_def sks(1) key Let_def)
  then show ?thesis unfolding sks(2,3) by simp
qed

lemma parse_descriptor_sense:
  assumes "sense_ok s"
  shows "parse_sense (descriptor_sense s) = Some s"
proof -
  obtain a x y where sks: "sks_bytes s = [a, x, y]"
    "(if a AND 0x80 \<noteq> 0 \<and> (sn_key s = 0 \<or> sn_key s = 2) then Some (word_of_be [x, y]) else None) = sn_progress s"
    "(if sn_key s = 5 then from_sks a x y else None) = sn_field s" using sks_read [OF assms] by blast
  let ?raw = "descriptor_sense s"
  have raw: "?raw = [0x72, sn_key s, sn_asc s, sn_ascq s, 0, 0, 0, 8, 2, 6, 0, 0, a, x, y, 0]"
    by (simp add: descriptor_sense_def sks)
  have "sense_descriptors ?raw (sn_key s) 16 16 found = found" for found
    by (simp add: sense_descriptors.simps)
  then have "sense_descriptors ?raw (sn_key s) 16 8 (None, None) = (sn_progress s, sn_field s)"
    using sks by (subst sense_descriptors.simps) (auto simp: raw Let_def split: if_splits)
  moreover have "sn_key s AND 0x0f = sn_key s" using assms by (simp add: sense_ok_def key_mask)
  moreover have "length ?raw = 16" "?raw \<noteq> []" "?raw ! 0 = 0x72" "?raw ! 1 = sn_key s" "?raw ! 2 = sn_asc s" "?raw ! 3 = sn_ascq s"
    "?raw ! 7 = 8" by (simp_all add: raw)
  ultimately show ?thesis by (simp add: parse_sense_def parse_descriptor_def)
qed

text \<open>
  C40.sense_formats_agree. Sense data is read back whole from either of SPC's formats, fixed or descriptor:
  the key, the codes, a progress indication and the field an ILLEGAL REQUEST points at.
\<close>

theorem sense_formats_agree:
  assumes "sense_ok s"
  shows "parse_sense (fixed_sense s) = Some s \<and> parse_sense (descriptor_sense s) = Some s"
  using parse_fixed_sense [OF assms] parse_descriptor_sense [OF assms] by simp

definition formatting_sense :: sense where
  "formatting_sense = \<lparr>sn_key = 2, sn_asc = 4, sn_ascq = 4, sn_progress = Some 0x8000, sn_field = None\<rparr>"

lemma sense_formats_agree_witness:
  "parse_sense (fixed_sense formatting_sense) = parse_sense (descriptor_sense formatting_sense) \<and> is_format_in_progress formatting_sense
     \<and> progress_pct formatting_sense = Some 50"
proof -
  have "sense_ok formatting_sense" by (simp add: sense_ok_def formatting_sense_def)
  from sense_formats_agree [OF this] show ?thesis
    by (simp add: is_format_in_progress_def formatting_sense_def progress_pct_def pct_of_def)
qed

section \<open>Setting the block length\<close>

lemma word_be4:
  obtains a b c d where "word_be 4 (w :: u32) = [a, b, c, d]" "word_of_be [a, b, c, d] = w"
proof -
  obtain a b c d where "word_be 4 w = [a, b, c, d]"
    using length_word_be [of 4 w]
    by (cases "word_be 4 w"; cases "tl (word_be 4 w)"; cases "tl (tl (word_be 4 w))"; cases "tl (tl (tl (word_be 4 w)))") auto
  moreover have "word_of_be (word_be 4 w) = w" by (rule word_of_be_word_be) simp
  ultimately show thesis by (intro that) simp_all
qed

lemma drop_word_be4:
  assumes "len < 2 ^ 24"
  shows "word_of_be (0 # drop 1 (word_be 4 (len :: u32))) = len"
proof -
  obtain a b c d where w: "word_be 4 len = [a, b, c, d]" "word_of_be [a, b, c, d] = len" by (rule word_be4)
  have "unat (word_of_be [a, b, c, d] :: u32) = nat_of_be [a, b, c, d]" by (rule unat_word_of_be) simp
  then have "unat a * 2 ^ 24 \<le> unat len" using w(2) by (simp add: nat_of_be_def)
  moreover have "unat len < 2 ^ 24" using assms by (simp add: word_less_nat_alt)
  ultimately have "unat a = 0" by simp
  then have "a = 0" by (simp add: unat_eq_0)
  with w show ?thesis by simp
qed

lemma length_new_descriptor: "length (new_descriptor h len long) = (if long then 16 else 8)"
  by (simp add: new_descriptor_def Let_def length_put)

lemma new_descriptor_length:
  assumes "long \<or> len < 2 ^ 24"
  shows "descriptor_block_length (new_descriptor h len long) long = Some len"
proof (cases long)
  case True
  then have "slice 12 4 (new_descriptor h len long) = word_be 4 len"
    by (simp add: new_descriptor_def Let_def length_put slice_put_same)
  then show ?thesis using True by (simp add: descriptor_block_length_def length_new_descriptor word_of_be_word_be)
next
  case False
  then have "slice 5 3 (new_descriptor h len long) = drop 1 (word_be 4 len)"
    by (simp add: new_descriptor_def Let_def length_put slice_put_same)
  then show ?thesis
    using False assms drop_word_be4 [of len] by (simp add: descriptor_block_length_def length_new_descriptor)
qed

lemma new_descriptor_count:
  "slice 0 (if long then 8 else 4) (new_descriptor h len long) = replicate (if long then 8 else 4) 0"
  by (simp add: new_descriptor_def Let_def length_put slice_put_before slice_put_same)

lemma parse_mode_list:
  "parse_mode_sense10 (mode_select10_list h len wanted)
     = Inr \<lparr>mh_medium_type = mh_medium_type h, mh_device_specific = 0, mh_long_lba = (wanted \<and> long_descriptor h),
            mh_descriptor = Some (new_descriptor h len (wanted \<and> long_descriptor h))\<rparr>"
proof -
  let ?long = "wanted \<and> long_descriptor h"
  let ?hd = "[0, 0, mh_medium_type h, 0, if ?long then 1 else 0, 0, 0, if ?long then 16 else 8] :: bytes"
  have l: "mode_select10_list h len wanted = ?hd @ new_descriptor h len ?long"
    unfolding mode_select10_list_def Let_def by simp
  have "nat_of_be (slice 6 2 (?hd @ bd)) = (if ?long then 16 else 8)" for bd
    by (simp add: slice_def nat_of_be_def)
  moreover have "slice 8 n (?hd @ bd) = take n bd" for n bd by (simp add: slice_def)
  ultimately show ?thesis
    unfolding l parse_mode_sense10_def by (simp add: length_new_descriptor Let_def)
qed

lemma mode_list6: "mode_select6_list h len = [0, mh_medium_type h, 0, 8] @ new_descriptor h len False"
  by (simp add: mode_select6_list_def mode_select10_list_def slice_def length_new_descriptor)

text \<open>
  C43.mode_list_sets_length. The MODE SELECT(10) list, read as the drive reads it, keeps the medium type,
  clears the device-specific byte and the block count (all the blocks there are), and sets the length
  asked for, in the drive's own descriptor: a long one only when the drive gave one. The six-byte list
  carries the same short descriptor.
\<close>

theorem mode_list_sets_length:
  assumes "wanted \<and> long_descriptor h \<or> len < 2 ^ 24"
  shows "parse_mode_sense10 (mode_select10_list h len wanted)
      = Inr \<lparr>mh_medium_type = mh_medium_type h, mh_device_specific = 0, mh_long_lba = (wanted \<and> long_descriptor h),
             mh_descriptor = Some (new_descriptor h len (wanted \<and> long_descriptor h))\<rparr>
    \<and> descriptor_block_length (new_descriptor h len (wanted \<and> long_descriptor h)) (wanted \<and> long_descriptor h) = Some len
    \<and> (let n = (if wanted \<and> long_descriptor h then 8 else 4)
       in slice 0 n (new_descriptor h len (wanted \<and> long_descriptor h)) = replicate n 0)
    \<and> mode_select6_list h len = [0, mh_medium_type h, 0, 8] @ new_descriptor h len False"
  using parse_mode_list [of h len wanted] mode_list6 [of h len] new_descriptor_length [of "wanted \<and> long_descriptor h" len h]
    new_descriptor_count [of "wanted \<and> long_descriptor h" h len] assms by (simp add: Let_def)

lemma mode_list_sets_length_witness:
  "let h = \<lparr>mh_medium_type = 0, mh_device_specific = 0x10, mh_long_lba = False, mh_descriptor = Some [0xFF, 0xFF, 0xFF, 0xFF, 0, 0, 2, 8]\<rparr>
   in descriptor_block_length [0, 0, 0, 0, 0, 0, 2, 8] False = Some 520 \<and> new_descriptor h 4096 False = [0, 0, 0, 0, 0, 0, 0x10, 0]
     \<and> descriptor_block_length (new_descriptor h 4096 False) False = Some 4096"
proof -
  let ?h = "\<lparr>mh_medium_type = 0, mh_device_specific = 0x10, mh_long_lba = False, mh_descriptor = Some [0xFF, 0xFF, 0xFF, 0xFF, 0, 0, 2, 8]\<rparr>"
  have "False \<and> long_descriptor ?h \<or> (4096 :: u32) < 2 ^ 24" by (simp add: word_less_nat_alt)
  from mode_list_sets_length [OF this]
  have "descriptor_block_length (new_descriptor ?h 4096 False) False = Some 4096" by simp
  moreover have "descriptor_block_length [0, 0, 0, 0, 0, 0, 2, 8] False = Some 520"
    by (simp add: descriptor_block_length_def slice_def word_of_be_def nat_of_be_def)
  moreover have "new_descriptor ?h 4096 False = [0, 0, 0, 0, 0, 0, 0x10, 0]" by code_simp
  ultimately show ?thesis by (simp add: Let_def)
qed

end
