(* ===== verification/Formats.thy ===== *)
theory Formats
  imports Scsi Guards
begin

text \<open>
  \<open>src/src/format.rs\<close>: a sector-size format from the MODE SELECT to the geometry read back, its progress,
  the hold after a controller reset, the drive's record of it, and the watch after a restart. The drive
  answers as it likes: it is a function of the commands it has had. Re-reading the size into the
  kernel (sysfs writes) and the tasks around a run are not modelled.
\<close>

section \<open>Runs\<close>

datatype format_state = FormatRunning | FormatDone | FormatFailed

record format_run =
  fo_drive :: drive_id
  fo_name :: string
  fo_from :: u32
  fo_to :: u32
  fo_state :: format_state
  fo_phase :: string
  fo_progress_pct :: "u8 option"
  fo_progress_at :: "time option"
  fo_eta :: "u64 option"
  fo_refused :: "string list"
  fo_alternatives :: "choice list"
  fo_block_size_after :: "u32 option"
  fo_started :: time
  fo_finished :: "time option"
  fo_error :: "string option"
  fo_immediate :: bool
  fo_protection :: protection
  fo_prot_type_after :: "u8 option"
  fo_resets :: "string list"

definition reset_seen :: "string \<Rightarrow> u64 option \<Rightarrow> u64 option \<Rightarrow> string option" where
  "reset_seen host before now =
     (case (before, now) of
        (Some b, Some n) \<Rightarrow>
          (if b < n then Some (host @ '': IOC reset count '' @ dec (unat b) @ '' '' @ utf8_arrow @ '' '' @ dec (unat n)) else None)
      | _ \<Rightarrow> None)"

definition eta_secs :: "u64 \<Rightarrow> u16 \<Rightarrow> u64 option" where
  "eta_secs elapsed p = (if 66 \<le> p then Some (elapsed * (65536 - ucast p) div ucast p) else None)"

definition set_progress :: "time \<Rightarrow> u16 option \<Rightarrow> format_run \<Rightarrow> format_run" where
  "set_progress now progress r =
     (case progress of
        None \<Rightarrow> r
      | Some p \<Rightarrow> r\<lparr>fo_progress_pct := Some (pct_of p), fo_progress_at := Some now,
                     fo_eta := eta_secs (word_of_nat (now - fo_started r)) p\<rparr>)"

definition set_finished_progress :: "time \<Rightarrow> format_run \<Rightarrow> format_run" where
  "set_finished_progress now r = r\<lparr>fo_progress_pct := Some 100, fo_progress_at := Some now, fo_eta := Some 0\<rparr>"

section \<open>Progress\<close>

text \<open>An error, still going with what progress it said, or done.\<close>

definition raw_progress :: "scsi_error option \<Rightarrow> string + u16 option option" where
  "raw_progress answer =
     (case answer of
        None \<Rightarrow> Inr None
      | Some (SenseError s) \<Rightarrow>
          if is_format_in_progress s then Inr (Some (sn_progress s))
          else if sn_key s = 2 \<and> sn_asc s = 4 \<and> (sn_ascq s = 1 \<or> sn_ascq s = 0) then Inr (Some None)
          else if is_unit_attention s then Inr (Some None)
          else if sn_asc s = 0x31 then Inl (''format failed: '' @ sense_str s)
          else Inl (sense_str s)
      | Some e \<Rightarrow> Inl (error_str e))"

definition interpret_tur :: "scsi_error option \<Rightarrow> string + u8 option option" where
  "interpret_tur answer =
     (case raw_progress answer of Inl e \<Rightarrow> Inl e | Inr r \<Rightarrow> Inr (map_option (map_option pct_of) r))"

definition poll_format :: "scsi_error + bytes \<Rightarrow> scsi_error option \<Rightarrow> string + u16 option option" where
  "poll_format request_sense tur =
     (case (case request_sense of Inr raw \<Rightarrow> parse_sense raw | Inl _ \<Rightarrow> None) of
        Some s \<Rightarrow> (if (is_format_in_progress s \<and> sn_progress s \<noteq> None) \<or> sn_asc s = 0x31 then raw_progress (Some (SenseError s))
                  else raw_progress tur)
      | None \<Rightarrow> raw_progress tur)"

section \<open>Starting a format\<close>

datatype unit_cmd = ModeSense u8 | ModeSelect10 bytes | ModeSelect6 bytes | FormatUnit bool u8

text \<open>The commands sent with their outcomes, and the drive: what it answers after those it has had.\<close>

type_synonym unit_log = "(unit_cmd \<times> scsi_error option) list"

record unit_dev =
  un_sense :: "unit_log \<Rightarrow> u8 \<Rightarrow> scsi_error + mode_header"
  un_answer :: "unit_log \<Rightarrow> unit_cmd \<Rightarrow> scsi_error option"

definition send :: "unit_dev \<Rightarrow> unit_cmd \<Rightarrow> unit_log \<Rightarrow> scsi_error option \<times> unit_log" where
  "send dev c lg = (let a = un_answer dev lg c in (a, lg @ [(c, a)]))"

datatype attempt = Started bool | Refused string | FailedStart string

definition illegal :: "scsi_error \<Rightarrow> bool" where
  "illegal e = (case e of SenseError s \<Rightarrow> is_illegal_request s | _ \<Rightarrow> False)"

definition refused_or_failed :: "scsi_error \<Rightarrow> string \<Rightarrow> attempt" where
  "refused_or_failed e why = (if illegal e then Refused why else FailedStart why)"

fun try_selects :: "unit_dev \<Rightarrow> (string \<times> unit_cmd) list \<Rightarrow> string list \<Rightarrow> bool \<Rightarrow> unit_log \<Rightarrow> attempt option \<times> unit_log" where
  "try_selects dev [] errs refused lg =
     (let why = ''mode select rejected: '' @ join ''; '' errs in (Some (if refused then Refused why else FailedStart why), lg))"
| "try_selects dev ((what, c) # cs) errs refused lg =
     (case send dev c lg of
        (None, lg') \<Rightarrow> (None, lg')
      | (Some e, lg') \<Rightarrow> try_selects dev cs (errs @ [''('' @ what @ '') '' @ error_str e]) (refused \<or> illegal e) lg')"

definition zero_header :: mode_header where
  "zero_header = \<lparr>mh_medium_type = 0, mh_device_specific = 0, mh_long_lba = False, mh_descriptor = None\<rparr>"

definition select_lists :: "mode_header \<Rightarrow> u32 \<Rightarrow> (string \<times> unit_cmd) list" where
  "select_lists h to =
     (if long_descriptor h then [(''10, long'', ModeSelect10 (mode_select10_list h to True))] else [])
     @ [(''10'', ModeSelect10 (mode_select10_list h to False)), (''6'', ModeSelect6 (mode_select6_list h to))]"

definition set_length :: "unit_dev \<Rightarrow> u32 \<Rightarrow> unit_log \<Rightarrow> attempt option \<times> unit_log" where
  "set_length dev to lg =
     (let a = un_sense dev lg 1;
          h = (case a of Inr h \<Rightarrow> h | Inl _ \<Rightarrow> zero_header);
          lg1 = lg @ [(ModeSense 1, case a of Inl e \<Rightarrow> Some e | Inr _ \<Rightarrow> None)]
      in try_selects dev (select_lists h to) [] False lg1)"

definition format_again :: "unit_dev \<Rightarrow> unit_log \<Rightarrow> attempt \<times> unit_log" where
  "format_again dev lg =
     (case send dev (FormatUnit False 0) lg of
        (None, lg') \<Rightarrow> (Started False, lg')
      | (Some e, lg') \<Rightarrow> (refused_or_failed e (''format unit: '' @ error_str e), lg'))"

definition begin_format :: "unit_dev \<Rightarrow> u32 \<Rightarrow> protection \<Rightarrow> unit_log \<Rightarrow> attempt \<times> unit_log" where
  "begin_format dev to prot lg =
     (case set_length dev to lg of
        (Some a, lg1) \<Rightarrow> (a, lg1)
      | (None, lg1) \<Rightarrow>
          (case send dev (FormatUnit True (fmtpinfo prot)) lg1 of
             (None, lg2) \<Rightarrow> (Started True, lg2)
           | (Some e, lg2) \<Rightarrow>
               if illegal e \<and> prot \<noteq> NoPi then
                 (Refused (''format unit with '' @ prot_word prot @ '': refused ('' @ error_str e @ '')''), lg2)
               else if illegal e then format_again dev lg2
               else (FailedStart (''format unit: '' @ error_str e), lg2)))"

definition refused_line :: "u32 \<Rightarrow> protection \<Rightarrow> string \<Rightarrow> string" where
  "refused_line to prot why = dec (unat to) @ '' with '' @ prot_word prot @ '': '' @ why"

definition start_exact :: "unit_dev \<Rightarrow> u32 \<Rightarrow> u32 \<Rightarrow> protection \<Rightarrow> unit_log \<Rightarrow> (attempt + bool) \<times> unit_log" where
  "start_exact dev current to prot lg =
     (case begin_format dev to prot lg of
        (Started i, lg1) \<Rightarrow> (Inr i, lg1)
      | (Refused why, lg1) \<Rightarrow> (Inl (Refused (refused_line to prot why)), snd (set_length dev current lg1))
      | (FailedStart e, lg1) \<Rightarrow> (Inl (FailedStart e), lg1))"

definition refused_error :: "string \<Rightarrow> choice list \<Rightarrow> string" where
  "refused_error line alts =
     ''the drive refused '' @ line @ ''; nothing was formatted''
     @ (if alts = [] then []
        else ''. It may take instead: ''
               @ join '', '' (map (\<lambda>c. dec (unat (ch_block_size c)) @ '' with '' @ prot_word (ch_protection c)) alts)
               @ '' (format again choosing one)'')"

section \<open>A run\<close>

text \<open>
  One poll of a format that runs on: the seconds since the first, the clock, the host's reset count (\<open>None\<close>
  where the driver has none), and the drive's two answers. A loop over polls that have not ended it yet is
  \<open>None\<close>. The hold set by a reset, once set, is for good.
\<close>

record poll =
  pl_elapsed :: nat
  pl_now :: time
  pl_resets :: "u64 option"
  pl_sense :: "scsi_error + bytes"
  pl_tur :: "scsi_error option"

definition MAX_WAIT :: nat where "MAX_WAIT = 48 * 60 * 60"

definition POLL :: nat where "POLL = 30"

definition note_reset :: "string \<Rightarrow> string \<Rightarrow> u64 option \<Rightarrow> poll \<Rightarrow> format_run \<times> string option \<Rightarrow> format_run \<times> string option" where
  "note_reset name host seen p st =
     (case reset_seen host seen (pl_resets p) of
        None \<Rightarrow> st
      | Some line \<Rightarrow> ((fst st)\<lparr>fo_resets := fo_resets (fst st) @ [line]\<rparr>, Some (line @ '' during '' @ name @ [CHR 0x27] @ ''s format'')))"

definition seen_after :: "string \<Rightarrow> u64 option \<Rightarrow> poll \<Rightarrow> u64 option" where
  "seen_after host seen p = (if reset_seen host seen (pl_resets p) \<noteq> None then pl_resets p else seen)"

fun poll_loop ::
  "string \<Rightarrow> string \<Rightarrow> u64 option \<Rightarrow> poll list \<Rightarrow> format_run \<times> string option \<Rightarrow> ((string + unit) \<times> format_run \<times> string option) option" where
  "poll_loop name host seen [] st = None"
| "poll_loop name host seen (p # ps) st =
     (let st1 = note_reset name host seen p st in
      case poll_format (pl_sense p) (pl_tur p) of
        Inl e \<Rightarrow> Some (Inl e, st1)
      | Inr None \<Rightarrow> Some (Inr (), st1)
      | Inr (Some progress) \<Rightarrow>
          (let st2 = (set_progress (pl_now p) progress (fst st1), snd st1) in
           if MAX_WAIT < pl_elapsed p then Some (Inl ''format did not finish within 48 h'', st2)
           else poll_loop name host (seen_after host seen p) ps st2))"

definition set_phase :: "string \<Rightarrow> format_run \<Rightarrow> format_run" where "set_phase ph r = r\<lparr>fo_phase := ph\<rparr>"

definition verify_prot_error :: "protection \<Rightarrow> u8 \<Rightarrow> string" where
  "verify_prot_error prot got =
     ''drive reports '' @ (if got = 0 then ''no PI'' else ''PI type '' @ dec (unat got)) @ '' after formatting with '' @ prot_word prot"

text \<open>The geometry read back, after the rescan: it must be what was asked for.\<close>

definition verify :: "(string \<Rightarrow> string) \<Rightarrow> u32 \<Rightarrow> protection \<Rightarrow> scsi_error + capacity \<Rightarrow> format_run \<Rightarrow> (string + u32) \<times> format_run" where
  "verify wrong_length to prot after r =
     (case after of
        Inl e \<Rightarrow> (Inl (''read capacity after format: '' @ error_str e), r)
      | Inr c \<Rightarrow>
          (let r1 = r\<lparr>fo_prot_type_after := Some (ca_prot_type c), fo_block_size_after := Some (ca_block_len c)\<rparr> in
           if ca_block_len c \<noteq> to then (Inl (wrong_length (dec (unat (ca_block_len c)))), r1)
           else if ca_prot_type c \<noteq> prot_type prot then (Inl (verify_prot_error prot (ca_prot_type c)), r1)
           else (Inr (ca_block_len c), r1)))"

text \<open>What the run meets: the drive opened or not, what it says it is, its answers, the polls and the capacity after.\<close>

record run_env =
  re_open :: "string option"
  re_before :: "scsi_error + capacity"
  re_dev :: unit_dev
  re_resets0 :: "u64 option"
  re_host :: "string option"
  re_polls :: "poll list"
  re_end :: time
  re_after :: "scsi_error + capacity"

definition wait_done ::
  "run_env \<Rightarrow> string \<Rightarrow> bool \<Rightarrow> format_run \<times> string option \<Rightarrow> ((string + unit) \<times> format_run \<times> string option) option" where
  "wait_done env name immediate st =
     (if immediate then poll_loop name (case re_host env of Some h \<Rightarrow> h | None \<Rightarrow> ''?'') (re_resets0 env) (re_polls env)
                          (set_phase ''formatting'' (fst st), snd st)
      else Some (Inr (), st))"

definition after_format ::
  "run_env \<Rightarrow> u32 \<Rightarrow> protection \<Rightarrow> (string + unit) \<times> format_run \<times> string option \<Rightarrow> (string + u32) \<times> format_run \<times> string option" where
  "after_format env to prot res =
     (case res of
        (Inl e, r, hold) \<Rightarrow> (Inl e, r, hold)
      | (Inr _, r, hold) \<Rightarrow>
          (let (v, r1) = verify (\<lambda>n. ''drive reports '' @ n @ ''-byte blocks after formatting to '' @ dec (unat to)) to prot (re_after env)
                 (set_phase ''verify'' (set_phase ''rescan'' (set_finished_progress (re_end env) r)))
           in (v, r1, hold)))"

text \<open>\<open>run_blocking\<close>: the result, the run, the hold and the commands sent; \<open>None\<close> while the polls go on.\<close>

definition run_blocking ::
  "run_env \<Rightarrow> string \<Rightarrow> u32 \<Rightarrow> protection \<Rightarrow> choice list \<Rightarrow> format_run \<Rightarrow> string option
    \<Rightarrow> ((string + u32) \<times> format_run \<times> string option) option \<times> unit_log" where
  "run_blocking env name to prot alts r hold =
     (case hold of
        Some why \<Rightarrow>
          (Some (Inl (''not started: '' @ why @ ''; no new format starts until stormdrive restarts''), r, hold), [])
      | None \<Rightarrow>
          (let r1 = set_phase ''prepare'' r in
           case re_open env of
             Some e \<Rightarrow> (Some (Inl (''open: '' @ e), r1, hold), [])
           | None \<Rightarrow>
               (case re_before env of
                  Inl e \<Rightarrow> (Some (Inl (''read capacity: '' @ error_str e), r1, hold), [])
                | Inr before \<Rightarrow>
                    (let r2 = set_phase ''format'' r1 in
                     case start_exact (re_dev env) (ca_block_len before) to prot [] of
                       (Inl (Refused line), lg) \<Rightarrow>
                         (Some (Inl (refused_error line alts), r2\<lparr>fo_refused := fo_refused r2 @ [line], fo_alternatives := alts\<rparr>, hold), lg)
                     | (Inl (FailedStart e), lg) \<Rightarrow> (Some (Inl e, r2, hold), lg)
                     | (Inl (Started _), lg) \<Rightarrow> (None, lg)
                     | (Inr immediate, lg) \<Rightarrow>
                         (map_option (after_format env to prot) (wait_done env name immediate (r2\<lparr>fo_immediate := immediate\<rparr>, hold)), lg)))))"

text \<open>
  \<open>reattach_blocking\<close>: only watching, after a restart. A disk of another boot is found by its WWID alone, never by
  an old name (\<open>as_named_now\<close>, with the names of that WWID at the end of the wait).
\<close>

definition as_named_now :: "drive \<Rightarrow> bool \<Rightarrow> string list \<Rightarrow> string + drive" where
  "as_named_now d other_boot names =
     (case names of
        [] \<Rightarrow>
          (case d_wwid d of
             Some w \<Rightarrow> (if other_boot then Inl (''the node restarted and no disk has WWID '' @ w @ '' after 10 min'') else Inr d)
           | None \<Rightarrow> Inr d)
      | n # _ \<Rightarrow> Inr (d\<lparr>d_name := n, d_path := ''/dev/'' @ n, d_paths := map (\<lambda>n. ''/dev/'' @ n) names\<rparr>))"

fun watch_loop :: "poll list \<Rightarrow> format_run \<Rightarrow> ((string + unit) \<times> format_run) option" where
  "watch_loop [] r = None"
| "watch_loop (p # ps) r =
     (case poll_format (pl_sense p) (pl_tur p) of
        Inl e \<Rightarrow> Some (Inl e, r)
      | Inr None \<Rightarrow> Some (Inr (), r)
      | Inr (Some progress) \<Rightarrow>
          (let r1 = set_progress (pl_now p) progress r in
           if MAX_WAIT < pl_elapsed p then Some (Inl ''format did not finish within 48 h'', r1) else watch_loop ps r1))"

definition reattach_blocking ::
  "run_env \<Rightarrow> string + drive \<Rightarrow> u32 \<Rightarrow> protection \<Rightarrow> format_run \<Rightarrow> ((string + u32) \<times> format_run) option" where
  "reattach_blocking env found to prot r =
     (case found of
        Inl e \<Rightarrow> Some (Inl e, r)
      | Inr _ \<Rightarrow>
          (case re_open env of
             Some e \<Rightarrow> Some (Inl (''open: '' @ e), r)
           | None \<Rightarrow>
               map_option (\<lambda>(res, r1).
                 (case res of
                    Inl e \<Rightarrow> (Inl e, r1)
                  | Inr _ \<Rightarrow>
                      verify (\<lambda>n. ''drive reports '' @ n @ ''-byte blocks, not the '' @ dec (unat to)
                                   @ '' it was being formatted to: the format did not complete'')
                        to prot (re_after env) (set_phase ''verify'' (set_phase ''rescan'' (set_finished_progress (re_end env) r1)))))
                 (watch_loop (re_polls env) r)))"

section \<open>The drive's record\<close>

definition target :: "u32 \<Rightarrow> protection \<Rightarrow> string" where
  "target len prot = dec (unat len) @ '' with '' @ prot_word prot"

definition copy_to_record :: "format_run \<Rightarrow> format_record \<Rightarrow> format_record" where
  "copy_to_record r f =
     f\<lparr>fr_to_block_size := fo_to r, fr_protection := fo_protection r, fr_phase := fo_phase r,
       fr_progress_pct := fo_progress_pct r, fr_progress_at := fo_progress_at r, fr_eta_secs := fo_eta r,
       fr_refused := fo_refused r, fr_alternatives := fo_alternatives r, fr_target := target (fo_to r) (fo_protection r),
       fr_block_size_after := fo_block_size_after r, fr_prot_type_after := fo_prot_type_after r\<rparr>"

definition start_run :: "drive \<Rightarrow> u32 \<Rightarrow> protection \<Rightarrow> time \<Rightarrow> format_run" where
  "start_run d to prot now =
     \<lparr>fo_drive = d_id d, fo_name = d_name d, fo_from = d_block_size d, fo_to = to, fo_state = FormatRunning,
      fo_phase = ''queued'', fo_progress_pct = None, fo_progress_at = None, fo_eta = None, fo_refused = [],
      fo_alternatives = [], fo_block_size_after = None, fo_started = now, fo_finished = None, fo_error = None,
      fo_immediate = True, fo_protection = prot, fo_prot_type_after = None, fo_resets = []\<rparr>"

definition start_record :: "u32 \<Rightarrow> u32 \<Rightarrow> protection \<Rightarrow> time \<Rightarrow> string \<Rightarrow> format_record" where
  "start_record from_size to prot now boot =
     \<lparr>fr_from_block_size = from_size, fr_to_block_size = to, fr_protection = prot, fr_state = ''running'',
      fr_started = Some now, fr_finished = None, fr_error = None, fr_phase = ''queued'', fr_progress_pct = None,
      fr_progress_at = None, fr_eta_secs = None, fr_target = target to prot, fr_refused = [], fr_alternatives = [],
      fr_block_size_after = None, fr_prot_type_after = None, fr_boot_id = boot\<rparr>"

definition start_drive :: "u32 \<Rightarrow> u32 \<Rightarrow> protection \<Rightarrow> time \<Rightarrow> string \<Rightarrow> drive \<Rightarrow> drive" where
  "start_drive from_size to prot now boot d =
     d\<lparr>d_activity := Formatting, d_format := Some (start_record from_size to prot now boot)\<rparr>"

definition finish_run :: "time \<Rightarrow> string + u32 \<Rightarrow> format_run \<Rightarrow> format_run" where
  "finish_run now result r =
     (case result of
        Inl e \<Rightarrow> r\<lparr>fo_state := FormatFailed, fo_finished := Some now, fo_error := Some e, fo_phase := ''failed''\<rparr>
      | Inr _ \<Rightarrow> r\<lparr>fo_state := FormatDone, fo_finished := Some now, fo_error := None, fo_phase := ''done''\<rparr>)"

definition new_geometry :: "u32 \<Rightarrow> drive \<Rightarrow> drive" where
  "new_geometry bs d =
     d\<lparr>d_block_size := bs, d_physical_block_size := bs, d_usable := True,
       d_capacity := d_capacity d div (case d_format d of Some f \<Rightarrow> ucast (max (fr_from_block_size f) 1) | None \<Rightarrow> 1) * ucast bs\<rparr>"

definition finish_record :: "time \<Rightarrow> string + u32 \<Rightarrow> format_run \<Rightarrow> format_record \<Rightarrow> format_record" where
  "finish_record now result r f =
     (copy_to_record r f)\<lparr>fr_state := (case result of Inl _ \<Rightarrow> ''failed'' | Inr _ \<Rightarrow> ''done''), fr_finished := Some now,
       fr_error := (case result of Inl e \<Rightarrow> Some e | Inr _ \<Rightarrow> None)\<rparr>"

definition finish_drive :: "time \<Rightarrow> string + u32 \<Rightarrow> format_run \<Rightarrow> drive \<Rightarrow> drive" where
  "finish_drive now result r d =
     (let d1 = (if d_activity d = Formatting then d\<lparr>d_activity := Idle\<rparr> else d);
          d2 = (case result of Inr bs \<Rightarrow> new_geometry bs d1 | Inl _ \<Rightarrow> d1)
      in d2\<lparr>d_format := map_option (finish_record now result r) (d_format d2)\<rparr>)"

section \<open>What starting a format does to the drive\<close>

text \<open>The block length a command sets, and the one a drive has been left with by the commands it took.\<close>

fun cmd_length :: "unit_cmd \<Rightarrow> u32 option" where
  "cmd_length (ModeSelect10 b) =
     (case parse_mode_sense10 b of
        Inr h \<Rightarrow> Option.bind (mh_descriptor h) (\<lambda>bd. descriptor_block_length bd (mh_long_lba h)) | Inl _ \<Rightarrow> None)"
| "cmd_length (ModeSelect6 b) = descriptor_block_length (drop 4 b) False"
| "cmd_length _ = None"

definition length_set :: "unit_log \<Rightarrow> u32 option" where
  "length_set lg = foldl (\<lambda>l (c, a). if a = None \<and> cmd_length c \<noteq> None then cmd_length c else l) None lg"

lemma length_set_snoc [simp]:
  "length_set (lg @ [(c, a)]) = (if a = None \<and> cmd_length c \<noteq> None then cmd_length c else length_set lg)"
  by (simp add: length_set_def)

lemma list10_length:
  assumes "wanted \<and> long_descriptor h \<or> to < 2 ^ 24"
  shows "cmd_length (ModeSelect10 (mode_select10_list h to wanted)) = Some to"
  using parse_mode_list [of h to wanted] new_descriptor_length [of "wanted \<and> long_descriptor h" to h] assms by simp

lemma list6_length:
  assumes "to < 2 ^ 24"
  shows "cmd_length (ModeSelect6 (mode_select6_list h to)) = Some to"
  using mode_list6 [of h to] new_descriptor_length [of False to h] assms by simp

lemma select_lists_length:
  assumes "(what, c) \<in> set (select_lists h to)" "to < 2 ^ 24"
  shows "cmd_length c = Some to"
  using assms by (auto simp: select_lists_def list10_length list6_length simp del: cmd_length.simps split: if_splits)

lemma try_selects_log:
  assumes "try_selects dev cs errs refused lg = (res, lg')"
  shows "\<exists>new. lg' = lg @ new \<and> (\<forall>(c, a) \<in> set new. c \<in> snd ` set cs)
    \<and> (res = None \<longrightarrow> (\<exists>pre c. new = pre @ [(c, None)]))
    \<and> (res \<noteq> None \<longrightarrow> (\<forall>(c, a) \<in> set new. a \<noteq> None) \<and> length new = length cs)
    \<and> (\<forall>i. res \<noteq> Some (Started i))"
  using assms
proof (induction dev cs errs refused lg arbitrary: res lg' rule: try_selects.induct)
  case (1 dev errs refused lg)
  then show ?case by (auto simp: Let_def split: if_splits)
next
  case (2 dev what c cs errs refused lg)
  show ?case
  proof (cases "un_answer dev lg c")
    case None
    with 2(2) show ?thesis by (auto simp: send_def Let_def)
  next
    case (Some e)
    with 2(2) have "try_selects dev cs (errs @ [''('' @ what @ '') '' @ error_str e]) (refused \<or> illegal e) (lg @ [(c, Some e)]) = (res, lg')"
      by (simp add: send_def Let_def)
    from 2(1) [OF _ _ this] Some obtain new where "lg' = (lg @ [(c, Some e)]) @ new" "\<forall>(c, a) \<in> set new. c \<in> snd ` set cs"
      "res = None \<longrightarrow> (\<exists>pre c. new = pre @ [(c, None)])"
      "res \<noteq> None \<longrightarrow> (\<forall>(c, a) \<in> set new. a \<noteq> None) \<and> length new = length cs" "\<forall>i. res \<noteq> Some (Started i)"
      by (auto simp: send_def Let_def)
    then show ?thesis by (intro exI [of _ "(c, Some e) # new"]) auto
  qed
qed

text \<open>MODE SELECTs of one length: one taken at the end, or all refused.\<close>

definition selects :: "u32 \<Rightarrow> bool \<Rightarrow> unit_log \<Rightarrow> bool" where
  "selects to taken lg \<longleftrightarrow> (\<exists>a new. lg = (ModeSense 1, a) # new \<and> new \<noteq> [] \<and> (\<forall>(c, a) \<in> set new. cmd_length c = Some to)
     \<and> (if taken then snd (last new) = None else (\<forall>(c, a) \<in> set new. a \<noteq> None)))"

lemma set_length_log:
  assumes "set_length dev to lg = (res, lg')" "to < 2 ^ 24"
  shows "\<exists>new. lg' = lg @ new \<and> selects to (res = None) new \<and> (\<forall>i. res \<noteq> Some (Started i))"
proof -
  let ?a = "un_sense dev lg 1"
  let ?h = "case ?a of Inr h \<Rightarrow> h | Inl _ \<Rightarrow> zero_header"
  let ?s = "(ModeSense 1, case ?a of Inl e \<Rightarrow> Some e | Inr _ \<Rightarrow> None)"
  from assms(1) have "try_selects dev (select_lists ?h to) [] False (lg @ [?s]) = (res, lg')"
    by (simp add: set_length_def Let_def)
  from try_selects_log [OF this] obtain new where new: "lg' = (lg @ [?s]) @ new"
    "\<forall>(c, a) \<in> set new. c \<in> snd ` set (select_lists ?h to)" "res = None \<longrightarrow> (\<exists>pre c. new = pre @ [(c, None)])"
    "res \<noteq> None \<longrightarrow> (\<forall>(c, a) \<in> set new. a \<noteq> None) \<and> length new = length (select_lists ?h to)" "\<forall>i. res \<noteq> Some (Started i)"
    by blast
  have "\<forall>(c, a) \<in> set new. cmd_length c = Some to"
    using new(2) select_lists_length assms(2) by fastforce
  moreover have "new \<noteq> []" using new(3,4) by (cases "res = None") (auto simp: select_lists_def)
  ultimately have "selects to (res = None) (?s # new)"
    using new(3,4) by (auto simp: selects_def)
  with new(1,5) show ?thesis by (intro exI [of _ "?s # new"]) simp
qed

lemma length_set_foldl:
  "\<forall>(c, a) \<in> set new. a \<noteq> None \<or> cmd_length c = None \<Longrightarrow> length_set (lg @ new) = length_set lg"
  by (induction new rule: rev_induct) (auto simp flip: append_assoc)

lemma selects_facts:
  assumes "selects to taken new"
  shows "\<forall>(c, a) \<in> set new. \<forall>i p. c \<noteq> FormatUnit i p" "new \<noteq> []" "cmd_length (fst (last new)) = Some to"
    "taken \<Longrightarrow> length_set (lg @ new) = Some to" "\<not> taken \<Longrightarrow> length_set (lg @ new) = length_set lg"
    "snd (last new) = None \<Longrightarrow> length_set (lg @ new) = Some to"
proof -
  obtain a rest where new: "new = (ModeSense 1, a) # rest" "rest \<noteq> []" "\<forall>(c, a) \<in> set rest. cmd_length c = Some to"
    "if taken then snd (last rest) = None else (\<forall>(c, a) \<in> set rest. a \<noteq> None)"
    using assms by (auto simp: selects_def)
  obtain pre c b where r: "rest = pre @ [(c, b)]" using new(2) by (metis rev_exhaust surj_pair)
  with new show "\<forall>(c, a) \<in> set new. \<forall>i p. c \<noteq> FormatUnit i p" "new \<noteq> []" "cmd_length (fst (last new)) = Some to" by auto
  have "length_set (lg @ new) = Some to" if "b = None"
    using new(1,3) r that length_set_snoc [of "lg @ (ModeSense 1, a) # pre" c b] by simp
  with new(1,4) r show "taken \<Longrightarrow> length_set (lg @ new) = Some to" "snd (last new) = None \<Longrightarrow> length_set (lg @ new) = Some to"
    by simp_all
  show "\<not> taken \<Longrightarrow> length_set (lg @ new) = length_set lg"
    using new(1,4) by (intro length_set_foldl) auto
qed

text \<open>A log that formats only as asked: each FORMAT UNIT carries the protection asked for, on the length asked for.\<close>

definition formats_ok :: "u32 \<Rightarrow> protection \<Rightarrow> unit_log \<Rightarrow> bool" where
  "formats_ok to prot new \<longleftrightarrow>
     (\<forall>pre i p a post. new = pre @ (FormatUnit i p, a) # post \<longrightarrow> p = fmtpinfo prot \<and> length_set pre = Some to)"

lemma formats_ok_none: "\<forall>(c, a) \<in> set new. \<forall>i p. c \<noteq> FormatUnit i p \<Longrightarrow> formats_ok to prot new"
  by (fastforce simp: formats_ok_def)

lemma formats_ok_snoc:
  assumes "formats_ok to prot new" "\<And>i p. c = FormatUnit i p \<Longrightarrow> p = fmtpinfo prot \<and> length_set new = Some to"
  shows "formats_ok to prot (new @ [(c, a)])"
  unfolding formats_ok_def
proof (intro allI impI)
  fix pre j q b post
  assume eq: "new @ [(c, a)] = pre @ (FormatUnit j q, b) # post"
  show "q = fmtpinfo prot \<and> length_set pre = Some to"
  proof (cases post rule: rev_cases)
    case Nil
    with eq assms show ?thesis by auto
  next
    case (snoc post' x)
    with eq have "new = pre @ (FormatUnit j q, b) # post'" by simp
    with assms(1) show ?thesis unfolding formats_ok_def by blast
  qed
qed

lemma formats_ok_append:
  assumes "formats_ok to prot new" "\<forall>(c, a) \<in> set later. \<forall>i p. c \<noteq> FormatUnit i p"
  shows "formats_ok to prot (new @ later)"
  unfolding formats_ok_def
proof (intro allI impI)
  fix pre j q b post
  assume eq: "new @ later = pre @ (FormatUnit j q, b) # post"
  then obtain us where "new = pre @ us \<and> us @ later = (FormatUnit j q, b) # post \<or> pre = new @ us \<and> later = us @ (FormatUnit j q, b) # post"
    by (auto simp: append_eq_append_conv2)
  with assms show "q = fmtpinfo prot \<and> length_set pre = Some to"
    by (cases us) (force simp: formats_ok_def)+
qed

lemma begin_format_log:
  assumes "begin_format dev to prot lg = (r, lg')" "to < 2 ^ 24"
  shows "\<exists>new. lg' = lg @ new \<and> new \<noteq> [] \<and> formats_ok to prot new
    \<and> ((\<exists>i p. (FormatUnit i p, None) \<in> set new) \<longleftrightarrow> (\<exists>i. r = Started i))"
proof -
  obtain res lg1 where sl: "set_length dev to lg = (res, lg1)" by (cases "set_length dev to lg")
  from set_length_log [OF this assms(2)] obtain new where new: "lg1 = lg @ new" "selects to (res = None) new"
    "\<forall>i. res \<noteq> Some (Started i)" by blast
  note S = selects_facts [OF new(2)]
  have quiet: "\<not> (\<exists>i p a. (FormatUnit i p, a) \<in> set new)" using S(1) by fastforce
  note ok0 = formats_ok_none [OF S(1), of to prot]
  show ?thesis
  proof (cases res)
    case (Some a)
    with assms(1) sl have "r = a" "lg' = lg1" by (simp_all add: begin_format_def)
    with Some new ok0 S(2) quiet show ?thesis by blast
  next
    case None
    let ?c1 = "FormatUnit True (fmtpinfo prot)"
    have set1: "length_set new = Some to" using S(4) [of "[]"] None by simp
    have ok1: "formats_ok to prot (new @ [(?c1, a)])" for a
      by (rule formats_ok_snoc [OF ok0]) (auto simp: set1)
    have set2: "length_set (new @ [(?c1, Some e)]) = Some to" for e by (simp add: set1)
    have ok2: "formats_ok to prot ((new @ [(?c1, Some e)]) @ [(FormatUnit False 0, a)])" if "prot = NoPi" for e a
      by (rule formats_ok_snoc [OF ok1]) (auto simp: set1 that)
    from assms(1) sl None have "case un_answer dev lg1 ?c1 of
        None \<Rightarrow> r = Started True \<and> lg' = lg1 @ [(?c1, None)]
      | Some e \<Rightarrow> (\<forall>i. r \<noteq> Started i) \<and> lg' = lg1 @ [(?c1, Some e)]
          \<or> prot = NoPi \<and> (\<exists>a. lg' = (lg1 @ [(?c1, Some e)]) @ [(FormatUnit False 0, a)] \<and> ((a = None) = (\<exists>i. r = Started i)))"
      by (auto simp: begin_format_def send_def Let_def format_again_def refused_or_failed_def split: option.splits if_splits)
    then consider
        "r = Started True" "lg' = lg1 @ [(?c1, None)]"
      | e where "\<forall>i. r \<noteq> Started i" "lg' = lg1 @ [(?c1, Some e)]"
      | e a where "prot = NoPi" "lg' = lg1 @ [(?c1, Some e), (FormatUnit False 0, a)]" "(a = None) = (\<exists>i. r = Started i)"
      by (cases "un_answer dev lg1 ?c1") auto
    then show ?thesis
    proof cases
      case 1
      then show ?thesis using new(1) ok1 [of None] by (intro exI [of _ "new @ [(?c1, None)]"]) auto
    next
      case (2 e)
      then show ?thesis using new(1) ok1 [of "Some e"] quiet by (intro exI [of _ "new @ [(?c1, Some e)]"]) auto
    next
      case (3 e a)
      then show ?thesis using new(1) ok2 [of e a] quiet
        by (intro exI [of _ "new @ [(?c1, Some e), (FormatUnit False 0, a)]"]) auto
    qed
  qed
qed

text \<open>
  C5.format_only_what_was_asked. Whatever the drive answers, a start sends FORMAT UNIT only with the
  protection asked for and only when the last block length the drive took is the one asked for; one is
  taken exactly when the start says so; and after a refusal the last command is the MODE SELECT of the
  old block length, so that, if it is taken, that is the length the drive is left with.
\<close>

theorem format_only_what_was_asked:
  assumes "start_exact dev current to prot lg = (r, lg')" "to < 2 ^ 24" "current < 2 ^ 24"
  shows "\<exists>new. lg' = lg @ new
    \<and> (\<forall>pre i p a post. new = pre @ (FormatUnit i p, a) # post \<longrightarrow> p = fmtpinfo prot \<and> length_set pre = Some to)
    \<and> ((\<exists>i p. (FormatUnit i p, None) \<in> set new) \<longleftrightarrow> (\<exists>i. r = Inr i))
    \<and> (\<forall>why. r = Inl (Refused why) \<longrightarrow> new \<noteq> [] \<and> cmd_length (fst (last new)) = Some current
         \<and> (snd (last new) = None \<longrightarrow> length_set new = Some current))"
proof -
  obtain b lg1 where b: "begin_format dev to prot lg = (b, lg1)" by (cases "begin_format dev to prot lg")
  from begin_format_log [OF this assms(2)] obtain new where N: "lg1 = lg @ new \<and> new \<noteq> [] \<and> formats_ok to prot new
    \<and> ((\<exists>i p. (FormatUnit i p, None) \<in> set new) \<longleftrightarrow> (\<exists>i. b = Started i))" by (rule exE)
  from N have new: "lg1 = lg @ new" "formats_ok to prot new" "new \<noteq> []" by simp_all
  from N have taken: "(\<exists>i p. (FormatUnit i p, None) \<in> set new) \<longleftrightarrow> (\<exists>i. b = Started i)" by simp
  show ?thesis
  proof (cases b)
    case (Refused why)
    obtain res lg2 where "set_length dev current lg1 = (res, lg2)" by (cases "set_length dev current lg1")
    from set_length_log [OF this assms(3)] obtain undone where undone: "lg2 = lg1 @ undone" "selects current (res = None) undone"
      by blast
    note S = selects_facts [OF undone(2)]
    from assms(1) b Refused \<open>set_length dev current lg1 = (res, lg2)\<close>
    have r: "r = Inl (Refused (refused_line to prot why))" "lg' = lg2" by (simp_all add: start_exact_def)
    have "formats_ok to prot (new @ undone)" using new(2) S(1) by (rule formats_ok_append)
    moreover have "\<not> (\<exists>i p. (FormatUnit i p, None) \<in> set (new @ undone))"
    proof -
      have "(FormatUnit i p, None) \<notin> set undone" for i p using S(1) by fastforce
      with taken Refused show ?thesis by simp
    qed
    ultimately show ?thesis
      using r new(1) undone(1) S(2,3) S(6) [of new] by (intro exI [of _ "new @ undone"]) (auto simp: formats_ok_def)
  next
    case (Started i)
    with assms(1) b new taken show ?thesis by (intro exI [of _ new]) (auto simp: start_exact_def formats_ok_def)
  next
    case (FailedStart e)
    with assms(1) b new taken show ?thesis by (intro exI [of _ new]) (auto simp: start_exact_def formats_ok_def)
  qed
qed

section \<open>What a run guarantees\<close>

lemma verify_Inr:
  "verify wl to prot after r = (Inr bs, r') \<longleftrightarrow>
     (\<exists>c. after = Inr c \<and> ca_block_len c = to \<and> ca_prot_type c = prot_type prot \<and> bs = to
        \<and> r' = r\<lparr>fo_prot_type_after := Some (ca_prot_type c), fo_block_size_after := Some to\<rparr>)"
  by (auto simp: verify_def Let_def split: sum.splits if_splits)

text \<open>What \<open>run_blocking\<close> does once it may start.\<close>

lemma run_blocking_started:
  assumes "run_blocking env name to prot alts r hold = (Some (Inr bs, r', hold'), lg)"
  obtains before immediate st where "hold = None" "re_before env = Inr before"
    "start_exact (re_dev env) (ca_block_len before) to prot [] = (Inr immediate, lg)"
    "after_format env to prot st = (Inr bs, r', hold')"
  using assms by (auto simp: run_blocking_def Let_def split: option.splits sum.splits prod.splits attempt.splits)

text \<open>
  C9.format_verified. A run that ends well was not held back, sent a FORMAT UNIT that the drive took,
  and read back from it the block length and the protection asked for, which are what its result, its
  record and then the drive's record say.
\<close>

theorem format_verified:
  assumes "run_blocking env name to prot alts r hold = (Some (Inr bs, r', hold'), lg)"
    and "to < 2 ^ 24" "\<forall>c. re_before env = Inr c \<longrightarrow> ca_block_len c < 2 ^ 24"
  shows "hold = None \<and> bs = to \<and> (\<exists>i. (FormatUnit i (fmtpinfo prot), None) \<in> set lg)
    \<and> (\<exists>c. re_after env = Inr c \<and> ca_block_len c = to \<and> ca_prot_type c = prot_type prot)
    \<and> fo_block_size_after r' = Some to \<and> fo_prot_type_after r' = Some (prot_type prot)
    \<and> d_block_size (finish_drive now (Inr bs) r' d) = to \<and> d_usable (finish_drive now (Inr bs) r' d)
    \<and> d_activity (finish_drive now (Inr bs) r' d) \<noteq> Formatting"
proof -
  obtain before immediate st where run: "hold = None" "re_before env = Inr before"
    "start_exact (re_dev env) (ca_block_len before) to prot [] = (Inr immediate, lg)"
    "after_format env to prot st = (Inr bs, r', hold')" by (rule run_blocking_started [OF assms(1)])
  obtain b where b: "begin_format (re_dev env) to prot [] = (b, lg)" "\<exists>i. b = Started i"
    using run(3) by (auto simp: start_exact_def split: prod.splits attempt.splits)
  from begin_format_log [OF b(1) assms(2)] obtain new where N: "lg = [] @ new \<and> new \<noteq> [] \<and> formats_ok to prot new
    \<and> ((\<exists>i p. (FormatUnit i p, None) \<in> set new) \<longleftrightarrow> (\<exists>i. b = Started i))" by (rule exE)
  with b(2) obtain i p where ip: "(FormatUnit i p, None) \<in> set lg" by auto
  then obtain pre post where "new = pre @ (FormatUnit i p, None) # post" using N by (auto simp: in_set_conv_decomp)
  with N have "p = fmtpinfo prot" unfolding formats_ok_def by blast
  with ip have taken: "\<exists>i. (FormatUnit i (fmtpinfo prot), None) \<in> set lg" by blast
  from run(4) have "bs = to \<and> (\<exists>c. re_after env = Inr c \<and> ca_block_len c = to \<and> ca_prot_type c = prot_type prot)
      \<and> fo_block_size_after r' = Some to \<and> fo_prot_type_after r' = Some (prot_type prot)"
    by (auto simp: after_format_def verify_Inr split: prod.splits sum.splits)
  then show ?thesis using run(1) taken by (auto simp: finish_drive_def Let_def new_geometry_def)
qed

text \<open>A run that sees a controller reset sets the hold, and no later run sends a command.\<close>

lemma poll_loop_hold:
  assumes "poll_loop name host seen ps st = Some (res, r', hold')" "fo_resets (fst st) = rs \<or> snd st \<noteq> None"
  shows "fo_resets r' = rs \<or> hold' \<noteq> None"
  using assms
proof (induction name host seen ps st rule: poll_loop.induct)
  case (2 name host seen p ps st)
  have st1: "fo_resets (fst (note_reset name host seen p st)) = rs \<or> snd (note_reset name host seen p st) \<noteq> None"
    using 2(3) by (auto simp: note_reset_def split: option.splits)
  have keep: "fo_resets (set_progress now progress r) = fo_resets r" for now progress r
    by (simp add: set_progress_def split: option.split)
  show ?case
  proof (cases "poll_format (pl_sense p) (pl_tur p)")
    case (Inl e)
    with 2(2) st1 show ?thesis by (auto simp: Let_def)
  next
    case (Inr v)
    show ?thesis
    proof (cases v)
      case None
      with Inr 2(2) st1 show ?thesis by (auto simp: Let_def)
    next
      case (Some progress)
      show ?thesis
      proof (cases "MAX_WAIT < pl_elapsed p")
        case True
        with Inr Some 2(2) st1 show ?thesis by (auto simp: Let_def keep)
      next
        case False
        with Inr Some 2(2) have "poll_loop name host (seen_after host seen p) ps
            (set_progress (pl_now p) progress (fst (note_reset name host seen p st)), snd (note_reset name host seen p st)) = Some (res, r', hold')"
          by (simp add: Let_def)
        from 2(1) [OF refl Inr Some refl False this] st1 show ?thesis by (simp add: keep)
      qed
    qed
  qed
qed simp

text \<open>
  C15.reset_stops_new_formats. Once a run has recorded a controller reset, the hold is set, and with it
  every later run ends with an error at once: it opens nothing and sends the drive nothing.
\<close>

theorem reset_stops_new_formats:
  assumes "run_blocking env name to prot alts r hold = (Some (res, r', hold'), lg)" "fo_resets r' \<noteq> fo_resets r"
  shows "hold' \<noteq> None
    \<and> (\<forall>env2 name2 to2 prot2 alts2 r2. \<exists>e. run_blocking env2 name2 to2 prot2 alts2 r2 hold' = (Some (Inl e, r2, hold'), []))"
proof -
  have same: "fo_resets (set_phase ph x) = fo_resets x" "fo_resets (set_finished_progress now x) = fo_resets x"
    "fo_resets (x\<lparr>fo_immediate := b\<rparr>) = fo_resets x" for ph now x b
    by (simp_all add: set_phase_def set_finished_progress_def)
  have ver: "fo_resets (snd (verify wl to prot after x)) = fo_resets x" for wl after x
    by (simp add: verify_def Let_def split: sum.split)
  have wait: "fo_resets x = fo_resets r \<or> h \<noteq> None"
    if "wait_done env name imm (q, hold) = Some (v, x, h)" "fo_resets q = fo_resets r" for imm q v x h
    using that poll_loop_hold [of name "case re_host env of Some h \<Rightarrow> h | None \<Rightarrow> ''?''" "re_resets0 env" "re_polls env"
        "(set_phase ''formatting'' q, hold)" v x h "fo_resets r"]
    by (auto simp: wait_done_def same split: if_splits)
  have fin: "fo_resets (fst (snd (after_format env to prot (v, x, h)))) = fo_resets x \<and> snd (snd (after_format env to prot (v, x, h))) = h"
    for v x h by (cases v) (simp_all add: after_format_def case_prod_beta Let_def ver same)
  have "fo_resets r' = fo_resets r \<or> hold' \<noteq> None"
  proof (cases hold)
    case (Some w)
    with assms(1) show ?thesis by (simp add: run_blocking_def)
  next
    case None
    with assms(1) consider "fo_resets r' = fo_resets r"
      | imm q v x h where "wait_done env name imm (q, hold) = Some (v, x, h)" "fo_resets q = fo_resets r"
          "after_format env to prot (v, x, h) = (res, r', hold')"
      by (auto simp: run_blocking_def Let_def same split: option.splits sum.splits prod.splits attempt.splits)
    then show ?thesis
    proof cases
      case 2
      with wait [OF 2(1,2)] fin [of v x h] show ?thesis by auto
    qed simp
  qed
  with assms(2) have "hold' \<noteq> None" by simp
  then show ?thesis by (auto simp: run_blocking_def)
qed

lemma poll_loop_ends:
  "\<exists>p \<in> set ps. MAX_WAIT < pl_elapsed p \<Longrightarrow> poll_loop name host seen ps st \<noteq> None"
proof (induction ps arbitrary: seen st)
  case (Cons p ps)
  show ?case
  proof (cases "poll_format (pl_sense p) (pl_tur p)")
    case (Inr v)
    then show ?thesis using Cons by (cases v; cases "MAX_WAIT < pl_elapsed p") (simp_all add: Let_def del: not_None_eq)
  qed (simp add: Let_def)
qed simp

lemma watch_loop_ends: "\<exists>p \<in> set ps. MAX_WAIT < pl_elapsed p \<Longrightarrow> watch_loop ps r \<noteq> None"
proof (induction ps arbitrary: r)
  case (Cons p ps)
  show ?case
  proof (cases "poll_format (pl_sense p) (pl_tur p)")
    case (Inr v)
    then show ?thesis using Cons by (cases v; cases "MAX_WAIT < pl_elapsed p") (simp_all add: Let_def del: not_None_eq)
  qed simp
qed simp

lemma late_poll:
  assumes "k < length ps" "POLL * i \<le> pl_elapsed (ps ! k)" "MAX_WAIT < POLL * i"
  shows "\<exists>p \<in> set ps. MAX_WAIT < pl_elapsed p"
  using assms by (meson less_le_trans nth_mem)

text \<open>
  C30.format_ends. The polling of a format ends, well or not, whatever the drive says. Both loops poll every
  \<open>POLL\<close> seconds at least, the loop that started the format after a first sleep, the loop that watches a
  format after a restart at once: each has ended by its first poll later than \<open>MAX_WAIT\<close>, the 5761st of
  the one and the 5762nd of the other at the latest.
\<close>

theorem format_ends:
  assumes "MAX_WAIT div POLL < length ps" "\<forall>k < length ps. POLL * (k + 1) \<le> pl_elapsed (ps ! k)"
    and "MAX_WAIT div POLL + 1 < length qs" "\<forall>k < length qs. POLL * k \<le> pl_elapsed (qs ! k)"
  shows "poll_loop name host seen ps st \<noteq> None \<and> watch_loop qs r \<noteq> None"
proof -
  have late: "MAX_WAIT < POLL * (MAX_WAIT div POLL + 1)" by (simp add: MAX_WAIT_def POLL_def)
  have "\<exists>p \<in> set ps. MAX_WAIT < pl_elapsed p" using assms(1,2) late by (blast intro: late_poll)
  moreover have "\<exists>q \<in> set qs. MAX_WAIT < pl_elapsed q" using assms(3,4) late by (blast intro: late_poll)
  ultimately show ?thesis using poll_loop_ends watch_loop_ends by blast
qed

text \<open>A drive that takes everything: 520-byte sectors to 4096 without PI.\<close>

definition willing :: unit_dev where
  "willing = \<lparr>un_sense = (\<lambda>_ _. Inr zero_header), un_answer = (\<lambda>_ _. None)\<rparr>"

definition geometry_of :: "u32 \<Rightarrow> capacity" where
  "geometry_of len = \<lparr>ca_last_lba = 1000, ca_block_len = len, ca_lbppbe = 0, ca_prot_type = 0\<rparr>"

definition ready_poll :: poll where
  "ready_poll = \<lparr>pl_elapsed = 30, pl_now = 30, pl_resets = Some 1, pl_sense = Inl (Io []), pl_tur = None\<rparr>"

definition willing_env :: run_env where
  "willing_env = \<lparr>re_open = None, re_before = Inr (geometry_of 520), re_dev = willing, re_resets0 = Some 0, re_host = Some ''host0'',
     re_polls = [ready_poll], re_end = 30, re_after = Inr (geometry_of 4096)\<rparr>"

definition willing_run :: format_run where
  "willing_run = \<lparr>fo_drive = 1, fo_name = ''sda'', fo_from = 520, fo_to = 4096, fo_state = FormatRunning,
      fo_phase = ''queued'', fo_progress_pct = None, fo_progress_at = None, fo_eta = None, fo_refused = [],
      fo_alternatives = [], fo_block_size_after = None, fo_started = 0, fo_finished = None, fo_error = None,
      fo_immediate = True, fo_protection = NoPi, fo_prot_type_after = None, fo_resets = []\<rparr>"

lemma willing_start:
  "start_exact willing 520 4096 NoPi [] =
     (Inr True, [(ModeSense 1, None), (ModeSelect10 (mode_select10_list zero_header 4096 False), None), (FormatUnit True 0, None)])"
  by (simp add: start_exact_def begin_format_def set_length_def willing_def select_lists_def send_def long_descriptor_def zero_header_def Let_def)

lemma ready_now: "poll_format (pl_sense ready_poll) (pl_tur ready_poll) = Inr None"
  by (simp add: poll_format_def ready_poll_def raw_progress_def)

lemma willing_runs:
  obtains r' hold' where "run_blocking willing_env ''sda'' 4096 NoPi [] willing_run None
      = (Some (Inr 4096, r', hold'), [(ModeSense 1, None), (ModeSelect10 (mode_select10_list zero_header 4096 False), None), (FormatUnit True 0, None)])"
    "fo_resets r' \<noteq> fo_resets willing_run"
proof -
  have env: "re_open willing_env = None" "re_before willing_env = Inr (geometry_of 520)" "re_dev willing_env = willing"
    "re_after willing_env = Inr (geometry_of 4096)" "re_polls willing_env = [ready_poll]" "re_host willing_env = Some ''host0''"
    "re_resets0 willing_env = Some 0" by (simp_all add: willing_env_def)
  have geo: "ca_block_len (geometry_of n) = n" "ca_prot_type (geometry_of n) = 0" for n by (simp_all add: geometry_of_def)
  have reset: "fo_resets (fst (note_reset name host (Some 0) ready_poll (q, h))) \<noteq> fo_resets q" for name host q h
    by (simp add: note_reset_def reset_seen_def ready_poll_def)
  have same: "fo_resets (set_phase ph x) = fo_resets x" "fo_resets (set_finished_progress now x) = fo_resets x"
    "fo_resets (x\<lparr>fo_immediate := b\<rparr>) = fo_resets x" for ph now x b
    by (simp_all add: set_phase_def set_finished_progress_def)
  let ?st = "note_reset ''sda'' ''host0'' (Some 0) ready_poll
      (set_phase ''formatting'' ((set_phase ''format'' (set_phase ''prepare'' willing_run))\<lparr>fo_immediate := True\<rparr>), None)"
  let ?r = "(set_phase ''verify'' (set_phase ''rescan'' (set_finished_progress (re_end willing_env) (fst ?st))))
      \<lparr>fo_prot_type_after := Some 0, fo_block_size_after := Some 4096\<rparr>"
  have "run_blocking willing_env ''sda'' 4096 NoPi [] willing_run None = (Some (Inr 4096, ?r, snd ?st),
      [(ModeSense 1, None), (ModeSelect10 (mode_select10_list zero_header 4096 False), None), (FormatUnit True 0, None)])"
    by (simp add: run_blocking_def env geo willing_start wait_done_def ready_now after_format_def verify_def case_prod_beta Let_def)
  moreover have "fo_resets ?r \<noteq> fo_resets willing_run"
    using reset [of "''sda''" "''host0''" "set_phase ''formatting'' ((set_phase ''format'' (set_phase ''prepare'' willing_run))\<lparr>fo_immediate := True\<rparr>)" None]
    by (simp add: same)
  ultimately show thesis by (rule that)
qed

lemma format_only_what_was_asked_witness:
  "\<exists>lg. start_exact willing 520 4096 NoPi [] = (Inr True, lg) \<and> (\<exists>i. (FormatUnit i 0, None) \<in> set lg)"
proof -
  have "(4096 :: u32) < 2 ^ 24" "(520 :: u32) < 2 ^ 24" by (simp_all add: word_less_nat_alt)
  from format_only_what_was_asked [OF willing_start this] willing_start show ?thesis by auto
qed

lemma format_verified_witness:
  "\<exists>r' hold' lg. run_blocking willing_env ''sda'' 4096 NoPi [] willing_run None = (Some (Inr 4096, r', hold'), lg)
     \<and> (\<exists>i. (FormatUnit i 0, None) \<in> set lg) \<and> fo_block_size_after r' = Some 4096"
proof -
  obtain r' hold' where r: "run_blocking willing_env ''sda'' 4096 NoPi [] willing_run None
      = (Some (Inr 4096, r', hold'), [(ModeSense 1, None), (ModeSelect10 (mode_select10_list zero_header 4096 False), None), (FormatUnit True 0, None)])"
    by (rule willing_runs)
  have "(4096 :: u32) < 2 ^ 24" "\<forall>c. re_before willing_env = Inr c \<longrightarrow> ca_block_len c < 2 ^ 24"
    by (simp_all add: willing_env_def geometry_of_def word_less_nat_alt)
  from format_verified [OF r this] r show ?thesis by auto
qed

lemma reset_stops_new_formats_witness:
  "\<exists>r' hold' lg. run_blocking willing_env ''sda'' 4096 NoPi [] willing_run None = (Some (Inr 4096, r', hold'), lg) \<and> hold' \<noteq> None
     \<and> snd (run_blocking willing_env ''sdb'' 4096 NoPi [] willing_run hold') = []"
proof -
  obtain r' hold' where r: "run_blocking willing_env ''sda'' 4096 NoPi [] willing_run None
      = (Some (Inr 4096, r', hold'), [(ModeSense 1, None), (ModeSelect10 (mode_select10_list zero_header 4096 False), None), (FormatUnit True 0, None)])"
    "fo_resets r' \<noteq> fo_resets willing_run"
    by (rule willing_runs)
  note R = reset_stops_new_formats [OF r]
  from R obtain e where "run_blocking willing_env ''sdb'' 4096 NoPi [] willing_run hold' = (Some (Inl e, willing_run, hold'), [])" by blast
  with R r(1) show ?thesis by auto
qed

definition busy_poll :: "nat \<Rightarrow> poll" where
  "busy_poll k = \<lparr>pl_elapsed = 30 * (k + 1), pl_now = 30 * (k + 1), pl_resets = None, pl_sense = Inl (Io []),
     pl_tur = Some (SenseError \<lparr>sn_key = 2, sn_asc = 4, sn_ascq = 4, sn_progress = None, sn_field = None\<rparr>)\<rparr>"

definition watched_poll :: "nat \<Rightarrow> poll" where
  "watched_poll k = (busy_poll k)\<lparr>pl_elapsed := 30 * k, pl_now := 30 * k\<rparr>"

lemma format_ends_witness:
  "poll_loop ''sda'' ''host0'' None (map busy_poll [0..<5761]) (willing_run, None) \<noteq> None
     \<and> watch_loop (map watched_poll [0..<5762]) willing_run \<noteq> None"
proof -
  have "MAX_WAIT div POLL < length (map busy_poll [0..<5761])"
    and "MAX_WAIT div POLL + 1 < length (map watched_poll [0..<5762])" by (simp_all add: MAX_WAIT_def POLL_def)
  moreover have "\<forall>k < length (map busy_poll [0..<5761]). POLL * (k + 1) \<le> pl_elapsed (map busy_poll [0..<5761] ! k)"
    and "\<forall>k < length (map watched_poll [0..<5762]). POLL * k \<le> pl_elapsed (map watched_poll [0..<5762] ! k)"
    by (simp_all add: POLL_def busy_poll_def watched_poll_def)
  ultimately show ?thesis using format_ends by blast
qed

text \<open>
  C38.reattach_trusts_geometry. Watched again after a restart, a drive that is ready and reports the length
  and protection of the record counts as formatted, though no FORMAT UNIT need ever have been sent: a
  format to the geometry the drive already had, recorded before its first command, ends as done.
\<close>

theorem reattach_trusts_geometry:
  assumes "found = Inr d" "re_open env = None" "re_polls env = p # ps" "pl_sense p = Inl e" "pl_tur p = None"
    and "re_after env = Inr c" "ca_block_len c = d_block_size d" "ca_prot_type c = prot_type prot"
    and "d1 = start_drive (d_block_size d) (d_block_size d) prot t0 boot d"
  shows "\<exists>r'. reattach_blocking env found (d_block_size d) prot r = Some (Inr (d_block_size d), r')
    \<and> map_option fr_state (d_format d1) = Some ''running''
    \<and> map_option fr_state (d_format (finish_drive t1 (Inr (d_block_size d)) r' d1)) = Some ''done''"
proof -
  have "poll_format (pl_sense p) (pl_tur p) = Inr None" using assms by (simp add: poll_format_def raw_progress_def)
  then show ?thesis
    using assms by (simp add: reattach_blocking_def verify_def Let_def start_drive_def start_record_def finish_drive_def
        finish_record_def new_geometry_def)
qed

lemma reattach_trusts_geometry_witness:
  "\<exists>d d1 r'. d_block_size d = 512 \<and> d1 = start_drive 512 512 NoPi 0 ''boot'' d
     \<and> reattach_blocking (willing_env\<lparr>re_after := Inr (geometry_of 512)\<rparr>) (Inr d) 512 NoPi willing_run = Some (Inr 512, r')
     \<and> map_option fr_state (d_format (finish_drive 1 (Inr 512) r' d1)) = Some ''done''"
proof -
  have d: "d_block_size base_drive = 512" by (simp add: base_drive_def)
  have env: "re_open (willing_env\<lparr>re_after := Inr (geometry_of 512)\<rparr>) = None" "re_polls (willing_env\<lparr>re_after := Inr (geometry_of 512)\<rparr>) = [ready_poll]"
    "pl_sense ready_poll = Inl (Io [])" "pl_tur ready_poll = None" "re_after (willing_env\<lparr>re_after := Inr (geometry_of 512)\<rparr>) = Inr (geometry_of 512)"
    "ca_block_len (geometry_of 512) = d_block_size base_drive" "ca_prot_type (geometry_of 512) = prot_type NoPi"
    by (simp_all add: willing_env_def ready_poll_def geometry_of_def d)
  from reattach_trusts_geometry [OF refl env refl, where ?t0.0 = 0 and boot = "''boot''" and r = willing_run and ?t1.0 = 1] show ?thesis unfolding d using d by blast
qed

end
