(* ===== verification/Fleet.thy ===== *)
theory Fleet
  imports Worker Merge
begin

text \<open>
  \<open>src/src/fleet.rs\<close>: what is told to the engine about the fleet's drives and when it is due again, the
  drains (asked for, pending, running, empty) and the leave at their end, the fault LEDs of failed RAID
  members, and which drives join by themselves. What the engine answers is an argument of each step; a
  step is what one function does to a drive under its lock, and \<open>poll_drains\<close>, which locks more than once for
  a drive, is one step too: what an API request changes in between is not shown.
\<close>

record drain_status =
  ds_state :: string
  ds_moved :: u64
  ds_failed :: u64
  ds_remaining :: u64
  ds_errors :: "string list"

definition drain_empty :: "drain_status \<Rightarrow> bool" where "drain_empty s \<longleftrightarrow> ds_state s = ''empty''"

definition drain_running :: "drain_status \<Rightarrow> bool" where "drain_running s \<longleftrightarrow> ds_state s = ''running''"

section \<open>What the engine is told\<close>

definition labels_due :: "drive \<Rightarrow> bool" where
  "labels_due d \<longleftrightarrow> d_membership d = Fleet \<and> d_activity d \<noteq> Missing \<and> d_pushed_labels d \<noteq> stormblock_labels d"

definition holds_slabs :: "drive \<Rightarrow> bool" where
  "holds_slabs d \<longleftrightarrow> d_membership d = Fleet \<or> is_some_and (\<lambda>u. ug_slabs u \<noteq> []) (d_usage d)"

definition overcommit_due :: "drive \<Rightarrow> bool" where
  "overcommit_due d \<longleftrightarrow> d_activity d \<noteq> Missing \<and> holds_slabs d \<and> d_pushed_overcommit d \<noteq> Some (d_overcommit d)"

definition thermal_push_due :: "string option \<Rightarrow> drive_thermal \<Rightarrow> bool" where
  "thermal_push_due told t =
     (case told of
        Some p \<Rightarrow> p \<noteq> engine_word t
      | None \<Rightarrow> throttle_background t \<or> exclude_new_placement t \<or> replace_proposed t)"

definition thermal_due :: "drive \<Rightarrow> bool" where
  "thermal_due d \<longleftrightarrow> d_activity d \<noteq> Missing \<and> holds_slabs d \<and> is_some_and (thermal_push_due (d_pushed_thermal d)) (d_thermal d)"

definition health_word :: "drive \<Rightarrow> string" where
  "health_word d =
     (if d_activity d = Missing then ''missing''
      else if d_designation d = DesignatedFailed then ''failed'' else stormblock_health d)"

definition health_due :: "drive \<Rightarrow> bool" where
  "health_due d \<longleftrightarrow> d_membership d = Fleet \<and> (d_activity d = Missing \<or> health_of d \<noteq> health_status.Unknown)
     \<and> d_pushed_health d \<noteq> Some (health_word d)"

text \<open>The pushes the engine accepted. Only the accepted value is kept, so a change in the meantime is due again.\<close>

definition labels_told :: "labels \<Rightarrow> drive \<Rightarrow> drive" where "labels_told ls d = d\<lparr>d_pushed_labels := ls\<rparr>"

definition overcommit_told :: "overcommit \<Rightarrow> drive \<Rightarrow> drive" where "overcommit_told oc d = d\<lparr>d_pushed_overcommit := Some oc\<rparr>"

definition thermal_told :: "drive_thermal \<Rightarrow> drive \<Rightarrow> drive" where "thermal_told t d = d\<lparr>d_pushed_thermal := Some (engine_word t)\<rparr>"

definition health_told :: "string \<Rightarrow> drive \<Rightarrow> drive" where "health_told w d = d\<lparr>d_pushed_health := Some w\<rparr>"

text \<open>What a health report's answer says of a RAID member.\<close>

definition raid_member_note :: "json \<Rightarrow> string" where
  "raid_member_note answer =
     (case get ''raid_member'' answer of
        None \<Rightarrow> []
      | Some m \<Rightarrow>
          if \<not> is_object m then []
          else (let array = (case Option.bind (get ''array'' m) as_str of Some a \<Rightarrow> a | None \<Rightarrow> ''?'');
                    slot = (case Option.bind (get ''slot'' m) as_u64 of Some n \<Rightarrow> dec (unat n) | None \<Rightarrow> ''?'')
                in ''; RAID set '' @ array @ '' slot '' @ slot
                   @ (if Option.bind (get ''failed'' m) as_bool = Some True
                      then '' failed '' @ utf8_dash @ '' the engine takes a spare and rebuilds'' else [])))"

section \<open>Fault LEDs\<close>

text \<open>The drive of a RAID member: by the uuid (its parser is the library's), else by WWN or serial, in the order of the map.\<close>

definition member_drive :: "(string \<Rightarrow> drive_id option) \<Rightarrow> drive list \<Rightarrow> json \<Rightarrow> drive option" where
  "member_drive parse_uuid ds drv =
     opt_or
       (Option.bind (Option.bind (Option.bind (get ''uuid'' drv) as_str) parse_uuid) (\<lambda>u. find (\<lambda>d. d_id d = u) ds))
       (let wwn = opt_filter (\<lambda>s. s \<noteq> []) (Option.bind (get ''wwn'' drv) as_str);
            serial = opt_filter (\<lambda>s. s \<noteq> []) (Option.bind (get ''serial'' drv) as_str)
        in find (\<lambda>d. is_some_and (\<lambda>w. is_some_and (\<lambda>x. eq_ignore_ascii_case x w) (d_wwid d)) wwn
                     \<or> is_some_and (\<lambda>s. s = d_serial d) serial) ds)"

definition label_value :: "string \<Rightarrow> string \<Rightarrow> string option" where
  "label_value k ls =
     first_some (map (\<lambda>kv. if starts_with kv (k @ ''='') then Some (drop (length k + 1) kv) else None) (split_on (CHR ''/'') ls))"

definition member_place :: "drive option \<Rightarrow> json \<Rightarrow> (string \<times> nat) option" where
  "member_place ours m =
     opt_or
       (Option.bind ours (\<lambda>d. Option.bind (Option.bind (lo_shelf (d_location d)) shelf_key)
          (\<lambda>k. map_option (\<lambda>b. (k, unat b)) (lo_bay (d_location d)))))
       (Option.bind (Option.bind (get ''labels'' m) as_str) (\<lambda>ls.
          Option.bind (label_value ''shelf'' ls) (\<lambda>k.
            Option.bind (label_value ''bay'' ls) (\<lambda>b. map_option (\<lambda>n. (k, n)) (parse_unsigned (2 ^ 32) b)))))"

definition member_line :: "string \<Rightarrow> drive option \<Rightarrow> json \<Rightarrow> string" where
  "member_line name ours m =
     (let drv = (case get ''drive'' m of Some v \<Rightarrow> v | None \<Rightarrow> JNull);
          slot = (case Option.bind (get ''index'' m) as_u64 of Some i \<Rightarrow> dec (unat i) | None \<Rightarrow> ''?'');
          who = (case ours of
                   Some d \<Rightarrow> d_name d @ '' ('' @ d_serial d @ '')''
                 | None \<Rightarrow> (case Option.bind (get ''serial'' drv) as_str of Some s \<Rightarrow> s | None \<Rightarrow> []))
      in trim (''RAID set '' @ name @ '' slot '' @ slot @ '' failed '' @ who))"

definition array_name :: "json \<Rightarrow> string" where
  "array_name a =
     (case opt_or (opt_filter (\<lambda>s. s \<noteq> []) (Option.bind (get ''name'' a) as_str)) (Option.bind (get ''id'' a) as_str) of
        Some n \<Rightarrow> n | None \<Rightarrow> ''?'')"

definition failed_member ::
  "(string \<Rightarrow> drive_id option) \<Rightarrow> drive list \<Rightarrow> string \<Rightarrow> json \<Rightarrow> (string \<times> string) option" where
  "failed_member parse_uuid ds name m =
     (if Option.bind (get ''state'' m) as_str \<noteq> Some ''failed'' then None
      else (let ours = member_drive parse_uuid ds (case get ''drive'' m of Some v \<Rightarrow> v | None \<Rightarrow> JNull)
            in map_option (\<lambda>(shelf, bay). (shelf @ ''/'' @ dec bay, member_line name ours m)) (member_place ours m)))"

definition failed_member_bays :: "(string \<Rightarrow> drive_id option) \<Rightarrow> json list \<Rightarrow> drive list \<Rightarrow> (string \<rightharpoonup> string)" where
  "failed_member_bays parse_uuid arrays ds =
     map_of (rev (concat (map (\<lambda>a. List.map_filter (failed_member parse_uuid ds (array_name a)) (array_of a ''members'')) arrays)))"

text \<open>The LEDs to set and to clear, of those lit by us.\<close>

definition led_changes :: "string set \<Rightarrow> string set \<Rightarrow> (string \<times> bool) set" where
  "led_changes wanted lit = (\<lambda>k. (k, True)) ` (wanted - lit) \<union> (\<lambda>k. (k, False)) ` (lit - wanted)"

definition led_set :: "string \<times> bool \<Rightarrow> string set \<Rightarrow> string set" where
  "led_set c lit = (if snd c then insert (fst c) lit else lit - {fst c})"

section \<open>Drains\<close>

definition PENDING :: string where "PENDING = ''pending''"

definition drain_state_is :: "string \<Rightarrow> drive \<Rightarrow> bool" where
  "drain_state_is w d = is_some_and (\<lambda>r. dr_state r = w) (d_drain d)"

definition drain_due :: "drive \<Rightarrow> bool" where
  "drain_due d \<longleftrightarrow> d_membership d = Fleet \<and> d_activity d \<noteq> Missing \<and> drain_state_is PENDING d"

definition drain_idle :: "drive \<Rightarrow> drive" where
  "drain_idle d = (if d_activity d = Draining then d\<lparr>d_activity := Idle\<rparr> else d)"

definition default_drain :: drain_record where
  "default_drain = \<lparr>dr_state = [], dr_moved = 0, dr_failed = 0, dr_remaining = 0, dr_errors = [], dr_reason = [], dr_then_leave = False\<rparr>"

text \<open>Marked as wanted; whether it was not pending before.\<close>

definition mark_pending :: "string \<Rightarrow> bool \<Rightarrow> string \<Rightarrow> drive \<Rightarrow> bool \<times> drive" where
  "mark_pending reason then_leave err d =
     (let was = drain_state_is PENDING d;
          r0 = (case d_drain d of Some r \<Rightarrow> r | None \<Rightarrow> default_drain);
          r1 = (if was then r0 else r0\<lparr>dr_reason := reason, dr_then_leave := then_leave\<rparr>)
      in (\<not> was, drain_idle (d\<lparr>d_drain := Some (r1\<lparr>dr_state := PENDING, dr_errors := [err]\<rparr>)\<rparr>)))"

definition started_record :: "drain_status \<Rightarrow> string \<Rightarrow> bool \<Rightarrow> drain_record" where
  "started_record s reason then_leave =
     \<lparr>dr_state = ds_state s, dr_moved = ds_moved s, dr_failed = ds_failed s, dr_remaining = ds_remaining s,
      dr_errors = ds_errors s, dr_reason = reason, dr_then_leave = then_leave\<rparr>"

text \<open>What the engine answered: to the question where the drain is, and to the request to start one.\<close>

record drain_answers =
  da_status :: "string + drain_status option"
  da_start :: "string + drain_status"

definition engine_drain :: "drain_answers \<Rightarrow> string + drain_status" where
  "engine_drain a =
     (case da_status a of
        Inl e \<Rightarrow> Inl e
      | Inr (Some s) \<Rightarrow> (if drain_running s then Inr s else da_start a)
      | Inr None \<Rightarrow> da_start a)"

definition start_drain :: "drain_answers \<Rightarrow> string \<Rightarrow> bool \<Rightarrow> drive \<Rightarrow> (string + drain_record) \<times> drive" where
  "start_drain a reason then_leave d =
     (if d_membership d \<noteq> Fleet then (Inl (d_name d @ '': not in the fleet, nothing to drain''), d)
      else case opt_filter (\<lambda>r. dr_state r = ''running'') (d_drain d) of
        Some r \<Rightarrow> (Inr r, d)
      | None \<Rightarrow>
          (case engine_drain a of
             Inl e \<Rightarrow> (Inl e, d)
           | Inr s \<Rightarrow>
               (let r = started_record s reason then_leave; d1 = d\<lparr>d_drain := Some r\<rparr>
                in (Inr r, if drain_running s then d1\<lparr>d_activity := Draining\<rparr> else d1))))"

definition request_drain :: "drain_answers \<Rightarrow> string \<Rightarrow> bool \<Rightarrow> drive \<Rightarrow> (string + drain_record) \<times> drive" where
  "request_drain a reason then_leave d =
     (case start_drain a reason then_leave d of
        (Inr r, d1) \<Rightarrow> (Inr r, d1)
      | (Inl e, d1) \<Rightarrow> (Inl e, if d_membership d1 = Fleet then snd (mark_pending reason then_leave e d1) else d1))"

definition retry_pending :: "drain_answers \<Rightarrow> drive \<Rightarrow> drive" where
  "retry_pending a d =
     (if drain_due d then (case d_drain d of Some r \<Rightarrow> snd (request_drain a (dr_reason r) (dr_then_leave r) d) | None \<Rightarrow> d) else d)"

definition drop_pending_drain :: "drive \<Rightarrow> drive" where
  "drop_pending_drain d =
     (if is_some_and (\<lambda>r. dr_state r = PENDING \<and> dr_reason r = ''health'') (d_drain d) then d\<lparr>d_drain := None\<rparr> else d)"

definition cancelled :: "drive \<Rightarrow> drive" where
  "cancelled d = drain_idle (d\<lparr>d_drain := map_option (\<lambda>r. r\<lparr>dr_state := ''cancelled''\<rparr>) (d_drain d)\<rparr>)"

definition retired :: "drive \<Rightarrow> drive" where
  "retired d =
     d\<lparr>d_membership := Out, d_fleet_partition := None, d_activity := Idle, d_pushed_labels := [], d_pushed_health := None,
       d_pushed_overcommit := None\<rparr>"

definition poll_record :: "drain_status \<Rightarrow> drive \<Rightarrow> drive" where
  "poll_record s d =
     d\<lparr>d_drain := map_option (\<lambda>r. r\<lparr>dr_state := ds_state s, dr_moved := ds_moved s, dr_failed := ds_failed s,
        dr_remaining := ds_remaining s, dr_errors := ds_errors s\<rparr>) (d_drain d)\<rparr>"

text \<open>
  One running drain followed: the answer to the question where it is, and whether the engine lets the
  drive go when it is asked to (\<open>retire\<close>).
\<close>

definition poll_drain :: "string + drain_status option \<Rightarrow> bool \<Rightarrow> drive \<Rightarrow> drive" where
  "poll_drain answer lets_go d =
     (if \<not> drain_state_is ''running'' d then d
      else case answer of
        Inl _ \<Rightarrow> d
      | Inr None \<Rightarrow>
          (case d_drain d of
             Some r \<Rightarrow> snd (mark_pending (dr_reason r) (dr_then_leave r) ''the engine has no record of this drain (restarted?)'' d)
           | None \<Rightarrow> d)
      | Inr (Some s) \<Rightarrow>
          (let d1 = poll_record s d; leave = is_some_and dr_then_leave (d_drain d) in
           if ds_state s = ''running'' then d1
           else if ds_state s = ''empty'' then
             (if leave then (if lets_go then retired d1 else d1) else d1\<lparr>d_activity := Idle\<rparr>)
           else if ds_state s = ''stuck'' then d1
           else drain_idle d1))"

text \<open>
  One drive's health report: whether the engine took it, and what it answers to the drain that a failing
  drive gets without anyone asking.
\<close>

definition push_health :: "bool \<Rightarrow> bool \<Rightarrow> drain_answers \<Rightarrow> drive \<Rightarrow> drive" where
  "push_health drain_on_failing accepted a d =
     (if \<not> health_due d \<or> \<not> accepted then d
      else let w = health_word d; d1 = health_told w d in
        if (w = ''failed'' \<or> w = ''failing'') \<and> drain_on_failing then snd (request_drain a ''health'' True d1)
        else if w = ''healthy'' then drop_pending_drain d1 else d1)"

text \<open>
  One tick as far as it moves drains, in its order: the health report with the drain it asks for or drops,
  the running drain followed, a pending one tried again. Before these the tick pushes labels, overcommit
  and thermal state, after them it sets the fault LEDs and lets drives join: none of that changes the
  drain of a fleet drive. The locks \<open>poll_drains\<close> takes one after the other are one step here.
\<close>

record drain_config =
  dc_push_health :: bool
  dc_drain_on_failing :: bool

record tick_answers =
  ta_reported :: bool
  ta_health :: drain_answers
  ta_poll :: "string + drain_status option"
  ta_lets_go :: bool
  ta_drain :: drain_answers

definition reported :: "drain_config \<Rightarrow> tick_answers \<Rightarrow> drive \<Rightarrow> drive" where
  "reported c a d = (if dc_push_health c then push_health (dc_drain_on_failing c) (ta_reported a) (ta_health a) d else d)"

definition drain_tick :: "drain_config \<Rightarrow> tick_answers \<Rightarrow> drive \<Rightarrow> drive" where
  "drain_tick c a d = retry_pending (ta_drain a) (poll_drain (ta_poll a) (ta_lets_go a) (reported c a d))"

definition drain_ticks :: "drain_config \<Rightarrow> tick_answers list \<Rightarrow> drive \<Rightarrow> drive" where
  "drain_ticks c as d = foldl (\<lambda>d a. drain_tick c a d) d as"

section \<open>Joining\<close>

definition auto_add_candidate :: "drive \<Rightarrow> bool" where
  "auto_add_candidate d \<longleftrightarrow> fleet_join_blocker d = None \<and> d_designation d = NoDesignation
     \<and> health_of d \<noteq> health_status.Unknown \<and> \<not> is_some_and throttle_background (d_thermal d)"

definition AUTO_ADD_RETRY :: nat where "AUTO_ADD_RETRY = 600"

text \<open>Those tried again at \<open>now\<close>, with the times of the last attempts.\<close>

definition auto_add_due :: "time \<Rightarrow> (drive_id \<rightharpoonup> time) \<Rightarrow> drive \<Rightarrow> bool" where
  "auto_add_due now attempted d \<longleftrightarrow> auto_add_candidate d \<and> \<not> is_some_and (\<lambda>t. now - t < AUTO_ADD_RETRY) (attempted (d_id d))"

definition joined :: "labels \<Rightarrow> drive \<Rightarrow> drive" where
  "joined ls d =
     d\<lparr>d_membership := Fleet, d_fleet_partition := None, d_pushed_labels := ls, d_pushed_health := None,
       d_pushed_overcommit := None, d_drain := None\<rparr>"

text \<open>What the enroll step of a job does to the drive, once the engine has it.\<close>

definition enrolled :: "bool \<Rightarrow> labels \<Rightarrow> drive \<Rightarrow> drive" where
  "enrolled partitioned ls d =
     d\<lparr>d_membership := Fleet, d_fleet_partition := (if partitioned then Some 1 else None), d_pushed_labels := ls,
       d_pushed_health := None, d_pushed_overcommit := None, d_drain := None\<rparr>"

section \<open>What a drain keeps and when it ends\<close>

lemma drain_ticks_simps [simp]:
  "drain_ticks c [] d = d" "drain_ticks c (a # as) d = drain_ticks c as (drain_tick c a d)"
  "drain_ticks c (as @ bs) d = drain_ticks c bs (drain_ticks c as d)"
  by (simp_all add: drain_ticks_def)

definition refuses :: "drain_answers \<Rightarrow> bool" where "refuses a \<longleftrightarrow> (\<exists>e. engine_drain a = Inl e)"

definition wanted :: "string \<Rightarrow> bool \<Rightarrow> drive \<Rightarrow> bool" where
  "wanted reason then_leave d \<longleftrightarrow> d_membership d = Fleet \<and> d_activity d \<noteq> Missing
     \<and> (\<exists>r. d_drain d = Some r \<and> dr_state r = PENDING \<and> dr_reason r = reason \<and> dr_then_leave r = then_leave)"

lemma wanted_due: "wanted reason then_leave d \<Longrightarrow> drain_due d"
  by (auto simp: wanted_def drain_due_def drain_state_is_def)

lemma drain_idle_fields [simp]:
  "d_membership (drain_idle d) = d_membership d" "d_drain (drain_idle d) = d_drain d"
  "d_activity (drain_idle d) = (if d_activity d = Draining then Idle else d_activity d)"
  by (simp_all add: drain_idle_def)

lemma request_refused:
  assumes "refuses a" "d_membership d = Fleet" "d_activity d \<noteq> Missing" "\<not> drain_state_is ''running'' d"
    and "drain_state_is PENDING d \<longrightarrow> is_some_and (\<lambda>r. dr_reason r = reason \<and> dr_then_leave r = then_leave) (d_drain d)"
  shows "wanted reason then_leave (snd (request_drain a reason then_leave d))"
proof -
  obtain e where "engine_drain a = Inl e" using assms(1) by (auto simp: refuses_def)
  moreover have "opt_filter (\<lambda>r. dr_state r = ''running'') (d_drain d) = None"
    using assms(4) by (cases "d_drain d") (auto simp: drain_state_is_def)
  ultimately have "start_drain a reason then_leave d = (Inl e, d)" using assms(2) by (simp add: start_drain_def)
  with assms show ?thesis
    by (cases "d_drain d") (auto simp: request_drain_def mark_pending_def wanted_def drain_state_is_def Let_def)
qed

lemma request_keeps:
  assumes "refuses a" "wanted reason then_leave d"
  shows "wanted reason then_leave (snd (request_drain a why leave d))"
proof -
  obtain e where "engine_drain a = Inl e" using assms(1) by (auto simp: refuses_def)
  moreover have "opt_filter (\<lambda>r. dr_state r = ''running'') (d_drain d) = None"
    using assms(2) by (auto simp: wanted_def PENDING_def)
  ultimately have "start_drain a why leave d = (Inl e, d)" using assms(2) by (simp add: start_drain_def wanted_def)
  with assms(2) show ?thesis by (auto simp: request_drain_def mark_pending_def wanted_def drain_state_is_def Let_def)
qed

text \<open>What is due of a drive's health depends on nothing a drain changes.\<close>

lemma health_due_cong:
  assumes "d_membership d' = d_membership d" "d_activity d' = Missing \<longleftrightarrow> d_activity d = Missing" "d_health d' = d_health d"
    and "d_designation d' = d_designation d" "d_pushed_health d' = d_pushed_health d"
  shows "health_due d' = health_due d" "health_word d' = health_word d"
  using assms by (auto simp: health_due_def health_word_def stormblock_health_def)

lemma request_same:
  "d_health (snd (request_drain a reason then_leave d)) = d_health d"
  "d_designation (snd (request_drain a reason then_leave d)) = d_designation d"
  "d_pushed_health (snd (request_drain a reason then_leave d)) = d_pushed_health d"
  "d_membership (snd (request_drain a reason then_leave d)) = d_membership d"
  "d_activity d \<noteq> Missing \<Longrightarrow> d_activity (snd (request_drain a reason then_leave d)) \<noteq> Missing"
  by (auto simp: request_drain_def start_drain_def mark_pending_def drain_idle_def Let_def split: option.split sum.split)

lemma health_due_drain [simp]:
  "health_due (d\<lparr>d_drain := r\<rparr>) = health_due d" "health_word (d\<lparr>d_drain := r\<rparr>) = health_word d"
  by (rule health_due_cong; simp)+

lemma health_due_request:
  assumes "d_activity d \<noteq> Missing"
  shows "health_due (snd (request_drain a reason then_leave d)) = health_due d"
    "health_word (snd (request_drain a reason then_leave d)) = health_word d"
  using assms by (intro health_due_cong; simp add: request_same)+

lemma health_told_not_due: "\<not> health_due (health_told (health_word d) d)"
  by (simp add: health_due_def health_told_def health_word_def stormblock_health_def)

text \<open>A recovery to report: a pending drain that health asked for is dropped with it.\<close>

definition recovers :: "drain_config \<Rightarrow> string \<Rightarrow> drive \<Rightarrow> bool" where
  "recovers c reason d \<longleftrightarrow> dc_push_health c \<and> reason = ''health'' \<and> health_due d \<and> health_word d = ''healthy''"

lemma recovery_drops:
  assumes "recovers c ''health'' d" "wanted ''health'' then_leave d" "ta_reported a"
  shows "d_drain (drain_tick c a d) = None"
proof -
  have "reported c a d = (health_told ''healthy'' d)\<lparr>d_drain := None\<rparr>"
    using assms by (auto simp: reported_def recovers_def push_health_def drop_pending_drain_def health_told_def wanted_def)
  then show ?thesis by (simp add: drain_tick_def poll_drain_def retry_pending_def drain_due_def drain_state_is_def)
qed

lemma told_wanted: "wanted reason then_leave d \<Longrightarrow> wanted reason then_leave (health_told w d)"
  by (simp add: wanted_def health_told_def)

lemma reported_wanted:
  assumes "wanted reason then_leave d" "refuses (ta_health a)" "\<not> recovers c reason d"
  shows "wanted reason then_leave (reported c a d)"
proof -
  have "drop_pending_drain (health_told w d) = health_told w d" if "reason \<noteq> ''health''" for w
    using assms(1) that by (auto simp: drop_pending_drain_def wanted_def health_told_def)
  then show ?thesis
    using assms told_wanted [OF assms(1)] request_keeps [OF assms(2) told_wanted [OF assms(1)]]
    by (auto simp: reported_def push_health_def recovers_def Let_def)
qed

lemma reported_not_due:
  assumes "d_activity d \<noteq> Missing" "\<not> recovers c reason d"
  shows "\<not> recovers c reason (reported c a d)"
proof (cases "dc_push_health c \<and> health_due d \<and> ta_reported a")
  case True
  let ?t = "health_told (health_word d) d"
  have t: "d_activity ?t \<noteq> Missing" using assms(1) by (simp add: health_told_def)
  have "health_due (reported c a d) = health_due ?t"
    using True health_due_request(1) [OF t] health_due_drain
    by (simp add: reported_def push_health_def Let_def drop_pending_drain_def)
  then show ?thesis using health_told_not_due by (simp add: recovers_def)
qed (use assms in \<open>auto simp: reported_def push_health_def\<close>)

lemma wanted_tick:
  assumes "wanted reason then_leave (reported c a d)"
  shows "drain_tick c a d = snd (request_drain (ta_drain a) reason then_leave (reported c a d))"
proof -
  from assms have "\<not> drain_state_is ''running'' (reported c a d)" by (auto simp: wanted_def drain_state_is_def PENDING_def)
  then have "poll_drain (ta_poll a) (ta_lets_go a) (reported c a d) = reported c a d" by (simp add: poll_drain_def)
  with assms wanted_due [OF assms] show ?thesis by (auto simp: drain_tick_def retry_pending_def wanted_def)
qed

lemma ticks_wanted:
  assumes "wanted reason then_leave d" "\<not> recovers c reason d"
    and "\<forall>a \<in> set as. refuses (ta_drain a) \<and> refuses (ta_health a)"
  shows "wanted reason then_leave (drain_ticks c as d)"
  using assms
proof (induction as arbitrary: d)
  case (Cons a as)
  let ?r = "reported c a d"
  from Cons.prems have w: "wanted reason then_leave ?r" by (intro reported_wanted) auto
  from Cons.prems(3) w have "wanted reason then_leave (drain_tick c a d)"
    unfolding wanted_tick [OF w] by (intro request_keeps) auto
  moreover have "\<not> recovers c reason (drain_tick c a d)"
  proof -
    have m: "d_activity ?r \<noteq> Missing" using w by (simp add: wanted_def)
    have "\<not> recovers c reason ?r" using Cons.prems by (intro reported_not_due) (auto simp: wanted_def)
    moreover have "health_due (drain_tick c a d) = health_due ?r" "health_word (drain_tick c a d) = health_word ?r"
      unfolding wanted_tick [OF w] by (fact health_due_request [OF m])+
    ultimately show ?thesis by (simp add: recovers_def)
  qed
  ultimately show ?case using Cons by simp
qed simp

text \<open>A fleet drive, one that drains to leave, and the answers of three engines, for the witnesses.\<close>

definition seen_drain :: "string \<Rightarrow> drain_status" where
  "seen_drain w = \<lparr>ds_state = w, ds_moved = 0, ds_failed = 0, ds_remaining = 0, ds_errors = []\<rparr>"

definition fleet_drive :: drive where "fleet_drive = good_drive\<lparr>d_membership := Fleet\<rparr>"

definition leaving_drive :: drive where
  "leaving_drive = fleet_drive\<lparr>d_activity := Draining, d_drain := Some (started_record (seen_drain ''running'') ''reclaim'' True)\<rparr>"

definition hot_state :: drive_thermal where
  "hot_state = \<lparr>dt_level = Critical, dt_temp_c = None, dt_limits = \<lparr>lm_warn_c = Fin False 60 0, lm_crit_c = Fin False 70 0, lm_warn_source = FromDevice, lm_crit_source = FromDevice\<rparr>, dt_since = 0,
     throttle_background = True, exclude_new_placement = True, replace_proposed = False\<rparr>"

definition failed_drive :: drive where "failed_drive = fleet_drive\<lparr>d_designation := DesignatedFailed\<rparr>"

definition all_on :: drain_config where "all_on = \<lparr>dc_push_health = True, dc_drain_on_failing = True\<rparr>"

definition down :: drain_answers where "down = \<lparr>da_status = Inl ''down'', da_start = Inl ''down''\<rparr>"

text \<open>An engine that is down, one that takes the report while it still rebuilds, one that runs, one that is done.\<close>

definition no_engine :: tick_answers where
  "no_engine = \<lparr>ta_reported = False, ta_health = down, ta_poll = Inl ''down'', ta_lets_go = False, ta_drain = down\<rparr>"

definition rebuilding :: drain_answers where "rebuilding = \<lparr>da_status = Inr None, da_start = Inl ''409 rebuilding''\<rparr>"

definition engine_rebuilds :: tick_answers where
  "engine_rebuilds = \<lparr>ta_reported = True, ta_health = rebuilding, ta_poll = Inr None, ta_lets_go = False, ta_drain = rebuilding\<rparr>"

definition engine_runs :: tick_answers where
  "engine_runs = \<lparr>ta_reported = True, ta_health = \<lparr>da_status = Inr None, da_start = Inr (seen_drain ''running'')\<rparr>,
     ta_poll = Inr None, ta_lets_go = False, ta_drain = \<lparr>da_status = Inr None, da_start = Inr (seen_drain ''running'')\<rparr>\<rparr>"

definition engine_empty :: tick_answers where
  "engine_empty = \<lparr>ta_reported = True, ta_health = rebuilding, ta_poll = Inr (Some (seen_drain ''empty'')), ta_lets_go = True,
     ta_drain = \<lparr>da_status = Inr None, da_start = Inr (seen_drain ''empty'')\<rparr>\<rparr>"

lemmas fleet_examples =
  fleet_drive_def failed_drive_def leaving_drive_def good_drive_def base_drive_def no_engine_def engine_runs_def engine_empty_def
  engine_rebuilds_def rebuilding_def down_def all_on_def seen_drain_def

text \<open>
  C25.refused_drain_kept. A drain asked for that the engine does not start stays wanted, with its first
  reason and whether the drive is to leave, through any number of ticks at which the engine refuses
  again, the drain a failing drive's health report asks for included, unless it is a drain that health
  asked for and the drive's recovery is to be reported (which drops it). The tick at which the engine
  runs it, no health report being due by then, makes it a running drain with that reason.
\<close>

theorem refused_drain_kept:
  assumes "d_membership d = Fleet" "d_activity d \<noteq> Missing" "\<not> drain_state_is ''running'' d" "\<not> drain_state_is PENDING d"
    and "refuses a" "\<forall>a \<in> set as. refuses (ta_drain a) \<and> refuses (ta_health a)" "\<not> recovers c reason d"
    and "engine_drain (ta_drain b) = Inr s" "drain_running s"
  shows "let d' = drain_ticks c as (snd (request_drain a reason then_leave d)) in
      drain_due d' \<and> is_some_and (\<lambda>r. dr_reason r = reason \<and> dr_then_leave r = then_leave) (d_drain d')
      \<and> (\<not> (dc_push_health c \<and> health_due d') \<longrightarrow>
           d_drain (drain_tick c b d') = Some (started_record s reason then_leave) \<and> d_activity (drain_tick c b d') = Draining)"
proof -
  let ?q = "snd (request_drain a reason then_leave d)"
  let ?d = "drain_ticks c as ?q"
  have "wanted reason then_leave ?q" using assms request_refused by simp
  moreover have "health_due ?q = health_due d" "health_word ?q = health_word d"
    by (fact health_due_request [OF assms(2)])+
  ultimately have w: "wanted reason then_leave ?d" using assms(6,7) by (intro ticks_wanted) (auto simp: recovers_def)
  have "d_drain (drain_tick c b ?d) = Some (started_record s reason then_leave) \<and> d_activity (drain_tick c b ?d) = Draining"
    if "\<not> (dc_push_health c \<and> health_due ?d)"
  proof -
    have r: "reported c b ?d = ?d" using that by (auto simp: reported_def push_health_def)
    have "opt_filter (\<lambda>r. dr_state r = ''running'') (d_drain ?d) = None" using w by (auto simp: wanted_def PENDING_def)
    then show ?thesis
      using assms(8,9) w wanted_tick [of reason then_leave c b ?d] unfolding r
      by (simp add: request_drain_def start_drain_def wanted_def Let_def)
  qed
  with w wanted_due [OF w] show ?thesis by (auto simp: wanted_def Let_def)
qed

text \<open>A drive designated failed whose engine is down, then takes the report while it rebuilds, then runs the drain.\<close>

lemma failed_drive_reported:
  "\<not> health_due (drain_ticks all_on [no_engine, engine_rebuilds] (snd (request_drain down ''health'' True failed_drive)))"
  by (simp add: fleet_examples drain_tick_def reported_def push_health_def health_due_def health_word_def health_told_def
      request_drain_def start_drain_def engine_drain_def mark_pending_def drain_idle_def drain_state_is_def poll_drain_def
      retry_pending_def drain_due_def status_of_def PENDING_def default_drain_def)

theorem refused_drain_kept_witness:
  "let d' = drain_ticks all_on [no_engine, engine_rebuilds] (snd (request_drain down ''health'' True failed_drive)) in
      drain_due d' \<and> d_drain (drain_tick all_on engine_runs d') = Some (started_record (seen_drain ''running'') ''health'' True)
      \<and> d_activity (drain_tick all_on engine_runs d') = Draining"
proof -
  have "let d' = drain_ticks all_on [no_engine, engine_rebuilds] (snd (request_drain down ''health'' True failed_drive)) in
      drain_due d' \<and> is_some_and (\<lambda>r. dr_reason r = ''health'' \<and> dr_then_leave r = True) (d_drain d')
      \<and> (\<not> (dc_push_health all_on \<and> health_due d') \<longrightarrow>
           d_drain (drain_tick all_on engine_runs d') = Some (started_record (seen_drain ''running'') ''health'' True)
           \<and> d_activity (drain_tick all_on engine_runs d') = Draining)"
    by (rule refused_drain_kept)
      (simp_all add: fleet_examples refuses_def engine_drain_def drain_state_is_def drain_running_def recovers_def health_word_def)
  with failed_drive_reported show ?thesis unfolding Let_def by blast
qed

lemma membership_request: "d_membership (snd (request_drain a reason then_leave d)) = d_membership d"
  by (auto simp: request_drain_def start_drain_def mark_pending_def Let_def split: option.split sum.split)

lemma membership_reported: "d_membership (reported c a d) = d_membership d"
  by (simp add: reported_def push_health_def membership_request health_told_def drop_pending_drain_def Let_def)

lemma membership_retry: "d_membership (retry_pending a d) = d_membership d"
  by (auto simp: retry_pending_def membership_request split: option.split)

text \<open>
  C14.leaves_only_when_empty. Drains take a drive out of the fleet only at a tick at which its drain was
  running, after that tick's health report, and meant to end so, the engine said that nothing is left on
  the drive, and the engine let the drive go.
\<close>

theorem leaves_only_when_empty:
  assumes "d_membership d = Fleet" "d_membership (drain_ticks c as d) \<noteq> Fleet"
  shows "\<exists>pre a post s. as = pre @ a # post \<and> d_membership (drain_ticks c pre d) = Fleet
    \<and> drain_state_is ''running'' (reported c a (drain_ticks c pre d))
    \<and> is_some_and dr_then_leave (d_drain (reported c a (drain_ticks c pre d)))
    \<and> ta_poll a = Inr (Some s) \<and> drain_empty s \<and> ta_lets_go a"
  using assms(2)
proof (induction as rule: rev_induct)
  case Nil
  with assms(1) show ?case by simp
next
  case (snoc a as)
  show ?case
  proof (cases "d_membership (drain_ticks c as d) = Fleet")
    case False
    from snoc.IH [OF False] obtain pre b post s where "as = pre @ b # post \<and> d_membership (drain_ticks c pre d) = Fleet
      \<and> drain_state_is ''running'' (reported c b (drain_ticks c pre d))
      \<and> is_some_and dr_then_leave (d_drain (reported c b (drain_ticks c pre d)))
      \<and> ta_poll b = Inr (Some s) \<and> drain_empty s \<and> ta_lets_go b" by blast
    then show ?thesis by (intro exI [of _ pre] exI [of _ b] exI [of _ "post @ [a]"] exI [of _ s]) simp
  next
    case True
    let ?d = "reported c a (drain_ticks c as d)"
    have F: "d_membership ?d = Fleet" using True by (simp add: membership_reported)
    from snoc.prems have "d_membership (poll_drain (ta_poll a) (ta_lets_go a) ?d) \<noteq> Fleet"
      by (simp add: drain_tick_def membership_retry)
    with F have "drain_state_is ''running'' ?d \<and> is_some_and dr_then_leave (d_drain ?d)
        \<and> (\<exists>s. ta_poll a = Inr (Some s) \<and> drain_empty s \<and> ta_lets_go a)"
      by (auto simp: poll_drain_def mark_pending_def poll_record_def drain_empty_def Let_def split: sum.splits option.splits if_splits)
    with True show ?thesis by (metis append_Nil2 append.assoc)
  qed
qed

theorem leaves_only_when_empty_witness:
  "\<exists>pre a post s. [no_engine, engine_empty] = pre @ a # post \<and> d_membership (drain_ticks all_on pre leaving_drive) = Fleet
    \<and> drain_state_is ''running'' (reported all_on a (drain_ticks all_on pre leaving_drive))
    \<and> is_some_and dr_then_leave (d_drain (reported all_on a (drain_ticks all_on pre leaving_drive)))
    \<and> ta_poll a = Inr (Some s) \<and> drain_empty s \<and> ta_lets_go a"
  by (rule leaves_only_when_empty)
    (simp_all add: fleet_examples drain_tick_def poll_drain_def drain_state_is_def poll_record_def retired_def retry_pending_def
      drain_due_def PENDING_def started_record_def reported_def push_health_def health_due_def health_word_def status_of_def
      stormblock_health_def drop_pending_drain_def health_told_def Let_def)

text \<open>A health report that asks for a drain.\<close>

definition health_drains :: "drain_config \<Rightarrow> drive \<Rightarrow> bool" where
  "health_drains c d \<longleftrightarrow> dc_push_health c \<and> dc_drain_on_failing c \<and> health_due d
     \<and> (health_word d = ''failed'' \<or> health_word d = ''failing'')"

lemma empty_tick:
  assumes "drain_state_is ''empty'' d" "\<not> health_drains c d"
  shows "drain_tick c a d = d \<or> drain_tick c a d = health_told (health_word d) d"
proof -
  have n: "\<not> drain_state_is ''running'' d" "\<not> drain_state_is PENDING d"
    using assms(1) by (auto simp: drain_state_is_def is_some_and_iff PENDING_def)
  have rest: "retry_pending (ta_drain a) (poll_drain (ta_poll a) (ta_lets_go a) x) = x" if "d_drain x = d_drain d" for x
    using n that by (simp add: poll_drain_def retry_pending_def drain_due_def drain_state_is_def)
  have "drop_pending_drain (health_told w d) = health_told w d" for w
    using n(2) by (auto simp: drop_pending_drain_def health_told_def drain_state_is_def is_some_and_iff)
  then have "reported c a d = d \<or> reported c a d = health_told (health_word d) d"
    using assms(2) by (auto simp: reported_def push_health_def health_drains_def Let_def)
  then show ?thesis unfolding drain_tick_def using rest by (auto simp: health_told_def)
qed

lemma empty_ticks:
  assumes "drain_state_is ''empty'' d" "\<not> health_drains c d"
  shows "d_drain (drain_ticks c as d) = d_drain d \<and> d_membership (drain_ticks c as d) = d_membership d
    \<and> d_activity (drain_ticks c as d) = d_activity d"
  using assms
proof (induction as arbitrary: d)
  case (Cons a as)
  let ?t = "health_told (health_word d) d"
  have "drain_state_is ''empty'' ?t" using Cons.prems(1) by (simp add: drain_state_is_def health_told_def)
  moreover have "\<not> health_drains c ?t" using health_told_not_due by (simp add: health_drains_def)
  ultimately have "d_drain (drain_ticks c as ?t) = d_drain ?t \<and> d_membership (drain_ticks c as ?t) = d_membership ?t
    \<and> d_activity (drain_ticks c as ?t) = d_activity ?t" by (rule Cons.IH)
  with empty_tick [OF Cons.prems, of a] Cons.IH [OF Cons.prems] show ?case by (auto simp: health_told_def)
qed simp

lemma start_empty:
  assumes "d_membership d = Fleet" "drain_empty s" "\<not> drain_state_is ''running'' d" "engine_drain a = Inr s"
  shows "snd (start_drain a reason then_leave d) = d\<lparr>d_drain := Some (started_record s reason then_leave)\<rparr>"
proof -
  have "opt_filter (\<lambda>r. dr_state r = ''running'') (d_drain d) = None"
    using assms(3) by (cases "d_drain d") (auto simp: drain_state_is_def)
  then show ?thesis using assms by (simp add: start_drain_def Let_def drain_empty_def drain_running_def)
qed

lemma health_drains_drain [simp]: "health_drains c (d\<lparr>d_drain := r\<rparr>) = health_drains c d"
  by (simp add: health_drains_def health_due_drain)

text \<open>
  C34.empty_drain_strands. A drive that is to leave stays in the fleet, whatever the engine answers at any number of
  later ticks, when the engine finds it empty at the start of its drain, or when the engine will not let
  it go at the one tick that finds it empty: the record then says empty, which no tick follows or tries
  again. Only a drain asked for anew gets it out: by a request, or by a health report that turns to
  failing, which the hypotheses exclude.
\<close>

theorem empty_drain_strands:
  assumes "d_membership d = Fleet" "drain_empty s" "\<not> drain_state_is ''running'' d" "engine_drain a = Inr s" "\<not> health_drains c d"
    and "d_membership d2 = Fleet" "drain_state_is ''running'' d2" "is_some_and dr_then_leave (d_drain d2)" "\<not> health_drains c d2"
  shows "(let d1 = snd (start_drain a reason True d); d' = drain_ticks c as d1 in
      d_membership d' = Fleet \<and> d_drain d' = Some (started_record s reason True))
    \<and> (let d1 = poll_drain (Inr (Some s)) False d2; d' = drain_ticks c as d1 in
      d_membership d' = Fleet \<and> drain_state_is ''empty'' d' \<and> is_some_and dr_then_leave (d_drain d') \<and> d_activity d' = d_activity d2)"
proof (rule conjI)
  let ?d = "d\<lparr>d_drain := Some (started_record s reason True)\<rparr>"
  have "drain_state_is ''empty'' ?d" using assms(2) by (simp add: drain_state_is_def started_record_def drain_empty_def)
  from empty_ticks [OF this, of c as] assms(1,5) show "let d1 = snd (start_drain a reason True d); d' = drain_ticks c as d1 in
      d_membership d' = Fleet \<and> d_drain d' = Some (started_record s reason True)"
    by (simp add: start_empty [OF assms(1-4)])
next
  have p: "poll_drain (Inr (Some s)) False d2 = poll_record s d2"
    using assms(2,7,8) by (simp add: poll_drain_def Let_def drain_empty_def)
  have e: "drain_state_is ''empty'' (poll_record s d2)" "is_some_and dr_then_leave (d_drain (poll_record s d2))"
    using assms(2,7,8) by (auto simp: drain_state_is_def poll_record_def drain_empty_def is_some_and_iff)
  have "\<not> health_drains c (poll_record s d2)" using assms(9) by (simp add: poll_record_def)
  from empty_ticks [OF e(1) this, of as] e assms(6) show "let d1 = poll_drain (Inr (Some s)) False d2; d' = drain_ticks c as d1 in
      d_membership d' = Fleet \<and> drain_state_is ''empty'' d' \<and> is_some_and dr_then_leave (d_drain d') \<and> d_activity d' = d_activity d2"
    unfolding p by (simp add: drain_state_is_def poll_record_def)
qed

theorem empty_drain_strands_witness:
  "(let d1 = snd (start_drain (ta_drain engine_empty) ''reclaim'' True fleet_drive); d' = drain_ticks all_on [engine_runs, engine_empty] d1 in
      d_membership d' = Fleet \<and> d_drain d' = Some (started_record (seen_drain ''empty'') ''reclaim'' True))
    \<and> (let d1 = poll_drain (Inr (Some (seen_drain ''empty''))) False leaving_drive; d' = drain_ticks all_on [engine_runs, engine_empty] d1 in
      d_membership d' = Fleet \<and> drain_state_is ''empty'' d' \<and> is_some_and dr_then_leave (d_drain d')
      \<and> d_activity d' = d_activity leaving_drive)"
  by (rule empty_drain_strands)
    (simp_all add: fleet_examples engine_drain_def drain_state_is_def drain_empty_def started_record_def drain_running_def
      health_drains_def health_word_def stormblock_health_def status_of_def)

text \<open>
  C36.rejoined_drive_not_told. A drive that leaves the fleet and joins again is a new one to the engine, and its
  overcommit setting is due again; its thermal state is not, when the engine was told it before, since
  neither the leave nor the join forgets that.
\<close>

theorem rejoined_drive_not_told:
  assumes "d_thermal d = Some t" "thermal_push_due None t" "d_activity d \<noteq> Missing"
  shows "let d' = joined ls (retired (thermal_told t d)) in overcommit_due d' \<and> \<not> thermal_due d'
    \<and> thermal_due (joined ls (d\<lparr>d_activity := Idle, d_pushed_thermal := None\<rparr>))"
  using assms by (simp add: joined_def retired_def thermal_told_def overcommit_due_def thermal_due_def holds_slabs_def thermal_push_due_def)

theorem rejoined_drive_not_told_witness:
  "let d' = joined [] (retired (thermal_told hot_state (fleet_drive\<lparr>d_thermal := Some hot_state\<rparr>)))
    in overcommit_due d' \<and> \<not> thermal_due d'
    \<and> thermal_due (joined [] (fleet_drive\<lparr>d_thermal := Some hot_state, d_activity := Idle, d_pushed_thermal := None\<rparr>))"
  by (rule rejoined_drive_not_told)
    (simp_all add: hot_state_def thermal_push_due_def fleet_drive_def good_drive_def base_drive_def)

text \<open>The changes of the LEDs, in whatever order, light those wanted.\<close>

lemma led_changes_done:
  assumes "set cs = led_changes wanted_bays lit"
  shows "fold led_set cs lit = wanted_bays"
proof -
  have "fold led_set cs l = (l \<union> {k. (k, True) \<in> set cs}) - {k. (k, False) \<in> set cs}"
    if "\<forall>k. \<not> ((k, True) \<in> set cs \<and> (k, False) \<in> set cs)" for l
    using that
  proof (induction cs arbitrary: l)
    case (Cons c cs)
    from Cons.prems have "\<forall>k. \<not> ((k, True) \<in> set cs \<and> (k, False) \<in> set cs)" by auto
    from Cons.IH [OF this] Cons.prems show ?case by (cases c; cases "snd c") (auto simp: led_set_def)
  qed simp
  moreover have "\<forall>k. \<not> ((k, True) \<in> set cs \<and> (k, False) \<in> set cs)" using assms by (auto simp: led_changes_def)
  ultimately show ?thesis using assms by (auto simp: led_changes_def)
qed

end
