(* ===== verification/Erase.thy ===== *)
theory Erase
  imports Worker Formats
begin

text \<open>
  \<open>src/src/erase.rs\<close>: the low-level steps of a job beyond FORMAT UNIT - NVMe Format NVM and Sanitize, SCSI
  SANITIZE, ATA SECURITY ERASE UNIT - and the step of \<open>src/src/worker.rs\<close> that puts the one-time password
  of a security erase on record. The admin command and SG_IO ioctls are the kernel's: what they answer
  after the commands sent so far is a parameter. The polls of a wait are a list, with the seconds since its start.
\<close>

fun method_debug :: "sanitize_method \<Rightarrow> string" where
  "method_debug BlockErase = ''Block''"
| "method_debug CryptoErase = ''Crypto''"
| "method_debug Overwrite = ''Overwrite''"

text \<open>\<open>{:x}\<close>.\<close>

fun hex_nat :: "nat \<Rightarrow> string" where
  "hex_nat n = (if n < 16 then [ascii_lower (hex_digit n)] else hex_nat (n div 16) @ [ascii_lower (hex_digit (n mod 16))])"

declare hex_nat.simps [simp del]

section \<open>NVMe\<close>

record lba_format =
  lf_index :: u8
  lf_data_size :: u32
  lf_metadata_size :: u16
  lf_relative_performance :: u8

definition lba_format_of :: "bytes \<Rightarrow> nat \<Rightarrow> lba_format option" where
  "lba_format_of buf i =
     (let d = word_of_le (slice (128 + 4 * i) 4 buf) :: u32; lbads = drop_bit 16 d AND 0xFF in
      if 9 \<le> lbads \<and> lbads \<le> 16
      then Some \<lparr>lf_index = word_of_nat i, lf_data_size = push_bit (unat lbads) 1, lf_metadata_size = ucast (d AND 0xFFFF),
             lf_relative_performance = ucast (drop_bit 24 d AND 3)\<rparr>
      else None)"

definition parse_identify_ns :: "bytes \<Rightarrow> (lba_format list \<times> u8) option" where
  "parse_identify_ns buf =
     (if length buf < 4096 then None
      else (let n = unat (buf ! 25) + 1; flbas = buf ! 26 in
        Some (List.map_filter (lba_format_of buf) [0..<min n 64], (flbas AND 0x0F) OR (drop_bit 1 flbas AND 0x30))))"

text \<open>\<open>min_by_key\<close> takes the first of the least.\<close>

definition better_format :: "lba_format \<Rightarrow> lba_format \<Rightarrow> bool" where
  "better_format f g \<longleftrightarrow> lf_relative_performance f < lf_relative_performance g
     \<or> lf_relative_performance f = lf_relative_performance g \<and> lf_index f < lf_index g"

definition pick_lba_format :: "lba_format list \<Rightarrow> u32 \<Rightarrow> lba_format option" where
  "pick_lba_format fs len =
     fold (\<lambda>f best. case best of None \<Rightarrow> Some f | Some b \<Rightarrow> if better_format f b then Some f else Some b)
       (filter (\<lambda>f. lf_data_size f = len \<and> lf_metadata_size f = 0) fs) None"

record nvme_caps =
  nv_format_supported :: bool
  nv_format_all_namespaces :: bool
  nv_sanitize_crypto :: bool
  nv_sanitize_block :: bool
  nv_sanitize_overwrite :: bool
  nv_namespaces :: u32

definition parse_identify_ctrl :: "bytes \<Rightarrow> nvme_caps option" where
  "parse_identify_ctrl buf =
     (if length buf < 4096 then None
      else (let oacs = word_of_le (slice 256 2 buf) :: u16; sanicap = word_of_le (slice 328 4 buf) :: u32 in
        Some \<lparr>nv_format_supported = (oacs AND 2 \<noteq> 0), nv_format_all_namespaces = (buf ! 524 AND 1 \<noteq> 0),
              nv_sanitize_crypto = (sanicap AND 1 \<noteq> 0), nv_sanitize_block = (sanicap AND 2 \<noteq> 0),
              nv_sanitize_overwrite = (sanicap AND 4 \<noteq> 0), nv_namespaces = word_of_le (slice 516 4 buf)\<rparr>))"

definition format_nvm_cdw10 :: "u8 \<Rightarrow> u32" where
  "format_nvm_cdw10 lbaf = (ucast lbaf AND 0x0F) OR push_bit 12 (drop_bit 4 (ucast lbaf) AND 3)"

definition sanitize_cdw10 :: "sanitize_method \<Rightarrow> u32" where
  "sanitize_cdw10 m =
     (case m of BlockErase \<Rightarrow> 2 | Overwrite \<Rightarrow> 3 | CryptoErase \<Rightarrow> 4) OR push_bit 3 1
     OR (if m = Overwrite then push_bit 4 1 else 0)"

fun nvme_supports :: "nvme_caps \<Rightarrow> sanitize_method \<Rightarrow> bool" where
  "nvme_supports c BlockErase = nv_sanitize_block c"
| "nvme_supports c CryptoErase = nv_sanitize_crypto c"
| "nvme_supports c Overwrite = nv_sanitize_overwrite c"

datatype sanitize_status = NeverSanitized | SanitizeDone | SanitizeRunning u8 | SanitizeFailed

definition parse_sanitize_log :: "bytes \<Rightarrow> sanitize_status option" where
  "parse_sanitize_log buf =
     (if length buf < 4 then None
      else (let sprog = nat_of_le (slice 0 2 buf); st = (word_of_le (slice 2 2 buf) :: u16) AND 7 in
        Some (if st = 0 then NeverSanitized else if st = 1 \<or> st = 4 then SanitizeDone
              else if st = 2 then SanitizeRunning (word_of_nat (sprog * 100 div 65536)) else SanitizeFailed)))"

text \<open>An admin command and its answer: an I/O error, or the status and the buffer filled.\<close>

record admin_cmd =
  ad_opcode :: u8
  ad_nsid :: u32
  ad_cdw10 :: u32

type_synonym admin_answer = "string + u16 \<times> bytes"
type_synonym admin_log = "(admin_cmd \<times> admin_answer) list"
type_synonym admin_dev = "admin_log \<Rightarrow> admin_cmd \<Rightarrow> admin_answer"

definition admin :: "admin_dev \<Rightarrow> u8 \<Rightarrow> u32 \<Rightarrow> u32 \<Rightarrow> admin_log \<Rightarrow> admin_answer \<times> admin_log" where
  "admin dev opcode nsid cdw10 lg =
     (let c = \<lparr>ad_opcode = opcode, ad_nsid = nsid, ad_cdw10 = cdw10\<rparr>; a = dev lg c in (a, lg @ [(c, a)]))"

definition identify :: "admin_dev \<Rightarrow> u32 \<Rightarrow> u32 \<Rightarrow> admin_log \<Rightarrow> (string + bytes) \<times> admin_log" where
  "identify dev cns nsid lg =
     (case admin dev 0x06 nsid cns lg of
        (Inl e, lg') \<Rightarrow> (Inl (''identify: '' @ e), lg')
      | (Inr (st, buf), lg') \<Rightarrow>
          (if st \<noteq> 0 then Inl (''identify cns '' @ dec (unat cns) @ '': status 0x'' @ hex_nat (unat st)) else Inr buf, lg'))"

definition read_nvme_caps :: "admin_dev \<Rightarrow> admin_log \<Rightarrow> (string + nvme_caps) \<times> admin_log" where
  "read_nvme_caps dev lg =
     (case identify dev 1 0 lg of
        (Inl e, lg') \<Rightarrow> (Inl e, lg')
      | (Inr buf, lg') \<Rightarrow>
          ((case parse_identify_ctrl buf of None \<Rightarrow> Inl ''identify controller: short'' | Some c \<Rightarrow> Inr c), lg'))"

definition no_lba_format :: "u32 \<Rightarrow> lba_format list \<Rightarrow> string" where
  "no_lba_format len fs =
     ''no '' @ dec (unat len) @ ''-byte LBA format without metadata (has: ''
     @ join '', '' (map (\<lambda>f. dec (unat (lf_data_size f)) @ ''+'' @ dec (unat (lf_metadata_size f))) fs) @ '')''"

definition format_target :: "nvme_caps \<Rightarrow> nat \<Rightarrow> u32" where
  "format_target c nsid = (if nv_format_all_namespaces c then 0xFFFFFFFF else word_of_nat nsid)"

definition send_format_nvm :: "admin_dev \<Rightarrow> u32 \<Rightarrow> lba_format \<Rightarrow> admin_log \<Rightarrow> (string + u32) \<times> admin_log" where
  "send_format_nvm dev to f lg =
     (case admin dev 0x80 to (format_nvm_cdw10 (lf_index f)) lg of
        (Inl e, lg') \<Rightarrow> (Inl (''format nvm: '' @ e), lg')
      | (Inr (st, _), lg') \<Rightarrow>
          (if st \<noteq> 0 then Inl (''format nvm: status 0x'' @ hex_nat (unat st)) else Inr (lf_data_size f), lg'))"

definition nvme_format :: "admin_dev \<Rightarrow> string \<Rightarrow> u32 \<Rightarrow> admin_log \<Rightarrow> (string + u32) \<times> admin_log" where
  "nvme_format dev name len lg =
     (case nvme_names name of
        None \<Rightarrow> (Inl (name @ '': not an NVMe namespace name''), lg)
      | Some (_, nsid) \<Rightarrow>
          (case read_nvme_caps dev lg of
             (Inl e, lg1) \<Rightarrow> (Inl e, lg1)
           | (Inr c, lg1) \<Rightarrow>
               if \<not> nv_format_supported c then (Inl ''controller does not support Format NVM'', lg1)
               else (case identify dev 0 (word_of_nat nsid) lg1 of
                  (Inl e, lg2) \<Rightarrow> (Inl e, lg2)
                | (Inr buf, lg2) \<Rightarrow>
                    (case parse_identify_ns buf of
                       None \<Rightarrow> (Inl ''identify namespace: short'', lg2)
                     | Some (fs, _) \<Rightarrow>
                         (case pick_lba_format fs len of
                            None \<Rightarrow> (Inl (no_lba_format len fs), lg2)
                          | Some f \<Rightarrow> send_format_nvm dev (format_target c nsid) f lg2)))))"

definition ERASE_MAX_WAIT :: nat where "ERASE_MAX_WAIT = 48 * 60 * 60"

text \<open>The polls of the Sanitize Status log; \<open>None\<close>: not ended by any of them.\<close>

fun nvme_sanitize_wait :: "(nat \<times> admin_answer) list \<Rightarrow> (string + unit) option" where
  "nvme_sanitize_wait [] = None"
| "nvme_sanitize_wait ((elapsed, a) # ps) =
     (let status = (case a of Inr (st, buf) \<Rightarrow> if st = 0 then parse_sanitize_log buf else None | Inl _ \<Rightarrow> None) in
      if status = Some SanitizeDone then Some (Inr ())
      else if status = Some SanitizeFailed then Some (Inl ''sanitize failed (log 0x81)'')
      else if ERASE_MAX_WAIT < elapsed then Some (Inl ''sanitize did not finish in 48 h'')
      else nvme_sanitize_wait ps)"

definition nvme_sanitize ::
  "admin_dev \<Rightarrow> sanitize_method \<Rightarrow> (nat \<times> admin_answer) list \<Rightarrow> admin_log \<Rightarrow> (string + unit) option \<times> admin_log" where
  "nvme_sanitize dev m polls lg =
     (case read_nvme_caps dev lg of
        (Inl e, lg1) \<Rightarrow> (Some (Inl e), lg1)
      | (Inr c, lg1) \<Rightarrow>
          if \<not> nvme_supports c m then (Some (Inl (''controller does not support '' @ method_debug m @ '' sanitize'')), lg1)
          else (case admin dev 0x84 0 (sanitize_cdw10 m) lg1 of
             (Inl e, lg2) \<Rightarrow> (Some (Inl (''sanitize: '' @ e)), lg2)
           | (Inr (st, _), lg2) \<Rightarrow>
               if st \<noteq> 0 then (Some (Inl (''sanitize: status 0x'' @ hex_nat (unat st))), lg2)
               else (nvme_sanitize_wait polls, lg2)))"

section \<open>SCSI\<close>

definition scsi_sanitize :: "sanitize_method \<Rightarrow> bytes \<times> bytes" where
  "scsi_sanitize m =
     (let sa = (case m of Overwrite \<Rightarrow> 1 | BlockErase \<Rightarrow> 2 | CryptoErase \<Rightarrow> 3);
          param = (if m = Overwrite then [1, 0, 0, 4, 0, 0, 0, 0] else [])
      in ([0x48, 0x80 OR 0x20 OR sa, 0, 0, 0, 0, 0] @ word_be 2 (word_of_nat (length param) :: u16) @ [0], param))"

definition interpret_sanitize_tur :: "scsi_error option \<Rightarrow> string + u8 option option" where
  "interpret_sanitize_tur answer =
     (case answer of
        None \<Rightarrow> Inr None
      | Some (SenseError s) \<Rightarrow>
          if sn_key s = 2 \<and> sn_asc s = 4 \<and> sn_ascq s = 0x1B then Inr (Some (progress_pct s))
          else if sn_key s = 2 \<and> sn_asc s = 4 \<and> sn_ascq s \<le> 1 then Inr (Some None)
          else if is_unit_attention s then Inr (Some None)
          else if sn_asc s = 0x31 then Inl (''sanitize failed: '' @ sense_str s)
          else Inl (error_str (SenseError s))
      | Some e \<Rightarrow> Inl (error_str e))"

fun scsi_wait :: "bool \<Rightarrow> (nat \<times> scsi_error option) list \<Rightarrow> (string + unit) option" where
  "scsi_wait sanitize [] = None"
| "scsi_wait sanitize ((elapsed, tur) # ps) =
     (case (if sanitize then interpret_sanitize_tur tur else interpret_tur tur) of
        Inl e \<Rightarrow> Some (Inl e)
      | Inr None \<Rightarrow> Some (Inr ())
      | Inr (Some _) \<Rightarrow>
          (if ERASE_MAX_WAIT < elapsed
           then Some (Inl ((if sanitize then ''sanitizing'' else ''formatting'') @ '' did not finish in 48 h''))
           else scsi_wait sanitize ps))"

text \<open>The open (again, for the wait), the answer to the SANITIZE, and the polls.\<close>

definition scsi_sanitize_run ::
  "sanitize_method \<Rightarrow> string option \<Rightarrow> scsi_error option \<Rightarrow> string option \<Rightarrow> (nat \<times> scsi_error option) list \<Rightarrow> (string + unit) option" where
  "scsi_sanitize_run m open_error answer again polls =
     (case open_error of
        Some e \<Rightarrow> Some (Inl (''open: '' @ e))
      | None \<Rightarrow>
          (case answer of
             Some (SenseError s) \<Rightarrow>
               Some (Inl (if is_illegal_request s
                 then ''the drive (or its SAT layer) does not support '' @ method_debug m @ '' SANITIZE: '' @ sense_str s
                 else ''sanitize: '' @ error_str (SenseError s)))
           | Some e \<Rightarrow> Some (Inl (''sanitize: '' @ error_str e))
           | None \<Rightarrow> (case again of Some e \<Rightarrow> Some (Inl (''open: '' @ e)) | None \<Rightarrow> scsi_wait True polls)))"

section \<open>ATA security erase\<close>

definition ATA_IDENTIFY :: u8 where "ATA_IDENTIFY = 0xEC"
definition ATA_SECURITY_SET_PASSWORD :: u8 where "ATA_SECURITY_SET_PASSWORD = 0xF1"
definition ATA_SECURITY_ERASE_PREPARE :: u8 where "ATA_SECURITY_ERASE_PREPARE = 0xF3"
definition ATA_SECURITY_ERASE_UNIT :: u8 where "ATA_SECURITY_ERASE_UNIT = 0xF4"
definition ATA_SECURITY_DISABLE_PASSWORD :: u8 where "ATA_SECURITY_DISABLE_PASSWORD = 0xF6"

lemmas ata_commands = ATA_IDENTIFY_def ATA_SECURITY_SET_PASSWORD_def ATA_SECURITY_ERASE_PREPARE_def
  ATA_SECURITY_ERASE_UNIT_def ATA_SECURITY_DISABLE_PASSWORD_def

datatype ata_data = NoData | DataIn | DataOut

definition ata_pt16 :: "u8 \<Rightarrow> ata_data \<Rightarrow> bytes" where
  "ata_pt16 command data =
     [0x85, push_bit 1 (case data of NoData \<Rightarrow> 3 | DataIn \<Rightarrow> 4 | DataOut \<Rightarrow> 5),
      (case data of NoData \<Rightarrow> 0 | DataIn \<Rightarrow> 0x08 OR 0x04 OR 0x02 | DataOut \<Rightarrow> 0x04 OR 0x02),
      0, 0, 0, if data = NoData then 0 else 1, 0, 0, 0, 0, 0, 0, 0x40, command, 0]"

record ata_security_state =
  at_supported :: bool
  at_enabled :: bool
  at_locked :: bool
  at_frozen :: bool
  at_count_expired :: bool
  at_enhanced_supported :: bool
  at_normal_minutes :: "u32 option"
  at_enhanced_minutes :: "u32 option"

definition ata_word :: "bytes \<Rightarrow> nat \<Rightarrow> u16" where
  "ata_word buf w = word_of_le [buf ! (2 * w), buf ! (2 * w + 1)]"

definition erase_minutes :: "u16 \<Rightarrow> u32 option" where
  "erase_minutes w =
     (let units = ucast (if w AND 0x8000 \<noteq> 0 then w AND 0x7FFF else w AND 0xFF) :: u32
      in if units = 0 then None else Some (units * 2))"

definition parse_ata_security :: "bytes \<Rightarrow> ata_security_state option" where
  "parse_ata_security buf =
     (if length buf < 512 then None
      else (let w82 = ata_word buf 82; w128 = ata_word buf 128; in_82 = w82 \<noteq> 0xFFFF \<and> w82 AND 2 \<noteq> 0 in
        Some \<lparr>at_supported = (in_82 \<or> w128 AND 1 \<noteq> 0), at_enabled = (w128 AND 2 \<noteq> 0), at_locked = (w128 AND 4 \<noteq> 0),
              at_frozen = (w128 AND 8 \<noteq> 0), at_count_expired = (w128 AND 0x10 \<noteq> 0),
              at_enhanced_supported = (w128 AND 0x20 \<noteq> 0),
              at_normal_minutes = erase_minutes (ata_word buf 89), at_enhanced_minutes = erase_minutes (ata_word buf 90)\<rparr>))"

record erase_plan =
  ap_set_password :: bool
  ap_enhanced :: bool
  ap_minutes :: "u32 option"

definition frozen_line :: string where
  "frozen_line = ''ATA security is frozen (a freeze lock, usually from the BIOS at boot): a hot-unplug and replug, ''
     @ ''or a suspend/resume of the host, unfreezes it. Not retried''"

definition plan_security_erase :: "ata_security_state \<Rightarrow> bool \<Rightarrow> bool option \<Rightarrow> string + erase_plan" where
  "plan_security_erase sec ours enhanced =
     (if \<not> at_supported sec then Inl ''the drive has no ATA Security feature set (no security erase; try sanitize)''
      else if at_frozen sec then Inl frozen_line
      else if at_count_expired sec then Inl ''ATA security: the password attempt counter expired; power-cycle the drive first''
      else if at_enabled sec \<and> \<not> ours
      then Inl ''an ATA user password is already set on the drive, not by this job: refusing (unlock or disable it first)''
      else if enhanced = Some True \<and> \<not> at_enhanced_supported sec
      then Inl ''enhanced security erase is not supported by the drive''
      else (let e = (case enhanced of Some e \<Rightarrow> e | None \<Rightarrow> at_enhanced_supported sec) in
        Inr \<lparr>ap_set_password = (\<not> at_enabled sec), ap_enhanced = e,
             ap_minutes = (if e then at_enhanced_minutes sec else at_normal_minutes sec)\<rparr>))"

text \<open>A password's bytes, and the data block of SET PASSWORD, ERASE UNIT and DISABLE PASSWORD.\<close>

definition password_bytes :: "string \<Rightarrow> bytes" where "password_bytes = map (\<lambda>c. word_of_nat (of_char c))"

definition security_block :: "string \<Rightarrow> bool \<Rightarrow> bytes" where
  "security_block password enhanced =
     (let p = take 32 (password_bytes password) in
      [if enhanced then 2 else 0, 0] @ p @ replicate (510 - length p) 0)"

definition erase_timeout_ms :: "u32 option \<Rightarrow> u32" where
  "erase_timeout_ms minutes =
     (let most = 48 * 60 * 60 * 1000 in
      case minutes of
        Some m \<Rightarrow> (if m < 508 then min (sat_mul (m * 3 div 2 + 30) 60000) most else most)
      | None \<Rightarrow> most)"

definition ALPHABET :: string where
  "ALPHABET = ''ABCDEFGHJKLMNPQRSTUVWXYZabcdefghijkmnopqrstuvwxyz23456789''"

definition one_time_password :: "bytes \<Rightarrow> string" where
  "one_time_password random = ''sd-'' @ map (\<lambda>b. ALPHABET ! (unat b mod length ALPHABET)) random"

record erase_error =
  ee_message :: string
  ee_password_set :: bool

text \<open>
  The drive behind \<open>scsi::Device\<close>: whether it opens, and what a CDB with its data does to the drive's
  state: an error or the data returned.
\<close>

record 's ata_drive =
  av_open :: "'s \<Rightarrow> string option"
  av_io :: "bytes \<Rightarrow> bytes \<Rightarrow> 's \<Rightarrow> (scsi_error + bytes) \<times> 's"

definition ata :: "'s ata_drive \<Rightarrow> u8 \<Rightarrow> ata_data \<Rightarrow> bytes \<Rightarrow> 's \<Rightarrow> (string + bytes) \<times> 's" where
  "ata dv command data block s =
     (case av_io dv (ata_pt16 command data) block s of
        (Inl e, s') \<Rightarrow> (Inl (''ATA 0x'' @ hex2 command @ '': '' @ error_str e), s')
      | (Inr out, s') \<Rightarrow> (Inr (if data = DataIn then take 512 (out @ replicate 512 0) else block), s'))"

definition read_ata_security :: "'s ata_drive \<Rightarrow> 's \<Rightarrow> (string + ata_security_state) \<times> 's" where
  "read_ata_security dv s =
     (case av_open dv s of
        Some e \<Rightarrow> (Inl (''open: '' @ e), s)
      | None \<Rightarrow>
          (case ata dv ATA_IDENTIFY DataIn (replicate 512 0) s of
             (Inl e, s') \<Rightarrow>
               (Inl (''IDENTIFY DEVICE (not a SATA drive, or the HBA does not pass ATA through): '' @ e), s')
           | (Inr buf, s') \<Rightarrow>
               ((case parse_ata_security buf of None \<Rightarrow> Inl ''IDENTIFY DEVICE: short'' | Some sec \<Rightarrow> Inr sec), s')))"

text \<open>
  The run on the drive. The list is the states the drive goes through, each after a command: a crash of
  the daemon leaves one of them.
\<close>

definition send_ata :: "'s ata_drive \<Rightarrow> u8 \<Rightarrow> ata_data \<Rightarrow> bytes \<Rightarrow> 's list \<Rightarrow> (string + bytes) \<times> 's list" where
  "send_ata dv command data block tr = (let (a, s) = ata dv command data block (List.last tr) in (a, tr @ [s]))"

definition undo_password :: "'s ata_drive \<Rightarrow> string \<Rightarrow> string \<Rightarrow> 's list \<Rightarrow> erase_error \<times> 's list" where
  "undo_password dv password why tr =
     (case send_ata dv ATA_SECURITY_DISABLE_PASSWORD DataOut (security_block password False) tr of
        (Inr _, tr') \<Rightarrow> (\<lparr>ee_message = why @ '' (the password was taken off again)'', ee_password_set = False\<rparr>, tr')
      | (Inl e, tr') \<Rightarrow>
          (\<lparr>ee_message = why @ ''; disabling the password failed too: '' @ e, ee_password_set = True\<rparr>, tr'))"

definition erase_unit :: "'s ata_drive \<Rightarrow> string \<Rightarrow> erase_plan \<Rightarrow> 's list \<Rightarrow> erase_error option \<times> 's list" where
  "erase_unit dv password pn tr =
     (case send_ata dv ATA_SECURITY_ERASE_UNIT DataOut (security_block password (ap_enhanced pn)) tr of
        (Inl e, tr1) \<Rightarrow> (Some \<lparr>ee_message = ''security erase unit: '' @ e, ee_password_set = True\<rparr>, tr1)
      | (Inr _, tr1) \<Rightarrow>
          (case read_ata_security dv (List.last tr1) of
             (Inl e, s) \<Rightarrow> (Some \<lparr>ee_message = ''after the erase: '' @ e, ee_password_set = True\<rparr>, tr1 @ [s])
           | (Inr after, s) \<Rightarrow>
               (if at_enabled after \<or> at_locked after
                then Some \<lparr>ee_message = ''the erase returned but the drive still has security enabled'', ee_password_set = True\<rparr>
                else None, tr1 @ [s])))"

definition prepared_erase :: "'s ata_drive \<Rightarrow> string \<Rightarrow> erase_plan \<Rightarrow> 's list \<Rightarrow> erase_error option \<times> 's list" where
  "prepared_erase dv password pn tr =
     (case send_ata dv ATA_SECURITY_ERASE_PREPARE NoData [] tr of
        (Inl e, tr1) \<Rightarrow> (let (err, tr2) = undo_password dv password e tr1 in (Some err, tr2))
      | (Inr _, tr1) \<Rightarrow> erase_unit dv password pn tr1)"

definition ata_security_erase :: "'s ata_drive \<Rightarrow> string \<Rightarrow> erase_plan \<Rightarrow> 's list \<Rightarrow> erase_error option \<times> 's list" where
  "ata_security_erase dv password pn tr =
     (case av_open dv (List.last tr) of
        Some e \<Rightarrow> (Some \<lparr>ee_message = ''open: '' @ e, ee_password_set = (\<not> ap_set_password pn)\<rparr>, tr)
      | None \<Rightarrow>
          if \<not> ap_set_password pn then prepared_erase dv password pn tr
          else (case send_ata dv ATA_SECURITY_SET_PASSWORD DataOut (security_block password False) tr of
             (Inl e, tr1) \<Rightarrow> (Some \<lparr>ee_message = e, ee_password_set = True\<rparr>, tr1)
           | (Inr _, tr1) \<Rightarrow> prepared_erase dv password pn tr1))"

section \<open>The step of the job\<close>

text \<open>
  The password of the job's drive in memory and as jobs.json has it, and the states a crash so far could
  have left: the drive's and the saved password. Whether a save succeeds is an argument; \<open>Worker::save\<close>
  logs a failure and goes on.
\<close>

record 's erase_world =
  er_mem :: "string option"
  er_saved :: "string option"
  er_past :: "('s \<times> string option) list"

definition er_dev :: "'s erase_world \<Rightarrow> 's" where "er_dev w = fst (List.last (er_past w))"

definition went :: "'s list \<Rightarrow> 's erase_world \<Rightarrow> 's erase_world" where
  "went tr w = w\<lparr>er_past := er_past w @ map (\<lambda>s. (s, er_saved w)) tr\<rparr>"

definition save_job :: "bool \<Rightarrow> 's erase_world \<Rightarrow> 's erase_world" where
  "save_job ok w =
     (if ok then w\<lparr>er_saved := er_mem w, er_past := er_past w @ [(er_dev w, er_mem w)]\<rparr> else w)"

definition with_password :: "string + bytes \<Rightarrow> bool \<Rightarrow> 's erase_world \<Rightarrow> (string + string) \<times> 's erase_world" where
  "with_password random saves w =
     (case er_mem w of
        Some p \<Rightarrow> (Inr p, w)
      | None \<Rightarrow>
          (case random of
             Inl e \<Rightarrow> (Inl e, w)
           | Inr r \<Rightarrow> (let p = one_time_password r in (Inr p, save_job saves (w\<lparr>er_mem := Some p\<rparr>)))))"

definition still_locked :: "string \<Rightarrow> string \<Rightarrow> string \<Rightarrow> string" where
  "still_locked name p message =
     message @ '' '' @ utf8_dash @ '' the drive may still be locked with the one-time password '' @ p
     @ '' (hdparm --user-master u --security-unlock '' @ p @ '' /dev/'' @ name @ '', then --security-disable '' @ p @ '')''"

definition security_erase_step ::
  "'s ata_drive \<Rightarrow> string \<Rightarrow> string + bytes \<Rightarrow> bool \<Rightarrow> bool \<Rightarrow> bool option \<Rightarrow> 's erase_world \<Rightarrow> (string + string) \<times> 's erase_world" where
  "security_erase_step dv name random saves saves_after want w =
     (let (a, s1) = read_ata_security dv (er_dev w); w1 = went [s1] w in
      case a of
        Inl e \<Rightarrow> (Inl e, w1)
      | Inr sec \<Rightarrow>
          (case plan_security_erase sec (er_mem w \<noteq> None) want of
             Inl e \<Rightarrow> (Inl e, w1)
           | Inr pn \<Rightarrow>
               (case with_password random saves w1 of
                  (Inl e, w2) \<Rightarrow> (Inl e, w2)
                | (Inr p, w2) \<Rightarrow>
                    (let (r, tr) = ata_security_erase dv p pn [er_dev w2];
                         w3 = went (tl tr) w2;
                         keep = is_some_and ee_password_set r;
                         w4 = save_job saves_after (if keep then w3 else w3\<lparr>er_mem := None\<rparr>)
                     in (case r of
                           None \<Rightarrow> Inr (''ATA security erase'' @ (if ap_enhanced pn then '' (enhanced)'' else []) @ '' complete; password removed'')
                         | Some e \<Rightarrow> Inl (if keep then still_locked name p (ee_message e) else ee_message e), w4)))))"

section \<open>The password is on record before the drive has it\<close>

text \<open>
  What the ATA Security feature set promises: \<open>pw\<close> is the drive's user password and \<open>wiped\<close> whether an
  erase has run to its end. A command that fails may have had its effect or not.
\<close>

definition block_password :: "bytes \<Rightarrow> string" where
  "block_password block = map (\<lambda>b. char_of (unat b)) (takeWhile (\<lambda>b. b \<noteq> 0) (slice 2 32 block))"

definition plain_password :: "string \<Rightarrow> bool" where
  "plain_password p \<longleftrightarrow> length p \<le> 32 \<and> list_all (\<lambda>c. c \<noteq> CHR 0x00) p"

fun ata_effect :: "('s \<Rightarrow> string option) \<Rightarrow> ('s \<Rightarrow> bool) \<Rightarrow> u8 \<Rightarrow> bytes \<Rightarrow> 's \<Rightarrow> (scsi_error + bytes) \<times> 's \<Rightarrow> bool" where
  "ata_effect pw wiped c block s (a, s') \<longleftrightarrow>
     (c = ATA_SECURITY_SET_PASSWORD \<longrightarrow> pw s' \<in> {pw s, Some (block_password block)})
     \<and> (c = ATA_SECURITY_DISABLE_PASSWORD \<longrightarrow> pw s' \<in> {pw s, None} \<and> (isl a \<or> pw s' = None))
     \<and> (c = ATA_SECURITY_ERASE_UNIT \<longrightarrow> pw s' \<in> {pw s, None} \<and> (isl a \<or> wiped s'))
     \<and> (c = ATA_SECURITY_ERASE_PREPARE \<or> c = ATA_IDENTIFY \<longrightarrow> pw s' = pw s \<and> (wiped s \<longrightarrow> wiped s'))
     \<and> (c = ATA_IDENTIFY \<longrightarrow>
         (\<forall>out sec. a = Inr out \<longrightarrow> parse_ata_security (take 512 (out @ replicate 512 0)) = Some sec \<longrightarrow> at_enabled sec = (pw s' \<noteq> None)))"

definition obeys_ata :: "'s ata_drive \<Rightarrow> ('s \<Rightarrow> string option) \<Rightarrow> ('s \<Rightarrow> bool) \<Rightarrow> bool" where
  "obeys_ata dv pw wiped \<longleftrightarrow> (\<forall>c data block s. ata_effect pw wiped c block s (av_io dv (ata_pt16 c data) block s))"

lemma block_password_security_block:
  assumes "plain_password p"
  shows "block_password (security_block p e) = p"
proof -
  have l: "length (password_bytes p) = length p" by (simp add: password_bytes_def)
  have byte: "unat (word_of_nat (of_char c) :: u8) = of_char c" for c
    by (simp add: unat_of_nat take_bit_nat_eq_self)
  have nz: "\<forall>b \<in> set (password_bytes p). b \<noteq> 0"
  proof
    fix b assume "b \<in> set (password_bytes p)"
    then obtain c where c: "c \<in> set p" "b = word_of_nat (of_char c)" by (auto simp: password_bytes_def)
    have "c \<noteq> CHR 0x00" using assms c(1) by (auto simp: plain_password_def list_all_iff)
    moreover have "of_char (CHR 0x00) = (0 :: nat)" by simp
    ultimately have "of_char c \<noteq> (0 :: nat)" by (metis of_char_eq_iff)
    then show "b \<noteq> 0" unfolding c(2) by (metis byte unat_0)
  qed
  have "slice 2 32 (security_block p e) = password_bytes p @ replicate (32 - length p) 0"
    using assms by (simp add: security_block_def slice_def plain_password_def l Let_def)
  then have "takeWhile (\<lambda>b. b \<noteq> 0) (slice 2 32 (security_block p e)) = password_bytes p"
    using nz by (simp add: takeWhile_append2 takeWhile_replicate)
  then show ?thesis by (simp add: block_password_def password_bytes_def byte comp_def)
qed

lemma ata_obeys:
  assumes "obeys_ata dv pw wiped" "ata dv c data block s = (a, s')"
  shows "(c = ATA_SECURITY_SET_PASSWORD \<longrightarrow> pw s' \<in> {pw s, Some (block_password block)})
     \<and> (c = ATA_SECURITY_DISABLE_PASSWORD \<longrightarrow> pw s' \<in> {pw s, None} \<and> (isl a \<or> pw s' = None))
     \<and> (c = ATA_SECURITY_ERASE_UNIT \<longrightarrow> pw s' \<in> {pw s, None} \<and> (isl a \<or> wiped s'))
     \<and> (c = ATA_SECURITY_ERASE_PREPARE \<or> c = ATA_IDENTIFY \<longrightarrow> pw s' = pw s \<and> (wiped s \<longrightarrow> wiped s'))"
proof -
  obtain x y where "av_io dv (ata_pt16 c data) block s = (x, y)" by fastforce
  moreover have "ata_effect pw wiped c block s (av_io dv (ata_pt16 c data) block s)" using assms(1) by (simp add: obeys_ata_def)
  ultimately show ?thesis using assms(2) by (cases x) (auto simp: ata_def)
qed

lemma read_security_obeys:
  assumes "obeys_ata dv pw wiped" "read_ata_security dv s = (a, s')"
  shows "pw s' = pw s \<and> (wiped s \<longrightarrow> wiped s') \<and> (\<forall>sec. a = Inr sec \<longrightarrow> at_enabled sec = (pw s' \<noteq> None))"
proof (cases "av_open dv s")
  case None
  obtain x y where io: "av_io dv (ata_pt16 ATA_IDENTIFY DataIn) (replicate 512 0) s = (x, y)" by fastforce
  moreover have "ata_effect pw wiped ATA_IDENTIFY (replicate 512 0) s (av_io dv (ata_pt16 ATA_IDENTIFY DataIn) (replicate 512 0) s)"
    using assms(1) unfolding obeys_ata_def by blast
  ultimately show ?thesis using assms(2) None
    by (cases x) (auto simp: read_ata_security_def ata_def simp del: take_append split: option.splits)
qed (use assms(2) in \<open>auto simp: read_ata_security_def\<close>)

text \<open>A run that only ever leaves our password or none, and none where it says so.\<close>

definition run_ok ::
  "('s \<Rightarrow> string option) \<Rightarrow> ('s \<Rightarrow> bool) \<Rightarrow> string \<Rightarrow> 's list \<Rightarrow> erase_error option \<times> 's list \<Rightarrow> bool" where
  "run_ok pw wiped p tr out \<longleftrightarrow>
     (\<exists>ts. snd out = tr @ ts \<and> (\<forall>s \<in> set ts. pw s \<in> {None, Some p}))
     \<and> (case fst out of
          None \<Rightarrow> pw (List.last (snd out)) = None \<and> wiped (List.last (snd out))
        | Some e \<Rightarrow> ee_password_set e \<or> pw (List.last (snd out)) = None)"

lemma run_ok_step:
  assumes "run_ok pw wiped p (tr @ [s]) out" "pw s \<in> {None, Some p}"
  shows "run_ok pw wiped p tr out"
proof -
  obtain ts where "snd out = (tr @ [s]) @ ts" "\<forall>s \<in> set ts. pw s \<in> {None, Some p}"
    using assms(1) by (auto simp: run_ok_def)
  then have "snd out = tr @ (s # ts) \<and> (\<forall>s \<in> set (s # ts). pw s \<in> {None, Some p})" using assms(2) by simp
  then show ?thesis using assms(1) unfolding run_ok_def by blast
qed

lemma run_ok_now:
  "pw s \<in> {None, Some p} \<Longrightarrow> ee_password_set e \<or> pw s = None \<Longrightarrow> run_ok pw wiped p tr (Some e, tr @ [s])"
  "pw s = None \<Longrightarrow> wiped s \<Longrightarrow> run_ok pw wiped p tr (None, tr @ [s])"
  by (auto simp: run_ok_def)

lemma erase_unit_ok:
  assumes "obeys_ata dv pw wiped" "pw (List.last tr) \<in> {None, Some p}"
  shows "run_ok pw wiped p tr (erase_unit dv p pn tr)"
proof -
  obtain a s1 where e: "ata dv ATA_SECURITY_ERASE_UNIT DataOut (security_block p (ap_enhanced pn)) (List.last tr) = (a, s1)" by fastforce
  have s1: "pw s1 \<in> {None, Some p} \<and> (isl a \<or> wiped s1)"
    using ata_obeys [OF assms(1) e] assms(2) by (auto simp: ata_commands)
  show ?thesis
  proof (cases a)
    case (Inl x)
    then show ?thesis using e s1 by (auto simp: erase_unit_def send_ata_def intro!: run_ok_now)
  next
    case (Inr x)
    obtain b s2 where r: "read_ata_security dv s1 = (b, s2)" by fastforce
    have s2: "pw s2 = pw s1 \<and> (wiped s1 \<longrightarrow> wiped s2) \<and> (\<forall>sec. b = Inr sec \<longrightarrow> at_enabled sec = (pw s2 \<noteq> None))"
      using read_security_obeys [OF assms(1) r] .
    have "run_ok pw wiped p (tr @ [s1]) (erase_unit dv p pn tr)"
    proof (cases b)
      case (Inl e2)
      then show ?thesis using e r s1 s2 Inr run_ok_now(1) [of pw s2 p _ wiped "tr @ [s1]"]
        by (auto simp: erase_unit_def send_ata_def)
    next
      case (Inr sec)
      then show ?thesis
        using e r s1 s2 \<open>a = Inr x\<close> run_ok_now(1) [of pw s2 p _ wiped "tr @ [s1]"] run_ok_now(2) [of pw s2 wiped p "tr @ [s1]"]
        by (auto simp: erase_unit_def send_ata_def)
    qed
    then show ?thesis using s1 by (blast intro: run_ok_step)
  qed
qed

lemma undo_ok:
  assumes "obeys_ata dv pw wiped" "pw (List.last tr) \<in> {None, Some p}"
  shows "run_ok pw wiped p tr (case undo_password dv p why tr of (e, tr') \<Rightarrow> (Some e, tr'))"
proof -
  obtain a s1 where e: "ata dv ATA_SECURITY_DISABLE_PASSWORD DataOut (security_block p False) (List.last tr) = (a, s1)" by fastforce
  have "pw s1 \<in> {None, Some p} \<and> (isl a \<or> pw s1 = None)"
    using ata_obeys [OF assms(1) e] assms(2) by (auto simp: ata_commands)
  then show ?thesis using e by (cases a) (auto simp: undo_password_def send_ata_def intro!: run_ok_now)
qed

lemma prepared_ok:
  assumes "obeys_ata dv pw wiped" "pw (List.last tr) \<in> {None, Some p}"
  shows "run_ok pw wiped p tr (prepared_erase dv p pn tr)"
proof -
  obtain a s1 where e: "ata dv ATA_SECURITY_ERASE_PREPARE NoData [] (List.last tr) = (a, s1)" by fastforce
  have s1: "pw s1 \<in> {None, Some p}" using ata_obeys [OF assms(1) e] assms(2) by (auto simp: ata_commands)
  have "run_ok pw wiped p (tr @ [s1]) (prepared_erase dv p pn tr)"
  proof (cases a)
    case (Inl x)
    then show ?thesis using e undo_ok [OF assms(1), of "tr @ [s1]" p x] s1
      by (simp add: prepared_erase_def send_ata_def Let_def)
  next
    case (Inr x)
    then show ?thesis using e erase_unit_ok [OF assms(1), of "tr @ [s1]" p pn] s1 by (simp add: prepared_erase_def send_ata_def)
  qed
  then show ?thesis using s1 by (rule run_ok_step)
qed

lemma security_erase_ok:
  assumes "obeys_ata dv pw wiped" "pw (List.last tr) \<in> {None, Some p}" "plain_password p"
    and "ap_set_password pn \<longrightarrow> pw (List.last tr) = None"
  shows "run_ok pw wiped p tr (ata_security_erase dv p pn tr)"
proof (cases "av_open dv (List.last tr)")
  case (Some e)
  then show ?thesis using assms(4) by (auto simp: ata_security_erase_def run_ok_def)
next
  case None
  show ?thesis
  proof (cases "ap_set_password pn")
    case False
    then show ?thesis using None prepared_ok [OF assms(1,2)] by (simp add: ata_security_erase_def)
  next
    case True
    obtain a s1 where e: "ata dv ATA_SECURITY_SET_PASSWORD DataOut (security_block p False) (List.last tr) = (a, s1)" by fastforce
    have s1: "pw s1 \<in> {None, Some p}"
      using ata_obeys [OF assms(1) e] assms(2) block_password_security_block [OF assms(3)] by (auto simp: ata_commands)
    show ?thesis
    proof (cases a)
      case (Inl x)
      then show ?thesis using None True e s1 by (simp add: ata_security_erase_def send_ata_def) (rule run_ok_now, simp_all)
    next
      case (Inr x)
      then have "run_ok pw wiped p (tr @ [s1]) (ata_security_erase dv p pn tr)"
        using None True e s1 prepared_ok [OF assms(1), of "tr @ [s1]" p pn] by (simp add: ata_security_erase_def send_ata_def)
      then show ?thesis using s1 by (rule run_ok_step)
    qed
  qed
qed

lemma one_time_password_plain:
  assumes "length r \<le> 29"
  shows "plain_password (one_time_password r)"
proof -
  have "length ALPHABET = 57" by (simp add: ALPHABET_def)
  then have "ALPHABET ! (n mod length ALPHABET) \<in> set ALPHABET" for n by (intro nth_mem) simp
  moreover have "CHR 0x00 \<notin> set ALPHABET" by (simp add: ALPHABET_def)
  ultimately have "ALPHABET ! (n mod length ALPHABET) \<noteq> CHR 0x00" for n by metis
  then show ?thesis using assms by (simp add: plain_password_def one_time_password_def list_all_iff)
qed

text \<open>The worlds of a run: what it adds to the states a crash could leave is on record.\<close>

definition on_record :: "('s \<Rightarrow> string option) \<Rightarrow> 's \<times> string option \<Rightarrow> bool" where
  "on_record pw x \<longleftrightarrow> pw (fst x) = None \<or> pw (fst x) = snd x"

lemma with_password_facts:
  assumes "with_password random True w = (Inr p, w2)" "er_mem w = er_saved w" "er_past w \<noteq> []"
    and "er_mem w = None \<longrightarrow> pw (er_dev w) = None" "\<And>q. er_mem w = Some q \<Longrightarrow> plain_password q \<and> pw (er_dev w) \<in> {None, Some q}"
    and "\<And>r. random = Inr r \<Longrightarrow> length r = 16"
  shows "er_mem w2 = Some p \<and> er_saved w2 = Some p \<and> er_dev w2 = er_dev w \<and> plain_password p \<and> pw (er_dev w) \<in> {None, Some p}
    \<and> (\<exists>new. er_past w2 = er_past w @ new \<and> (\<forall>x \<in> set new. on_record pw x))"
proof (cases "er_mem w")
  case None
  then obtain r where "random = Inr r" "p = one_time_password r" "w2 = save_job True (w\<lparr>er_mem := Some p\<rparr>)"
    using assms(1) by (auto simp: with_password_def Let_def split: sum.splits)
  then show ?thesis using assms(3,4,6) None one_time_password_plain [of r]
    by (auto simp: save_job_def er_dev_def on_record_def)
next
  case (Some q)
  then show ?thesis using assms by (auto simp: with_password_def)
qed

lemma erase_end_recorded:
  assumes "run_ok pw wiped p [er_dev w] (r, tr)" "er_mem w = Some p" "er_saved w = Some p" "er_past w \<noteq> []"
    and "pw (er_dev w) \<in> {None, Some p}"
    and "w' = save_job ok (if is_some_and ee_password_set r then went (tl tr) w else (went (tl tr) w)\<lparr>er_mem := None\<rparr>)"
  shows "(\<exists>new. er_past w' = er_past w @ new \<and> (\<forall>x \<in> set new. on_record pw x))
    \<and> (er_mem w' = None \<longrightarrow> pw (er_dev w') = None) \<and> (r = None \<longrightarrow> pw (er_dev w') = None \<and> wiped (er_dev w'))"
proof -
  obtain ts where tr: "tr = er_dev w # ts" "\<forall>s \<in> set ts. pw s \<in> {None, Some p}" using assms(1) by (auto simp: run_ok_def)
  let ?w = "went ts w"
  have dev: "er_dev ?w = List.last tr" using tr(1) assms(4) by (cases ts rule: rev_cases) (auto simp: er_dev_def went_def)
  have fin: "case r of None \<Rightarrow> pw (er_dev ?w) = None \<and> wiped (er_dev ?w) | Some e \<Rightarrow> ee_password_set e \<or> pw (er_dev ?w) = None"
    using assms(1) dev by (cases r) (simp_all add: run_ok_def)
  have here: "pw (er_dev ?w) \<in> {None, Some p}" using tr dev assms(5) by (cases ts rule: rev_cases) auto
  have past: "er_past ?w = er_past w @ map (\<lambda>s. (s, Some p)) ts" "er_mem ?w = Some p" "er_saved ?w = Some p"
    using assms(2,3) by (simp_all add: went_def)
  have new: "\<forall>x \<in> set (map (\<lambda>s. (s, Some p)) ts). on_record pw x" using tr(2) by (auto simp: on_record_def)
  have w': "w' = save_job ok (if is_some_and ee_password_set r then ?w else ?w\<lparr>er_mem := None\<rparr>)" using assms(6) tr(1) by simp
  show ?thesis
  proof (cases "is_some_and ee_password_set r")
    case True
    then have "r \<noteq> None" by (cases r) simp_all
    then show ?thesis using w' True past new here by (auto simp: save_job_def er_dev_def on_record_def)
  next
    case False
    then have "pw (er_dev ?w) = None" using fin by (cases r) auto
    then show ?thesis using w' False past new fin by (auto simp: save_job_def er_dev_def on_record_def split: option.splits)
  qed
qed

text \<open>
  C3.password_on_record. Where the job's file can be written, a drive that obeys the ATA Security feature set
  never has a password that is not on record: whatever fails, and wherever a crash stops the step, the drive
  has no password, the one saved, or - with none of the job's on record - the one it had before. A
  step that ends well leaves it erased and without one, and no password is forgotten while it is set.
\<close>

theorem password_on_record:
  assumes "obeys_ata dv pw wiped" "er_mem w = er_saved w" "er_past w \<noteq> []"
    and "\<And>p. er_mem w = Some p \<Longrightarrow> plain_password p \<and> pw (er_dev w) \<in> {None, Some p}"
    and "\<And>r. random = Inr r \<Longrightarrow> length r = 16"
    and "security_erase_step dv name random True saves_after want w = (res, w')"
  shows "(\<exists>new. er_past w' = er_past w @ new
        \<and> (\<forall>(s, saved) \<in> set new. pw s = None \<or> pw s = saved \<or> er_mem w = None \<and> pw s = pw (er_dev w)))
    \<and> (er_mem w' = None \<longrightarrow> pw (er_dev w') = None \<or> er_mem w = None \<and> pw (er_dev w') = pw (er_dev w))
    \<and> (\<forall>m. res = Inr m \<longrightarrow> pw (er_dev w') = None \<and> wiped (er_dev w'))"
proof -
  obtain a s1 where r: "read_ata_security dv (er_dev w) = (a, s1)" by fastforce
  have s1: "pw s1 = pw (er_dev w)" "\<And>sec. a = Inr sec \<Longrightarrow> at_enabled sec = (pw s1 \<noteq> None)"
    using read_security_obeys [OF assms(1) r] by auto
  let ?w1 = "went [s1] w"
  have w1: "er_mem ?w1 = er_mem w" "er_saved ?w1 = er_saved w" "er_dev ?w1 = s1" "er_past ?w1 = er_past w @ [(s1, er_saved w)]"
    by (simp_all add: went_def er_dev_def)
  show ?thesis
  proof (cases "w' = ?w1 \<and> isl res")
    case True
    then show ?thesis using w1 s1 assms(2,4) by (cases "er_mem w") auto
  next
    case False
    then obtain sec pn p w2 where a: "a = Inr sec" and pn: "plan_security_erase sec (er_mem w \<noteq> None) want = Inr pn"
      and p: "with_password random True ?w1 = (Inr p, w2)"
      using assms(6) r
      by (auto simp: security_erase_step_def Let_def with_password_def split: sum.splits prod.splits option.splits)
    have pn': "ap_set_password pn = (\<not> at_enabled sec)" "at_enabled sec \<longrightarrow> er_mem w \<noteq> None"
      using pn by (auto simp: plan_security_erase_def Let_def split: if_splits)
    have "er_mem ?w1 = None \<longrightarrow> pw (er_dev ?w1) = None" using s1(2) [OF a] pn'(2) w1 by auto
    moreover have "plain_password q \<and> pw (er_dev ?w1) \<in> {None, Some q}" if "er_mem ?w1 = Some q" for q
      using assms(4) [of q] that w1 s1(1) by simp
    ultimately have w2: "er_mem w2 = Some p \<and> er_saved w2 = Some p \<and> er_dev w2 = er_dev ?w1 \<and> plain_password p
        \<and> pw (er_dev ?w1) \<in> {None, Some p} \<and> (\<exists>new. er_past w2 = er_past ?w1 @ new \<and> (\<forall>x \<in> set new. on_record pw x))"
      using w1 assms(2,3,5) by (intro with_password_facts [OF p]) auto
    then obtain new where new: "er_past w2 = er_past ?w1 @ new" "\<forall>x \<in> set new. on_record pw x" by blast
    obtain er tr where e: "ata_security_erase dv p pn [er_dev w2] = (er, tr)" by fastforce
    have "run_ok pw wiped p [er_dev w2] (er, tr)"
      using security_erase_ok [OF assms(1), of "[er_dev w2]" p pn] e w2 pn'(1) s1(2) [OF a] w1 by simp
    moreover have w': "w' = save_job saves_after (if is_some_and ee_password_set er then went (tl tr) w2 else (went (tl tr) w2)\<lparr>er_mem := None\<rparr>)"
      "isl res = (er \<noteq> None)"
      using assms(6) r a pn p e by (auto simp: security_erase_step_def Let_def split: option.splits)
    ultimately have fin: "(\<exists>new. er_past w' = er_past w2 @ new \<and> (\<forall>x \<in> set new. on_record pw x))
        \<and> (er_mem w' = None \<longrightarrow> pw (er_dev w') = None) \<and> (er = None \<longrightarrow> pw (er_dev w') = None \<and> wiped (er_dev w'))"
      using w2 new(1) w1(4) by (intro erase_end_recorded) auto
    then obtain new' where new': "er_past w' = er_past w2 @ new'" "\<forall>x \<in> set new'. on_record pw x" by blast
    have "er_past w' = er_past w @ ((s1, er_saved w) # new @ new')" using new(1) new'(1) w1(4) by simp
    moreover have "\<forall>(s, saved) \<in> set ((s1, er_saved w) # new @ new'). pw s = None \<or> pw s = saved \<or> er_mem w = None \<and> pw s = pw (er_dev w)"
      using new(2) new'(2) s1(1) assms(2,4) by (cases "er_mem w") (auto simp: on_record_def)
    moreover have "\<forall>m. res = Inr m \<longrightarrow> er = None" using w'(2) by auto
    ultimately show ?thesis using fin by blast
  qed
qed

text \<open>A drive that takes every command, for the witnesses: its password and whether it was erased.\<close>

definition identify_block :: "bool \<Rightarrow> bytes" where
  "identify_block enabled = (replicate 512 0)[256 := (if enabled then 3 else 1)]"

definition obedient :: "(string option \<times> bool) ata_drive" where
  "obedient = \<lparr>av_open = (\<lambda>_. None), av_io = (\<lambda>cdb block s.
     let c = cdb ! 14 in
     if c = ATA_IDENTIFY then (Inr (identify_block (fst s \<noteq> None)), s)
     else if c = ATA_SECURITY_SET_PASSWORD then (Inr [], (Some (block_password block), snd s))
     else if c = ATA_SECURITY_DISABLE_PASSWORD then (Inr [], (None, snd s))
     else if c = ATA_SECURITY_ERASE_UNIT then (Inr [], (None, True))
     else (Inr [], s))\<rparr>"

definition identified :: "bool \<Rightarrow> ata_security_state" where
  "identified enabled = \<lparr>at_supported = True, at_enabled = enabled, at_locked = False, at_frozen = False,
     at_count_expired = False, at_enhanced_supported = False, at_normal_minutes = None, at_enhanced_minutes = None\<rparr>"

lemma parse_identify_block: "parse_ata_security (take 512 (identify_block enabled @ replicate 512 0)) = Some (identified enabled)"
proof -
  have "word_of_le [1, 0] = (1 :: u16)" "word_of_le [3, 0] = (3 :: u16)" "word_of_le [0, 0] = (0 :: u16)"
    by (simp_all add: word_of_le_def)
  then show ?thesis
    by (cases enabled) (simp_all add: identify_block_def parse_ata_security_def ata_word_def erase_minutes_def identified_def)
qed

lemma ata_command: "ata_pt16 c data ! 14 = c" by (simp add: ata_pt16_def)

lemma obedient_obeys: "obeys_ata obedient fst snd"
  by (auto simp: obeys_ata_def obedient_def ata_command ata_commands Let_def parse_identify_block identified_def simp del: take_append)

definition fresh_world :: "(string option \<times> bool) erase_world" where
  "fresh_world = \<lparr>er_mem = None, er_saved = None, er_past = [((None, False), None)]\<rparr>"

lemma obedient_open: "av_open obedient s = None" by (simp add: obedient_def)

lemma obedient_io:
  "ata obedient ATA_IDENTIFY DataIn block s = (Inr (take 512 (identify_block (fst s \<noteq> None) @ replicate 512 0)), s)"
  "ata obedient ATA_SECURITY_SET_PASSWORD DataOut block s = (Inr block, (Some (block_password block), snd s))"
  "ata obedient ATA_SECURITY_ERASE_PREPARE NoData block s = (Inr block, s)"
  "ata obedient ATA_SECURITY_ERASE_UNIT DataOut block s = (Inr block, (None, True))"
  by (simp_all add: ata_def obedient_def ata_command ata_commands Let_def del: take_append)

lemma obedient_security: "read_ata_security obedient s = (Inr (identified (fst s \<noteq> None)), s)"
  by (simp add: read_ata_security_def obedient_open obedient_io parse_identify_block del: take_append)

lemma obedient_plan: "plan_security_erase (identified False) ours None = Inr \<lparr>ap_set_password = True, ap_enhanced = False, ap_minutes = None\<rparr>"
  by (simp add: plan_security_erase_def identified_def Let_def)

lemma obedient_run:
  "ata_security_erase obedient p \<lparr>ap_set_password = True, ap_enhanced = False, ap_minutes = None\<rparr> [(None, False)]
     = (None, [(None, False), (Some (block_password (security_block p False)), False),
          (Some (block_password (security_block p False)), False), (None, True), (None, True)])"
  by (simp add: ata_security_erase_def send_ata_def obedient_open obedient_io prepared_erase_def erase_unit_def obedient_security identified_def)

lemma obedient_step:
  "\<exists>past. security_erase_step obedient ''sda'' (Inr r) saves saves_after None fresh_world
     = (Inr ''ATA security erase complete; password removed'', past)
     \<and> ((Some (block_password (security_block (one_time_password r) False)), False), if saves then Some (one_time_password r) else None)
         \<in> set (er_past past)"
  by (simp add: security_erase_step_def fresh_world_def er_dev_def went_def obedient_security obedient_plan with_password_def
      save_job_def Let_def obedient_run)

theorem password_on_record_witness:
  "\<exists>w'. security_erase_step obedient ''sda'' (Inr (replicate 16 0)) True True None fresh_world
       = (Inr ''ATA security erase complete; password removed'', w')
     \<and> (\<exists>new. er_past w' = er_past fresh_world @ new \<and> (\<forall>(s, saved) \<in> set new. fst s = None \<or> fst s = saved))
     \<and> fst (er_dev w') = None \<and> snd (er_dev w')"
proof -
  obtain w' where w: "security_erase_step obedient ''sda'' (Inr (replicate 16 0)) True True None fresh_world
      = (Inr ''ATA security erase complete; password removed'', w')"
    using obedient_step [of "replicate 16 0" True True] by blast
  have "(\<exists>new. er_past w' = er_past fresh_world @ new
        \<and> (\<forall>(s, saved) \<in> set new. fst s = None \<or> fst s = saved \<or> er_mem fresh_world = None \<and> fst s = fst (er_dev fresh_world)))
    \<and> (er_mem w' = None \<longrightarrow> fst (er_dev w') = None \<or> er_mem fresh_world = None \<and> fst (er_dev w') = fst (er_dev fresh_world))
    \<and> (\<forall>m. (Inr ''ATA security erase complete; password removed'' :: string + string) = Inr m \<longrightarrow> fst (er_dev w') = None \<and> snd (er_dev w'))"
    by (rule password_on_record [OF obedient_obeys _ _ _ _ w]) (simp_all add: fresh_world_def)
  moreover have "fst (er_dev fresh_world) = None" by (simp add: fresh_world_def er_dev_def)
  ultimately show ?thesis using w by (auto split: prod.splits)
qed

text \<open>
  Where the job's file cannot be written the step goes on all the same: a drive that obeys is
  given a password that nothing on disk has, and a crash then leaves it locked with it.
\<close>

theorem unsaved_password:
  "obeys_ata obedient fst snd
   \<and> (\<exists>p. ((Some p, False), None) \<in> set (er_past (snd (security_erase_step obedient ''sda'' (Inr r) False saves_after None fresh_world))))"
  using obedient_obeys obedient_step [of r False saves_after] by fastforce

section \<open>What a Format NVM is sent with\<close>

lemma better_format_order:
  "\<not> better_format f f"
  "better_format f g \<Longrightarrow> better_format g h \<Longrightarrow> better_format f h"
  "better_format f h \<Longrightarrow> better_format f g \<or> better_format g h"
  unfolding better_format_def by (simp, force, force)

definition picks :: "lba_format list \<Rightarrow> lba_format option \<Rightarrow> lba_format option" where
  "picks = fold (\<lambda>f best. case best of None \<Rightarrow> Some f | Some b \<Rightarrow> if better_format f b then Some f else Some b)"

lemma picks_best:
  "\<exists>f. picks gs (Some b) = Some f \<and> (f = b \<or> f \<in> set gs) \<and> (\<forall>g \<in> insert b (set gs). \<not> better_format g f)"
proof (induction gs arbitrary: b)
  case Nil
  then show ?case by (simp add: picks_def better_format_order(1))
next
  case (Cons g gs)
  obtain f where f: "picks gs (Some (if better_format g b then g else b)) = Some f"
    "f = (if better_format g b then g else b) \<or> f \<in> set gs"
    "\<forall>h \<in> insert (if better_format g b then g else b) (set gs). \<not> better_format h f"
    using Cons.IH [of "if better_format g b then g else b"] by blast
  have "picks (g # gs) (Some b) = Some f" using f(1) by (cases "better_format g b") (simp_all add: picks_def)
  moreover have "\<not> better_format g f \<and> \<not> better_format b f"
    using f(3) better_format_order(2) [of g b f] better_format_order(3) [of g f b] by (cases "better_format g b") auto
  ultimately show ?case using f(2,3) by (intro exI [of _ f]) (auto split: if_splits)
qed

lemma pick_facts:
  assumes "pick_lba_format fs len = Some f"
  shows "f \<in> set fs \<and> lf_data_size f = len \<and> lf_metadata_size f = 0
    \<and> (\<forall>g \<in> set fs. lf_data_size g = len \<and> lf_metadata_size g = 0 \<longrightarrow> \<not> better_format g f)"
proof -
  let ?fs = "filter (\<lambda>f. lf_data_size f = len \<and> lf_metadata_size f = 0) fs"
  have p: "picks ?fs None = Some f" using assms by (simp add: pick_lba_format_def picks_def)
  then obtain g gs where g: "?fs = g # gs" by (cases ?fs) (auto simp: picks_def)
  then have "picks gs (Some g) = Some f" using p by (simp add: picks_def)
  then have "f \<in> set ?fs \<and> (\<forall>h \<in> set ?fs. \<not> better_format h f)" using picks_best [of gs g] unfolding g by auto
  then show ?thesis by auto
qed

lemma format_cdw10_index:
  assumes "(i :: u8) < 64"
  shows "(format_nvm_cdw10 i AND 0x0F) OR push_bit 4 (drop_bit 12 (format_nvm_cdw10 i) AND 3) = ucast i
    \<and> format_nvm_cdw10 i AND 0xFF0 = 0"
proof -
  have "take_bit 6 i = i" using assms by (simp add: word_unat_eq_iff unsigned_take_bit_eq take_bit_nat_eq_self word_less_nat_alt)
  then have i: "bit i n \<Longrightarrow> n < 6" for n by (metis bit_take_bit_iff)
  have m: "(0x0F :: u32) = mask 4" "(3 :: u32) = mask 2" "(0xFF0 :: u32) = push_bit 4 (mask 8)"
    by (simp_all add: mask_eq_exp_minus_1)
  show ?thesis unfolding format_nvm_cdw10_def m
  proof (intro conjI bit_word_eqI)
    fix n assume "n < LENGTH(32)"
    show "bit (((ucast i AND mask 4 OR push_bit 12 (drop_bit 4 (ucast i) AND mask 2)) AND mask 4) OR
        push_bit 4 (drop_bit 12 (ucast i AND mask 4 OR push_bit 12 (drop_bit 4 (ucast i) AND mask 2)) AND mask 2) :: u32) n
        = bit (ucast i :: u32) n"
      using i [of n] \<open>n < LENGTH(32)\<close> by (cases "n < 4"; cases "n < 6") (auto simp: bit_simps)
  next
    fix n assume "n < LENGTH(32)"
    show "bit ((ucast i AND mask 4 OR push_bit 12 (drop_bit 4 (ucast i) AND mask 2)) AND push_bit 4 (mask 8) :: u32) n = bit (0 :: u32) n"
      by (cases "n < 4"; cases "n < 12") (auto simp: bit_simps)
  qed
qed

lemma map_filter_mem: "y \<in> set (List.map_filter g xs) \<longleftrightarrow> (\<exists>x \<in> set xs. g x = Some y)"
  by (induction xs) (auto simp: List.map_filter_simps split: option.splits)

lemma identify_ns_index:
  assumes "parse_identify_ns buf = Some (fs, cur)" "f \<in> set fs"
  shows "lf_index f < 64"
proof -
  have "f \<in> set (List.map_filter (lba_format_of buf) [0..<min (unat (buf ! 25) + 1) 64])"
    using assms by (simp add: parse_identify_ns_def Let_def split: if_splits del: upt_Suc)
  then obtain i where "i \<in> set [0..<min (unat (buf ! 25) + 1) 64]" and i: "lba_format_of buf i = Some f"
    unfolding map_filter_mem by blast
  then have "i < 64" by (auto simp del: upt_Suc)
  have "lf_index f = word_of_nat i" using i by (auto simp: lba_format_of_def Let_def split: if_splits)
  then show ?thesis using \<open>i < 64\<close> by (simp add: word_less_nat_alt unat_of_nat)
qed

lemma identify_sends:
  "identify dev cns nsid lg = (r, lg') \<Longrightarrow> \<exists>c a. lg' = lg @ [(c, a)] \<and> ad_opcode c = 6 \<and> ad_nsid c = nsid
     \<and> ad_cdw10 c = cns \<and> (\<forall>buf. r = Inr buf \<longrightarrow> a = Inr (0, buf))"
  by (auto simp: identify_def admin_def Let_def split: sum.splits if_splits)

lemma caps_sends:
  assumes "read_nvme_caps dev lg = (r, lg')"
  shows "\<exists>c a. lg' = lg @ [(c, a)] \<and> ad_opcode c = 6"
proof -
  obtain x lg1 where i: "identify dev 1 0 lg = (x, lg1)" by fastforce
  then have "lg' = lg1" using assms by (cases x) (auto simp: read_nvme_caps_def)
  then show ?thesis using identify_sends [OF i] by blast
qed

text \<open>A Format NVM of the namespace, as the answers to the commands before it allow it, and its outcome.\<close>

definition exact_format :: "string \<Rightarrow> u32 \<Rightarrow> admin_log \<Rightarrow> string + u32 \<Rightarrow> admin_cmd \<times> admin_answer \<Rightarrow> bool" where
  "exact_format name len asked r ca \<longleftrightarrow> ad_opcode (fst ca) = 0x80
     \<and> (\<exists>i ctrl nsid buf fs cur f. nvme_names name = Some (ctrl, nsid) \<and> ad_nsid i = word_of_nat nsid \<and> (i, Inr (0, buf)) \<in> set asked
          \<and> parse_identify_ns buf = Some (fs, cur) \<and> f \<in> set fs \<and> lf_data_size f = len \<and> lf_metadata_size f = 0
          \<and> (\<forall>g \<in> set fs. lf_data_size g = len \<and> lf_metadata_size g = 0 \<longrightarrow> \<not> better_format g f)
          \<and> (ad_cdw10 (fst ca) AND 0x0F) OR push_bit 4 (drop_bit 12 (ad_cdw10 (fst ca)) AND 3) = ucast (lf_index f))
     \<and> ad_cdw10 (fst ca) AND 0xFF0 = 0
     \<and> (r = Inr len \<and> (\<exists>out. snd ca = Inr (0, out)) \<or> isl r \<and> (\<nexists>out. snd ca = Inr (0, out)))"

text \<open>
  A Format NVM is sent at most once, last, after the namespace gave its table; its LBA format
  is one of that table of the data size asked for, without metadata, none such of better performance, with
  no secure erase, protection or metadata setting; and the step ends well exactly when the controller
  completed it.
\<close>

theorem format_nvm_exact:
  assumes "nvme_format dev name len lg = (r, lg')"
  shows "\<exists>asked sent. lg' = lg @ asked @ sent \<and> list_all (\<lambda>ca. ad_opcode (fst ca) = 6) asked
    \<and> (sent = [] \<and> isl r \<or> (\<exists>ca. sent = [ca] \<and> exact_format name len asked r ca))"
proof (cases "nvme_names name")
  case None
  then show ?thesis using assms by (auto simp: nvme_format_def)
next
  case (Some nm)
  obtain ctrl nsid where nm: "nm = (ctrl, nsid)" by fastforce
  obtain x lg1 where caps: "read_nvme_caps dev lg = (x, lg1)" by fastforce
  obtain c1 a1 where lg1: "lg1 = lg @ [(c1, a1)]" "ad_opcode c1 = 6" using caps_sends [OF caps] by blast
  obtain y lg2 where idf: "identify dev 0 (word_of_nat nsid) lg1 = (y, lg2)" by fastforce
  obtain c2 a2 where lg2: "lg2 = lg1 @ [(c2, a2)]" "ad_opcode c2 = 6" "ad_nsid c2 = word_of_nat nsid" "\<And>buf. y = Inr buf \<Longrightarrow> a2 = Inr (0, buf)"
    using identify_sends [OF idf] by blast
  show ?thesis
  proof (cases "\<exists>cp buf fs cur f. x = Inr cp \<and> nv_format_supported cp \<and> y = Inr buf \<and> parse_identify_ns buf = Some (fs, cur)
      \<and> pick_lba_format fs len = Some f")
    case False
    then have "isl r \<and> (lg' = lg1 \<or> lg' = lg2)" using assms Some nm caps idf
      by (auto simp: nvme_format_def split: sum.splits if_splits option.splits prod.splits)
    then consider "isl r" "lg' = lg @ [(c1, a1)] @ []" | "isl r" "lg' = lg @ [(c1, a1), (c2, a2)] @ []" using lg1 lg2 by auto
    then show ?thesis
    proof cases
      case 1
      then show ?thesis using lg1(2) by (intro exI [of _ "[(c1, a1)]"] exI [of _ "[]"]) simp
    next
      case 2
      then show ?thesis using lg1(2) lg2(2) by (intro exI [of _ "[(c1, a1), (c2, a2)]"] exI [of _ "[]"]) simp
    qed
  next
    case True
    then obtain cp buf fs cur f where t: "x = Inr cp" "nv_format_supported cp" "y = Inr buf"
      "parse_identify_ns buf = Some (fs, cur)" "pick_lba_format fs len = Some f" by blast
    have send: "send_format_nvm dev (format_target cp nsid) f lg2 = (r, lg')"
      using assms Some nm caps idf t by (simp add: nvme_format_def)
    obtain c a where ca: "lg' = lg2 @ [(c, a)]" "ad_opcode c = 0x80" "ad_cdw10 c = format_nvm_cdw10 (lf_index f)"
      "r = Inr (lf_data_size f) \<and> (\<exists>out. a = Inr (0, out)) \<or> isl r \<and> (\<nexists>out. a = Inr (0, out))"
      using send by (auto simp: send_format_nvm_def admin_def Let_def split: sum.splits if_splits)
    have "exact_format name len [(c1, a1), (c2, a2)] r (c, a)"
      using pick_facts [OF t(5)] ca(2-4) format_cdw10_index [OF identify_ns_index [OF t(4)], of f] Some nm lg2(3) lg2(4) [OF t(3)] t(4)
      unfolding exact_format_def by auto
    then show ?thesis using lg1 lg2(1,2) ca(1) by (intro exI [of _ "[(c1, a1), (c2, a2)]"] exI [of _ "[(c, a)]"]) simp
  qed
qed

text \<open>
  C33.format_hits_siblings. On a controller whose Format NVM applies to every namespace, the format step of one
  namespace is sent to all of them; and the guard of the job, which refuses a sanitize of a drive that shares
  its controller, asks nothing of the sort before a format.
\<close>

theorem format_hits_siblings:
  assumes "d_kind d = NvmeSsd" "0 < cx_nvme_siblings cx"
    and "nvme_names (d_name d) = Some (ctrl, nsid)" "read_nvme_caps dev lg = (Inr c, lg1)"
    and "nv_format_supported c" "nv_format_all_namespaces c" "identify dev 0 (word_of_nat nsid) lg1 = (Inr buf, lg2)"
    and "parse_identify_ns buf = Some (fs, cur)" "pick_lba_format fs len = Some f"
  shows "worker_guard d [Sanitize m] named cx \<noteq> None
    \<and> worker_guard d [Format len prot] named cx = worker_guard d [Format len prot] named (cx\<lparr>cx_nvme_siblings := 0\<rparr>)
    \<and> (\<exists>cmd a. snd (nvme_format dev (d_name d) len lg) = lg2 @ [(cmd, a)] \<and> ad_opcode cmd = 0x80 \<and> ad_nsid cmd = 0xFFFFFFFF)"
proof (intro conjI)
  show "worker_guard d [Sanitize m] named cx \<noteq> None"
    using assms(1,2) by (auto simp: worker_guard_def Let_def first_some_None_iff)
  show "worker_guard d [Format len prot] named cx = worker_guard d [Format len prot] named (cx\<lparr>cx_nvme_siblings := 0\<rparr>)"
    by (simp add: worker_guard_def Let_def in_use_blocker_def destroy_blocker_def)
  show "\<exists>cmd a. snd (nvme_format dev (d_name d) len lg) = lg2 @ [(cmd, a)] \<and> ad_opcode cmd = 0x80 \<and> ad_nsid cmd = 0xFFFFFFFF"
    using assms(3-9) by (auto simp: nvme_format_def send_format_nvm_def format_target_def admin_def Let_def split: sum.splits)
qed

text \<open>A controller of several namespaces with one LBA format, of 4096 bytes, for the witnesses.\<close>

definition ctrl_page :: bytes where
  "ctrl_page = replicate 256 0 @ [2, 0] @ replicate 266 0 @ [1] @ replicate 3571 0"

definition ns_page :: bytes where "ns_page = replicate 128 0 @ [0, 0, 12, 0] @ replicate 3964 0"

definition shared_ctrl :: admin_dev where
  "shared_ctrl lg c = Inr (0, if ad_opcode c = 6 then if ad_cdw10 c = 1 then ctrl_page else ns_page else [])"

definition nvme_drive :: drive where "nvme_drive = good_drive\<lparr>d_kind := NvmeSsd, d_name := ''nvme0n1''\<rparr>"

lemma shared_caps:
  "parse_identify_ctrl ctrl_page = Some \<lparr>nv_format_supported = True, nv_format_all_namespaces = True, nv_sanitize_crypto = False,
     nv_sanitize_block = False, nv_sanitize_overwrite = False, nv_namespaces = 0\<rparr>"
proof -
  have "word_of_le [2, 0] = (2 :: u16)" by (simp add: word_of_le_def)
  moreover have "word_of_le (replicate 4 0) = (0 :: u32)" by (simp add: word_of_le_def eval_nat_numeral)
  ultimately show ?thesis
    by (simp add: parse_identify_ctrl_def ctrl_page_def slice_def nth_append Let_def)
qed

lemma shared_ns:
  "parse_identify_ns ns_page = Some ([\<lparr>lf_index = 0, lf_data_size = 4096, lf_metadata_size = 0, lf_relative_performance = 0\<rparr>], 0)"
proof -
  have "word_of_le [0, 0, 12, 0] = (0xC0000 :: u32)" by (simp add: word_of_le_def)
  then have "lba_format_of ns_page 0 = Some \<lparr>lf_index = 0, lf_data_size = 4096, lf_metadata_size = 0, lf_relative_performance = 0\<rparr>"
    by (simp add: lba_format_of_def ns_page_def slice_def Let_def)
  moreover have "length ns_page = 4096" "ns_page ! 25 = 0" "ns_page ! 26 = 0" by (simp_all add: ns_page_def nth_append)
  ultimately show ?thesis by (simp add: parse_identify_ns_def List.map_filter_simps)
qed

lemma nvme_drive_name: "nvme_names (d_name nvme_drive) = Some (''nvme0'', 1)"
  by (simp add: nvme_drive_def nvme_names_def rsplit_once_def parse_unsigned_def digits_value_def ascii_digit_def undec_def)

definition caps_asked :: admin_log where
  "caps_asked = [(\<lparr>ad_opcode = 6, ad_nsid = 0, ad_cdw10 = 1\<rparr>, Inr (0, ctrl_page))]"

lemma shared_reads:
  "read_nvme_caps shared_ctrl [] = (Inr \<lparr>nv_format_supported = True, nv_format_all_namespaces = True, nv_sanitize_crypto = False,
     nv_sanitize_block = False, nv_sanitize_overwrite = False, nv_namespaces = 0\<rparr>, caps_asked)"
  "identify shared_ctrl 0 nsid caps_asked = (Inr ns_page, caps_asked @ [(\<lparr>ad_opcode = 6, ad_nsid = nsid, ad_cdw10 = 0\<rparr>, Inr (0, ns_page))])"
  by (simp_all add: read_nvme_caps_def identify_def admin_def shared_ctrl_def shared_caps caps_asked_def Let_def)

lemma shared_format:
  "nvme_format shared_ctrl (d_name nvme_drive) 4096 []
     = (Inr 4096, caps_asked @ [(\<lparr>ad_opcode = 6, ad_nsid = 1, ad_cdw10 = 0\<rparr>, Inr (0, ns_page)),
          (\<lparr>ad_opcode = 0x80, ad_nsid = 0xFFFFFFFF, ad_cdw10 = 0\<rparr>, Inr (0, []))])"
  by (simp add: nvme_format_def nvme_drive_name shared_reads shared_ns pick_lba_format_def send_format_nvm_def
      format_target_def admin_def shared_ctrl_def format_nvm_cdw10_def Let_def)

theorem format_nvm_exact_witness:
  "\<exists>asked ca. snd (nvme_format shared_ctrl (d_name nvme_drive) 4096 []) = asked @ [ca]
     \<and> list_all (\<lambda>ca. ad_opcode (fst ca) = 6) asked \<and> exact_format (d_name nvme_drive) 4096 asked (Inr 4096) ca"
  using format_nvm_exact [OF shared_format] unfolding shared_format by auto

theorem format_hits_siblings_witness:
  "worker_guard nvme_drive [Sanitize CryptoErase] True (blank_context\<lparr>cx_nvme_siblings := 1\<rparr>) \<noteq> None
    \<and> worker_guard nvme_drive [Format 4096 NoPi] True (blank_context\<lparr>cx_nvme_siblings := 1\<rparr>)
        = worker_guard nvme_drive [Format 4096 NoPi] True (blank_context\<lparr>cx_nvme_siblings := 0\<rparr>)
    \<and> (\<exists>cmd a lg2. snd (nvme_format shared_ctrl (d_name nvme_drive) 4096 []) = lg2 @ [(cmd, a)]
         \<and> ad_opcode cmd = 0x80 \<and> ad_nsid cmd = 0xFFFFFFFF)"
proof -
  have pick: "pick_lba_format [\<lparr>lf_index = 0, lf_data_size = 4096, lf_metadata_size = 0, lf_relative_performance = 0\<rparr>] 4096
      = Some \<lparr>lf_index = 0, lf_data_size = 4096, lf_metadata_size = 0, lf_relative_performance = 0\<rparr>"
    by (simp add: pick_lba_format_def)
  have kind: "d_kind nvme_drive = NvmeSsd" "0 < cx_nvme_siblings (blank_context\<lparr>cx_nvme_siblings := 1\<rparr>)"
    by (simp_all add: nvme_drive_def)
  note hit = format_hits_siblings [OF kind nvme_drive_name shared_reads(1) _ _ shared_reads(2) shared_ns pick, of CryptoErase True NoPi]
  have "\<exists>cmd a lg2. snd (nvme_format shared_ctrl (d_name nvme_drive) 4096 []) = lg2 @ [(cmd, a)]
      \<and> ad_opcode cmd = 0x80 \<and> ad_nsid cmd = 0xFFFFFFFF"
    using hit [THEN conjunct2, THEN conjunct2] by fastforce
  moreover have "worker_guard nvme_drive [Format 4096 NoPi] True (blank_context\<lparr>cx_nvme_siblings := 1\<rparr>)
      = worker_guard nvme_drive [Format 4096 NoPi] True (blank_context\<lparr>cx_nvme_siblings := 0\<rparr>)"
    using hit [THEN conjunct2, THEN conjunct1] by simp
  ultimately show ?thesis using hit [THEN conjunct1] by (intro conjI) simp_all
qed

end
