(* ===== verification/Lossy.thy ===== *)
theory Lossy
  imports Utf
begin

text \<open>
  \<open>String::from_utf8_lossy\<close>: valid UTF-8 is kept, and each maximal part of a sequence that is not valid
  is replaced by U+FFFD, as the Rust library does it (\<open>Utf8Chunks\<close>).
\<close>

definition cont :: "bytes \<Rightarrow> nat \<Rightarrow> bool" where
  "cont bs i \<longleftrightarrow> (case get_nth i bs of Some b \<Rightarrow> 0x80 \<le> b \<and> b \<le> 0xBF | None \<Rightarrow> False)"

definition second_ok :: "u8 \<Rightarrow> bytes \<Rightarrow> bool" where
  "second_ok a bs \<longleftrightarrow>
     (case get_nth 1 bs of
        None \<Rightarrow> False
      | Some b \<Rightarrow>
          if a = 0xE0 then 0xA0 \<le> b \<and> b \<le> 0xBF
          else if a = 0xED then 0x80 \<le> b \<and> b \<le> 0x9F
          else if a = 0xF0 then 0x90 \<le> b \<and> b \<le> 0xBF
          else if a = 0xF4 then 0x80 \<le> b \<and> b \<le> 0x8F
          else 0x80 \<le> b \<and> b \<le> 0xBF)"

text \<open>Whether the next part is a character, and its bytes.\<close>

definition utf8_part :: "u8 \<Rightarrow> bytes \<Rightarrow> bool \<times> nat" where
  "utf8_part a bs =
     (if a < 0x80 then (True, 1)
      else if 0xC2 \<le> a \<and> a \<le> 0xDF then (if cont bs 1 then (True, 2) else (False, 1))
      else if 0xE0 \<le> a \<and> a \<le> 0xEF then
        (if \<not> second_ok a bs then (False, 1) else if cont bs 2 then (True, 3) else (False, 2))
      else if 0xF0 \<le> a \<and> a \<le> 0xF4 then
        (if \<not> second_ok a bs then (False, 1) else if \<not> cont bs 2 then (False, 2)
         else if cont bs 3 then (True, 4) else (False, 3))
      else (False, 1))"

definition chars :: "bytes \<Rightarrow> string" where "chars = map (\<lambda>b. char_of (unat b))"

definition replacement :: string where "replacement = map char_of [0xEF::nat, 0xBF, 0xBD]"

lemma utf8_part_pos: "0 < snd (utf8_part a bs)"
  by (simp add: utf8_part_def)

function from_utf8_lossy :: "bytes \<Rightarrow> string" where
  "from_utf8_lossy [] = []"
| "from_utf8_lossy (a # bs) =
     (let (ok, n) = utf8_part a (a # bs)
      in (if ok then chars (take n (a # bs)) else replacement) @ from_utf8_lossy (drop n (a # bs)))"
  by pat_completeness auto
termination
proof (relation "measure length")
  fix a :: u8 and bs :: bytes and p ok n
  assume "p = utf8_part a (a # bs)" "(ok, n) = p"
  then have "0 < n" using utf8_part_pos [of a "a # bs"] by (metis snd_conv)
  then show "(drop n (a # bs), a # bs) \<in> measure length" by simp
qed simp

declare from_utf8_lossy.simps [simp del]

lemma from_utf8_lossy_Nil [simp]: "from_utf8_lossy [] = []"
  by (simp add: from_utf8_lossy.simps)

lemma from_utf8_lossy_ascii: "list_all (\<lambda>b. b < 0x80) bs \<Longrightarrow> from_utf8_lossy bs = chars bs"
  by (induction bs) (simp_all add: from_utf8_lossy.simps utf8_part_def chars_def)

end
