(* ===== verification/Topology.thy ===== *)
theory Topology
  imports Lossy Worker
begin

text \<open>
  \<open>src/src/topology.rs\<close>, what it decides of a path: the position of a drive or shelf, the PCI functions of
  a sysfs path, the hotplug slot and LED of an NVMe drive, the SAS phy and the controller. A canonical
  path is the list of its components; what is read in /sys is an argument.
\<close>

definition position_no_enclosure :: "bool \<Rightarrow> position" where
  "position_no_enclosure behind = (if behind then External else Internal)"

definition known_backplane :: "string \<Rightarrow> bool" where
  "known_backplane identity \<longleftrightarrow> starts_with identity ''DP BP'' \<or> starts_with identity ''DELL BP''"

definition position_in_enclosure :: "bool \<Rightarrow> string \<Rightarrow> string \<Rightarrow> position" where
  "position_in_enclosure behind bay_name identity =
     (if behind \<and> \<not> known_backplane identity then External
      else (let says = bay_name @ '' '' @ identity; any = list_ex (contains says) in
        if any [''rear'', ''Rear'', ''REAR''] then Rear
        else if any [''internal'', ''Internal'', ''INTERNAL'', ''M.2'', ''BOSS''] then Internal
        else Front))"

definition identity_words :: "string option list \<Rightarrow> string" where
  "identity_words parts = join '' '' (filter (\<lambda>p. p \<noteq> []) (map trim (List.map_filter id parts)))"

definition identity_of :: "shelf \<Rightarrow> string" where
  "identity_of s = identity_words [sh_vendor s, sh_model s]"

definition behind_expander :: "string list \<Rightarrow> bool" where
  "behind_expander path = list_ex (\<lambda>c. starts_with c ''expander-'') path"

definition hex_char :: "char \<Rightarrow> bool" where
  "hex_char c = (let n = of_char c :: nat in 48 \<le> n \<and> n \<le> 57 \<or> 65 \<le> n \<and> n \<le> 70 \<or> 97 \<le> n \<and> n \<le> 102)"

definition is_pci_bdf :: "string \<Rightarrow> bool" where
  "is_pci_bdf s \<longleftrightarrow>
     12 \<le> length s \<and> length s \<le> 16
     \<and> (let d = length s - 8 in
          list_all hex_char (take d s) \<and> s ! d = CHR '':'' \<and> list_all hex_char (slice (d + 1) 2 s)
          \<and> s ! (d + 3) = CHR '':'' \<and> list_all hex_char (slice (d + 4) 2 s) \<and> s ! (d + 6) = CHR ''.'' \<and> hex_char (s ! (d + 7)))"

definition bdfs :: "string list \<Rightarrow> string list" where "bdfs path = filter is_pci_bdf path"

text \<open>The device path of a namespace: its own when it has PCI in it, else its multipath's first that does.\<close>

definition nvme_device_path :: "string list option \<Rightarrow> string list option list \<Rightarrow> string list option" where
  "nvme_device_path canonical multipath =
     (case canonical of
        None \<Rightarrow> None
      | Some p \<Rightarrow> if bdfs p \<noteq> [] then Some p else first_some (map (opt_filter (\<lambda>p. bdfs p \<noteq> [])) multipath))"

definition pcie_slot :: "(string \<times> string) list \<Rightarrow> string list \<Rightarrow> string option" where
  "pcie_slot slots path =
     first_some (map (\<lambda>bdf. Option.bind (map_option fst (rsplit_once (CHR ''.'') bdf))
       (\<lambda>want. map_option snd (find (\<lambda>s. fst s = want) slots))) (rev (bdfs path)))"

definition bay_of_slot :: "string \<Rightarrow> nat option" where "bay_of_slot s = parse_unsigned (2 ^ 32) s"

text \<open>Where the LED is: the slot's attention indicator when it is there, else an NPEM LED (sorted) on the chain.\<close>

datatype led = Attention string | Npem string

definition locate_led :: "string option \<Rightarrow> (string \<Rightarrow> bool) \<Rightarrow> string list \<Rightarrow> string list \<Rightarrow> led option" where
  "locate_led slot has_attention npem path =
     (case opt_filter has_attention slot of
        Some s \<Rightarrow> Some (Attention s)
      | None \<Rightarrow> map_option Npem (find (\<lambda>bdf. bdf \<in> set npem) (rev (bdfs path))))"

definition parse_vpd80 :: "bytes \<Rightarrow> string option" where
  "parse_vpd80 raw =
     (if length raw < 4 \<or> raw ! 1 \<noteq> 0x80 then None
      else (let fin = min (4 + nat_of_be (slice 2 2 raw)) (length raw); s = trim (from_utf8_lossy (slice 4 (fin - 4) raw))
            in if s \<noteq> [] then Some s else None))"

text \<open>The phys listed under the port, and the address of the expander it is on.\<close>

definition min_option :: "nat list \<Rightarrow> nat option" where
  "min_option ns = (if ns = [] then None else Some (Min (set ns)))"

definition sas_attachment :: "string list \<Rightarrow> (string list \<Rightarrow> nat list) \<Rightarrow> (string list \<Rightarrow> string option) \<Rightarrow> nat option \<times> string option" where
  "sas_attachment path phys expander_address =
     (case find (\<lambda>i. starts_with (path ! i) ''end_device-'') [0..<length path] of
        None \<Rightarrow> (None, None)
      | Some ed \<Rightarrow>
          if ed < 1 \<or> \<not> starts_with (path ! (ed - 1)) ''port-'' then (None, None)
          else (min_option (phys (take ed path)),
                if 2 \<le> ed \<and> starts_with (path ! (ed - 2)) ''expander-'' then expander_address (take (ed - 1) path) else None))"

definition all_digits :: "string \<Rightarrow> bool" where "all_digits s = list_all ascii_digit s"

definition last_that :: "('a \<Rightarrow> bool) \<Rightarrow> 'a list \<Rightarrow> 'a option" where "last_that P xs = find P (rev xs)"

definition controller_of :: "string list \<Rightarrow> (string \<Rightarrow> string option) \<Rightarrow> controller option" where
  "controller_of path driver =
     (let pcie = last_that is_pci_bdf path;
          host = last_that (\<lambda>c. starts_with c ''host'' \<and> all_digits (drop 4 c)) path
      in if pcie = None \<and> host = None then None
         else Some \<lparr>co_scsi_host = host, co_pcie_addr = pcie, co_driver = Option.bind pcie driver\<rparr>)"

text \<open>\<open>sas_device_enclosure\<close>: the enclosure and bay the SAS transport names, when it names one that is not all zeros.\<close>

definition nonzero_id :: "string \<Rightarrow> bool" where "nonzero_id s \<longleftrightarrow> list_ex (\<lambda>c. c \<noteq> CHR ''0'') s"

end
