(* ===== verification/Ses.thy ===== *)
theory Ses
  imports Topology Policy Scsi
begin

text \<open>
  \<open>src/src/ses.rs\<close>: the diagnostic pages of a shelf's enclosure processor, the report made of them, and the
  control pages that light a bay, mark it as failed or turn it off. \<open>RECEIVE\<close> and \<open>SEND DIAGNOSTIC\<close> are the
  device's answers. A reading the code keeps as an \<open>f32\<close> is kept as the integer it is a fixed part of:
  hundredths of a volt or ampere, halves of a threshold's unit.
\<close>

section \<open>Pages and element types\<close>

definition PAGE_SUPPORTED :: u8 where "PAGE_SUPPORTED = 0"
definition PAGE_CONFIG :: u8 where "PAGE_CONFIG = 1"
definition PAGE_STATUS :: u8 where "PAGE_STATUS = 2"
definition PAGE_HELP :: u8 where "PAGE_HELP = 3"
definition PAGE_THRESHOLD :: u8 where "PAGE_THRESHOLD = 5"
definition PAGE_DESCRIPTORS :: u8 where "PAGE_DESCRIPTORS = 7"
definition PAGE_ADDITIONAL :: u8 where "PAGE_ADDITIONAL = 0x0a"

definition ET_DEVICE_SLOT :: u8 where "ET_DEVICE_SLOT = 1"
definition ET_POWER_SUPPLY :: u8 where "ET_POWER_SUPPLY = 2"
definition ET_COOLING :: u8 where "ET_COOLING = 3"
definition ET_TEMPERATURE :: u8 where "ET_TEMPERATURE = 4"
definition ET_ESC_ELECTRONICS :: u8 where "ET_ESC_ELECTRONICS = 7"
definition ET_ENCLOSURE :: u8 where "ET_ENCLOSURE = 0x0e"
definition ET_VOLTAGE :: u8 where "ET_VOLTAGE = 0x12"
definition ET_CURRENT :: u8 where "ET_CURRENT = 0x13"
definition ET_ARRAY_DEVICE_SLOT :: u8 where "ET_ARRAY_DEVICE_SLOT = 0x17"
definition ET_SAS_EXPANDER :: u8 where "ET_SAS_EXPANDER = 0x18"
definition ET_SAS_CONNECTOR :: u8 where "ET_SAS_CONNECTOR = 0x19"
definition ET_NETAPP_IOM_EXPANDER :: u8 where "ET_NETAPP_IOM_EXPANDER = 0x83"
definition ET_NETAPP_IOM_ETHERNET :: u8 where "ET_NETAPP_IOM_ETHERNET = 0x85"

lemmas ses_pages = PAGE_SUPPORTED_def PAGE_CONFIG_def PAGE_STATUS_def PAGE_HELP_def PAGE_THRESHOLD_def
  PAGE_DESCRIPTORS_def PAGE_ADDITIONAL_def

lemmas element_types = ET_DEVICE_SLOT_def ET_POWER_SUPPLY_def ET_COOLING_def ET_TEMPERATURE_def ET_ESC_ELECTRONICS_def
  ET_ENCLOSURE_def ET_VOLTAGE_def ET_CURRENT_def ET_ARRAY_DEVICE_SLOT_def ET_SAS_EXPANDER_def ET_SAS_CONNECTOR_def
  ET_NETAPP_IOM_EXPANDER_def ET_NETAPP_IOM_ETHERNET_def

definition vendor_type_name :: "string \<Rightarrow> u8 \<Rightarrow> string option" where
  "vendor_type_name vendor t =
     (if vendor = ''NETAPP'' \<and> t = ET_NETAPP_IOM_EXPANDER then Some ''iom expander''
      else if vendor = ''NETAPP'' \<and> t = ET_NETAPP_IOM_ETHERNET then Some ''iom ethernet'' else None)"

definition connector_names :: "(u8 \<times> string) list" where
  "connector_names =
     [(0x01, ''SAS 4x receptacle (SFF-8470)''), (0x02, ''Mini SAS 4x receptacle (SFF-8088)''),
      (0x03, ''QSFP+ receptacle (SFF-8436)''), (0x04, ''Mini SAS 4x active receptacle (SFF-8088)''),
      (0x05, ''Mini SAS HD 4x receptacle (SFF-8644)''), (0x06, ''Mini SAS HD 8x receptacle (SFF-8644)''),
      (0x07, ''Mini SAS HD 16x receptacle (SFF-8644)''), (0x0f, ''vendor specific external''),
      (0x10, ''SAS 4i plug (SFF-8484)''), (0x11, ''Mini SAS 4i receptacle (SFF-8087)''),
      (0x12, ''Mini SAS HD 4i receptacle (SFF-8643)''), (0x13, ''Mini SAS HD 8i receptacle (SFF-8643)''),
      (0x20, ''SAS drive backplane receptacle (SFF-8482)''), (0x21, ''SATA host plug''),
      (0x22, ''SAS drive plug (SFF-8482)''), (0x23, ''SATA device plug''), (0x24, ''Micro SAS receptacle''),
      (0x25, ''Micro SATA device plug''), (0x26, ''Micro SAS plug''), (0x27, ''Micro SAS/SATA plug''),
      (0x28, ''12 Gb/s SAS drive backplane receptacle (SFF-8680)''), (0x29, ''12 Gb/s SAS drive plug (SFF-8680)''),
      (0x2a, ''Multifunction 12 Gb/s 6x unshielded receptacle (SFF-8639)''),
      (0x2b, ''Multifunction 12 Gb/s 6x unshielded plug (SFF-8639)''), (0x2f, ''SAS virtual connector''),
      (0x3f, ''vendor specific internal'')]"

definition connector_type_name :: "u8 \<Rightarrow> string option" where
  "connector_type_name code =
     (let c = code AND 0x7f in
      if c = 0 then None else Some (case map_of connector_names c of Some n \<Rightarrow> n | None \<Rightarrow> ''other''))"

definition attribute_of :: "string \<Rightarrow> (string \<times> string) option" where
  "attribute_of part =
     (case split_once (CHR ''='') part of
        None \<Rightarrow> None
      | Some (k, v) \<Rightarrow> (if trim k \<noteq> [] \<and> trim v \<noteq> [] then Some (trim k, trim v) else None))"

definition parse_attributes :: "string \<Rightarrow> (string \<rightharpoonup> string)" where
  "parse_attributes text =
     (if \<not> contains text ''='' \<or> \<not> contains text '';'' then Map.empty
      else map_of (rev (List.map_filter attribute_of (split_on (CHR '';'') text))))"

definition element_type_names :: "string list" where
  "element_type_names =
     [''unspecified'', ''device slot'', ''power supply'', ''cooling'', ''temperature'', ''door'', ''audible alarm'',
      ''esc electronics'', ''scc electronics'', ''nonvolatile cache'', ''invalid operation reason'',
      ''uninterruptible power supply'', ''display'', ''key pad'', ''enclosure'', ''scsi port/transceiver'', ''language'',
      ''communication port'', ''voltage'', ''current'', ''scsi target port'', ''scsi initiator port'',
      ''simple subenclosure'', ''array device slot'', ''sas expander'', ''sas connector'']"

definition element_type_name :: "u8 \<Rightarrow> string" where
  "element_type_name t =
     (if unat t < length element_type_names then element_type_names ! unat t else ''vendor specific'')"

datatype element_status =
    Unsupported_el | Ok_el | Critical_el | Noncritical_el | Unrecoverable_el | NotInstalled_el | Unknown_el
  | NotAvailable_el | NoAccessAllowed_el | Reserved_el

definition from_code :: "u8 \<Rightarrow> element_status" where
  "from_code c =
     (let k = unat (c AND 0x0f);
          known = [Unsupported_el, Ok_el, Critical_el, Noncritical_el, Unrecoverable_el, NotInstalled_el, Unknown_el,
                   NotAvailable_el, NoAccessAllowed_el]
      in if k < length known then known ! k else Reserved_el)"

definition is_bad :: "element_status \<Rightarrow> bool" where
  "is_bad s \<longleftrightarrow> s \<in> {Critical_el, Noncritical_el, Unrecoverable_el}"

section \<open>Thresholds and elements\<close>

record thresholds =
  th_unit :: string
  th_high_critical :: "int option"
  th_high_warning :: "int option"
  th_low_warning :: "int option"
  th_low_critical :: "int option"

definition decode_thresholds :: "u8 \<Rightarrow> bytes \<Rightarrow> thresholds option" where
  "decode_thresholds t b =
     (if t \<noteq> ET_TEMPERATURE \<and> t \<noteq> ET_VOLTAGE \<and> t \<noteq> ET_CURRENT \<or> b = [0, 0, 0, 0] then None
      else (let f = (\<lambda>v :: u8. if v = 0 then None
                       else Some (if t = ET_TEMPERATURE then 2 * (uint v - 20) else uint v))
            in Some \<lparr>th_unit = (if t = ET_TEMPERATURE then utf8_degree @ ''C'' else ''% of nominal''),
                 th_high_critical = f (b ! 0), th_high_warning = f (b ! 1), th_low_warning = f (b ! 2),
                 th_low_critical = f (b ! 3)\<rparr>))"

record element =
  el_type :: u8
  el_type_name :: string
  el_index :: nat
  el_overall :: bool
  el_name :: "string option"
  el_status :: element_status
  el_predicted_failure :: bool
  el_disabled :: bool
  el_swapped :: bool
  el_ident :: bool
  el_fault :: bool
  el_temperature_c :: "int option"
  el_rpm :: "nat option"
  el_volts :: "int option"
  el_amps :: "int option"
  el_bay :: "nat option"
  el_sas_address :: "string option"
  el_flags :: "string list"
  el_attributes :: "string \<rightharpoonup> string"
  el_thresholds :: "thresholds option"
  el_raw :: bytes

definition flags_of :: "(bool \<times> string) list \<Rightarrow> string list" where "flags_of fs = map snd (filter fst fs)"

definition blank_element :: "u8 \<Rightarrow> nat \<Rightarrow> bool \<Rightarrow> bytes \<Rightarrow> element" where
  "blank_element t index overall b =
     \<lparr>el_type = t, el_type_name = element_type_name t, el_index = index, el_overall = overall, el_name = None,
      el_status = from_code (b ! 0), el_predicted_failure = (b ! 0 AND 0x40 \<noteq> 0), el_disabled = (b ! 0 AND 0x20 \<noteq> 0),
      el_swapped = (b ! 0 AND 0x10 \<noteq> 0), el_ident = False, el_fault = False, el_temperature_c = None, el_rpm = None,
      el_volts = None, el_amps = None, el_bay = None, el_sas_address = None, el_flags = [], el_attributes = Map.empty,
      el_thresholds = None, el_raw = b\<rparr>"

definition is_slot :: "u8 \<Rightarrow> bool" where "is_slot t \<longleftrightarrow> t = ET_DEVICE_SLOT \<or> t = ET_ARRAY_DEVICE_SLOT"

definition decode_slot :: "element \<Rightarrow> element" where
  "decode_slot e =
     (let b = el_raw e in
      e\<lparr>el_ident := (b ! 2 AND 0x02 \<noteq> 0), el_fault := (b ! 3 AND 0x20 \<noteq> 0 \<or> b ! 3 AND 0x40 \<noteq> 0),
        el_bay := (if el_type e = ET_DEVICE_SLOT \<and> \<not> el_overall e then Some (unat (b ! 1)) else None),
        el_flags := flags_of [(b ! 2 AND 0x40 \<noteq> 0, ''do not remove''), (b ! 3 AND 0x10 \<noteq> 0, ''device off''),
          (b ! 2 AND 0x08 \<noteq> 0, ''ready to insert''), (b ! 2 AND 0x04 \<noteq> 0, ''remove requested''),
          (b ! 3 AND 0x0f \<noteq> 0, ''bypassed'')]\<rparr>)"

definition decode_power_supply :: "element \<Rightarrow> element" where
  "decode_power_supply e =
     (let b = el_raw e in
      e\<lparr>el_ident := (b ! 1 AND 0x80 \<noteq> 0), el_fault := (b ! 3 AND 0x40 \<noteq> 0),
        el_flags := flags_of [(b ! 2 AND 0x08 \<noteq> 0, ''dc overvoltage''), (b ! 2 AND 0x04 \<noteq> 0, ''dc undervoltage''),
          (b ! 2 AND 0x02 \<noteq> 0, ''dc overcurrent''), (b ! 3 AND 0x80 \<noteq> 0, ''hot swap''), (b ! 3 AND 0x10 \<noteq> 0, ''off''),
          (b ! 3 AND 0x08 \<noteq> 0, ''overtemp failure''), (b ! 3 AND 0x04 \<noteq> 0, ''temp warning''),
          (b ! 3 AND 0x02 \<noteq> 0, ''ac fail''), (b ! 3 AND 0x01 \<noteq> 0, ''dc fail'')]\<rparr>)"

definition decode_cooling :: "element \<Rightarrow> element" where
  "decode_cooling e =
     (let b = el_raw e; speed = push_bit 8 (ucast (b ! 1 AND 0x07)) OR ucast (b ! 2) :: u32 in
      e\<lparr>el_ident := (b ! 1 AND 0x80 \<noteq> 0), el_fault := (b ! 3 AND 0x40 \<noteq> 0), el_rpm := Some (unat speed * 10),
        el_flags := flags_of [(b ! 3 AND 0x10 \<noteq> 0, ''off'')]\<rparr>)"

definition decode_temperature :: "element \<Rightarrow> element" where
  "decode_temperature e =
     (let b = el_raw e in
      e\<lparr>el_ident := (b ! 1 AND 0x80 \<noteq> 0), el_fault := (b ! 1 AND 0x40 \<noteq> 0),
        el_temperature_c := (if b ! 2 \<noteq> 0 then Some (uint (b ! 2) - 20) else None),
        el_flags := flags_of [(b ! 3 AND 0x08 \<noteq> 0, ''overtemp failure''), (b ! 3 AND 0x04 \<noteq> 0, ''overtemp warning''),
          (b ! 3 AND 0x02 \<noteq> 0, ''undertemp failure''), (b ! 3 AND 0x01 \<noteq> 0, ''undertemp warning'')]\<rparr>)"

definition decode_voltage :: "element \<Rightarrow> element" where
  "decode_voltage e =
     (let b = el_raw e in
      e\<lparr>el_ident := (b ! 1 AND 0x80 \<noteq> 0), el_fault := (b ! 1 AND 0x40 \<noteq> 0),
        el_volts := Some (sint (word_of_be [b ! 2, b ! 3] :: u16)),
        el_flags := flags_of [(b ! 1 AND 0x08 \<noteq> 0, ''warn over''), (b ! 1 AND 0x04 \<noteq> 0, ''warn under''),
          (b ! 1 AND 0x02 \<noteq> 0, ''crit over''), (b ! 1 AND 0x01 \<noteq> 0, ''crit under'')]\<rparr>)"

definition decode_current :: "element \<Rightarrow> element" where
  "decode_current e =
     (let b = el_raw e in
      e\<lparr>el_ident := (b ! 1 AND 0x80 \<noteq> 0), el_fault := (b ! 1 AND 0x40 \<noteq> 0),
        el_amps := Some (sint (word_of_be [b ! 2, b ! 3] :: u16)),
        el_flags := flags_of [(b ! 1 AND 0x08 \<noteq> 0, ''warn over''), (b ! 1 AND 0x02 \<noteq> 0, ''crit over'')]\<rparr>)"

definition decode_enclosure :: "element \<Rightarrow> element" where
  "decode_enclosure e =
     (let b = el_raw e in
      e\<lparr>el_ident := (b ! 1 AND 0x80 \<noteq> 0), el_fault := (b ! 2 AND 0x02 \<noteq> 0 \<or> b ! 3 AND 0x02 \<noteq> 0),
        el_flags := flags_of [(b ! 2 AND 0x02 \<noteq> 0, ''failure indicated''), (b ! 2 AND 0x01 \<noteq> 0, ''warning indicated''),
          (b ! 3 AND 0x02 \<noteq> 0, ''failure requested''), (b ! 3 AND 0x01 \<noteq> 0, ''warning requested'')]\<rparr>)"

definition decode_electronics :: "element \<Rightarrow> element" where
  "decode_electronics e =
     (let b = el_raw e in e\<lparr>el_ident := (b ! 1 AND 0x80 \<noteq> 0), el_fault := (b ! 3 AND 0x40 \<noteq> 0)\<rparr>)"

definition decode_element :: "u8 \<Rightarrow> nat \<Rightarrow> bool \<Rightarrow> bytes \<Rightarrow> element" where
  "decode_element t index overall b =
     (let e = blank_element t index overall b in
      if is_slot t then decode_slot e
      else if t = ET_POWER_SUPPLY then decode_power_supply e
      else if t = ET_COOLING then decode_cooling e
      else if t = ET_TEMPERATURE then decode_temperature e
      else if t = ET_VOLTAGE then decode_voltage e
      else if t = ET_CURRENT then decode_current e
      else if t = ET_ENCLOSURE then decode_enclosure e
      else if t = ET_ESC_ELECTRONICS \<or> t = ET_SAS_EXPANDER \<or> t = ET_SAS_CONNECTOR then decode_electronics e
      else e)"

section \<open>The configuration page\<close>

record type_header =
  ty_element_type :: u8
  ty_count :: nat
  ty_subenclosure :: u8
  ty_text :: string

record configuration =
  cf_generation :: u32
  cf_logical_id :: "string option"
  cf_vendor :: string
  cf_product :: string
  cf_revision :: string
  cf_types :: "type_header list"

definition lossy_trim :: "bytes \<Rightarrow> string" where "lossy_trim bs = trim (from_utf8_lossy bs)"

definition hex_of :: "bytes \<Rightarrow> string" where "hex_of bs = concat (map hex_lower bs)"

definition enclosure_identity :: "bytes \<Rightarrow> configuration \<Rightarrow> configuration" where
  "enclosure_identity d cfg =
     cfg\<lparr>cf_logical_id := (if list_ex (\<lambda>b. b \<noteq> 0) (slice 0 8 d) then Some (hex_of (slice 0 8 d)) else cf_logical_id cfg),
        cf_vendor := lossy_trim (slice 8 8 d), cf_product := lossy_trim (slice 16 16 d),
        cf_revision := lossy_trim (slice 32 4 d)\<rparr>"

text \<open>The enclosure descriptors: the offset after them, the number of type headers, and the first one's identity.\<close>

fun config_enclosures :: "bytes \<Rightarrow> bool \<Rightarrow> nat \<Rightarrow> nat \<Rightarrow> nat \<Rightarrow> configuration \<Rightarrow> (nat \<times> nat \<times> configuration) option" where
  "config_enclosures raw first 0 off types cfg = Some (off, types, cfg)"
| "config_enclosures raw first (Suc n) off types cfg =
     (if length raw < off + 4 then None
      else (let len = unat (raw ! (off + 3));
                cfg' = (if first \<and> 36 \<le> len \<and> off + 4 + len \<le> length raw
                        then enclosure_identity (slice (off + 4) len raw) cfg else cfg)
            in config_enclosures raw False n (off + 4 + len) (types + unat (raw ! (off + 2))) cfg'))"

fun config_headers :: "bytes \<Rightarrow> nat \<Rightarrow> nat \<Rightarrow> ((u8 \<times> u8 \<times> u8 \<times> nat) list \<times> nat) option" where
  "config_headers raw 0 off = Some ([], off)"
| "config_headers raw (Suc n) off =
     (if length raw < off + 4 then None
      else map_option (\<lambda>(hs, off'). ((raw ! off, raw ! (off + 1), raw ! (off + 2), unat (raw ! (off + 3))) # hs, off'))
             (config_headers raw n (off + 4)))"

fun config_types :: "bytes \<Rightarrow> (u8 \<times> u8 \<times> u8 \<times> nat) list \<Rightarrow> nat \<Rightarrow> type_header list" where
  "config_types raw [] off = []"
| "config_types raw ((t, cnt, sub, len) # hs) off =
     \<lparr>ty_element_type = t, ty_count = unat cnt, ty_subenclosure = sub,
      ty_text = (if 0 < len \<and> off + len \<le> length raw then lossy_trim (slice off len raw) else [])\<rparr>
     # config_types raw hs (off + len)"

definition parse_configuration :: "bytes \<Rightarrow> configuration option" where
  "parse_configuration raw =
     (if length raw < 8 \<or> raw ! 0 \<noteq> PAGE_CONFIG then None
      else (let cfg = \<lparr>cf_generation = word_of_be (slice 4 4 raw), cf_logical_id = None, cf_vendor = [], cf_product = [],
                       cf_revision = [], cf_types = []\<rparr> in
        case config_enclosures raw True (Suc (unat (raw ! 1))) 8 0 cfg of
          None \<Rightarrow> None
        | Some (off, types, cfg') \<Rightarrow>
            (case config_headers raw types off of
               None \<Rightarrow> None
             | Some (hs, off') \<Rightarrow> Some (cfg'\<lparr>cf_types := config_types raw hs off'\<rparr>))))"

section \<open>The status page and its companions\<close>

text \<open>What the pages go through: each type's overall element, then its individual ones.\<close>

definition element_order :: "configuration \<Rightarrow> (u8 \<times> nat) list" where
  "element_order cfg = concat (map (\<lambda>th. map (Pair (ty_element_type th)) [0..<Suc (ty_count th)]) (cf_types cfg))"

record status_page =
  sp_generation :: u32
  sp_invop :: bool
  sp_info :: bool
  sp_noncritical :: bool
  sp_critical :: bool
  sp_unrecoverable :: bool
  sp_elements :: "element list"

fun read_elements :: "bytes \<Rightarrow> nat \<Rightarrow> nat \<Rightarrow> (u8 \<times> nat) list \<Rightarrow> element list" where
  "read_elements raw fin off [] = []"
| "read_elements raw fin off ((t, i) # xs) =
     (if fin < off + 4 then []
      else decode_element t (i - 1) (i = 0) (slice off 4 raw) # read_elements raw fin (off + 4) xs)"

definition page_end :: "bytes \<Rightarrow> nat" where
  "page_end raw = min (nat_of_be (slice 2 2 raw) + 4) (length raw)"

definition parse_status :: "configuration \<Rightarrow> bytes \<Rightarrow> status_page option" where
  "parse_status cfg raw =
     (if length raw < 8 \<or> raw ! 0 \<noteq> PAGE_STATUS then None
      else Some \<lparr>sp_generation = word_of_be (slice 4 4 raw), sp_invop = (raw ! 1 AND 0x10 \<noteq> 0), sp_info = (raw ! 1 AND 0x08 \<noteq> 0),
             sp_noncritical = (raw ! 1 AND 0x04 \<noteq> 0), sp_critical = (raw ! 1 AND 0x02 \<noteq> 0),
             sp_unrecoverable = (raw ! 1 AND 0x01 \<noteq> 0),
             sp_elements = read_elements raw (page_end raw) 8 (element_order cfg)\<rparr>)"

definition elements_expected :: "configuration \<Rightarrow> nat" where
  "elements_expected cfg = sum_list (map (\<lambda>t. ty_count t + 1) (cf_types cfg))"

fun read_descriptors :: "bytes \<Rightarrow> nat \<Rightarrow> nat \<Rightarrow> string option list" where
  "read_descriptors raw 0 off = []"
| "read_descriptors raw (Suc n) off =
     (if length raw < off + 4 then None # read_descriptors raw n off
      else (let len = nat_of_be (slice (off + 2) 2 raw);
                text = lossy_trim (slice (off + 4) len raw)
            in (if 0 < len \<and> off + 4 + len \<le> length raw \<and> text \<noteq> [] then Some text else None)
               # read_descriptors raw n (off + 4 + len)))"

definition parse_descriptors :: "configuration \<Rightarrow> bytes \<Rightarrow> string option list" where
  "parse_descriptors cfg raw =
     (if length raw < 8 \<or> raw ! 0 \<noteq> PAGE_DESCRIPTORS then [] else read_descriptors raw (elements_expected cfg) 8)"

text \<open>\<open>trim_matches\<close> of white space and NUL.\<close>

definition trim_nul :: "string \<Rightarrow> string" where
  "trim_nul s =
     rev (trim_start_with (map rev ([CHR 0x00] # ws_sequences)) (rev (trim_start_with ([CHR 0x00] # ws_sequences) s)))"

definition parse_help_text :: "bytes \<Rightarrow> string option" where
  "parse_help_text raw =
     (if length raw < 4 \<or> raw ! 0 \<noteq> PAGE_HELP then None
      else (let t = trim_nul (from_utf8_lossy (slice 4 (page_end raw - 4) raw)) in if t \<noteq> [] then Some t else None))"

fun read_thresholds :: "bytes \<Rightarrow> nat \<Rightarrow> nat \<Rightarrow> nat \<Rightarrow> bytes list" where
  "read_thresholds raw fin off 0 = []"
| "read_thresholds raw fin off (Suc n) =
     (if off + 4 \<le> fin then slice off 4 raw # read_thresholds raw fin (off + 4) n else [])"

definition parse_thresholds :: "configuration \<Rightarrow> bytes \<Rightarrow> bytes list" where
  "parse_thresholds cfg raw =
     (if length raw < 8 \<or> raw ! 0 \<noteq> PAGE_THRESHOLD then [] else read_thresholds raw (page_end raw) 8 (elements_expected cfg))"

definition parse_supported_pages :: "bytes \<Rightarrow> bytes" where
  "parse_supported_pages raw =
     (if length raw < 4 \<or> raw ! 0 \<noteq> PAGE_SUPPORTED then [] else slice 4 (page_end raw - 4) raw)"

record slot_address =
  sa_element_index :: "u8 option"
  sa_bay :: "nat option"
  sa_sas_addresses :: "string list"

fun phy_addresses :: "bytes \<Rightarrow> nat \<Rightarrow> nat \<Rightarrow> nat \<Rightarrow> string list" where
  "phy_addresses raw fin 0 p = []"
| "phy_addresses raw fin (Suc n) p =
     (if fin < p + 28 then []
      else (let sas = slice (p + 12) 8 raw
            in (if list_ex (\<lambda>b. b \<noteq> 0) sas then [hex_of sas] else []) @ phy_addresses raw fin n (p + 28)))"

text \<open>One descriptor of page 0x0A, whose body ends at \<open>body_end\<close>: \<open>None\<close> ends the reading of the page.\<close>

definition slot_descriptor :: "bytes \<Rightarrow> nat \<Rightarrow> nat \<Rightarrow> slot_address list option" where
  "slot_descriptor raw off body_end =
     (let b0 = raw ! off; start = off + 2; eip = (b0 AND 0x10 \<noteq> 0) in
      if b0 AND 0x80 \<noteq> 0 \<or> b0 AND 0x0f \<noteq> 6 \<or> body_end \<le> start then Some []
      else if eip \<and> body_end < start + 2 then None
      else (let p = (if eip then start + 2 else start) in
        if body_end < p + 4 \<or> drop_bit 6 (raw ! (p + 1)) \<noteq> 0 then Some []
        else Some [\<lparr>sa_element_index = (if eip then Some (raw ! (start + 1)) else None),
                    sa_bay = (if eip then Some (unat (raw ! (p + 3))) else None),
                    sa_sas_addresses = phy_addresses raw body_end (unat (raw ! p)) (p + 4)\<rparr>]))"

function read_additional :: "bytes \<Rightarrow> nat \<Rightarrow> nat \<Rightarrow> slot_address list" where
  "read_additional raw fin off =
     (if fin < off + 2 then []
      else (let dlen = unat (raw ! (off + 1)) in
        case slot_descriptor raw off (min (off + 2 + dlen) fin) of
          None \<Rightarrow> []
        | Some found \<Rightarrow> found @ (if dlen = 0 then [] else read_additional raw fin (off + 2 + dlen))))"
  by pat_completeness auto
termination
  by (relation "measure (\<lambda>(raw, fin, off). fin - off)") auto

declare read_additional.simps [simp del]

definition parse_additional :: "bytes \<Rightarrow> slot_address list" where
  "parse_additional raw =
     (if length raw < 8 \<or> raw ! 0 \<noteq> PAGE_ADDITIONAL then [] else read_additional raw (page_end raw) 8)"

section \<open>Control pages\<close>

definition build_ident_control :: "bytes \<Rightarrow> nat \<Rightarrow> u8 \<Rightarrow> bool \<Rightarrow> bytes option" where
  "build_ident_control status off t on =
     (if length status < 8 \<or> length status < off + 4 then None
      else (let st = slice off 4 status;
                ctl = (if is_slot t then [0x80, 0, if on then 0x02 else 0, st ! 3 AND 0x20]
                       else if t = ET_ENCLOSURE then [0x80, if on then 0x80 else 0, 0, st ! 3 AND 0x03]
                       else [0x80, if on then 0x80 else 0, 0, 0])
            in Some (put off ctl (put 4 (slice 4 4 status)
                 (put 2 (slice 2 2 status) (put 0 [PAGE_STATUS] (replicate (length status) 0)))))))"

definition set_bytes :: "nat \<Rightarrow> (nat \<times> u8) list \<Rightarrow> bytes \<Rightarrow> bytes" where
  "set_bytes off bs page = foldl (\<lambda>pg (i, b). pg[off + i := b]) page bs"

definition build_fault_control :: "bytes \<Rightarrow> nat \<Rightarrow> u8 \<Rightarrow> bool \<Rightarrow> bytes option" where
  "build_fault_control status off t on =
     (if \<not> is_slot t \<and> t \<noteq> ET_ENCLOSURE then None
      else map_option (\<lambda>page.
        (let st = slice off 4 status in
         if t = ET_ENCLOSURE
         then set_bytes off [(1, st ! 1 AND 0x80), (3, (st ! 3 AND 0x01) OR (if on then 0x02 else 0))] page
         else set_bytes off [(2, st ! 2 AND 0x02), (3, if on then 0x20 else 0)] page))
        (build_ident_control status off t False))"

definition build_power_control :: "bytes \<Rightarrow> nat \<Rightarrow> u8 \<Rightarrow> bool \<Rightarrow> bytes option" where
  "build_power_control status off t power_off =
     (if \<not> is_slot t then None
      else map_option (\<lambda>page.
        (let st = slice off 4 status in
         set_bytes off [(2, st ! 2 AND 0x02), (3, (st ! 3 AND 0x20) OR (if power_off then 0x10 else 0))] page))
        (build_ident_control status off t False))"

definition element_offset :: "nat \<Rightarrow> nat" where "element_offset n = 8 + n * 4"

definition position_where :: "('a \<Rightarrow> bool) \<Rightarrow> 'a list \<Rightarrow> nat option" where
  "position_where P xs = find (\<lambda>i. P (xs ! i)) [0..<length xs]"

definition find_slot_element :: "element list \<Rightarrow> nat \<Rightarrow> nat option" where
  "find_slot_element es bay = position_where (\<lambda>e. \<not> el_overall e \<and> is_slot (el_type e) \<and> el_bay e = Some bay) es"

definition find_enclosure_element :: "element list \<Rightarrow> nat option" where
  "find_enclosure_element es =
     opt_or (position_where (\<lambda>e. el_type e = ET_ENCLOSURE \<and> \<not> el_overall e) es)
            (position_where (\<lambda>e. el_type e = ET_ENCLOSURE) es)"

section \<open>The report of a shelf\<close>

record esp_path =
  ep_scsi_id :: string
  ep_sg_path :: "string option"
  ep_sas_address :: "string option"
  ep_serial :: "string option"
  ep_revision :: "string option"
  ep_behind_expander :: bool

text \<open>\<open>Through\<close> is \<open>megaraid.rs\<close>'s: how a shelf without an enclosure processor was read.\<close>

record through =
  tg_driver :: string
  tg_scsi_host :: string
  tg_pcie_addr :: "string option"
  tg_enclosure_device_id :: "u16 option"
  tg_device_bays :: "u16 \<rightharpoonup> nat"
  tg_no_enclosure_devices :: "u16 list"
  tg_slot_not_matched :: "u16 list"
  tg_error :: "string option"

record shelf_report =
  sr_key :: string
  sr_shelf :: shelf
  sr_esps :: "esp_path list"
  sr_generation :: u32
  sr_critical :: bool
  sr_noncritical :: bool
  sr_unrecoverable :: bool
  sr_info :: bool
  sr_elements :: "element list"
  sr_slots :: "(nat, string list) btree"
  sr_help_text :: "string option"
  sr_through :: "through option"
  sr_collected_at :: time
  sr_status_raw :: bytes

definition worsen_el :: "element_status \<Rightarrow> element_status \<Rightarrow> element_status" where
  "worsen_el s w =
     (if s = Unrecoverable_el then Unrecoverable_el
      else if s = Critical_el \<and> w \<in> {Ok_el, Noncritical_el} then Critical_el
      else if s = Noncritical_el \<and> w = Ok_el then Noncritical_el
      else w)"

definition worst :: "shelf_report \<Rightarrow> element_status" where
  "worst r =
     (if sr_through r \<noteq> None then Unknown_el
      else if sr_unrecoverable r then Unrecoverable_el
      else if sr_critical r then Critical_el
      else if sr_noncritical r then Noncritical_el
      else fold worsen_el (map el_status (sr_elements r)) Ok_el)"

definition max_temperature_c :: "shelf_report \<Rightarrow> int option" where
  "max_temperature_c r =
     (let ts = List.map_filter el_temperature_c (sr_elements r) in case ts of [] \<Rightarrow> None | t # ts \<Rightarrow> Some (fold max ts t))"

definition count_installed :: "shelf_report \<Rightarrow> u8 \<Rightarrow> nat \<times> nat" where
  "count_installed r t =
     (let installed = filter (\<lambda>e. el_status e \<noteq> NotInstalled_el \<and> el_status e \<noteq> Unsupported_el)
                        (filter (\<lambda>e. el_type e = t \<and> \<not> el_overall e) (sr_elements r))
      in (length (filter (\<lambda>e. el_status e = Ok_el) installed), length installed))"

definition bay_of :: "shelf_report \<Rightarrow> string \<Rightarrow> nat option" where
  "bay_of r address = map_option fst (find (\<lambda>ba. normalize_sas address \<in> set (snd ba)) (sr_slots r))"

record raw_pages =
  rp_config :: bytes
  rp_status :: bytes
  rp_descriptors :: "bytes option"
  rp_additional :: "bytes option"
  rp_help :: "bytes option"
  rp_thresholds :: "bytes option"

definition individual :: "u8 \<Rightarrow> element list \<Rightarrow> element list" where
  "individual t es = filter (\<lambda>e. el_type e = t \<and> \<not> el_overall e) es"

definition report_position :: "bool \<Rightarrow> element list \<Rightarrow> string \<Rightarrow> position" where
  "report_position behind es identity =
     (let named = map (\<lambda>n. position_in_enclosure behind n identity)
                    (List.map_filter el_name (individual ET_ARRAY_DEVICE_SLOT es @ individual ET_DEVICE_SLOT es));
          chassis = position_in_enclosure behind
                    (case first_some (map el_name (individual ET_ENCLOSURE es)) of Some n \<Rightarrow> n | None \<Rightarrow> []) identity
      in case named of
           [] \<Rightarrow> chassis
         | p # ps \<Rightarrow> (if list_all (\<lambda>q. q = p) ps then p else chassis))"

text \<open>\<open>iter_mut().zip\<close>: the elements beyond the other list are left alone.\<close>

fun zip_with :: "('b \<Rightarrow> 'a \<Rightarrow> 'a) \<Rightarrow> 'b list \<Rightarrow> 'a list \<Rightarrow> 'a list" where
  "zip_with f (b # bs) (a # as) = f b a # zip_with f bs as"
| "zip_with f _ as = as"

definition describe_element :: "string option \<Rightarrow> element \<Rightarrow> element" where
  "describe_element n e =
     e\<lparr>el_name := n, el_attributes := (case n of Some t \<Rightarrow> parse_attributes t | None \<Rightarrow> el_attributes e)\<rparr>"

definition limit_element :: "bytes \<Rightarrow> element \<Rightarrow> element" where
  "limit_element b e = (if el_overall e then e else e\<lparr>el_thresholds := decode_thresholds (el_type e) b\<rparr>)"

definition name_element :: "string \<Rightarrow> element \<Rightarrow> element" where
  "name_element vendor e = (case vendor_type_name vendor (el_type e) of Some n \<Rightarrow> e\<lparr>el_type_name := n\<rparr> | None \<Rightarrow> e)"

definition number_slot :: "element \<Rightarrow> element" where
  "number_slot e =
     (if el_type e = ET_ARRAY_DEVICE_SLOT \<and> \<not> el_overall e \<and> el_bay e = None then e\<lparr>el_bay := Some (el_index e)\<rparr> else e)"

definition dressed_elements :: "configuration \<Rightarrow> raw_pages \<Rightarrow> element list \<Rightarrow> element list" where
  "dressed_elements cfg pages es =
     (let es1 = (case rp_descriptors pages of Some d \<Rightarrow> zip_with describe_element (parse_descriptors cfg d) es | None \<Rightarrow> es);
          es2 = (case rp_thresholds pages of Some t \<Rightarrow> zip_with limit_element (parse_thresholds cfg t) es1 | None \<Rightarrow> es1)
      in map number_slot (map (name_element (cf_vendor cfg)) es2))"

definition slot_position :: "element list \<Rightarrow> nat \<Rightarrow> slot_address \<Rightarrow> nat option" where
  "slot_position es n sa =
     (let individuals = filter (\<lambda>i. \<not> el_overall (es ! i)) [0..<length es];
          slots = filter (\<lambda>i. \<not> el_overall (es ! i) \<and> is_slot (el_type (es ! i))) [0..<length es]
      in opt_or
           (opt_filter (\<lambda>p. is_slot (el_type (es ! p)))
              (Option.bind (sa_element_index sa) (\<lambda>ei. get_nth (unat ei) individuals)))
           (get_nth n slots))"

definition place_slot :: "nat \<Rightarrow> slot_address \<Rightarrow> element list \<times> (nat, string list) btree \<Rightarrow> element list \<times> (nat, string list) btree" where
  "place_slot n sa st =
     (let (es, slots) = st in
      case slot_position es n sa of
        None \<Rightarrow> (es, slots)
      | Some p \<Rightarrow>
          (let e = (case sa_bay sa of Some b \<Rightarrow> (es ! p)\<lparr>el_bay := Some b\<rparr> | None \<Rightarrow> es ! p);
               bay = (case el_bay e of Some b \<Rightarrow> b | None \<Rightarrow> n);
               e' = (case sa_sas_addresses sa of a # _ \<Rightarrow> e\<lparr>el_sas_address := Some a\<rparr> | [] \<Rightarrow> e)
           in (es[p := e'], if sa_sas_addresses sa \<noteq> [] then bt_insert bay (sa_sas_addresses sa) slots else slots)))"

definition place_slots :: "slot_address list \<Rightarrow> element list \<Rightarrow> element list \<times> (nat, string list) btree" where
  "place_slots sas es = fold (\<lambda>(n, sa). place_slot n sa) (zip [0..<length sas] sas) (es, [])"

definition assembled_elements :: "configuration \<Rightarrow> raw_pages \<Rightarrow> element list \<Rightarrow> element list \<times> (nat, string list) btree" where
  "assembled_elements cfg pages es =
     place_slots (case rp_additional pages of Some a \<Rightarrow> parse_additional a | None \<Rightarrow> []) (dressed_elements cfg pages es)"

definition report_key :: "configuration \<Rightarrow> esp_path list \<Rightarrow> string option" where
  "report_key cfg esps =
     (let first = get_nth 0 esps in
      opt_or (cf_logical_id cfg) (opt_or (Option.bind first ep_serial) (map_option ep_scsi_id first)))"

definition nonempty_text :: "string \<Rightarrow> string option" where "nonempty_text s = (if s \<noteq> [] then Some s else None)"

definition shelf_of :: "configuration \<Rightarrow> esp_path list \<Rightarrow> string option \<Rightarrow> element list \<Rightarrow> shelf" where
  "shelf_of cfg esps sysfs_id es =
     (let first = get_nth 0 esps;
          chassis = Option.bind (find (\<lambda>e. el_type e = ET_ENCLOSURE \<and> \<not> el_overall e) es) (\<lambda>e. el_attributes e ''SN'');
          identity = join '' '' (filter (\<lambda>p. p \<noteq> []) [trim (cf_vendor cfg), trim (cf_product cfg)])
      in \<lparr>sh_id = opt_or sysfs_id (map_option ep_scsi_id first), sh_vendor = nonempty_text (cf_vendor cfg),
          sh_model = nonempty_text (cf_product cfg), sh_serial = opt_or chassis (Option.bind first ep_serial),
          sh_sas_address = Option.bind first ep_sas_address, sh_logical_id = cf_logical_id cfg,
          sh_position = Some (report_position (list_ex ep_behind_expander esps) es identity)\<rparr>)"

definition assemble :: "time \<Rightarrow> esp_path list \<Rightarrow> string option \<Rightarrow> raw_pages \<Rightarrow> shelf_report option" where
  "assemble now esps sysfs_id pages =
     (case parse_configuration (rp_config pages) of
        None \<Rightarrow> None
      | Some cfg \<Rightarrow>
          (case parse_status cfg (rp_status pages) of
             None \<Rightarrow> None
           | Some st \<Rightarrow>
               (let (es, slots) = assembled_elements cfg pages (sp_elements st) in
                map_option (\<lambda>k. \<lparr>sr_key = k, sr_shelf = shelf_of cfg esps sysfs_id es, sr_esps = esps,
                    sr_generation = sp_generation st, sr_critical = sp_critical st, sr_noncritical = sp_noncritical st,
                    sr_unrecoverable = sp_unrecoverable st, sr_info = sp_info st, sr_elements = es, sr_slots = slots,
                    sr_help_text = Option.bind (rp_help pages) parse_help_text, sr_through = None, sr_collected_at = now,
                    sr_status_raw = rp_status pages\<rparr>)
                  (report_key cfg esps))))"

text \<open>A pass over the node's enclosure devices: two with the same key are one shelf with two paths.\<close>

definition add_report :: "esp_path \<Rightarrow> shelf_report \<Rightarrow> (string, shelf_report) btree \<Rightarrow> (string, shelf_report) btree" where
  "add_report esp r shelves =
     (case map_of shelves (sr_key r) of
        None \<Rightarrow> bt_insert (sr_key r) r shelves
      | Some old \<Rightarrow>
          bt_insert (sr_key r)
            (old\<lparr>sr_esps := sr_esps old @ [esp],
                 sr_slots := foldl (\<lambda>m (b, as). if map_of m b = None then bt_insert b as m else m) (sr_slots old) (sr_slots r)\<rparr>)
            shelves)"

definition scan_one :: "time \<Rightarrow> esp_path \<times> string option \<times> raw_pages option \<Rightarrow> (string, shelf_report) btree \<Rightarrow> (string, shelf_report) btree" where
  "scan_one now dev shelves =
     (let (esp, sysfs_id, pages) = dev in
      case (ep_sg_path esp, pages) of
        (Some _, Some p) \<Rightarrow> (case assemble now [esp] sysfs_id p of Some r \<Rightarrow> add_report esp r shelves | None \<Rightarrow> shelves)
      | _ \<Rightarrow> shelves)"

definition scan :: "time \<Rightarrow> (esp_path \<times> string option \<times> raw_pages option) list \<Rightarrow> (string, shelf_report) btree" where
  "scan now devs = fold (scan_one now) devs []"

section \<open>What is sent to a shelf\<close>

text \<open>
  An enclosure processor by its sg node: the status page it answers, and what it says to a control page.
  The log is the pages sent with their outcome.
\<close>

record ses_dev =
  sv_status :: "string \<Rightarrow> scsi_error + bytes"
  sv_send :: "string \<Rightarrow> bytes \<Rightarrow> scsi_error option"

type_synonym ses_log = "(string \<times> bytes \<times> scsi_error option) list"

fun through_esps ::
  "ses_dev \<Rightarrow> (bytes \<Rightarrow> bytes option) \<Rightarrow> string \<Rightarrow> string option list \<Rightarrow> string option \<Rightarrow> ses_log \<Rightarrow> (string option + unit) \<times> ses_log" where
  "through_esps dev build short [] err lg = (Inl err, lg)"
| "through_esps dev build short (None # sgs) err lg = through_esps dev build short sgs err lg"
| "through_esps dev build short (Some sg # sgs) err lg =
     (case sv_status dev sg of
        Inl e \<Rightarrow> through_esps dev build short sgs (Some (error_str e)) lg
      | Inr status \<Rightarrow>
          (case build status of
             None \<Rightarrow> through_esps dev build short sgs (Some short) lg
           | Some page \<Rightarrow>
               (case sv_send dev sg page of
                  None \<Rightarrow> (Inr (), lg @ [(sg, page, None)])
                | Some e \<Rightarrow> through_esps dev build short sgs (Some (error_str e)) (lg @ [(sg, page, Some e)]))))"

definition no_path :: "string option \<Rightarrow> string" where
  "no_path err = (case err of Some e \<Rightarrow> e | None \<Rightarrow> ''no ESP path'')"

definition element_for :: "shelf_report \<Rightarrow> nat option \<Rightarrow> string + nat" where
  "element_for r bay =
     (case bay of
        Some b \<Rightarrow> (case find_slot_element (sr_elements r) b of
            Some p \<Rightarrow> Inr p | None \<Rightarrow> Inl (''shelf '' @ sr_key r @ '': no slot element for bay '' @ dec b))
      | None \<Rightarrow> (case find_enclosure_element (sr_elements r) of
            Some p \<Rightarrow> Inr p | None \<Rightarrow> Inl (''shelf '' @ sr_key r @ '': no enclosure element'')))"

definition send_control ::
  "(bytes \<Rightarrow> nat \<Rightarrow> u8 \<Rightarrow> bytes option) \<Rightarrow> string \<Rightarrow> string \<Rightarrow> ses_dev \<Rightarrow> shelf_report \<Rightarrow> nat option \<Rightarrow> ses_log \<Rightarrow> (string + unit) \<times> ses_log" where
  "send_control build what short dev r bay lg =
     (case element_for r bay of
        Inl e \<Rightarrow> (Inl e, lg)
      | Inr p \<Rightarrow>
          (case through_esps dev (\<lambda>status. build status (element_offset p) (el_type (sr_elements r ! p))) short
                  (map ep_sg_path (sr_esps r)) None lg of
             (Inr u, lg') \<Rightarrow> (Inr u, lg')
           | (Inl err, lg') \<Rightarrow> (Inl (''shelf '' @ sr_key r @ '': '' @ what @ '' not set: '' @ no_path err), lg')))"

definition set_fault :: "ses_dev \<Rightarrow> shelf_report \<Rightarrow> nat option \<Rightarrow> bool \<Rightarrow> ses_log \<Rightarrow> (string + unit) \<times> ses_log" where
  "set_fault dev r bay on =
     send_control (\<lambda>st off t. build_fault_control st off t on) ''fault LED'' (error_str (Unsupported ''status page too short'')) dev r bay"

definition set_power :: "ses_dev \<Rightarrow> shelf_report \<Rightarrow> nat \<Rightarrow> bool \<Rightarrow> ses_log \<Rightarrow> (string + unit) \<times> ses_log" where
  "set_power dev r bay power_off =
     send_control (\<lambda>st off t. build_power_control st off t power_off) (''bay '' @ dec bay @ '' power'')
       (error_str (Unsupported ''status page too short'')) dev r (Some bay)"

definition set_ident :: "ses_dev \<Rightarrow> shelf_report \<Rightarrow> nat option \<Rightarrow> bool \<Rightarrow> ses_log \<Rightarrow> (string + unit) \<times> ses_log" where
  "set_ident dev r bay on =
     send_control (\<lambda>st off t. build_ident_control st off t on) ''ident'' ''status page too short'' dev r bay"

section \<open>The element a control page is for\<close>

lemma decode_element_place: "el_raw (decode_element t k ov b) = b" "el_type (decode_element t k ov b) = t"
  by (simp_all add: decode_element_def Let_def decode_slot_def decode_power_supply_def decode_cooling_def
      decode_temperature_def decode_voltage_def decode_current_def decode_enclosure_def decode_electronics_def blank_element_def)

lemma read_elements_nth:
  "n < length (read_elements raw fin off xs) \<Longrightarrow>
     el_raw (read_elements raw fin off xs ! n) = slice (off + 4 * n) 4 raw \<and> off + 4 * n + 4 \<le> fin
     \<and> el_type (read_elements raw fin off xs ! n) = fst (xs ! n)"
proof (induction xs arbitrary: off n)
  case (Cons x xs)
  obtain t i where x: "x = (t, i)" by fastforce
  have fin: "off + 4 \<le> fin" using Cons.prems by (simp add: x split: if_splits)
  show ?case
  proof (cases n)
    case 0
    then show ?thesis using fin by (simp add: x decode_element_place)
  next
    case (Suc m)
    then have "m < length (read_elements raw fin (off + 4) xs)" using Cons.prems fin by (simp add: x)
    from Cons.IH [OF this] show ?thesis using fin Suc by (simp add: x algebra_simps)
  qed
qed simp

text \<open>What dressing and placing the elements leaves alone.\<close>

definition place_of :: "element \<Rightarrow> bytes \<times> u8 \<times> bool" where "place_of e = (el_raw e, el_type e, el_overall e)"

lemma zip_with_places:
  assumes "\<And>b e. place_of (f b e) = place_of e"
  shows "map place_of (zip_with f bs es) = map place_of es"
proof (induction bs arbitrary: es)
  case (Cons b bs)
  then show ?case by (cases es) (simp_all add: assms)
qed simp

lemma dressed_places: "map place_of (dressed_elements cfg pages es) = map place_of es"
proof -
  have "map place_of (map number_slot es) = map place_of es" "map place_of (map (name_element v) es) = map place_of es" for es v
    by (simp_all add: place_of_def number_slot_def name_element_def comp_def split: option.split)
  moreover have "place_of (describe_element n e) = place_of e" "place_of (limit_element b e) = place_of e" for n b e
    by (simp_all add: place_of_def describe_element_def limit_element_def)
  ultimately show ?thesis by (simp only: dressed_elements_def Let_def) (simp add: zip_with_places split: option.split)
qed

lemma place_slot_places: "map place_of (fst (place_slot n sa (es, slots))) = map place_of es"
proof -
  have "map place_of (es[p := e]) = map place_of es" if "place_of e = place_of (es ! p)" for p e
    using that by (cases "p < length es") (simp_all add: map_update list_update_same_conv list_update_beyond)
  then show ?thesis
    by (auto simp: place_slot_def Let_def place_of_def split: option.split list.split)
qed

lemma fold_places: "map place_of (fst (fold (\<lambda>(n, sa). place_slot n sa) xs st)) = map place_of (fst st)"
proof (induction xs arbitrary: st)
  case (Cons x xs)
  then show ?case using place_slot_places [of "fst x" "snd x" "fst st" "snd st"] by (simp add: split_beta)
qed simp

lemma assembled_places: "map place_of (fst (assembled_elements cfg pages es)) = map place_of es"
  by (simp add: assembled_elements_def place_slots_def fold_places dressed_places)

lemma assemble_elements:
  assumes "assemble now esps sysfs_id pages = Some r" "n < length (sr_elements r)"
  shows "el_raw (sr_elements r ! n) = slice (element_offset n) 4 (rp_status pages)"
proof -
  obtain cfg st where st: "parse_status cfg (rp_status pages) = Some st" "sr_elements r = fst (assembled_elements cfg pages (sp_elements st))"
    using assms(1) by (auto simp: assemble_def Let_def split: option.splits prod.splits)
  have "map place_of (sr_elements r) = map place_of (sp_elements st)" unfolding st(2) by (rule assembled_places)
  then have "place_of (sr_elements r ! n) = place_of (sp_elements st ! n)" "n < length (sp_elements st)"
    using assms(2) by (metis nth_map length_map, metis length_map)
  moreover have "sp_elements st = read_elements (rp_status pages) (page_end (rp_status pages)) 8 (element_order cfg)"
    using st(1) by (auto simp: parse_status_def split: if_splits)
  ultimately show ?thesis using read_elements_nth [of n "rp_status pages" "page_end (rp_status pages)" 8 "element_order cfg"]
    by (simp add: place_of_def element_offset_def mult.commute)
qed

section \<open>What a control page does\<close>

text \<open>A control page for the element at \<open>off\<close>: its header is the status page's, and it selects nothing else.\<close>

definition selects_only :: "bytes \<Rightarrow> bytes \<Rightarrow> nat \<Rightarrow> bool" where
  "selects_only status page off \<longleftrightarrow> length page = length status \<and> page ! 0 = PAGE_STATUS \<and> page ! 1 = 0
     \<and> slice 2 6 page = slice 2 6 status
     \<and> (\<forall>i. 8 \<le> i \<and> i < length page \<and> page ! i \<noteq> 0 \<longrightarrow> off \<le> i \<and> i < off + 4) \<and> page ! off = 0x80"

text \<open>What a slot's control bytes ask for: all bits are clear but IDENT, FAULT and, for its power, DEVICE OFF.\<close>

definition asks :: "bool \<Rightarrow> bytes \<Rightarrow> nat \<Rightarrow> bool" where
  "asks pwr page off \<longleftrightarrow>
     page ! (off + 1) = 0 \<and> page ! (off + 2) AND 0xFD = 0 \<and> page ! (off + 3) AND (if pwr then 0xCF else 0xDF) = 0"

definition control_page :: "bytes \<Rightarrow> nat \<Rightarrow> bytes \<Rightarrow> bytes" where
  "control_page status off ctl =
     put off ctl (put 4 (slice 4 4 status) (put 2 (slice 2 2 status) (put 0 [PAGE_STATUS] (replicate (length status) 0))))"

lemma control_page_bytes:
  assumes "8 \<le> off" "off + 4 \<le> length status" "length ctl = 4" "i < length status"
  shows "length (control_page status off ctl) = length status
    \<and> control_page status off ctl ! i =
        (if off \<le> i \<and> i < off + 4 then ctl ! (i - off) else if 2 \<le> i \<and> i < 8 then status ! i else if i = 0 then PAGE_STATUS else 0)"
proof -
  have "i = 2 + (i - 2)" if "2 \<le> i" using that by simp
  then show ?thesis using assms by (auto simp: control_page_def nth_put length_put slice_def)
qed

lemma length_control_page:
  "8 \<le> off \<Longrightarrow> off + 4 \<le> length status \<Longrightarrow> length ctl = 4 \<Longrightarrow> length (control_page status off ctl) = length status"
  by (simp add: control_page_def length_put slice_def)

lemma control_page_selects:
  assumes "8 \<le> off" "off + 4 \<le> length status" "length ctl = 4" "ctl ! 0 = 0x80"
  shows "selects_only status (control_page status off ctl) off"
proof -
  let ?p = "control_page status off ctl"
  note b = control_page_bytes [OF assms(1-3)]
  have l: "length ?p = length status" by (rule length_control_page [OF assms(1-3)])
  have "slice 2 6 ?p = slice 2 6 status"
    by (rule nth_equalityI) (use assms(1,2) l b in \<open>auto simp: slice_def\<close>)
  moreover have "0 < length status" "1 < length status" "off < length status" using assms(1,2) by auto
  then have "?p ! 0 = PAGE_STATUS" "?p ! 1 = 0" "?p ! off = 0x80" using assms b [of 0] b [of 1] b [of off] by auto
  moreover have "off \<le> i \<and> i < off + 4" if "8 \<le> i \<and> i < length ?p \<and> ?p ! i \<noteq> 0" for i
    using that b [of i] l by (auto split: if_splits)
  ultimately show ?thesis using l by (simp add: selects_only_def)
qed

text \<open>The four bytes each control page writes.\<close>

lemma set_bytes_control:
  assumes "8 \<le> off" "off + 4 \<le> length status" "length ctl = 4"
  shows "set_bytes off [(2, b2), (3, b3)] (control_page status off ctl) = control_page status off (ctl[2 := b2, 3 := b3])"
    "set_bytes off [(1, b1), (3, b3)] (control_page status off ctl) = control_page status off (ctl[1 := b1, 3 := b3])"
proof -
  have u: "(control_page status off c)[off + k := b] = control_page status off (c[k := b])" if "k < 4" "length c = 4" for c k b
  proof (rule nth_equalityI)
    show "length ((control_page status off c)[off + k := b]) = length (control_page status off (c[k := b]))"
      using that by (simp add: length_control_page [OF assms(1,2)])
    fix i assume "i < length ((control_page status off c)[off + k := b])"
    then have i: "i < length status" using that(2) by (simp add: length_control_page [OF assms(1,2)])
    show "(control_page status off c)[off + k := b] ! i = control_page status off (c[k := b]) ! i"
      using control_page_bytes [OF assms(1,2) that(2) i] control_page_bytes [OF assms(1,2) _ i, of "c[k := b]"] that i
      by (auto simp: nth_list_update)
  qed
  show "set_bytes off [(2, b2), (3, b3)] (control_page status off ctl) = control_page status off (ctl[2 := b2, 3 := b3])"
    "set_bytes off [(1, b1), (3, b3)] (control_page status off ctl) = control_page status off (ctl[1 := b1, 3 := b3])"
    using u [of 2 ctl b2] u [of 3 "ctl[2 := b2]" b3] u [of 1 ctl b1] u [of 3 "ctl[1 := b1]" b3] assms(3)
    by (simp_all add: set_bytes_def)
qed

lemma ident_control_page:
  assumes "8 \<le> off" "off + 4 \<le> length status"
  shows "build_ident_control status off t on = Some (control_page status off
    (if is_slot t then [0x80, 0, if on then 0x02 else 0, status ! (off + 3) AND 0x20]
     else if t = ET_ENCLOSURE then [0x80, if on then 0x80 else 0, 0, status ! (off + 3) AND 0x03]
     else [0x80, if on then 0x80 else 0, 0, 0]))"
  using assms by (simp add: build_ident_control_def control_page_def slice_def Let_def)

lemma fault_control_page:
  assumes "8 \<le> off" "off + 4 \<le> length status"
  shows "build_fault_control status off t on =
    (if is_slot t then Some (control_page status off [0x80, 0, status ! (off + 2) AND 0x02, if on then 0x20 else 0])
     else if t = ET_ENCLOSURE
     then Some (control_page status off [0x80, status ! (off + 1) AND 0x80, 0, (status ! (off + 3) AND 0x01) OR (if on then 0x02 else 0)])
     else None)"
  using assms set_bytes_control [OF assms]
  by (simp add: build_fault_control_def ident_control_page slice_def Let_def is_slot_def element_types)

lemma power_control_page:
  assumes "8 \<le> off" "off + 4 \<le> length status"
  shows "build_power_control status off t power_off =
    (if is_slot t then Some (control_page status off [0x80, 0, status ! (off + 2) AND 0x02,
        (status ! (off + 3) AND 0x20) OR (if power_off then 0x10 else 0)]) else None)"
  using assms set_bytes_control [OF assms] by (simp add: build_power_control_def ident_control_page slice_def Let_def)

lemma slot_page_asks:
  assumes "8 \<le> off" "off + 4 \<le> length status" "b2 AND 0xFD = 0" "b3 AND (if pwr then 0xCF else 0xDF) = 0"
  shows "selects_only status (control_page status off [0x80, 0, b2, b3]) off \<and> asks pwr (control_page status off [0x80, 0, b2, b3]) off"
proof -
  have "selects_only status (control_page status off [0x80, 0, b2, b3]) off"
    using assms(1,2) by (intro control_page_selects) simp_all
  then show ?thesis using assms control_page_bytes [OF assms(1,2), of "[0x80, 0, b2, b3]"]
    by (simp add: asks_def numeral_3_eq_3)
qed

lemma control_pages_ask:
  assumes "8 \<le> off" "is_slot t"
  shows "build_ident_control status off t on = Some page \<Longrightarrow> selects_only status page off \<and> asks False page off"
    "build_fault_control status off t on = Some page \<Longrightarrow> selects_only status page off \<and> asks False page off"
    "build_power_control status off t on = Some page \<Longrightarrow> selects_only status page off \<and> asks True page off"
proof -
  have m: "(x AND 0x20) AND 0xDF = (0 :: u8)" "(x AND 0x02) AND 0xFD = (0 :: u8)" "(x AND 0x20 OR 0x10) AND 0xCF = (0 :: u8)"
    "(x AND 0x20) AND 0xCF = (0 :: u8)" for x
    by (simp_all add: and.assoc word_ao_dist)
  have long: "off + 4 \<le> length status" if "build_ident_control status off t b = Some pg" for b pg
    using that by (simp add: build_ident_control_def split: if_splits)
  show "selects_only status page off \<and> asks False page off" if p: "build_ident_control status off t on = Some page"
    using p ident_control_page [OF assms(1) long [OF p], of t on] assms(2)
      slot_page_asks [OF assms(1) long [OF p], of "if on then 2 else 0" "status ! (off + 3) AND 0x20" False] m by auto
  show "selects_only status page off \<and> asks False page off" if p: "build_fault_control status off t on = Some page"
  proof -
    obtain pg where "build_ident_control status off t False = Some pg"
      using p assms(2) by (auto simp: build_fault_control_def split: if_splits)
    note l = long [OF this]
    show ?thesis using p fault_control_page [OF assms(1) l, of t on] assms(2)
        slot_page_asks [OF assms(1) l, of "status ! (off + 2) AND 2" "if on then 0x20 else 0" False] m by auto
  qed
  show "selects_only status page off \<and> asks True page off" if p: "build_power_control status off t on = Some page"
  proof -
    obtain pg where "build_ident_control status off t False = Some pg"
      using p assms(2) by (auto simp: build_power_control_def split: if_splits)
    note l = long [OF this]
    show ?thesis using p power_control_page [OF assms(1) l, of t on] assms(2)
        slot_page_asks [OF assms(1) l, of "status ! (off + 2) AND 2" "(status ! (off + 3) AND 0x20) OR (if on then 0x10 else 0)" True] m
      by auto
  qed
qed

lemma through_esps_sends:
  "through_esps dev build short sgs err lg = (res, lg') \<Longrightarrow>
     \<exists>new. lg' = lg @ new \<and> (\<forall>(sg, page, a) \<in> set new. \<exists>status. sv_status dev sg = Inr status \<and> build status = Some page)"
proof (induction dev build short sgs err lg rule: through_esps.induct)
  case (3 dev build short sg sgs err lg)
  show ?case
  proof (cases "sv_status dev sg")
    case (Inl e)
    then show ?thesis using 3(1,4) by auto
  next
    case (Inr status)
    show ?thesis
    proof (cases "build status")
      case None
      then show ?thesis using 3(2,4) Inr by auto
    next
      case (Some page)
      show ?thesis
      proof (cases "sv_send dev sg page")
        case None
        then show ?thesis using 3(4) Inr Some by auto
      next
        case (Some e)
        with 3(3) [OF Inr \<open>build status = Some page\<close> this] 3(4) Inr \<open>build status = Some page\<close>
        obtain new where "lg' = (lg @ [(sg, page, Some e)]) @ new"
          "\<forall>(sg, page, a) \<in> set new. \<exists>status. sv_status dev sg = Inr status \<and> build status = Some page" by auto
        then show ?thesis using Inr \<open>build status = Some page\<close> by (intro exI [of _ "(sg, page, Some e) # new"]) auto
      qed
    qed
  qed
qed auto

lemma position_where_Some:
  "position_where P xs = Some p \<Longrightarrow> p < length xs \<and> P (xs ! p)"
  by (auto simp: position_where_def find_Some_iff)

lemma send_control_sends:
  assumes "send_control build what short dev r (Some b) lg = (res, lg')"
  shows "\<exists>new. lg' = lg @ new \<and> (\<forall>(sg, page, a) \<in> set new. \<exists>p status.
      p < length (sr_elements r) \<and> el_bay (sr_elements r ! p) = Some b \<and> is_slot (el_type (sr_elements r ! p))
      \<and> \<not> el_overall (sr_elements r ! p) \<and> sv_status dev sg = Inr status
      \<and> build status (element_offset p) (el_type (sr_elements r ! p)) = Some page)"
proof (cases "find_slot_element (sr_elements r) b")
  case None
  then show ?thesis using assms by (simp add: send_control_def element_for_def)
next
  case (Some p)
  let ?b = "\<lambda>status. build status (element_offset p) (el_type (sr_elements r ! p))"
  obtain res1 lg1 where t: "through_esps dev ?b short (map ep_sg_path (sr_esps r)) None lg = (res1, lg1)" by fastforce
  then have "lg' = lg1" using assms Some by (auto simp: send_control_def element_for_def split: sum.splits)
  moreover have "p < length (sr_elements r) \<and> \<not> el_overall (sr_elements r ! p) \<and> is_slot (el_type (sr_elements r ! p))
      \<and> el_bay (sr_elements r ! p) = Some b"
    using Some by (auto simp: find_slot_element_def dest!: position_where_Some)
  ultimately show ?thesis using through_esps_sends [OF t] by fastforce
qed

lemma send_control_bay:
  assumes "assemble now esps sysfs_id pages = Some r" "send_control build what short dev r (Some b) lg = (res, lg')"
    and b: "\<And>status off t page. build status off t = Some page \<Longrightarrow> 8 \<le> off \<Longrightarrow> is_slot t \<Longrightarrow>
      selects_only status page off \<and> asks pwr page off"
  shows "\<exists>new. lg' = lg @ new \<and> (\<forall>(sg, page, a) \<in> set new. \<exists>p status.
      p < length (sr_elements r) \<and> el_bay (sr_elements r ! p) = Some b \<and> is_slot (el_type (sr_elements r ! p))
      \<and> \<not> el_overall (sr_elements r ! p) \<and> el_raw (sr_elements r ! p) = slice (element_offset p) 4 (rp_status pages)
      \<and> sv_status dev sg = Inr status \<and> selects_only status page (element_offset p) \<and> asks pwr page (element_offset p))"
proof -
  have e: "8 \<le> element_offset p" for p by (simp add: element_offset_def)
  obtain new where "lg' = lg @ new" and new: "\<And>sg page a. (sg, page, a) \<in> set new \<Longrightarrow> \<exists>p status.
      p < length (sr_elements r) \<and> el_bay (sr_elements r ! p) = Some b \<and> is_slot (el_type (sr_elements r ! p))
      \<and> \<not> el_overall (sr_elements r ! p) \<and> sv_status dev sg = Inr status
      \<and> build status (element_offset p) (el_type (sr_elements r ! p)) = Some page"
    using send_control_sends [OF assms(2)] by blast
  show ?thesis
  proof (intro exI [of _ new] conjI \<open>lg' = lg @ new\<close> ballI, clarify)
    fix sg page a assume "(sg, page, a) \<in> set new"
    with new obtain p status where p: "p < length (sr_elements r)" "el_bay (sr_elements r ! p) = Some b"
      "is_slot (el_type (sr_elements r ! p))" "\<not> el_overall (sr_elements r ! p)" "sv_status dev sg = Inr status"
      "build status (element_offset p) (el_type (sr_elements r ! p)) = Some page" by blast
    from b [OF p(6) e p(3)] p assemble_elements [OF assms(1) p(1)]
    show "\<exists>p status. p < length (sr_elements r) \<and> el_bay (sr_elements r ! p) = Some b \<and> is_slot (el_type (sr_elements r ! p))
      \<and> \<not> el_overall (sr_elements r ! p) \<and> el_raw (sr_elements r ! p) = slice (element_offset p) 4 (rp_status pages)
      \<and> sv_status dev sg = Inr status \<and> selects_only status page (element_offset p) \<and> asks pwr page (element_offset p)"
      by blast
  qed
qed

text \<open>
  C4. Every page sent to a shelf to light a bay, mark it as failed or turn it off selects one
  element of it and nothing else, an individual slot whose bay is the one asked for, at the place in the
  page where the report read that element; and asks nothing of it but its LEDs and, when that is what
  is sent, its power.
\<close>

theorem control_only_the_bay:
  assumes "assemble now esps sysfs_id pages = Some r"
    and "pwr \<and> set_power dev r b on lg = (res, lg')
       \<or> \<not> pwr \<and> (set_ident dev r (Some b) on lg = (res, lg') \<or> set_fault dev r (Some b) on lg = (res, lg'))"
  shows "\<exists>new. lg' = lg @ new \<and> (\<forall>(sg, page, a) \<in> set new. \<exists>p status.
      p < length (sr_elements r) \<and> el_bay (sr_elements r ! p) = Some b \<and> is_slot (el_type (sr_elements r ! p))
      \<and> \<not> el_overall (sr_elements r ! p) \<and> el_raw (sr_elements r ! p) = slice (element_offset p) 4 (rp_status pages)
      \<and> sv_status dev sg = Inr status \<and> selects_only status page (element_offset p) \<and> asks pwr page (element_offset p))"
proof -
  consider "pwr" "set_power dev r b on lg = (res, lg')" | "\<not> pwr" "set_ident dev r (Some b) on lg = (res, lg')"
    | "\<not> pwr" "set_fault dev r (Some b) on lg = (res, lg')" using assms(2) by blast
  then show ?thesis
  proof cases
    case 1
    show ?thesis by (rule send_control_bay [OF assms(1) 1(2) [unfolded set_power_def]]) (use 1(1) control_pages_ask(3) in auto)
  next
    case 2
    show ?thesis by (rule send_control_bay [OF assms(1) 2(2) [unfolded set_ident_def]]) (use 2(1) control_pages_ask(1) in auto)
  next
    case 3
    show ?thesis by (rule send_control_bay [OF assms(1) 3(2) [unfolded set_fault_def]]) (use 3(1) control_pages_ask(2) in auto)
  qed
qed

text \<open>A shelf of two slots whose page 0x0A gives the drive in the second one bay 0, for the witnesses.\<close>

definition demo_pages :: raw_pages where
  "demo_pages = \<lparr>rp_config = [1, 0, 0, 12, 0, 0, 0, 7, 0, 0, 1, 0, 0x17, 2, 0, 0],
     rp_status = [2, 0, 0, 16, 0, 0, 0, 7, 1, 0, 0, 0, 1, 0, 0, 0, 1, 0, 0, 0],
     rp_descriptors = None,
     rp_additional = Some ([0x0a, 0, 0, 40, 0, 0, 0, 7, 0x16, 34, 0, 1, 1, 0, 0, 0]
       @ [0, 0, 0, 0, 0, 0, 0, 0, 0, 0, 0, 0, 0x50, 0, 0, 0, 0, 0, 0, 1, 0, 0, 0, 0, 0, 0, 0, 0]),
     rp_help = None, rp_thresholds = None\<rparr>"

definition demo_esp :: esp_path where
  "demo_esp = \<lparr>ep_scsi_id = ''0:0:1:0'', ep_sg_path = Some ''/dev/sg1'', ep_sas_address = None, ep_serial = Some ''IOM'',
     ep_revision = None, ep_behind_expander = False\<rparr>"

definition demo_slot :: "nat \<Rightarrow> nat \<Rightarrow> element" where
  "demo_slot index bay = (decode_element 0x17 index False [1, 0, 0, 0])\<lparr>el_bay := Some bay\<rparr>"

lemma demo_config: "parse_configuration (rp_config demo_pages) = Some \<lparr>cf_generation = 7, cf_logical_id = None, cf_vendor = [],
    cf_product = [], cf_revision = [], cf_types = [\<lparr>ty_element_type = 0x17, ty_count = 2, ty_subenclosure = 0, ty_text = []\<rparr>]\<rparr>"
  by (simp add: demo_pages_def parse_configuration_def ses_pages word_of_be_def nat_of_be_def slice_def Let_def)

lemma demo_status: "parse_status \<lparr>cf_generation = 7, cf_logical_id = None, cf_vendor = [], cf_product = [], cf_revision = [],
      cf_types = [\<lparr>ty_element_type = 0x17, ty_count = 2, ty_subenclosure = 0, ty_text = []\<rparr>]\<rparr> (rp_status demo_pages)
    = Some \<lparr>sp_generation = 7, sp_invop = False, sp_info = False, sp_noncritical = False, sp_critical = False,
        sp_unrecoverable = False, sp_elements = [decode_element 0x17 0 True [1, 0, 0, 0], decode_element 0x17 0 False [1, 0, 0, 0],
          decode_element 0x17 1 False [1, 0, 0, 0]]\<rparr>"
  by (simp add: demo_pages_def parse_status_def ses_pages word_of_be_def nat_of_be_def slice_def page_end_def
      element_order_def upt_rec Let_def)

lemma demo_additional:
  "parse_additional (the (rp_additional demo_pages)) = [\<lparr>sa_element_index = Some 1, sa_bay = Some 0, sa_sas_addresses = [''5000000000000001'']\<rparr>]"
  by (simp add: demo_pages_def parse_additional_def ses_pages page_end_def nat_of_be_def slice_def read_additional.simps
      slot_descriptor_def hex_of_def hex_lower_def hex2_def hex_digit_def ascii_lower_def char_of_def bit_0 Let_def)

lemma demo_elements:
  "assembled_elements \<lparr>cf_generation = 7, cf_logical_id = None, cf_vendor = [], cf_product = [], cf_revision = [],
      cf_types = [\<lparr>ty_element_type = 0x17, ty_count = 2, ty_subenclosure = 0, ty_text = []\<rparr>]\<rparr> demo_pages
      [decode_element 0x17 0 True [1, 0, 0, 0], decode_element 0x17 0 False [1, 0, 0, 0], decode_element 0x17 1 False [1, 0, 0, 0]]
    = ([decode_element 0x17 0 True [1, 0, 0, 0], demo_slot 0 0, (demo_slot 1 0)\<lparr>el_sas_address := Some ''5000000000000001''\<rparr>],
       [(0, [''5000000000000001''])])"
proof -
  have d: "el_type (decode_element 0x17 k ov b) = 0x17" "el_overall (decode_element 0x17 k ov b) = ov"
    "el_bay (decode_element 0x17 k ov b) = None" "el_index (decode_element 0x17 k ov b) = k" "el_sas_address (decode_element 0x17 k ov b) = None"
    for k ov b
    by (simp_all add: decode_element_def decode_slot_def blank_element_def is_slot_def element_types Let_def)
  have n: "map (name_element []) es = es" for es
    by (induction es) (simp_all add: name_element_def vendor_type_name_def)
  have dr: "dressed_elements \<lparr>cf_generation = 7, cf_logical_id = None, cf_vendor = [], cf_product = [], cf_revision = [],
      cf_types = [\<lparr>ty_element_type = 0x17, ty_count = 2, ty_subenclosure = 0, ty_text = []\<rparr>]\<rparr> demo_pages
      [decode_element 0x17 0 True [1, 0, 0, 0], decode_element 0x17 0 False [1, 0, 0, 0], decode_element 0x17 1 False [1, 0, 0, 0]]
    = [decode_element 0x17 0 True [1, 0, 0, 0], demo_slot 0 0, demo_slot 1 1]"
    by (simp add: dressed_elements_def n Let_def) (simp add: demo_pages_def number_slot_def d demo_slot_def ET_ARRAY_DEVICE_SLOT_def)
  let ?es = "[decode_element 0x17 0 True [1, 0, 0, 0], demo_slot 0 0, demo_slot 1 1]"
  let ?sa = "\<lparr>sa_element_index = Some 1, sa_bay = Some 0, sa_sas_addresses = [''5000000000000001'']\<rparr>"
  have a: "(case rp_additional demo_pages of None \<Rightarrow> [] | Some x \<Rightarrow> parse_additional x) = [?sa]"
    using demo_additional by (simp add: demo_pages_def)
  have u: "[0..<length ?es] = [0, 1, 2]" by (simp add: upt_rec)
  have o: "el_overall (?es ! 0)" "\<not> el_overall (?es ! 1)" "\<not> el_overall (?es ! 2)" "is_slot (el_type (?es ! 2))"
    by (simp_all add: d demo_slot_def is_slot_def element_types)
  have p: "slot_position ?es 0 ?sa = Some 2"
    unfolding slot_position_def u using o by (simp add: get_nth_def Let_def)
  show ?thesis unfolding assembled_elements_def dr a place_slots_def
    by (simp add: place_slot_def p [unfolded One_nat_def] Let_def) (simp add: demo_slot_def)
qed

lemma demo_assembled:
  "\<exists>r. assemble 0 [demo_esp] None demo_pages = Some r \<and> sr_slots r = [(0, [''5000000000000001''])] \<and> sr_esps r = [demo_esp]
     \<and> sr_elements r = [decode_element 0x17 0 True [1, 0, 0, 0], demo_slot 0 0, (demo_slot 1 0)\<lparr>el_sas_address := Some ''5000000000000001''\<rparr>]"
  using demo_elements
  by (simp add: assemble_def demo_config demo_status report_key_def get_nth_def) (simp add: demo_esp_def)

lemma demo_found: 
  assumes "sr_elements r = [decode_element 0x17 0 True [1, 0, 0, 0], demo_slot 0 0, (demo_slot 1 0)\<lparr>el_sas_address := Some ''5000000000000001''\<rparr>]"
  shows "find_slot_element (sr_elements r) 0 = Some 1"
proof -
  have "[0..<length (sr_elements r)] = [0, 1, 2]" using assms by (simp add: upt_rec)
  then show ?thesis unfolding find_slot_element_def position_where_def
    using assms by (simp add: demo_slot_def decode_element_def decode_slot_def blank_element_def is_slot_def element_types Let_def)
qed

theorem control_only_the_bay_witness:
  "\<exists>r lg'. set_ident \<lparr>sv_status = (\<lambda>_. Inr (rp_status demo_pages)), sv_send = (\<lambda>_ _. None)\<rparr> r (Some 0) True [] = (Inr (), lg')
     \<and> lg' \<noteq> [] \<and> (\<forall>(sg, page, a) \<in> set lg'. \<exists>p status. p < length (sr_elements r) \<and> el_bay (sr_elements r ! p) = Some 0
         \<and> selects_only status page (element_offset p) \<and> asks False page (element_offset p))"
proof -
  let ?dev = "\<lparr>sv_status = (\<lambda>_. Inr (rp_status demo_pages)), sv_send = (\<lambda>_ _. None)\<rparr>"
  obtain r where r: "assemble 0 [demo_esp] None demo_pages = Some r" "sr_esps r = [demo_esp]"
    "sr_elements r = [decode_element 0x17 0 True [1, 0, 0, 0], demo_slot 0 0, (demo_slot 1 0)\<lparr>el_sas_address := Some ''5000000000000001''\<rparr>]"
    using demo_assembled by blast
  have "length (rp_status demo_pages) = 20" by (simp add: demo_pages_def)
  then obtain page where "build_ident_control (rp_status demo_pages) (element_offset 1) (el_type (sr_elements r ! 1)) True = Some page"
    using ident_control_page [of "element_offset 1" "rp_status demo_pages"] by (simp add: element_offset_def)
  then have s: "set_ident ?dev r (Some 0) True [] = (Inr (), [(''/dev/sg1'', page, None)])"
    using r(2) demo_found [OF r(3)] by (simp add: set_ident_def send_control_def element_for_def demo_esp_def)
  have "False \<and> set_power ?dev r 0 True [] = (Inr (), [(''/dev/sg1'', page, None)])
       \<or> \<not> False \<and> (set_ident ?dev r (Some 0) True [] = (Inr (), [(''/dev/sg1'', page, None)])
           \<or> set_fault ?dev r (Some 0) True [] = (Inr (), [(''/dev/sg1'', page, None)]))" using s by simp
  from control_only_the_bay [OF r(1) this] s show ?thesis by (intro exI [of _ r] exI [of _ "[(''/dev/sg1'', page, None)]"]) fastforce
qed

section \<open>The status of a shelf\<close>

lemma fold_worsen:
  "fold worsen_el ss w =
     (if Unrecoverable_el \<in> set ss then Unrecoverable_el
      else if w \<in> {Ok_el, Noncritical_el} \<and> Critical_el \<in> set ss then Critical_el
      else if w = Ok_el \<and> Noncritical_el \<in> set ss then Noncritical_el else w)"
  by (induction ss arbitrary: w) (auto simp: worsen_el_def split: if_splits)

end
