(* ===== verification/Firmware.thy ===== *)
theory Firmware
  imports Usage Erase
begin

text \<open>
  \<open>src/src/firmware.rs\<close>: the names of images, the chunks of a download, WRITE BUFFER and NVMe downloads
  against a drive that may answer anything, the redundancy gate, and what an update does to its run and
  to the drive's record. What is read (INQUIRY, descriptor, /sys) and the polls are the run's input.
\<close>

section \<open>Images and chunks\<close>

definition image_char :: "char \<Rightarrow> bool" where
  "image_char c =
     (let n = of_char c :: nat in
      48 \<le> n \<and> n \<le> 57 \<or> 65 \<le> n \<and> n \<le> 90 \<or> 97 \<le> n \<and> n \<le> 122 \<or> c \<in> {CHR ''.'', CHR ''_'', CHR ''-'', CHR ''+''})"

definition valid_image_name :: "string \<Rightarrow> bool" where
  "valid_image_name n \<longleftrightarrow> n \<noteq> [] \<and> length n \<le> 128 \<and> \<not> starts_with n ''.'' \<and> list_all image_char n"

definition chunk_len :: "u32 \<Rightarrow> u32 \<Rightarrow> u32" where
  "chunk_len configured boundary =
     (let c = max configured 512 in
      if boundary = 0 then c
      else word_of_nat ((unat c + unat boundary - 1) div unat boundary) * boundary)"

text \<open>The chunks of an image with their offsets.\<close>

function pieces :: "nat \<Rightarrow> nat \<Rightarrow> bytes \<Rightarrow> (nat \<times> bytes) list" where
  "pieces chunk off img =
     (if img = [] \<or> chunk = 0 then []
      else (off, take chunk img) # pieces chunk (off + chunk) (drop chunk img))"
  by pat_completeness auto
termination by (relation "measure (\<lambda>(chunk, off, img). length img)") auto

declare pieces.simps [simp del]

section \<open>A run\<close>

datatype fw_run_state = FwQueued | FwRunning | FwDone | FwFailed

record fw_run =
  fu_drive :: drive_id
  fu_name :: string
  fu_image :: string
  fu_from_version :: string
  fu_to_version :: "string option"
  fu_state :: fw_run_state
  fu_phase :: string
  fu_bytes_done :: nat
  fu_bytes_total :: nat
  fu_started :: time
  fu_finished :: "time option"
  fu_error :: "string option"
  fu_reset_required :: bool
  fu_mode :: string

definition fw_phase :: "string \<Rightarrow> fw_run \<Rightarrow> fw_run" where "fw_phase p r = r\<lparr>fu_phase := p\<rparr>"

definition fw_progress :: "nat \<Rightarrow> fw_run \<Rightarrow> fw_run" where "fw_progress n r = r\<lparr>fu_bytes_done := n\<rparr>"

section \<open>SCSI: WRITE BUFFER\<close>

text \<open>
  The WRITE BUFFERs sent (mode, offset, data) with their answers; a drive answers by what it was sent.
\<close>

type_synonym wb_log = "(u8 \<times> u32 \<times> bytes \<times> scsi_error option) list"
type_synonym wb_dev = "wb_log \<Rightarrow> u8 \<Rightarrow> u32 \<Rightarrow> bytes \<Rightarrow> scsi_error option"

definition write_buffer :: "wb_dev \<Rightarrow> u8 \<Rightarrow> u32 \<Rightarrow> bytes \<Rightarrow> wb_log \<Rightarrow> scsi_error option \<times> wb_log" where
  "write_buffer dev mode off data lg = (let a = dev lg mode off data in (a, lg @ [(mode, off, data, a)]))"

definition refuses_deferred :: "nat \<Rightarrow> u8 \<Rightarrow> scsi_error \<Rightarrow> bool" where
  "refuses_deferred off mode e \<longleftrightarrow>
     off = 0 \<and> mode = 0x0e \<and> (case e of SenseError s \<Rightarrow> is_illegal_request s | _ \<Rightarrow> False)"

fun write_pieces :: "wb_dev \<Rightarrow> (nat \<times> bytes) list \<Rightarrow> u8 \<Rightarrow> fw_run \<Rightarrow> wb_log \<Rightarrow> (string + u8) \<times> fw_run \<times> wb_log" where
  "write_pieces dev [] mode r lg = (Inr mode, r, lg)"
| "write_pieces dev ((off, data) # ps) mode r lg =
     (case write_buffer dev mode (word_of_nat off) data lg of
        (None, lg') \<Rightarrow> write_pieces dev ps mode (fw_progress (off + length data) r) lg'
      | (Some e, lg') \<Rightarrow>
          if refuses_deferred off mode e
          then (let r' = r\<lparr>fu_mode := ''offsets''\<rparr> in
            case write_buffer dev 0x07 0 data lg' of
              (Some e, lg'') \<Rightarrow> (Inl (''write buffer (mode 0x07) at 0: '' @ error_str e), r', lg'')
            | (None, lg'') \<Rightarrow> write_pieces dev ps 0x07 (fw_progress (off + length data) r') lg'')
          else (Inl (''write buffer (mode 0x'' @ hex_lower mode @ '') at '' @ dec off @ '': '' @ error_str e), r, lg'))"

definition READY_WAIT :: nat where "READY_WAIT = 5 * 60"

text \<open>The polls after the activation, with the seconds since; \<open>None\<close>: none of them ends the wait.\<close>

definition still_activating :: "scsi_error \<Rightarrow> bool" where
  "still_activating e = (case e of SenseError s \<Rightarrow> is_unit_attention s \<or> sn_key s = 2 | _ \<Rightarrow> False)"

fun wait_ready :: "(nat \<times> scsi_error option) list \<Rightarrow> (string + unit) option" where
  "wait_ready [] = None"
| "wait_ready ((elapsed, tur) # ps) =
     (case tur of
        None \<Rightarrow> Some (Inr ())
      | Some e \<Rightarrow>
          if \<not> still_activating e \<and> 20 < elapsed then Some (Inl (''not ready after activation: '' @ error_str e))
          else if READY_WAIT < elapsed then Some (Inl ''drive did not come ready within 5 minutes of activation'')
          else wait_ready ps)"

record scsi_fw =
  sf_open :: "string option"
  sf_boundary :: "scsi_error + u32"
  sf_write :: wb_dev
  sf_ready :: "(nat \<times> scsi_error option) list"
  sf_after :: "scsi_error + string"

definition run_scsi :: "scsi_fw \<Rightarrow> bytes \<Rightarrow> u32 \<Rightarrow> fw_run \<Rightarrow> (string + string \<times> bool) option \<times> fw_run \<times> wb_log" where
  "run_scsi dev img chunk_kib r =
     (case sf_open dev of
        Some e \<Rightarrow> (Some (Inl (''open: '' @ e)), r, [])
      | None \<Rightarrow>
          (let boundary = (case sf_boundary dev of Inr b \<Rightarrow> b | Inl _ \<Rightarrow> 0);
               chunk = unat (chunk_len (chunk_kib * 1024) boundary)
           in case write_pieces (sf_write dev) (pieces chunk 0 img) 0x0e (fw_phase ''download'' r) [] of
             (Inl e, r1, lg1) \<Rightarrow> (Some (Inl e), r1, lg1)
           | (Inr mode, r1, lg1) \<Rightarrow>
               (let (activated, lg2) = (if mode = 0x0e then write_buffer (sf_write dev) 0x0f 0 [] lg1 else (None, lg1)) in
                case activated of
                  Some e \<Rightarrow> (Some (Inl (''activate deferred microcode: '' @ error_str e)), fw_phase ''activate'' r1, lg2)
                | None \<Rightarrow>
                    (case wait_ready (sf_ready dev) of
                       None \<Rightarrow> (None, fw_phase ''ready'' r1, lg2)
                     | Some (Inl e) \<Rightarrow> (Some (Inl e), fw_phase ''ready'' r1, lg2)
                     | Some (Inr _) \<Rightarrow>
                         (Some (case sf_after dev of
                              Inl e \<Rightarrow> Inl (''inquiry after activation: '' @ error_str e)
                            | Inr after \<Rightarrow> Inr (after, False)),
                          fw_phase ''verify'' r1, lg2)))))"

section \<open>NVMe: Firmware Image Download and Commit\<close>

definition interpret_commit_status :: "u32 \<Rightarrow> string + bool" where
  "interpret_commit_status st =
     (if st = 0 then Inr False
      else if st \<in> {0x10b, 0x10c, 0x10d, 0x110} then Inr True
      else if st = 0x106 then Inl ''invalid firmware slot''
      else if st = 0x107 then Inl ''invalid firmware image''
      else if st = 0x111 then Inl ''firmware activation prohibited''
      else if st = 0x112 then Inl ''overlapping range''
      else Inl (''nvme status 0x'' @ hex_nat (unat st)))"

text \<open>The admin commands of a download: opcode, CDW10, CDW11 and the data.\<close>

record fw_cmd =
  fc_opcode :: u8
  fc_cdw10 :: u32
  fc_cdw11 :: u32
  fc_data :: bytes

type_synonym fw_answer = "string + u32"
type_synonym fw_log = "(fw_cmd \<times> fw_answer) list"
type_synonym fw_dev = "fw_log \<Rightarrow> fw_cmd \<Rightarrow> fw_answer"

definition fw_admin :: "fw_dev \<Rightarrow> u8 \<Rightarrow> u32 \<Rightarrow> u32 \<Rightarrow> bytes \<Rightarrow> fw_log \<Rightarrow> fw_answer \<times> fw_log" where
  "fw_admin dev opcode cdw10 cdw11 data lg =
     (let c = \<lparr>fc_opcode = opcode, fc_cdw10 = cdw10, fc_cdw11 = cdw11, fc_data = data\<rparr>; a = dev lg c in (a, lg @ [(c, a)]))"

definition pad4 :: "bytes \<Rightarrow> bytes" where
  "pad4 data = data @ replicate ((4 - length data mod 4) mod 4) 0"

fun download_pieces :: "fw_dev \<Rightarrow> (nat \<times> bytes) list \<Rightarrow> fw_run \<Rightarrow> fw_log \<Rightarrow> (string + unit) \<times> fw_run \<times> fw_log" where
  "download_pieces dev [] r lg = (Inr (), r, lg)"
| "download_pieces dev ((off, data) # ps) r lg =
     (let buf = pad4 data in
      case fw_admin dev 0x11 (word_of_nat (length buf div 4 - 1)) (word_of_nat (off div 4)) buf lg of
        (Inl e, lg') \<Rightarrow> (Inl (''firmware image download at '' @ dec off @ '': '' @ e), r, lg')
      | (Inr st, lg') \<Rightarrow>
          if st \<noteq> 0
          then (Inl (''firmware image download at '' @ dec off @ '': nvme status 0x'' @ hex_nat (unat st)), r, lg')
          else download_pieces dev ps (fw_progress (off + length data) r) lg')"

definition commit_image :: "fw_dev \<Rightarrow> fw_log \<Rightarrow> (string + bool) \<times> fw_log" where
  "commit_image dev lg =
     (case fw_admin dev 0x10 (push_bit 3 3) 0 [] lg of
        (Inl e, lg1) \<Rightarrow> (Inl (''firmware commit: '' @ e), lg1)
      | (Inr st, lg1) \<Rightarrow>
          (case interpret_commit_status st of
             Inr reset \<Rightarrow> (Inr reset, lg1)
           | Inl _ \<Rightarrow>
               (case fw_admin dev 0x10 (push_bit 3 1) 0 [] lg1 of
                  (Inl e, lg2) \<Rightarrow> (Inl (''firmware commit (CA=1): '' @ e), lg2)
                | (Inr st1, lg2) \<Rightarrow>
                    (case interpret_commit_status st1 of
                       Inl e \<Rightarrow> (Inl (''firmware commit (CA=1): '' @ e), lg2)
                     | Inr _ \<Rightarrow> (Inr True, lg2)))))"

text \<open>\<open>after\<close>: the revision in /sys, if it can be read.\<close>

definition run_nvme :: "fw_dev \<Rightarrow> string option \<Rightarrow> string \<Rightarrow> bytes \<Rightarrow> u32 \<Rightarrow> fw_run \<Rightarrow> (string + string \<times> bool) \<times> fw_run \<times> fw_log" where
  "run_nvme dev after firmware img chunk_kib r =
     (let chunk = unat (chunk_len (chunk_kib * 1024) 4096);
          r0 = fw_phase ''download'' (r\<lparr>fu_mode := ''nvme''\<rparr>)
      in case download_pieces dev (pieces chunk 0 img) r0 [] of
        (Inl e, r1, lg1) \<Rightarrow> (Inl e, r1, lg1)
      | (Inr _, r1, lg1) \<Rightarrow>
          (case commit_image dev lg1 of
             (Inl e, lg2) \<Rightarrow> (Inl e, fw_phase ''activate'' r1, lg2)
           | (Inr reset, lg2) \<Rightarrow>
               (Inr (case after of Some v \<Rightarrow> trim v | None \<Rightarrow> firmware, reset), fw_phase ''verify'' r1, lg2)))"

section \<open>The redundancy gate\<close>

definition volume_doubts :: "drive_volume \<Rightarrow> string list" where
  "volume_doubts v =
     (case opt_filter (\<lambda>h. h \<noteq> ''healthy'') (dv_health v) of Some h \<Rightarrow> [''redundancy '' @ h] | None \<Rightarrow> [])
     @ (if dv_rebuild v \<noteq> ''none'' then [''rebuild '' @ dv_rebuild v] else [])
     @ (if dv_state v \<noteq> ''ok'' then [''its slab here is '' @ dv_state v] else [])"

definition redundancy_blocker :: "drive_volume list option \<Rightarrow> string option" where
  "redundancy_blocker vols =
     (case vols of
        None \<Rightarrow> Some (''the engine reports no volume placement, so the volumes on this drive cannot be checked ''
                   @ ''(force to go ahead)'')
      | Some vs \<Rightarrow>
          (let bad = List.map_filter (\<lambda>v. if volume_doubts v \<noteq> [] then Some (dv_name v @ '' ('' @ join '', '' (volume_doubts v) @ '')'') else None) vs
           in if bad = [] then None
              else Some (dec (length bad) @ '' volume(s) on it are not fully redundant: '' @ join ''; '' bad)))"

text \<open>The looks at the drive's volumes, each with whether the deadline has passed; \<open>None\<close>: still waiting.\<close>

type_synonym looks = "(bool \<times> drive_volume list option) list"

fun wait_redundant :: "looks \<Rightarrow> string \<Rightarrow> fw_run \<Rightarrow> (string + unit) option \<times> fw_run" where
  "wait_redundant [] ph r = (None, r)"
| "wait_redundant ((late, vols) # ls) ph r =
     (case redundancy_blocker vols of
        None \<Rightarrow> (Some (Inr ()), r)
      | Some why \<Rightarrow> if late then (Some (Inl why), r) else wait_redundant ls ph (fw_phase (ph @ '': '' @ why) r))"

section \<open>An update\<close>

record fw_env =
  fe_enabled :: bool
  fe_chunk_kib :: u32
  fe_wait_mins :: nat
  fe_scsi :: scsi_fw
  fe_nvme :: fw_dev
  fe_after :: "string option"
  fe_pre :: looks
  fe_post :: looks

definition fw_run_blocking :: "fw_env \<Rightarrow> drive \<Rightarrow> bytes \<Rightarrow> fw_run \<Rightarrow> (string + string \<times> bool) option \<times> fw_run \<times> wb_log \<times> fw_log" where
  "fw_run_blocking env d img r =
     (if d_kind d = NvmeSsd
      then (case run_nvme (fe_nvme env) (fe_after env) (d_firmware d) img (fe_chunk_kib env) r of (res, r', lg) \<Rightarrow> (Some res, r', [], lg))
      else (case run_scsi (fe_scsi env) img (fe_chunk_kib env) r of (res, r', lg) \<Rightarrow> (res, r', lg, [])))"

definition queued_run :: "drive \<Rightarrow> string \<Rightarrow> bytes \<Rightarrow> time \<Rightarrow> fw_run" where
  "queued_run d name img now =
     \<lparr>fu_drive = d_id d, fu_name = d_name d, fu_image = name, fu_from_version = d_firmware d, fu_to_version = None, fu_state = FwQueued, fu_phase = ''queued'',
      fu_bytes_done = 0, fu_bytes_total = length img, fu_started = now, fu_finished = None, fu_error = None,
      fu_reset_required = False, fu_mode = ''deferred''\<rparr>"

definition fw_start_drive :: "string \<Rightarrow> string \<Rightarrow> time \<Rightarrow> drive \<Rightarrow> drive" where
  "fw_start_drive name from now d =
     d\<lparr>d_activity := UpdatingFirmware,
       d_firmware_record := Some \<lparr>fw_image = name, fw_from_version = from, fw_to_version = None, fw_state = ''running'',
         fw_started = Some now, fw_finished = None, fw_error = None, fw_reset_required = False\<rparr>\<rparr>"

definition gated :: "fw_env \<Rightarrow> drive \<Rightarrow> bool \<Rightarrow> bool" where
  "gated env d force \<longleftrightarrow> serves_data d \<and> fe_enabled env \<and> \<not> force"

text \<open>The task of one update up to its result: the gate, the download, the gate again with its warning.\<close>

definition recheck :: "fw_env \<Rightarrow> drive \<Rightarrow> bool \<Rightarrow> (string + string \<times> bool) \<Rightarrow> fw_run \<Rightarrow> (string list option) \<times> fw_run" where
  "recheck env d force res r =
     (if \<not> gated env d force \<or> (case res of Inl _ \<Rightarrow> True | Inr _ \<Rightarrow> False) then (Some [], r)
      else case wait_redundant (fe_post env) ''re-checking'' r of
          (None, r') \<Rightarrow> (None, r')
        | (Some (Inr _), r') \<Rightarrow> (Some [], r')
        | (Some (Inl why), r') \<Rightarrow>
            (Some [d_name d @ '': updated, but its volumes are still not fully redundant after ''
                   @ dec (fe_wait_mins env) @ '' min: '' @ why], r'))"

definition start_running :: "time \<Rightarrow> fw_run \<Rightarrow> fw_run" where
  "start_running now r = r\<lparr>fu_state := FwRunning, fu_phase := ''download'', fu_started := now\<rparr>"

definition update_task ::
  "fw_env \<Rightarrow> drive \<Rightarrow> bool \<Rightarrow> bytes \<Rightarrow> time \<Rightarrow> fw_run \<Rightarrow> (string + string \<times> bool) option \<times> string list \<times> fw_run \<times> wb_log \<times> fw_log" where
  "update_task env d force img now r =
     (case (if gated env d force then wait_redundant (fe_pre env) ''waiting'' r else (Some (Inr ()), r)) of
        (None, r0) \<Rightarrow> (None, [], r0, [], [])
      | (Some (Inl why), r0) \<Rightarrow> (Some (Inl (''not started '' @ utf8_dash @ '' '' @ why)), [], start_running now r0, [], [])
      | (Some (Inr _), r0) \<Rightarrow>
          (case fw_run_blocking env d img (start_running now r0) of
             (None, r1, wl, nl) \<Rightarrow> (None, [], r1, wl, nl)
           | (Some res, r1, wl, nl) \<Rightarrow>
               (case recheck env d force res r1 of
                  (None, r2) \<Rightarrow> (None, [], r2, wl, nl)
                | (Some warnings, r2) \<Rightarrow> (Some res, warnings, r2, wl, nl))))"

definition fw_error_of :: "string + string \<times> bool \<Rightarrow> string option" where
  "fw_error_of res = (case res of Inl e \<Rightarrow> Some e | Inr _ \<Rightarrow> None)"

definition fw_version_of :: "string + string \<times> bool \<Rightarrow> string option" where
  "fw_version_of res = (case res of Inl _ \<Rightarrow> None | Inr (v, _) \<Rightarrow> Some v)"

definition fw_reset_of :: "string + string \<times> bool \<Rightarrow> bool" where
  "fw_reset_of res = (case res of Inl _ \<Rightarrow> False | Inr (_, reset) \<Rightarrow> reset)"

definition fw_finish_run :: "time \<Rightarrow> string + string \<times> bool \<Rightarrow> fw_run \<Rightarrow> fw_run" where
  "fw_finish_run now res r =
     r\<lparr>fu_state := (if fw_error_of res = None then FwDone else FwFailed), fu_finished := Some now, fu_error := fw_error_of res,
       fu_to_version := fw_version_of res, fu_reset_required := fw_reset_of res,
       fu_phase := (if fw_error_of res = None then ''done'' else ''failed'')\<rparr>"

definition fw_finish_record :: "time \<Rightarrow> string + string \<times> bool \<Rightarrow> firmware_record \<Rightarrow> firmware_record" where
  "fw_finish_record now res f =
     f\<lparr>fw_state := (if fw_error_of res = None then ''done'' else ''failed''), fw_finished := Some now,
       fw_error := fw_error_of res, fw_to_version := fw_version_of res, fw_reset_required := fw_reset_of res\<rparr>"

definition fw_finish_drive :: "time \<Rightarrow> string + string \<times> bool \<Rightarrow> drive \<Rightarrow> drive" where
  "fw_finish_drive now res d =
     (let d1 = (if d_activity d = UpdatingFirmware then d\<lparr>d_activity := Idle\<rparr> else d);
          d2 = (case fw_version_of res of
                  Some v \<Rightarrow> if fw_reset_of res then d1 else d1\<lparr>d_firmware := v\<rparr>
                | None \<Rightarrow> d1)
      in d2\<lparr>d_firmware_record := map_option (fw_finish_record now res) (d_firmware_record d2)\<rparr>)"

definition fw_event :: "drive \<Rightarrow> string \<Rightarrow> string + string \<times> bool \<Rightarrow> string" where
  "fw_event d name res =
     (case res of
        Inr (v, True) \<Rightarrow> d_name d @ '': image '' @ name @ '' committed; activates at next reset (running '' @ v @ '')''
      | Inr (v, False) \<Rightarrow> d_name d @ '': firmware '' @ d_firmware d @ '' '' @ utf8_arrow @ '' '' @ v @ '' ('' @ name @ '')''
      | Inl e \<Rightarrow> d_name d @ '': firmware update FAILED: '' @ e)"

section \<open>The chunks make the image\<close>

lemma pieces_simps [simp]:
  "pieces c off [] = []"
  "0 < c \<Longrightarrow> img \<noteq> [] \<Longrightarrow> pieces c off img = (off, take c img) # pieces c (off + c) (drop c img)"
  by (simp_all add: pieces.simps)

lemma pieces_induct [consumes 1, case_names Nil Step]:
  assumes "0 < c" "\<And>off. P off []" "\<And>off img. img \<noteq> [] \<Longrightarrow> P (off + c) (drop c img) \<Longrightarrow> P off img"
  shows "P off img"
proof (induction "length img" arbitrary: off img rule: less_induct)
  case less
  show ?case
  proof (cases "img = []")
    case False
    then have "length (drop c img) < length img" using assms(1) by simp
    then have "P (off + c) (drop c img)" by (rule less)
    then show ?thesis using assms(3) False by blast
  qed (simp add: assms(2))
qed

lemma pieces_within:
  assumes "0 < c" "(o', d) \<in> set (pieces c off img)"
  shows "off \<le> o' \<and> o' + length d \<le> off + length img \<and> d \<noteq> []"
  using assms
proof (induction rule: pieces_induct [of c _ off img])
  case (Step off img)
  show ?case
  proof (cases "(o', d) = (off, take c img)")
    case False
    then have "(o', d) \<in> set (pieces c (off + c) (drop c img))" using Step.prems Step.hyps assms(1) by auto
    moreover from this have "c < length img" by (cases "drop c img = []") (simp_all add: pieces.simps)
    ultimately show ?thesis using Step.IH by simp
  qed (use Step.hyps assms(1) in auto)
qed simp_all

lemma put_pieces:
  assumes "0 < c" "length buf = off + length img"
  shows "fold (\<lambda>(o', d). put o' d) (pieces c off img) buf = take off buf @ img"
  using assms
proof (induction arbitrary: buf rule: pieces_induct [of c _ off img])
  case (Step off img)
  let ?b = "put off (take c img) buf"
  show ?case
  proof (cases "c \<le> length img")
    case True
    then have l: "length ?b = off + c + length (drop c img)" using Step.prems by (simp add: put_def)
    have "take (off + c) ?b = take off buf @ take c img" using True Step.prems by (simp add: put_def)
    then show ?thesis using Step.IH [OF l] Step.hyps assms(1) by simp
  next
    case False
    then show ?thesis using Step.hyps Step.prems assms(1) by (simp add: put_def)
  qed
qed simp_all

section \<open>What a SCSI drive gets\<close>

text \<open>
  The commands it took; and the image in its buffer when it has taken the data of WRITE BUFFER modes 0x0E and
  0x07: as many bytes as the CDB says, each command's at the offset its CDB says.
\<close>

definition taken :: "wb_log \<Rightarrow> (u8 \<times> u32 \<times> bytes) list" where
  "taken lg = List.map_filter (\<lambda>(m, off, data, a). if a = None then Some (m, off, data) else None) lg"

definition cdb_offset :: "u8 \<Rightarrow> u32 \<Rightarrow> bytes \<Rightarrow> nat" where
  "cdb_offset mode off data = nat_of_be (slice 3 3 (cdb_write_buffer mode off (word_of_nat (length data))))"

definition cdb_data :: "u8 \<Rightarrow> u32 \<Rightarrow> bytes \<Rightarrow> bytes" where
  "cdb_data mode off data = take (nat_of_be (slice 6 3 (cdb_write_buffer mode off (word_of_nat (length data))))) data"

definition buffered :: "(u8 \<times> u32 \<times> bytes) list \<Rightarrow> bytes \<Rightarrow> bytes" where
  "buffered cmds buf =
     fold (\<lambda>(m, off, data). if m \<in> {0x0e, 0x07} then put (cdb_offset m off data) (cdb_data m off data) else id) cmds buf"

lemma taken_simps [simp]: "taken [] = []" "taken (lg @ lg') = taken lg @ taken lg'"
  by (simp_all add: taken_def List.map_filter_def)

lemma taken_one [simp]: "taken [(m, off, data, a)] = (if a = None then [(m, off, data)] else [])"
  by (simp add: taken_def List.map_filter_def)

lemma le_bytes_snoc: "le_bytes (Suc k) n = le_bytes k n @ [word_of_nat (n div 256 ^ k)]"
  by (induction k arbitrary: n) (simp_all add: div_mult2_eq word_unat_eq_iff unat_of_nat)

lemma cdb_offset_mod: "cdb_offset mode off data = unat off mod 2 ^ 24"
proof -
  have "drop 1 (word_be 4 off) = be_bytes 3 (unat off)"
    using le_bytes_snoc [of 3 "unat off"] by (simp add: word_be_def be_bytes_def)
  then have "slice 3 3 (cdb_write_buffer mode off l) = be_bytes 3 (unat off)" for l
    by (simp add: cdb_write_buffer_def slice_def be_bytes_def)
  then show ?thesis by (simp add: cdb_offset_def nat_of_be_bytes)
qed

lemma cdb_data_whole: "length data < 2 ^ 24 \<Longrightarrow> cdb_data mode off data = data"
proof -
  assume l: "length data < 2 ^ 24"
  have "drop 1 (word_be 4 (word_of_nat (length data) :: u32)) = be_bytes 3 (unat (word_of_nat (length data) :: u32))"
    using le_bytes_snoc [of 3 "unat (word_of_nat (length data) :: u32)"] by (simp add: word_be_def be_bytes_def)
  then have "slice 6 3 (cdb_write_buffer mode off (word_of_nat (length data))) = be_bytes 3 (length data)"
    using l by (simp add: cdb_write_buffer_def slice_def be_bytes_def unat_of_nat)
  with l show ?thesis by (simp add: cdb_data_def nat_of_be_bytes)
qed

lemma write_buffer_eq: "write_buffer dev m off data lg = (dev lg m off data, lg @ [(m, off, data, dev lg m off data)])"
  by (simp add: write_buffer_def Let_def)

definition asked :: "u8 \<Rightarrow> (nat \<times> bytes) list \<Rightarrow> (u8 \<times> u32 \<times> bytes) list" where
  "asked mode ps = map (\<lambda>(off, data). (mode, word_of_nat off, data)) ps"

lemma write_pieces_same:
  assumes "write_pieces dev ps mode r lg = (Inr mode', r', lg')" "mode \<noteq> 0x0e \<or> (\<forall>p \<in> set ps. fst p \<noteq> 0)"
  shows "mode' = mode \<and> taken lg' = taken lg @ asked mode ps"
  using assms
proof (induction ps arbitrary: r lg)
  case (Cons p ps)
  obtain off data where p: "p = (off, data)" by fastforce
  have "dev lg mode (word_of_nat off) data = None"
    using Cons.prems by (auto simp: p write_buffer_eq refuses_deferred_def split: option.splits if_splits)
  then have "write_pieces dev ps mode (fw_progress (off + length data) r) (lg @ [(mode, word_of_nat off, data, None)]) = (Inr mode', r', lg')"
    using Cons.prems(1) by (simp add: p write_buffer_eq)
  from Cons.IH [OF this] Cons.prems(2) show ?case by (auto simp: p asked_def)
qed (simp add: asked_def)

lemma write_pieces_taken:
  assumes "write_pieces dev ((0, data) # ps) 0x0e r [] = (Inr mode, r', lg)" "\<forall>p \<in> set ps. fst p \<noteq> 0"
  shows "mode \<in> {0x0e, 0x07} \<and> taken lg = asked mode ((0, data) # ps)"
proof (cases "dev [] 0x0e 0 data")
  case None
  then have "write_pieces dev ps 0x0e (fw_progress (length data) r) [(0x0e, 0, data, None)] = (Inr mode, r', lg)"
    using assms(1) by (simp add: write_buffer_eq)
  from write_pieces_same [OF this] show ?thesis using assms(2) by (simp add: asked_def)
next
  case (Some e)
  let ?r = "r\<lparr>fu_mode := ''offsets''\<rparr>" and ?lg = "[(0x0e, 0, data, Some e), (0x07, 0, data, None)]"
  have "write_pieces dev ps 0x07 (fw_progress (length data) ?r) ?lg = (Inr mode, r', lg)"
    using Some assms(1) by (auto simp: write_buffer_eq Let_def split: option.splits if_splits)
  from write_pieces_same [OF this] show ?thesis by (simp add: asked_def taken_def List.map_filter_def)
qed

lemma run_scsi_taken:
  assumes "run_scsi dev img kib r = (Some (Inr res), r', lg)" "img \<noteq> []"
    and "c = unat (chunk_len (kib * 1024) (case sf_boundary dev of Inr b \<Rightarrow> b | Inl _ \<Rightarrow> 0))" "0 < c"
  shows "\<exists>mode \<in> {0x0e, 0x07}. taken lg = asked mode (pieces c 0 img) @ (if mode = 0x0e then [(0x0f, 0, [])] else [])"
proof -
  obtain mode r1 lg1 where w: "write_pieces (sf_write dev) (pieces c 0 img) 0x0e (fw_phase ''download'' r) [] = (Inr mode, r1, lg1)"
    and lg: "mode = 0x0e \<longrightarrow> sf_write dev lg1 0x0f 0 [] = None" "lg = lg1 @ (if mode = 0x0e then [(0x0f, 0, [], None)] else [])"
    using assms(1) by (auto simp: run_scsi_def Let_def assms(3) write_buffer_eq split: option.splits sum.splits prod.splits if_splits)
  have first: "pieces c 0 img = (0, take c img) # pieces c c (drop c img)" using assms(2,4) by simp
  have "\<forall>p \<in> set (pieces c c (drop c img)). fst p \<noteq> 0" using pieces_within [OF assms(4)] assms(4) by fastforce
  with w show ?thesis unfolding first using lg(2) write_pieces_taken by (intro bexI [of _ mode]) fastforce+
qed

lemma buffered_asked:
  assumes "0 < c" "length img < 2 ^ 24" "length buf = length img" "mode \<in> {0x0e, 0x07}"
  shows "buffered (asked mode (pieces c 0 img)) buf = img"
proof -
  have off: "cdb_offset mode (word_of_nat o') d = o' \<and> cdb_data mode (word_of_nat o') d = d" if "(o', d) \<in> set (pieces c 0 img)" for o' d
  proof -
    from pieces_within [OF assms(1) that] have "o' + length d \<le> length img" "0 < length d" by simp_all
    then have "o' < 2 ^ 24" "length d < 2 ^ 24" using assms(2) by linarith+
    then show ?thesis by (simp add: cdb_offset_mod unat_of_nat cdb_data_whole)
  qed
  have "buffered (asked mode ps) buf = fold (\<lambda>(o', d). put o' d) ps buf" if "set ps \<subseteq> set (pieces c 0 img)" for ps buf
    using that assms(4) off by (induction ps arbitrary: buf) (auto simp: buffered_def asked_def)
  then show ?thesis using put_pieces [OF assms(1), of buf 0 img] assms(3) by simp
qed

lemma pieces_mem: "0 < c \<Longrightarrow> k * c < length img \<Longrightarrow> (off + k * c, take c (drop (k * c) img)) \<in> set (pieces c off img)"
proof (induction k arbitrary: off img)
  case (Suc k)
  then have "k * c < length (drop c img)" "img \<noteq> []" by auto
  with Suc.IH [OF Suc.prems(1), of "drop c img" "off + c"] Suc.prems(1) show ?case by (simp add: ac_simps)
qed (cases "img = []"; simp)

lemma wrapped_piece:
  assumes "0 < c" "2 ^ 24 < length img" "c dvd 2 ^ 24"
  shows "(mode, 2 ^ 24, slice (2 ^ 24) c img) \<in> set (asked mode (pieces c 0 img)) \<and> slice (2 ^ 24) c img \<noteq> []
    \<and> cdb_offset mode (2 ^ 24) (slice (2 ^ 24) c img) = 0"
proof -
  obtain k where k: "2 ^ 24 = k * c" using assms(3) by (metis dvd_def mult.commute)
  have "(2 ^ 24, slice (2 ^ 24) c img) \<in> set (pieces c 0 img)"
    using pieces_mem [OF assms(1), of k img 0] assms(2) unfolding k by (simp add: slice_def)
  then have "(mode, 2 ^ 24, slice (2 ^ 24) c img) \<in> set (asked mode (pieces c 0 img))"
    unfolding asked_def by (force simp: image_iff)
  moreover have "slice (2 ^ 24) c img \<noteq> []" using assms(1,2) by (simp add: slice_def)
  moreover have "cdb_offset mode (2 ^ 24) (slice (2 ^ 24) c img) = 0" by (simp add: cdb_offset_mod)
  ultimately show ?thesis by blast
qed


text \<open>A drive that takes everything, an image of three bytes and one of a byte over 16 MiB.\<close>

definition accepting :: scsi_fw where
  "accepting = \<lparr>sf_open = None, sf_boundary = Inr 0, sf_write = (\<lambda>_ _ _ _. None), sf_ready = [(0, None)], sf_after = Inr ''N004''\<rparr>"

lemma accepting_pieces: "\<exists>r' lg'. write_pieces (\<lambda>_ _ _ _. None) ps mode r lg = (Inr mode, r', lg')"
proof (induction ps arbitrary: r lg)
  case (Cons p ps)
  then show ?case by (cases p) (simp add: write_buffer_eq)
qed simp

lemma accepting_runs: "\<exists>r' lg. run_scsi accepting img kib r = (Some (Inr (''N004'', False)), r', lg)"
proof -
  obtain r1 lg1 where "write_pieces (\<lambda>_ _ _ _. None) (pieces (unat (chunk_len (kib * 1024) 0)) 0 img) 0x0e (fw_phase ''download'' r) []
      = (Inr 0x0e, r1, lg1)" using accepting_pieces by blast
  then show ?thesis by (simp add: run_scsi_def accepting_def Let_def write_buffer_eq)
qed

lemma chunk_32k: "unat (chunk_len (32 * 1024) (case sf_boundary accepting of Inr b \<Rightarrow> b | Inl _ \<Rightarrow> 0)) = 2 ^ 15"
  by (simp add: chunk_len_def accepting_def Let_def)


section \<open>What an NVMe drive gets\<close>

definition dwords_loaded :: "fw_log \<Rightarrow> bytes \<Rightarrow> bytes" where
  "dwords_loaded lg buf = fold (\<lambda>(c, a). put (4 * unat (fc_cdw11 c)) (fc_data c)) lg buf"

definition download_ok :: "fw_cmd \<times> fw_answer \<Rightarrow> bool" where
  "download_ok ca \<longleftrightarrow> fc_opcode (fst ca) = 0x11 \<and> snd ca = Inr 0 \<and> 4 * Suc (unat (fc_cdw10 (fst ca))) = length (fc_data (fst ca))"

lemma pad4_Nil [simp]: "pad4 [] = []"
  by (simp add: pad4_def)

lemma length_pad4: "4 dvd length (pad4 d)" "length d \<le> length (pad4 d)" "length (pad4 d) < length d + 4"
proof -
  have "4 dvd n + (4 - n mod 4) mod 4" for n :: nat
  proof -
    have "n mod 4 < 4" by simp
    then consider "n mod 4 = 0" | "n mod 4 = 1" | "n mod 4 = 2" | "n mod 4 = 3" by linarith
    then show ?thesis by cases (simp_all add: dvd_eq_mod_eq_0 mod_add_left_eq [symmetric, of n], presburger+)
  qed
  then show "4 dvd length (pad4 d)" by (simp add: pad4_def)
qed (simp_all add: pad4_def)

lemma pad4_aligned: "4 dvd length d \<Longrightarrow> pad4 d = d"
  by (simp add: pad4_def dvd_eq_mod_eq_0)

lemma pad4_drop:
  assumes "c \<le> length img" "4 dvd c"
  shows "drop c (pad4 img) = pad4 (drop c img)"
proof -
  obtain k where k: "c = 4 * k" using assms(2) by (rule dvdE)
  obtain n where n: "length img = c + n" using assms(1) by (metis le_add_diff_inverse)
  have "(length img - c) mod 4 = length img mod 4" unfolding n unfolding k by simp
  with assms(1) show ?thesis by (simp add: pad4_def)
qed

lemma pieces_padded:
  assumes "0 < c" "4 dvd c"
  shows "map (\<lambda>(o', d). (o', pad4 d)) (pieces c off img) = pieces c off (pad4 img)"
  using assms(1)
proof (induction rule: pieces_induct [of c _ off img])
  case (Step off img)
  have ne: "pad4 img \<noteq> []" using Step.hyps by (simp add: pad4_def)
  show ?case
  proof (cases "c \<le> length img")
    case True
    then have "pad4 (take c img) = take c (pad4 img)" using assms(2) pad4_aligned [of "take c img"] by (simp add: pad4_def)
    then show ?thesis using Step pad4_drop [OF True assms(2)] assms(1) ne by simp
  next
    case False
    obtain k where "c = 4 * k" using assms(2) by (rule dvdE)
    moreover obtain m where "length (pad4 img) = 4 * m" using length_pad4(1) by (rule dvdE)
    ultimately have "length (pad4 img) \<le> c" using False length_pad4(3) [of img] by simp
    then show ?thesis using Step.hyps False assms(1) ne by simp
  qed
qed simp_all

lemma pieces_aligned:
  assumes "0 < c" "4 dvd c" "4 dvd off" "(o', d) \<in> set (pieces c off img)"
  shows "4 dvd o'"
  using assms
proof (induction rule: pieces_induct [of c _ off img])
  case (Step off img)
  show ?case
  proof (cases "(o', d) = (off, take c img)")
    case False
    then have "(o', d) \<in> set (pieces c (off + c) (drop c img))" using Step.prems Step.hyps assms(1) by auto
    with Step.IH Step.prems show ?thesis by simp
  qed (use Step.prems in simp)
qed simp_all

lemma chunk_len_4096: "4 dvd unat (chunk_len c 4096)"
proof -
  have "4 dvd unat (word_of_nat n * 4096 :: u32)" for n
    by (simp add: unat_word_ariths unat_of_nat mod_mult_left_eq dvd_mod_iff)
  then show ?thesis by (simp add: chunk_len_def Let_def)
qed

lemma download_pieces_ok:
  assumes "download_pieces dev ps r lg = (Inr u, r', lg')" "\<forall>(off, data) \<in> set ps. 4 dvd off \<and> off < 2 ^ 34 \<and> data \<noteq> [] \<and> length data < 2 ^ 32"
  shows "\<exists>new. lg' = lg @ new \<and> list_all download_ok new
    \<and> (\<forall>buf. dwords_loaded new buf = fold (\<lambda>(o', d). put o' d) (map (\<lambda>(o', d). (o', pad4 d)) ps) buf)"
  using assms
proof (induction ps arbitrary: r lg)
  case (Cons p ps)
  obtain off data where p: "p = (off, data)" by fastforce
  let ?c = "\<lparr>fc_opcode = 0x11, fc_cdw10 = word_of_nat (length (pad4 data) div 4 - 1), fc_cdw11 = word_of_nat (off div 4), fc_data = pad4 data\<rparr>"
  have ok: "dev lg ?c = Inr 0" and rest: "download_pieces dev ps (fw_progress (off + length data) r) (lg @ [(?c, Inr 0)]) = (Inr u, r', lg')"
    using Cons.prems(1) by (auto simp: p fw_admin_def Let_def split: sum.splits if_splits)
  obtain new where new: "lg' = (lg @ [(?c, Inr 0)]) @ new" "list_all download_ok new"
    "\<forall>buf. dwords_loaded new buf = fold (\<lambda>(o', d). put o' d) (map (\<lambda>(o', d). (o', pad4 d)) ps) buf"
    using Cons.IH [OF rest] Cons.prems(2) by auto
  have off: "4 dvd off" "off < 2 ^ 34" "data \<noteq> []" "length data < 2 ^ 32" using Cons.prems(2) by (auto simp: p)
  obtain m where m: "length (pad4 data) = 4 * m" using length_pad4(1) by (rule dvdE)
  have "0 < m" using m length_pad4(2) [of data] off(3) by (cases m) simp_all
  then obtain k where k: "m = Suc k" by (cases m) simp_all
  have "k < 2 ^ 32" using m k length_pad4(3) [of data] off(4) by simp
  moreover have "length (pad4 data) div 4 - 1 = k" using m k by simp
  ultimately have "download_ok (?c, Inr 0)" using m k by (simp add: download_ok_def unat_of_nat)
  moreover have "4 * unat (word_of_nat (off div 4) :: u32) = off" using off(1,2) by (simp add: unat_of_nat less_mult_imp_div_less)
  ultimately show ?case using new by (intro exI [of _ "(?c, Inr 0) # new"]) (simp add: p dwords_loaded_def)
qed (simp add: dwords_loaded_def)

lemma commit_image_log:
  "commit_image dev lg = (res, lg') \<Longrightarrow> \<exists>new. lg' = lg @ new \<and> list_all (\<lambda>ca. fc_opcode (fst ca) = 0x10) new"
  by (auto simp: commit_image_def fw_admin_def Let_def split: sum.splits prod.splits)

text \<open>
  An NVMe update that ends well has sent the whole image before the first commit: every chunk was
  taken with its count of dwords, and put at their dword offsets the chunks are the image, filled up to
  a dword with zeros.
\<close>

lemma nvme_download_whole:
  assumes "run_nvme dev after firmware img kib r = (Inr res, r', lg)" "length img < 2 ^ 32"
    and "0 < unat (chunk_len (kib * 1024) 4096)"
  shows "\<exists>dl cm. lg = dl @ cm \<and> list_all download_ok dl \<and> list_all (\<lambda>ca. fc_opcode (fst ca) = 0x10) cm
    \<and> (\<forall>buf. length buf = length (pad4 img) \<longrightarrow> dwords_loaded dl buf = pad4 img)"
proof -
  let ?c = "unat (chunk_len (kib * 1024) 4096)"
  obtain u r1 lg1 res' where d: "download_pieces dev (pieces ?c 0 img) (fw_phase ''download'' (r\<lparr>fu_mode := ''nvme''\<rparr>)) [] = (Inr u, r1, lg1)"
    and cm: "commit_image dev lg1 = (res', lg)"
    using assms(1) by (auto simp: run_nvme_def Let_def split: sum.splits prod.splits)
  have "4 dvd o' \<and> o' < 2 ^ 34 \<and> data \<noteq> [] \<and> length data < 2 ^ 32" if "(o', data) \<in> set (pieces ?c 0 img)" for o' data
    using pieces_within [OF assms(3) that] pieces_aligned [OF assms(3) chunk_len_4096 _ that] assms(2) by auto
  then obtain dl where dl: "lg1 = dl" "list_all download_ok dl"
    "\<forall>buf. dwords_loaded dl buf = fold (\<lambda>(o', d). put o' d) (map (\<lambda>(o', d). (o', pad4 d)) (pieces ?c 0 img)) buf"
    using download_pieces_ok [OF d] by auto
  have "dwords_loaded dl buf = pad4 img" if "length buf = length (pad4 img)" for buf
    using dl(3) that put_pieces [OF assms(3), of buf 0 "pad4 img"] by (simp add: pieces_padded [OF assms(3) chunk_len_4096])
  then show ?thesis using dl commit_image_log [OF cm] by blast
qed

section \<open>When a drive that serves data is touched\<close>

lemma redundant_volumes:
  assumes "redundancy_blocker vols = None"
  shows "\<exists>vs. vols = Some vs \<and> (\<forall>v \<in> set vs. dv_rebuild v = ''none'' \<and> dv_state v = ''ok'' \<and> dv_health v \<in> {None, Some ''healthy''})"
proof -
  obtain vs where vs: "vols = Some vs" using assms by (cases vols) (simp_all add: redundancy_blocker_def)
  have "volume_doubts v = []" if "v \<in> set vs" for v
    using assms that unfolding vs redundancy_blocker_def
    by (auto simp: Let_def List.map_filter_def filter_empty_conv split: if_splits)
  then have "dv_rebuild v = ''none'' \<and> dv_state v = ''ok'' \<and> dv_health v \<in> {None, Some ''healthy''}" if "v \<in> set vs" for v
    using that by (fastforce simp: volume_doubts_def opt_filter_def split: if_splits option.splits)
  with vs show ?thesis by blast
qed

lemma wait_redundant_ok:
  "wait_redundant ls ph r = (Some (Inr u), r') \<Longrightarrow>
    \<exists>pre late vols post. ls = pre @ (late, vols) # post \<and> redundancy_blocker vols = None
      \<and> (\<forall>(l, v) \<in> set pre. \<not> l \<and> redundancy_blocker v \<noteq> None)"
proof (induction ls ph r rule: wait_redundant.induct)
  case (2 late vols ls ph r)
  show ?case
  proof (cases "redundancy_blocker vols")
    case None
    then show ?thesis by (intro exI [of _ "[]"]) auto
  next
    case (Some why)
    with 2(2) have "\<not> late" "wait_redundant ls ph (fw_phase (ph @ '': '' @ why) r) = (Some (Inr u), r')" by (auto split: if_splits)
    with 2(1) [OF Some] obtain pre l v post where "ls = pre @ (l, v) # post \<and> redundancy_blocker v = None
        \<and> (\<forall>(l, v) \<in> set pre. \<not> l \<and> redundancy_blocker v \<noteq> None)" by blast
    with Some \<open>\<not> late\<close> show ?thesis by (intro exI [of _ "(late, vols) # pre"]) auto
  qed
qed simp


definition demo_volume :: "string \<Rightarrow> drive_volume" where
  "demo_volume h = \<lparr>dv_id = ''v'', dv_name = ''db'', dv_kind = ''volume'', dv_consumer = None, dv_bytes = 1, dv_legs = 1,
     dv_shared_legs = 0, dv_state = ''ok'', dv_rebuild = ''none'', dv_policy = None, dv_health = Some h\<rparr>"

definition demo_env :: fw_env where
  "demo_env = \<lparr>fe_enabled = True, fe_chunk_kib = 32, fe_wait_mins = 30, fe_scsi = accepting, fe_nvme = (\<lambda>_ _. Inr 0), fe_after = None,
     fe_pre = [(False, Some [demo_volume ''degraded'']), (False, Some [demo_volume ''healthy''])],
     fe_post = [(True, Some [demo_volume ''healthy''])]\<rparr>"

definition data_drive :: drive where "data_drive = base_drive\<lparr>d_membership := Fleet\<rparr>"


text \<open>An image's name names a file of its directory.\<close>

lemma image_name_stays: "valid_image_name n \<Longrightarrow> CHR ''/'' \<notin> set n \<and> n \<noteq> ''.'' \<and> n \<noteq> ''..'' \<and> n \<noteq> []"
  by (auto simp: valid_image_name_def list_all_iff image_char_def Let_def)

end
