(* ===== verification/Spec2Isabelle.thy ===== *)
theory Spec2Isabelle
  imports Jobs Rounds Retry Policy Formats Fleet Erase Ses Firmware
begin

text \<open>
  \<^bold>\<open>stormdrive\<close>: the per-node daemon that finds a node's drives, watches their health and temperature,
  erases, formats, partitions and tests them, and gives them to the storage engine (stormblock).

  \<^bold>\<open>How the parts interact.\<close>
  The inventory (\<open>inventory.rs\<close>) is a table of drive records (\<open>drive.rs\<close>) behind one lock. The monitor
  (\<open>monitor.rs\<close>) writes it: a discovery pass merges what was found on the node, the poller (\<open>poller.rs\<close>)
  asks the drives that are due for a SMART sample (\<open>smart/\<close>), and a verdict and its damper turn samples into
  a health status. What a person, the fleet or a policy asks is checked against the record by a guard
  (\<open>drive.rs\<close>, \<open>inuse.rs\<close>, \<open>contents.rs\<close>) and runs as a job of the worker (\<open>worker.rs\<close>), whose steps erase
  (\<open>erase.rs\<close>), reformat (\<open>format.rs\<close>, \<open>pi.rs\<close>, over \<open>scsi.rs\<close>), partition (\<open>gpt.rs\<close>) and enroll. The fleet
  (\<open>fleet.rs\<close>) tells the engine about the drives that are its members and drains those that leave; a policy
  (\<open>policy.rs\<close>) makes slabs of free drives; the thermal watch (\<open>thermal.rs\<close>) and the event log (\<open>events.rs\<close>)
  report; shelves are read and controlled through their enclosure processors (\<open>ses.rs\<close>, \<open>topology.rs\<close>).
  Calls over the network run under the retry library (\<open>retry/src/lib.rs\<close>).

  \<^bold>\<open>How the code is represented.\<close>
  A struct is a record whose fields carry a short prefix, an enum a datatype, a \<open>uN\<close> a word where its wrap or
  its bits matter and a bounded natural number otherwise, an \<open>f64\<close> an exact binary64 (\<open>F64\<close>), a \<open>String\<close>
  its UTF-8 bytes as a char list, a \<open>BTreeMap\<close> a sorted association list (\<open>btree\<close>), a \<open>Result\<close> a sum whose
  left side is the error, a \<open>Duration\<close> its nanoseconds. What a device answers is a function argument (or a
  record of functions) that no law constrains unless a theorem states one; what is sent to it is a log. The
  clock is an argument. A lock is one step of the state; where tasks interleave, the tasks are a step relation.

  \<^bold>\<open>The theories.\<close>
  \<^item> Libraries. \<open>Prelude\<close>: text, options, \<open>BTreeMap\<close> (locale \<open>ordered_map\<close>, interpreted on its own
    operations), the named collections. \<open>Bytes\<close>: byte order, slices, bits. \<open>Utf\<close>, \<open>Lossy\<close>: UTF-16 and lossy
    UTF-8. \<open>F64\<close>: binary64 with its rounding. \<open>Json\<close>: serde's values.
  \<^item> \<open>Gpt\<close> (\<open>gpt.rs\<close>): the bytes of both tables with their CRCs. \<open>Contents\<close> (\<open>contents.rs\<close>): the probe of
    what is on a disk. \<open>Partition\<close> (\<open>write_layout\<close> of \<open>worker.rs\<close>): the step on a disk; its writer is stated
    over locale \<open>layout_target\<close>, interpreted on the disk with its size and its failing calls.
  \<^item> \<open>Smart\<close> (\<open>smart/\<close>): SAS log pages, ATA attributes, the NVMe page and the collector. \<open>Pi\<close> (\<open>pi.rs\<close>):
    geometry and the plan of a format. \<open>Scsi\<close> (\<open>scsi.rs\<close>): CDBs, lists, sense data, the outcome of a command.
  \<^item> \<open>Events\<close> (\<open>events.rs\<close>): the ring and its readers. \<open>Thermal\<close> (\<open>thermal.rs\<close>): limits, damped levels,
    trips and actions.
  \<^item> \<open>Drives\<close>, \<open>Guards\<close> (\<open>drive.rs\<close>, \<open>inuse.rs\<close>): the record and the guards. Locale \<open>destroys\<close> is the law of
    a guard before data is destroyed; it is interpreted on the reformat, the destructive test and (\<open>Worker\<close>)
    the guard of a job. \<open>Usage\<close> (\<open>usage.rs\<close>) and \<open>Engine\<close> (\<open>engine.rs\<close>): what the engine says of a drive.
  \<^item> \<open>Wear\<close> (\<open>wear.rs\<close>), \<open>Inventory\<close> (\<open>inventory.rs\<close>): trends, the table, the state file over a file system
    that may crash at any call. The file system is a model of the operating system's and the codec is
    serde's: it reads back what it wrote but for the two fields it skips (\<open>same_saved\<close>).
  \<^item> \<open>Merge\<close>, \<open>Health\<close>, \<open>Monitor\<close>, \<open>Rounds\<close> (\<open>monitor.rs\<close>) and \<open>Poller\<close> (\<open>poller.rs\<close>): the discovery pass;
    the verdict and its damper; what is written after a read; the two tasks as one transition system, whose
    passes over the drives are the interpretations of locale \<open>drive_pass\<close>; the schedule and the sampler with
    its timeouts, late answers and panics.
  \<^item> \<open>Worker\<close>, \<open>Jobs\<close> (\<open>worker.rs\<close>): steps, selection, guard and lanes; jobs submitted, cancelled, resumed,
    kept and recovered, and the task of each drive as a step relation: the handlers of the requests, which
    spawn the tasks after they have saved, a handler that is dropped, the panic that poisons the lock of
    the jobs, and restarts are steps of it.
  \<^item> \<open>Formats\<close> (\<open>format.rs\<close>), \<open>Erase\<close> (\<open>erase.rs\<close> and the erase steps of \<open>worker.rs\<close>): the command
    sequences with their error paths, against a device that may answer anything. \<open>Firmware\<close> (\<open>firmware.rs\<close>):
    the same of the downloads of an image over SCSI and NVMe, behind the redundancy gate.
  \<^item> \<open>Fleet\<close> (\<open>fleet.rs\<close>, the drain status of \<open>stormblock.rs\<close>; its tick from the health report, which asks
    for drains and drops them, to the retry of pending ones), \<open>Policy\<close> (\<open>policy.rs\<close>), \<open>Retry\<close>
    (\<open>retry/src/lib.rs\<close>).
  \<^item> \<open>Topology\<close> (\<open>topology.rs\<close>), \<open>Ses\<close> (\<open>ses.rs\<close>): what a path says of a drive's place; the diagnostic
    pages, the report of a shelf and the control pages sent to it.

  \<^bold>\<open>What is shown.\<close>
  Safety of the destructive operations: the requests let through no drive that is used (\<open>Guards\<close>), a job only
  one that its requester named as such (\<open>Worker\<close>) and a policy's job none (\<open>Policy\<close>), a format sends only what was asked and counts as done only when read back (\<open>Formats\<close>), a security
  erase leaves no password that is not on disk (\<open>Erase\<close>), a control page touches only its bay (\<open>Ses\<close>), a
  drive leaves the fleet only when empty (\<open>Fleet\<close>), firmware goes to a drive that serves data only while its
  volumes are redundant (\<open>Firmware\<close>), a write is not repeated (\<open>Retry\<close>). Invariants of the
  reachable states: the worker (\<open>Jobs\<close>), the monitor (\<open>Rounds\<close>), the sampler (\<open>Poller\<close>), the merged table
  (\<open>Merge\<close>), the event log (\<open>Events\<close>, a refinement of the full history). Equivalence of the verdict with the
  table of its signs (\<open>Health\<close>), round trips of what is written and read back (\<open>Partition\<close>, \<open>Scsi\<close>, \<open>Firmware\<close>),
  bounds (\<open>Gpt\<close>, \<open>Thermal\<close>, \<open>Wear\<close>), termination and progress (\<open>Retry\<close>, \<open>Formats\<close>, \<open>Poller\<close>, \<open>Fleet\<close>),
  and the error behaviour that differs from what the code means to do, each with a concrete run that has it.

  \<^bold>\<open>Bounds and termination.\<close>
  There is no fuel: loops over pages recurse on what is left of the page (\<open>read_additional\<close>,
  \<open>sense_descriptors\<close>), the retry loop on the tries left, and a loop that waits on a device takes the list
  of the polls it makes, at the code's interval, and ends at its deadline (48 hours for a format), which is
  proved (\<open>format_ends\<close>; the loop that watches after a restart polls once before its first sleep). The chunks
  of an image (\<open>pieces\<close>) shrink it. Only the bounds of the code appear: 64 kept jobs, the ring's capacity, the permits
  of a lane, \<open>Duration\<close>'s maximum.

  \<^bold>\<open>Not modelled.\<close>
  The reads of /sys, the ioctls and the HTTP calls themselves, whose answers are arguments; serde's encoding of
  the records; the API server, the Kubernetes controller and client and the metrics, which route and render
  what the components decide; TLS, assets and the command line. PROJECT.json lists every part with its status.
\<close>

end
